(* ===== verification/Prelude.thy ===== *)
theory Prelude
  imports Main "HOL-Library.Sublist" "HOL-Library.List_Lexorder" "HOL-Library.Char_ord"
    "HOL-Library.Word" "HOL-Library.Signed_Division"
begin

text \<open>
  Shared vocabulary of the development.

  A Rust \<open>&str\<close> or \<open>String\<close> is a \<open>string\<close>, that is a list of HOL characters, one
  character per UTF-8 byte, so that \<open>length\<close> is Rust's \<open>len()\<close> and slicing by byte index
  is \<open>take\<close> and \<open>drop\<close>. The standard-library string operations the source uses are
  written out here with the behaviour the Rust documentation gives them
  (\<open>trim\<close> strips every code point with the Unicode property White\_Space,
  \<open>parse::<uN>()\<close> accepts one leading plus sign and rejects overflow, and so on).

  A fallible operation returns \<open>'e + 'a\<close>: \<open>Inl\<close> is Rust's \<open>Err\<close>, \<open>Inr\<close> its \<open>Ok\<close>.
\<close>

named_theorems str_simps \<open>characterisations of the string operations\<close>
named_theorems inv_intros \<open>preservation of the components' invariants\<close>

section \<open>Results\<close>

type_synonym ('e, 'a) result = "'e + 'a"

fun is_ok :: "('e, 'a) result \<Rightarrow> bool" where
  "is_ok (Inl e) = False"
| "is_ok (Inr x) = True"

fun res_bind :: "('e, 'a) result \<Rightarrow> ('a \<Rightarrow> ('e, 'b) result) \<Rightarrow> ('e, 'b) result" where
  "res_bind (Inl e) f = Inl e"
| "res_bind (Inr x) f = f x"

fun ok_or :: "'e \<Rightarrow> 'a option \<Rightarrow> ('e, 'a) result" where
  "ok_or e None = Inl e"
| "ok_or e (Some x) = Inr x"

fun ok_opt :: "('e, 'a) result \<Rightarrow> 'a option" where
  "ok_opt (Inl e) = None"
| "ok_opt (Inr x) = Some x"

text \<open>\<open>for x in xs { f(x)?; }\<close>: the first error stops the loop.\<close>

fun check_all :: "('a \<Rightarrow> ('e, unit) result) \<Rightarrow> 'a list \<Rightarrow> ('e, unit) result" where
  "check_all f [] = Inr ()"
| "check_all f (x # xs) = (case f x of Inl e \<Rightarrow> Inl e | Inr _ \<Rightarrow> check_all f xs)"

text \<open>\<open>iter().map(f).collect::<Result<Vec<_>, _>>()\<close>.\<close>

fun map_res :: "('a \<Rightarrow> ('e, 'b) result) \<Rightarrow> 'a list \<Rightarrow> ('e, 'b list) result" where
  "map_res f [] = Inr []"
| "map_res f (x # xs) = (case f x of Inl e \<Rightarrow> Inl e | Inr y \<Rightarrow>
     (case map_res f xs of Inl e \<Rightarrow> Inl e | Inr ys \<Rightarrow> Inr (y # ys)))"

text \<open>\<open>if cond { return Err(e) }\<close> as a step of a validation.\<close>

definition require :: "bool \<Rightarrow> 'e \<Rightarrow> ('e, unit) result" where
  "require b e = (if b then Inr () else Inl e)"

text \<open>\<open>Option::or_else\<close> over a ladder of candidates: the first \<open>Some\<close>.\<close>

fun first_some :: "'a option list \<Rightarrow> 'a option" where
  "first_some [] = None"
| "first_some (None # xs) = first_some xs"
| "first_some (Some x # xs) = Some x"

text \<open>\<open>iter().find_map(f)\<close>.\<close>

fun find_map :: "('a \<Rightarrow> 'b option) \<Rightarrow> 'a list \<Rightarrow> 'b option" where
  "find_map f [] = None"
| "find_map f (x # xs) = (case f x of None \<Rightarrow> find_map f xs | Some y \<Rightarrow> Some y)"

lemma is_ok_iff: "is_ok r \<longleftrightarrow> (\<exists>x. r = Inr x)"
  by (cases r) auto

lemma ok_or_Inr [simp]: "ok_or e x = Inr y \<longleftrightarrow> x = Some y"
  by (cases x) auto

lemma check_all_ok [simp]: "check_all f xs = Inr () \<longleftrightarrow> (\<forall>x\<in>set xs. f x = Inr ())"
  by (induction xs) (auto split: sum.splits)

lemma check_all_err: "check_all f xs = Inl e \<Longrightarrow> \<exists>x\<in>set xs. f x = Inl e"
  by (induction xs) (auto split: sum.splits)

lemma require_ok [simp]: "require b e = Inr u \<longleftrightarrow> b"
  by (simp add: require_def)

lemma require_err [simp]: "require b e = Inl e' \<longleftrightarrow> \<not> b \<and> e' = e"
  by (auto simp: require_def)

lemma res_bind_ok [simp]: "res_bind r f = Inr y \<longleftrightarrow> (\<exists>x. r = Inr x \<and> f x = Inr y)"
  by (cases r) auto

lemma map_res_ok: "map_res f xs = Inr ys \<longleftrightarrow>
    length ys = length xs \<and> (\<forall>i < length xs. f (xs ! i) = Inr (ys ! i))"
proof (induction xs arbitrary: ys)
  case Nil
  then show ?case by auto
next
  case (Cons x xs)
  have "map_res f (x # xs) = Inr ys \<longleftrightarrow> (\<exists>y ys'. ys = y # ys' \<and> f x = Inr y \<and> map_res f xs = Inr ys')"
    by (auto split: sum.splits)
  also have "\<dots> \<longleftrightarrow> length ys = length (x # xs) \<and> (\<forall>i < length (x # xs). f ((x # xs) ! i) = Inr (ys ! i))"
    by (cases ys) (auto simp: Cons.IH All_less_Suc2)
  finally show ?case .
qed

lemma first_some_None [simp]: "first_some xs = None \<longleftrightarrow> (\<forall>x\<in>set xs. x = None)"
  by (induction xs rule: first_some.induct) auto

lemma first_some_Some: "first_some xs = Some y \<Longrightarrow> Some y \<in> set xs"
  by (induction xs rule: first_some.induct) auto

lemma find_map_None [simp]: "find_map f xs = None \<longleftrightarrow> (\<forall>x\<in>set xs. f x = None)"
  by (induction xs) (auto split: option.splits)

lemma find_map_Some: "find_map f xs = Some y \<Longrightarrow> \<exists>x\<in>set xs. f x = Some y"
  by (induction xs) (auto split: option.splits)

section \<open>Characters\<close>

abbreviation byte :: "char \<Rightarrow> nat" where
  "byte c \<equiv> of_char c"

definition is_digit :: "char \<Rightarrow> bool" where
  "is_digit c \<longleftrightarrow> 48 \<le> byte c \<and> byte c \<le> 57"

definition is_upper :: "char \<Rightarrow> bool" where
  "is_upper c \<longleftrightarrow> 65 \<le> byte c \<and> byte c \<le> 90"

definition is_lower :: "char \<Rightarrow> bool" where
  "is_lower c \<longleftrightarrow> 97 \<le> byte c \<and> byte c \<le> 122"

definition is_alpha :: "char \<Rightarrow> bool" where
  "is_alpha c \<longleftrightarrow> is_upper c \<or> is_lower c"

definition is_alnum :: "char \<Rightarrow> bool" where
  "is_alnum c \<longleftrightarrow> is_alpha c \<or> is_digit c"

definition is_hexdigit :: "char \<Rightarrow> bool" where
  "is_hexdigit c \<longleftrightarrow> is_digit c \<or> (65 \<le> byte c \<and> byte c \<le> 70) \<or> (97 \<le> byte c \<and> byte c \<le> 102)"

text \<open>\<open>u8::is_ascii_graphic\<close>: \<open>0x21..=0x7e\<close>.\<close>

definition is_graphic :: "char \<Rightarrow> bool" where
  "is_graphic c \<longleftrightarrow> 33 \<le> byte c \<and> byte c \<le> 126"

text \<open>The ASCII members of White\_Space: tab to carriage return, and space.\<close>

definition is_ascii_ws :: "char \<Rightarrow> bool" where
  "is_ascii_ws c \<longleftrightarrow> (9 \<le> byte c \<and> byte c \<le> 13) \<or> byte c = 32"

text \<open>\<open>to_ascii_lowercase\<close> and \<open>eq_ignore_ascii_case\<close>.\<close>

definition lower_char :: "char \<Rightarrow> char" where
  "lower_char c = (if is_upper c then char_of (byte c + 32) else c)"

definition lowercase :: "string \<Rightarrow> string" where
  "lowercase s = List.map lower_char s"

definition eq_nocase :: "string \<Rightarrow> string \<Rightarrow> bool" where
  "eq_nocase s t \<longleftrightarrow> lowercase s = lowercase t"

lemma byte_char_of [simp]: "n < 256 \<Longrightarrow> byte (char_of (n :: nat)) = n"
  by (simp add: of_char_of)

lemma byte_lt: "byte c < 256"
  by (rule nat_of_char_less_256)

lemma byte_inject: "byte c = byte d \<Longrightarrow> c = d"
  by simp

lemma byte_lower_char: "byte (lower_char c) = (if is_upper c then byte c + 32 else byte c)"
  by (auto simp: lower_char_def is_upper_def)

lemma lower_char_fix: "\<not> is_upper c \<Longrightarrow> lower_char c = c"
  by (simp add: lower_char_def)

lemma not_upper_lower_char [simp]: "\<not> is_upper (lower_char c)"
  by (auto simp: is_upper_def byte_lower_char)

lemma lower_char_idem [simp]: "lower_char (lower_char c) = lower_char c"
  by (simp add: lower_char_fix)

lemma lowercase_Nil [simp]: "lowercase [] = []"
  by (simp add: lowercase_def)

lemma lowercase_Cons [simp]: "lowercase (c # s) = lower_char c # lowercase s"
  by (simp add: lowercase_def)

lemma lowercase_append [simp]: "lowercase (s @ t) = lowercase s @ lowercase t"
  by (simp add: lowercase_def)

lemma lowercase_idem [simp]: "lowercase (lowercase s) = lowercase s"
  by (simp add: lowercase_def)

lemma length_lowercase [simp]: "length (lowercase s) = length s"
  by (simp add: lowercase_def)

lemma lowercase_eq_Nil [simp]: "lowercase s = [] \<longleftrightarrow> s = []"
  by (simp add: lowercase_def)

lemma lowercase_fix: "\<forall>c\<in>set s. \<not> is_upper c \<Longrightarrow> lowercase s = s"
  by (induction s) (auto simp: lower_char_fix)

lemma lower_char_eq_nonalpha:
  assumes "\<not> is_alpha d"
  shows "lower_char c = d \<longleftrightarrow> c = d"
proof
  assume eq: "lower_char c = d"
  have "\<not> is_upper c"
  proof
    assume up: "is_upper c"
    then have "byte d = byte c + 32"
      using eq by (auto simp: byte_lower_char)
    then show False
      using up assms by (auto simp: is_alpha_def is_lower_def is_upper_def)
  qed
  then show "c = d"
    using eq by (simp add: lower_char_fix)
next
  assume "c = d"
  then show "lower_char c = d"
    using assms by (simp add: lower_char_fix is_alpha_def)
qed


section \<open>String operations\<close>

text \<open>\<open>strip_prefix\<close> and \<open>strip_suffix\<close> with a string argument.\<close>

fun strip_prefix :: "string \<Rightarrow> string \<Rightarrow> string option" where
  "strip_prefix [] s = Some s"
| "strip_prefix (p # ps) [] = None"
| "strip_prefix (p # ps) (c # s) = (if p = c then strip_prefix ps s else None)"

definition strip_suffix :: "string \<Rightarrow> string \<Rightarrow> string option" where
  "strip_suffix p s = map_option rev (strip_prefix (rev p) (rev s))"

definition starts_with :: "string \<Rightarrow> string \<Rightarrow> bool" where
  "starts_with p s \<longleftrightarrow> strip_prefix p s \<noteq> None"

definition ends_with :: "string \<Rightarrow> string \<Rightarrow> bool" where
  "ends_with p s \<longleftrightarrow> strip_suffix p s \<noteq> None"

text \<open>\<open>split_once(c)\<close>, \<open>rsplit_once(c)\<close> and \<open>split(c)\<close> with a one-byte delimiter.\<close>

fun split_once :: "char \<Rightarrow> string \<Rightarrow> (string \<times> string) option" where
  "split_once d [] = None"
| "split_once d (c # s) = (if c = d then Some ([], s)
     else (case split_once d s of None \<Rightarrow> None | Some (a, b) \<Rightarrow> Some (c # a, b)))"

definition rsplit_once :: "char \<Rightarrow> string \<Rightarrow> (string \<times> string) option" where
  "rsplit_once d s = (case split_once d (rev s) of None \<Rightarrow> None
     | Some (a, b) \<Rightarrow> Some (rev b, rev a))"

fun split_char :: "char \<Rightarrow> string \<Rightarrow> string list" where
  "split_char d [] = [[]]"
| "split_char d (c # s) = (if c = d then [] # split_char d s
     else (case split_char d s of [] \<Rightarrow> [[c]] | w # ws \<Rightarrow> (c # w) # ws))"

text \<open>\<open>split_once\<close> with a longer delimiter; the leftmost occurrence is taken.\<close>

fun split_once_str :: "string \<Rightarrow> string \<Rightarrow> (string \<times> string) option" where
  "split_once_str d [] = (if d = [] then Some ([], []) else None)"
| "split_once_str d (c # s) = (case strip_prefix d (c # s) of Some r \<Rightarrow> Some ([], r)
     | None \<Rightarrow> (case split_once_str d s of None \<Rightarrow> None | Some (a, b) \<Rightarrow> Some (c # a, b)))"

definition contains_str :: "string \<Rightarrow> string \<Rightarrow> bool" where
  "contains_str d s \<longleftrightarrow> split_once_str d s \<noteq> None"

text \<open>\<open>join\<close>.\<close>

fun join :: "string \<Rightarrow> string list \<Rightarrow> string" where
  "join sep [] = []"
| "join sep [w] = w"
| "join sep (w # v # ws) = w @ sep @ join sep (v # ws)"

text \<open>\<open>trim_start_matches(c)\<close> and \<open>trim_end_matches(c)\<close>.\<close>

definition trim_end_char :: "char \<Rightarrow> string \<Rightarrow> string" where
  "trim_end_char d s = rev (dropWhile (\<lambda>c. c = d) (rev s))"

text \<open>\<open>trim\<close>: the byte lengths of the White\_Space code points in UTF-8, at the front
  of a string and (given reversed) at its end.\<close>

definition ws2 :: "char \<Rightarrow> char \<Rightarrow> bool" where
  "ws2 a b \<longleftrightarrow> byte a = 194 \<and> byte b \<in> {133, 160}"

definition ws3 :: "char \<Rightarrow> char \<Rightarrow> char \<Rightarrow> bool" where
  "ws3 a b c \<longleftrightarrow>
     (byte a, byte b, byte c) \<in> {(225, 154, 128), (226, 129, 159), (227, 128, 128)}
   \<or> (byte a = 226 \<and> byte b = 128 \<and> (byte c \<in> {168, 169, 175} \<or> (128 \<le> byte c \<and> byte c \<le> 138)))"

fun ws_front :: "string \<Rightarrow> nat" where
  "ws_front (a # b # c # s) = (if is_ascii_ws a then 1 else if ws2 a b then 2 else if ws3 a b c then 3 else 0)"
| "ws_front [a, b] = (if is_ascii_ws a then 1 else if ws2 a b then 2 else 0)"
| "ws_front [a] = (if is_ascii_ws a then 1 else 0)"
| "ws_front [] = 0"

fun ws_back :: "string \<Rightarrow> nat" where
  "ws_back (a # b # c # s) = (if is_ascii_ws a then 1 else if ws2 b a then 2 else if ws3 c b a then 3 else 0)"
| "ws_back [a, b] = (if is_ascii_ws a then 1 else if ws2 b a then 2 else 0)"
| "ws_back [a] = (if is_ascii_ws a then 1 else 0)"
| "ws_back [] = 0"

lemma ws_front_le: "ws_front s \<le> length s"
  by (induction s rule: ws_front.induct) simp_all

lemma ws_back_le: "ws_back s \<le> length s"
  by (induction s rule: ws_back.induct) simp_all

function trim_start :: "string \<Rightarrow> string" where
  "trim_start s = (if ws_front s = 0 then s else trim_start (drop (ws_front s) s))"
  by pat_completeness auto
termination
proof (relation "measure length")
  fix s assume "ws_front s \<noteq> 0"
  then show "(drop (ws_front s) s, s) \<in> measure length"
    using ws_front_le [of s] by (cases s) simp_all
qed simp

function trim_back :: "string \<Rightarrow> string" where
  "trim_back s = (if ws_back s = 0 then s else trim_back (drop (ws_back s) s))"
  by pat_completeness auto
termination
proof (relation "measure length")
  fix s assume "ws_back s \<noteq> 0"
  then show "(drop (ws_back s) s, s) \<in> measure length"
    using ws_back_le [of s] by (cases s) simp_all
qed simp

declare trim_start.simps [simp del] trim_back.simps [simp del]

definition trim_end :: "string \<Rightarrow> string" where
  "trim_end s = rev (trim_back (rev s))"

definition trim :: "string \<Rightarrow> string" where
  "trim s = trim_end (trim_start s)"

subsection \<open>Their characterisations\<close>

lemma strip_prefix_Some [str_simps]: "strip_prefix p s = Some r \<longleftrightarrow> s = p @ r"
  by (induction p s rule: strip_prefix.induct) auto

lemma strip_prefix_append [simp]: "strip_prefix p (p @ r) = Some r"
  by (simp add: strip_prefix_Some)

lemma strip_prefix_None: "strip_prefix p s = None \<longleftrightarrow> \<not> prefix p s"
  by (metis not_Some_eq prefix_def strip_prefix_Some)

lemma strip_suffix_Some [str_simps]: "strip_suffix p s = Some r \<longleftrightarrow> s = r @ p"
proof -
  have "strip_suffix p s = Some r \<longleftrightarrow> strip_prefix (rev p) (rev s) = Some (rev r)"
    by (auto simp: strip_suffix_def map_option_case split: option.splits)
  also have "\<dots> \<longleftrightarrow> rev s = rev p @ rev r"
    by (simp add: strip_prefix_Some)
  also have "\<dots> \<longleftrightarrow> s = r @ p"
    by (metis rev_append rev_rev_ident)
  finally show ?thesis .
qed

lemma strip_suffix_append [simp]: "strip_suffix p (r @ p) = Some r"
  by (simp add: strip_suffix_Some)

lemma strip_suffix_append_Cons [simp]: "strip_suffix p (r @ c # p) = Some (r @ [c])"
  by (simp add: strip_suffix_Some)

lemma ends_with_iff [str_simps]: "ends_with p s \<longleftrightarrow> (\<exists>r. s = r @ p)"
  by (metis ends_with_def not_Some_eq strip_suffix_Some)

lemma starts_with_iff [str_simps]: "starts_with p s \<longleftrightarrow> (\<exists>r. s = p @ r)"
  by (metis starts_with_def not_Some_eq strip_prefix_Some)

lemma split_once_None: "split_once d s = None \<longleftrightarrow> d \<notin> set s"
  by (induction s) (auto split: option.splits)

lemma split_once_nodelim [simp]: "d \<notin> set s \<Longrightarrow> split_once d s = None"
  by (simp add: split_once_None)

lemma split_once_Some [str_simps]: "split_once d s = Some (a, b) \<longleftrightarrow> s = a @ d # b \<and> d \<notin> set a"
proof (induction s arbitrary: a)
  case Nil
  then show ?case by simp
next
  case (Cons c s)
  show ?case
  proof (cases "c = d")
    case True
    then show ?thesis by (cases a) auto
  next
    case False
    have "split_once d (c # s) = Some (a, b) \<longleftrightarrow> (\<exists>a'. a = c # a' \<and> split_once d s = Some (a', b))"
      using False by (auto split: option.splits)
    also have "\<dots> \<longleftrightarrow> c # s = a @ d # b \<and> d \<notin> set a"
      using False by (cases a) (auto simp: Cons.IH)
    finally show ?thesis .
  qed
qed

lemma split_once_app [simp]: "d \<notin> set a \<Longrightarrow> split_once d (a @ d # b) = Some (a, b)"
  by (simp add: split_once_Some)

lemma cut_eq:
  fixes d :: char
  assumes "d \<notin> set a" "d \<notin> set b"
  shows "a @ d # x = b @ d # y \<longleftrightarrow> a = b \<and> x = y"
proof
  assume "a @ d # x = b @ d # y"
  then have "split_once d (a @ d # x) = split_once d (b @ d # y)" by simp
  then show "a = b \<and> x = y" using assms by simp
qed simp

lemma rsplit_once_Some [str_simps]:
  "rsplit_once d s = Some (a, b) \<longleftrightarrow> s = a @ d # b \<and> d \<notin> set b"
proof -
  have "rsplit_once d s = Some (a, b) \<longleftrightarrow> split_once d (rev s) = Some (rev b, rev a)"
    by (auto simp: rsplit_once_def split: option.splits)
  also have "\<dots> \<longleftrightarrow> rev s = rev b @ d # rev a \<and> d \<notin> set b"
    by (simp add: split_once_Some)
  also have "rev s = rev b @ d # rev a \<longleftrightarrow> s = a @ d # b"
    by (metis append.assoc append_Cons append_Nil rev.simps(2) rev_append rev_rev_ident)
  finally show ?thesis .
qed

lemma rsplit_once_None: "rsplit_once d s = None \<longleftrightarrow> d \<notin> set s"
proof -
  have "rsplit_once d s = None \<longleftrightarrow> split_once d (rev s) = None"
    by (auto simp: rsplit_once_def split: option.splits)
  then show ?thesis by (simp add: split_once_None)
qed

lemma rsplit_once_nodelim [simp]: "d \<notin> set s \<Longrightarrow> rsplit_once d s = None"
  by (simp add: rsplit_once_None)

lemma split_char_nonempty [simp]: "split_char d s \<noteq> []"
  by (induction s) (auto split: list.splits)

lemma split_char_nodelim: "d \<notin> set s \<Longrightarrow> split_char d s = [s]"
  by (induction s) auto

lemma split_char_app: "d \<notin> set a \<Longrightarrow> split_char d (a @ d # b) = a # split_char d b"
  by (induction a) auto

lemma split_char_append: "split_char d (a @ d # b) = split_char d a @ split_char d b"
proof (induction a)
  case Nil
  then show ?case by simp
next
  case (Cons c a)
  obtain v vs where "split_char d a = v # vs"
    by (metis neq_Nil_conv split_char_nonempty)
  then show ?case using Cons.IH by simp
qed

lemma split_once_str_Some: "split_once_str d s = Some (a, b) \<Longrightarrow> s = a @ d @ b"
  by (induction d s arbitrary: a rule: split_once_str.induct)
    (auto simp: strip_prefix_Some split: option.splits if_splits)

lemma split_once_str_None: "split_once_str d s = None \<Longrightarrow> s \<noteq> a @ d @ b"
proof (induction d s arbitrary: a rule: split_once_str.induct)
  case (1 d)
  then show ?case by (auto split: if_splits)
next
  case (2 d c s)
  then show ?case by (cases a) (auto split: option.splits)
qed

lemma contains_str_iff [str_simps]: "contains_str d s \<longleftrightarrow> (\<exists>a b. s = a @ d @ b)"
  using split_once_str_None [of d s] split_once_str_Some [of d s]
  by (cases "split_once_str d s") (auto simp: contains_str_def)

lemma hd_split_char: "hd (split_char d s) = takeWhile (\<lambda>c. c \<noteq> d) s"
  by (induction s) (auto split: list.splits)

lemma split_char_parts: "w \<in> set (split_char d s) \<Longrightarrow> d \<notin> set w \<and> set w \<subseteq> set s"
proof (induction s arbitrary: w)
  case Nil
  then show ?case by simp
next
  case (Cons c s)
  obtain v vs where v: "split_char d s = v # vs"
    by (metis neq_Nil_conv split_char_nonempty)
  have "\<forall>x\<in>set (v # vs). d \<notin> set x \<and> set x \<subseteq> set s"
    using Cons.IH v by auto
  then show ?case
    using Cons.prems v by (auto split: if_splits)
qed

lemma join_split_char: "join [d] (split_char d s) = s"
proof (induction s)
  case Nil
  then show ?case by simp
next
  case (Cons c s)
  obtain v vs where v: "split_char d s = v # vs"
    by (metis neq_Nil_conv split_char_nonempty)
  show ?case
    using Cons.IH v by (cases vs) auto
qed

lemma split_char_join:
  assumes "ws \<noteq> []" "\<forall>w\<in>set ws. d \<notin> set w"
  shows "split_char d (join [d] ws) = ws"
  using assms
proof (induction "[d]" ws rule: join.induct)
  case (3 w v ws)
  then show ?case by (simp add: split_char_app)
qed (simp_all add: split_char_nodelim)


subsection \<open>Trimming\<close>

lemma trim_end_char_fix: "s = [] \<or> last s \<noteq> d \<Longrightarrow> trim_end_char d s = s"
  by (cases s rule: rev_cases) (auto simp: trim_end_char_def)

lemma trim_end_char_append [simp]: "trim_end_char d (s @ [d]) = trim_end_char d s"
  by (simp add: trim_end_char_def)

lemma trim_end_char_split: "\<exists>n. s = trim_end_char d s @ replicate n d"
proof -
  have "rev s = takeWhile (\<lambda>c. c = d) (rev s) @ dropWhile (\<lambda>c. c = d) (rev s)"
    by simp
  then have "s = trim_end_char d s @ rev (takeWhile (\<lambda>c. c = d) (rev s))"
    by (metis rev_append rev_rev_ident trim_end_char_def)
  moreover have "rev (takeWhile (\<lambda>c. c = d) (rev s))
      = replicate (length (takeWhile (\<lambda>c. c = d) (rev s))) d"
    by (metis (mono_tags) length_rev replicate_eqI set_rev set_takeWhileD)
  ultimately show ?thesis by metis
qed

lemma trim_end_char_last: "trim_end_char d s = [] \<or> last (trim_end_char d s) \<noteq> d"
  by (induction s rule: rev_induct) (auto simp: trim_end_char_def)

lemma trim_end_char_idem [simp]: "trim_end_char d (trim_end_char d s) = trim_end_char d s"
  by (rule trim_end_char_fix) (rule trim_end_char_last)

lemma trim_end_char_set: "set (trim_end_char d s) \<subseteq> set s"
  by (metis set_append sup_ge1 trim_end_char_split)

lemma trim_end_char_lower:
  assumes "\<not> is_alpha d"
  shows "lowercase (trim_end_char d s) = trim_end_char d (lowercase s)"
proof -
  have "(\<lambda>c. lower_char c = d) = (\<lambda>c. c = d)"
    using assms by (simp add: lower_char_eq_nonalpha)
  then show ?thesis
    by (simp add: trim_end_char_def lowercase_def rev_map dropWhile_map comp_def)
qed

lemma ws_front_append: "ws_front (s @ t) = 0 \<Longrightarrow> ws_front s = 0"
  by (induction s rule: ws_front.induct) (auto split: if_splits list.splits, (cases t rule: ws_front.cases; simp split: if_splits)+)

lemma trim_start_front: "ws_front (trim_start s) = 0"
  by (induction s rule: trim_start.induct) (metis trim_start.simps)

lemma trim_back_back: "ws_back (trim_back s) = 0"
  by (induction s rule: trim_back.induct) (metis trim_back.simps)

lemma trim_start_fix: "ws_front s = 0 \<Longrightarrow> trim_start s = s"
  by (simp add: trim_start.simps)

lemma trim_back_fix: "ws_back s = 0 \<Longrightarrow> trim_back s = s"
  by (simp add: trim_back.simps)

lemma trim_start_suffix: "suffix (trim_start s) s"
proof (induction s rule: trim_start.induct)
  case (1 s)
  then show ?case
    by (metis suffix_drop suffix_order.trans suffix_order.refl trim_start.simps)
qed

lemma trim_back_suffix: "suffix (trim_back s) s"
proof (induction s rule: trim_back.induct)
  case (1 s)
  then show ?case
    by (metis suffix_drop suffix_order.trans suffix_order.refl trim_back.simps)
qed

lemma trim_end_prefix: "prefix (trim_end s) s"
  by (metis suffix_to_prefix rev_rev_ident trim_back_suffix trim_end_def)

lemma trim_fix: "ws_front s = 0 \<Longrightarrow> ws_back (rev s) = 0 \<Longrightarrow> trim s = s"
  by (simp add: trim_def trim_end_def trim_start_fix trim_back_fix)

lemma trim_ends:
  shows trim_front: "ws_front (trim s) = 0" and trim_rev_back: "ws_back (rev (trim s)) = 0"
proof -
  obtain t where "trim_start s = trim s @ t"
    using trim_end_prefix unfolding trim_def prefix_def by blast
  then show "ws_front (trim s) = 0"
    by (metis trim_start_front ws_front_append)
  show "ws_back (rev (trim s)) = 0"
    by (simp add: trim_def trim_end_def trim_back_back)
qed

lemma trim_idem [simp]: "trim (trim s) = trim s"
  by (simp add: trim_fix trim_ends)

lemma trim_set: "set (trim s) \<subseteq> set s"
  using set_mono_prefix [OF trim_end_prefix [of "trim_start s"]]
    set_mono_suffix [OF trim_start_suffix [of s]]
  by (simp add: trim_def)

lemma trim_Nil [simp]: "trim [] = []"
  by (simp add: trim_fix)

lemma graphic_ws_front: "is_graphic a \<Longrightarrow> ws_front (a # s) = 0"
  by (cases "a # s" rule: ws_front.cases) (auto simp: is_graphic_def is_ascii_ws_def ws2_def ws3_def)

lemma graphic_ws_back: "is_graphic a \<Longrightarrow> ws_back (a # s) = 0"
  by (cases "a # s" rule: ws_back.cases) (auto simp: is_graphic_def is_ascii_ws_def ws2_def ws3_def)

lemma trim_graphic:
  assumes "s \<noteq> []" "is_graphic (hd s)" "is_graphic (last s)"
  shows "trim s = s"
proof (rule trim_fix)
  show "ws_front s = 0"
    using assms by (metis graphic_ws_front list.collapse)
  show "ws_back (rev s) = 0"
    using assms by (metis graphic_ws_back hd_rev list.collapse rev_is_Nil_conv)
qed

lemma trim_all_graphic: "\<forall>c\<in>set s. is_graphic c \<Longrightarrow> trim s = s"
  by (cases "s = []") (auto intro: trim_graphic)

section \<open>Numbers\<close>

definition digit :: "nat \<Rightarrow> char" where
  "digit n = char_of (48 + n)"

fun show_nat :: "nat \<Rightarrow> string" where
  "show_nat n = (if n < 10 then [digit n] else show_nat (n div 10) @ [digit (n mod 10)])"

declare show_nat.simps [simp del]

definition dec_val :: "string \<Rightarrow> nat" where
  "dec_val s = foldl (\<lambda>a c. a * 10 + (byte c - 48)) 0 s"

definition all_digits :: "string \<Rightarrow> bool" where
  "all_digits s \<longleftrightarrow> s \<noteq> [] \<and> list_all is_digit s"

text \<open>\<open>str::parse::<uN>()\<close>: one optional plus sign, then digits, at most \<open>m\<close>.\<close>

definition parse_uint :: "nat \<Rightarrow> string \<Rightarrow> nat option" where
  "parse_uint m s =
     (let ds = (case s of [] \<Rightarrow> [] | c # r \<Rightarrow> if c = CHR ''+'' then r else s)
      in if all_digits ds \<and> dec_val ds \<le> m then Some (dec_val ds) else None)"

abbreviation parse_u16 :: "string \<Rightarrow> nat option" where
  "parse_u16 \<equiv> parse_uint 65535"

abbreviation parse_u8 :: "string \<Rightarrow> nat option" where
  "parse_u8 \<equiv> parse_uint 255"

lemma digit_props: "n < 10 \<Longrightarrow> is_digit (digit n) \<and> byte (digit n) = 48 + n"
  by (simp add: digit_def is_digit_def)

lemma all_digits_show_nat: "all_digits (show_nat n)"
proof (induction n rule: show_nat.induct)
  case (1 n)
  then show ?case
    by (subst show_nat.simps) (auto simp: all_digits_def digit_props)
qed

lemma dec_val_snoc: "dec_val (s @ [c]) = dec_val s * 10 + (byte c - 48)"
  by (simp add: dec_val_def)

lemma dec_val_show_nat [simp]: "dec_val (show_nat n) = n"
proof (induction n rule: show_nat.induct)
  case (1 n)
  show ?case
  proof (cases "n < 10")
    case True
    then show ?thesis by (subst show_nat.simps) (simp add: dec_val_def digit_props)
  next
    case False
    then show ?thesis using 1 by (subst show_nat.simps) (simp add: dec_val_snoc digit_props)
  qed
qed

lemma show_nat_digits: "c \<in> set (show_nat n) \<Longrightarrow> is_digit c"
  using all_digits_show_nat [of n] by (auto simp: all_digits_def list_all_iff)

lemma show_nat_nonempty [simp]: "show_nat n \<noteq> []"
  using all_digits_show_nat [of n] by (simp add: all_digits_def)

lemma show_nat_inject [simp]: "show_nat m = show_nat n \<longleftrightarrow> m = n"
  by (metis dec_val_show_nat)

lemma parse_uint_show_nat: "n \<le> m \<Longrightarrow> parse_uint m (show_nat n) = Some n"
proof -
  assume n: "n \<le> m"
  obtain c r where cr: "show_nat n = c # r"
    by (metis list.exhaust show_nat_nonempty)
  then have "is_digit c"
    by (metis list.set_intros(1) show_nat_digits)
  then have "c \<noteq> CHR ''+''" by (auto simp: is_digit_def)
  then show ?thesis
    using n all_digits_show_nat [of n] dec_val_show_nat [of n] unfolding parse_uint_def cr by simp
qed

lemma parse_uint_le: "parse_uint m s = Some n \<Longrightarrow> n \<le> m"
  by (auto simp: parse_uint_def Let_def split: if_splits)

end
