(* ===== verification/Router.thy ===== *)
theory Router
  imports Prelude
begin

text \<open>
  The SNI/Host router (\<open>src/src/router.rs\<close>). Patterns are compiled into three keyed tiers and a
  list of compiled regexes; \<open>match_host\<close> walks them in a fixed order, and
  \<open>wildcard_confined\<close> decides whether every host a certificate wildcard would cover routes into
  the owner's certificate scope.

  A \<open>HashMap<String, RouteId>\<close> is an association list with distinct keys (its iteration order is
  only observed after sorting). The regex engine is a third-party crate: its compiled type
  \<open>'re\<close>, \<open>Regex::new\<close> (\<open>rx_compile\<close>) and \<open>Regex::is_match\<close> (\<open>rx_match\<close>) are parameters.
\<close>

type_synonym route_id = nat

record regex_def =
  rd_pattern :: string
  rd_scope_suffix :: "string list"

record 're regex_route =
  rx_pattern :: 're
  rx_route :: route_id
  rx_scope :: "string list"

record 're router =
  r_exact :: "(string \<times> route_id) list"
  r_wildcard :: "(string \<times> route_id) list"
  r_suffix :: "(string \<times> route_id) list"
  r_regex :: "'re regex_route list"
  r_default :: "route_id option"

text \<open>The \<open>ConfigError::Invalid\<close> messages of \<open>Router::build\<close>, one constructor each.\<close>

datatype build_error =
    UnknownRegex route_id string
  | InvalidRegex string
  | InlineRegex route_id string
  | DuplicatePattern string

section \<open>Normalisation\<close>

definition normalize :: "string \<Rightarrow> string" where
  "normalize host =
     (let h = trim host;
          h = (if starts_with ''['' h then h else hd (split_char CHR '':'' h))
      in lowercase (trim_end_char CHR ''.'' h))"

definition normalize_scope_suffix :: "string \<Rightarrow> string" where
  "normalize_scope_suffix scope =
     (let s = trim scope in
      case strip_prefix ''*.'' s of
        Some rest \<Rightarrow> ''*.'' @ normalize rest
      | None \<Rightarrow> (case strip_prefix ''.'' s of
          Some rest \<Rightarrow> ''.'' @ normalize rest
        | None \<Rightarrow> normalize s))"

definition one_label_above :: "string \<Rightarrow> string \<Rightarrow> string option" where
  "one_label_above key parent =
     (case strip_suffix parent key of None \<Rightarrow> None
      | Some l \<Rightarrow> (case strip_suffix ''.'' l of None \<Rightarrow> None
         | Some left \<Rightarrow> if left = [] \<or> CHR ''.'' \<in> set left then None else Some left))"

section \<open>Building\<close>

definition insert_unique ::
    "(string \<times> route_id) list \<Rightarrow> string \<Rightarrow> route_id \<Rightarrow> string
     \<Rightarrow> (build_error, (string \<times> route_id) list) result" where
  "insert_unique m key rid pat =
     (if key \<in> set (List.map fst m) then Inl (DuplicatePattern pat) else Inr ((key, rid) # m))"

definition add_pattern ::
    "(string \<Rightarrow> 're option) \<Rightarrow> (string \<rightharpoonup> regex_def) \<Rightarrow> route_id \<Rightarrow> string \<Rightarrow> 're router
     \<Rightarrow> (build_error, 're router) result" where
  "add_pattern rx_compile regexes rid pat0 r =
     (let pat = trim pat0 in
      if pat = [] then Inr r
      else case strip_prefix ''@'' pat of
        Some name \<Rightarrow>
          (case regexes name of None \<Rightarrow> Inl (UnknownRegex rid name)
           | Some def \<Rightarrow>
             (case rx_compile (rd_pattern def) of None \<Rightarrow> Inl (InvalidRegex name)
              | Some re \<Rightarrow>
                  Inr (r\<lparr>r_regex := r_regex r @
                    [\<lparr>rx_pattern = re, rx_route = rid,
                      rx_scope = List.map normalize_scope_suffix (rd_scope_suffix def)\<rparr>]\<rparr>)))
      | None \<Rightarrow>
      (if starts_with ''~'' pat then Inl (InlineRegex rid pat)
      else case strip_prefix ''*.'' pat of
        Some rest \<Rightarrow> (case insert_unique (r_wildcard r) (normalize rest) rid pat of
             Inl e \<Rightarrow> Inl e | Inr m \<Rightarrow> Inr (r\<lparr>r_wildcard := m\<rparr>))
      | None \<Rightarrow>
      (case strip_prefix ''.'' pat of
        Some rest \<Rightarrow> (case insert_unique (r_suffix r) (normalize rest) rid pat of
             Inl e \<Rightarrow> Inl e | Inr m \<Rightarrow> Inr (r\<lparr>r_suffix := m\<rparr>))
      | None \<Rightarrow> (case insert_unique (r_exact r) (normalize pat) rid pat of
             Inl e \<Rightarrow> Inl e | Inr m \<Rightarrow> Inr (r\<lparr>r_exact := m\<rparr>)))))"

fun add_patterns ::
    "(string \<Rightarrow> 're option) \<Rightarrow> (string \<rightharpoonup> regex_def) \<Rightarrow> route_id \<Rightarrow> string list \<Rightarrow> 're router
     \<Rightarrow> (build_error, 're router) result" where
  "add_patterns rxc rgs rid [] r = Inr r"
| "add_patterns rxc rgs rid (p # ps) r =
     (case add_pattern rxc rgs rid p r of Inl e \<Rightarrow> Inl e | Inr r' \<Rightarrow> add_patterns rxc rgs rid ps r')"

fun add_routes ::
    "(string \<Rightarrow> 're option) \<Rightarrow> (string \<rightharpoonup> regex_def) \<Rightarrow> route_id \<Rightarrow> string list list \<Rightarrow> 're router
     \<Rightarrow> (build_error, 're router) result" where
  "add_routes rxc rgs rid [] r = Inr r"
| "add_routes rxc rgs rid (ps # pss) r =
     (case add_patterns rxc rgs rid ps r of Inl e \<Rightarrow> Inl e
      | Inr r' \<Rightarrow> add_routes rxc rgs (Suc rid) pss r')"

definition build ::
    "(string \<Rightarrow> 're option) \<Rightarrow> string list list \<Rightarrow> route_id option \<Rightarrow> (string \<rightharpoonup> regex_def)
     \<Rightarrow> (build_error, 're router) result" where
  "build rx_compile patterns dflt regexes =
     add_routes rx_compile regexes 0 patterns
       \<lparr>r_exact = [], r_wildcard = [], r_suffix = [], r_regex = [], r_default = dflt\<rparr>"

section \<open>Matching\<close>

text \<open>The suffix tier's loop: the domain itself, then each ancestor. The key that matched is
  returned with its route, because \<open>wildcard_confined\<close> reports it.\<close>

function suffix_walk :: "(string \<times> route_id) list \<Rightarrow> string \<Rightarrow> (string \<times> route_id) option" where
  "suffix_walk m cur =
     (case map_of m cur of Some rid \<Rightarrow> Some (cur, rid)
      | None \<Rightarrow> (case split_once CHR ''.'' cur of
          Some (_, rest) \<Rightarrow> suffix_walk m rest
        | None \<Rightarrow> None))"
  by pat_completeness auto
termination
  by (relation "measure (\<lambda>(m, cur). length cur)") (auto simp: str_simps)

declare suffix_walk.simps [simp del]

fun regex_tier :: "('re \<Rightarrow> string \<Rightarrow> bool) \<Rightarrow> 're regex_route list \<Rightarrow> string \<Rightarrow> route_id option" where
  "regex_tier rxm [] h = None"
| "regex_tier rxm (x # xs) h = (if rxm (rx_pattern x) h then Some (rx_route x) else regex_tier rxm xs h)"

definition match_host :: "('re \<Rightarrow> string \<Rightarrow> bool) \<Rightarrow> 're router \<Rightarrow> string \<Rightarrow> route_id option" where
  "match_host rx_match r host0 =
     (let host = normalize host0 in
      if host = [] then r_default r
      else case map_of (r_exact r) host of
        Some rid \<Rightarrow> Some rid
      | None \<Rightarrow>
      (case (case split_once CHR ''.'' host of
               Some (_, parent) \<Rightarrow> map_of (r_wildcard r) parent | None \<Rightarrow> None) of
        Some rid \<Rightarrow> Some rid
      | None \<Rightarrow>
      (case (if r_suffix r \<noteq> [] then suffix_walk (r_suffix r) host else None) of
        Some (_, rid) \<Rightarrow> Some rid
      | None \<Rightarrow>
      (case regex_tier rx_match (r_regex r) host of
        Some rid \<Rightarrow> Some rid
      | None \<Rightarrow> r_default r))))"

section \<open>Confinement\<close>

datatype escape =
    EscapeHost string route_id
  | RegexTier route_id
  | DefaultRoute route_id
  | Unmatched

definition is_suffix_of_or_equal :: "string \<Rightarrow> string \<Rightarrow> bool" where
  "is_suffix_of_or_equal candidate sfx \<longleftrightarrow> candidate = sfx \<or> ends_with (''.'' @ sfx) candidate"

definition match_scope_pattern :: "string \<Rightarrow> string \<Rightarrow> bool" where
  "match_scope_pattern scope parent =
     (case strip_prefix ''*.'' scope of
        Some sfx \<Rightarrow> parent = sfx
      | None \<Rightarrow> (case strip_prefix ''.'' scope of
          Some sfx \<Rightarrow> is_suffix_of_or_equal parent sfx \<or> one_label_above sfx parent \<noteq> None
        | None \<Rightarrow> one_label_above scope parent \<noteq> None))"

definition named_hosts :: "'re router \<Rightarrow> string \<Rightarrow> string list" where
  "named_hosts r parent =
     sort (filter (\<lambda>k. one_label_above k parent \<noteq> None)
             (List.map fst (r_exact r) @ List.map fst (r_suffix r)))"

fun check_named :: "('re \<Rightarrow> string \<Rightarrow> bool) \<Rightarrow> 're router \<Rightarrow> (route_id \<Rightarrow> bool) \<Rightarrow> string list
    \<Rightarrow> (escape, unit) result" where
  "check_named rxm r in_scope [] = Inr ()"
| "check_named rxm r in_scope (h # hs) =
     (case match_host rxm r h of
        Some rid \<Rightarrow> if in_scope rid then check_named rxm r in_scope hs else Inl (EscapeHost h rid)
      | None \<Rightarrow> Inl Unmatched)"

fun check_regex :: "(route_id \<Rightarrow> bool) \<Rightarrow> string \<Rightarrow> 're regex_route list \<Rightarrow> (escape, unit) result" where
  "check_regex in_scope parent [] = Inr ()"
| "check_regex in_scope parent (x # xs) =
     (if \<not> in_scope (rx_route x) \<and> list_ex (\<lambda>s. match_scope_pattern s parent) (rx_scope x)
      then Inl (RegexTier (rx_route x))
      else check_regex in_scope parent xs)"

definition wildcard_confined ::
    "('re \<Rightarrow> string \<Rightarrow> bool) \<Rightarrow> 're router \<Rightarrow> string \<Rightarrow> (route_id \<Rightarrow> bool) \<Rightarrow> (escape, unit) result" where
  "wildcard_confined rx_match r parent0 in_scope =
     (let parent = normalize parent0 in
      case check_named rx_match r in_scope (named_hosts r parent) of Inl e \<Rightarrow> Inl e
      | Inr _ \<Rightarrow>
      (case map_of (r_wildcard r) parent of
        Some rid \<Rightarrow> if in_scope rid then Inr () else Inl (EscapeHost (''*.'' @ parent) rid)
      | None \<Rightarrow>
      (case suffix_walk (r_suffix r) parent of
        Some (cur, rid) \<Rightarrow> if in_scope rid then Inr () else Inl (EscapeHost (''.'' @ cur) rid)
      | None \<Rightarrow>
      (case r_default r of
        Some rid \<Rightarrow> if \<not> in_scope rid then Inl (DefaultRoute rid)
                   else check_regex in_scope parent (r_regex r)
      | None \<Rightarrow> Inl Unmatched))))"

definition name_confined ::
    "('re \<Rightarrow> string \<Rightarrow> bool) \<Rightarrow> 're router \<Rightarrow> string \<Rightarrow> (route_id \<Rightarrow> bool) \<Rightarrow> (escape, unit) result" where
  "name_confined rx_match r name in_scope =
     (case match_host rx_match r name of
        Some rid \<Rightarrow> if in_scope rid then Inr () else Inl (EscapeHost (normalize name) rid)
      | None \<Rightarrow> Inl Unmatched)"


section \<open>Host names\<close>

text \<open>A label, a host that normalisation leaves alone, and a plainly spelled host: lowercase
  graphic characters, no colon and no bracket, not ending in a dot. The last is what the SNI and
  Host parsers and the configuration produce.\<close>

definition is_label :: "string \<Rightarrow> bool" where
  "is_label l \<longleftrightarrow> l \<noteq> [] \<and> CHR ''.'' \<notin> set l"

definition is_normal :: "string \<Rightarrow> bool" where
  "is_normal h \<longleftrightarrow> normalize h = h"

definition host_char :: "char \<Rightarrow> bool" where
  "host_char c \<longleftrightarrow> is_graphic c \<and> \<not> is_upper c \<and> c \<notin> {CHR '':'', CHR ''['', CHR ''*''}"

definition clean_host :: "string \<Rightarrow> bool" where
  "clean_host h \<longleftrightarrow> h \<noteq> [] \<and> list_all host_char h \<and> last h \<noteq> CHR ''.''"

lemma clean_host_chars: "clean_host h \<Longrightarrow> c \<in> set h \<Longrightarrow> host_char c"
  by (simp add: clean_host_def list_all_iff)

lemma clean_host_normal: "clean_host h \<Longrightarrow> normalize h = h"
proof -
  assume h: "clean_host h"
  have "trim h = h"
    using h by (intro trim_all_graphic) (auto simp: clean_host_def list_all_iff host_char_def)
  moreover have "\<not> starts_with ''['' h"
    using h by (auto simp: starts_with_iff clean_host_def host_char_def)
  moreover have "split_char CHR '':'' h = [h]"
    using h by (intro split_char_nodelim) (auto dest: clean_host_chars simp: host_char_def)
  moreover have "trim_end_char CHR ''.'' h = h"
    using h by (intro trim_end_char_fix) (simp add: clean_host_def)
  moreover have "lowercase h = h"
    using h by (intro lowercase_fix) (auto dest: clean_host_chars simp: host_char_def)
  ultimately show ?thesis
    by (simp add: normalize_def Let_def)
qed

lemma clean_host_is_normal: "clean_host h \<Longrightarrow> is_normal h"
  by (simp add: is_normal_def clean_host_normal)

lemma clean_host_under:
  "clean_host p \<Longrightarrow> list_all host_char l \<Longrightarrow> clean_host (l @ CHR ''.'' # p)"
  by (simp add: clean_host_def) (simp add: host_char_def is_graphic_def is_upper_def)

lemma normalize_not_upper: "c \<in> set (normalize h) \<Longrightarrow> \<not> is_upper c"
  by (auto simp: normalize_def Let_def lowercase_def)

section \<open>The tiers\<close>

lemma one_label_above_Some [str_simps]:
  "one_label_above k p = Some l \<longleftrightarrow> k = l @ CHR ''.'' # p \<and> is_label l"
  by (auto simp: one_label_above_def str_simps is_label_def split: option.splits)

lemma one_label_above_ex: "one_label_above k p \<noteq> None \<longleftrightarrow> (\<exists>l. k = l @ CHR ''.'' # p \<and> is_label l)"
  using one_label_above_Some [of k p] by auto

lemma suffix_walk_Nil [simp]: "suffix_walk [] h = None"
  by (induction "[] :: (string \<times> route_id) list" h rule: suffix_walk.induct)
    (subst suffix_walk.simps, auto split: option.splits)

lemma suffix_walk_hit: "map_of m h = Some i \<Longrightarrow> suffix_walk m h = Some (h, i)"
  by (subst suffix_walk.simps) simp

lemma suffix_walk_step:
  "map_of m (l @ CHR ''.'' # p) = None \<Longrightarrow> is_label l
   \<Longrightarrow> suffix_walk m (l @ CHR ''.'' # p) = suffix_walk m p"
  by (subst suffix_walk.simps) (simp add: is_label_def)

text \<open>A domain suffix: the host itself or an ancestor at a label boundary.\<close>

definition domain_suffix :: "string \<Rightarrow> string \<Rightarrow> bool" where
  "domain_suffix d h \<longleftrightarrow> h = d \<or> (\<exists>x. h = x @ CHR ''.'' # d)"

lemma is_suffix_of_or_equal_iff: "is_suffix_of_or_equal h d \<longleftrightarrow> domain_suffix d h"
  by (simp add: is_suffix_of_or_equal_def domain_suffix_def str_simps)

lemma domain_suffix_refl [simp]: "domain_suffix d d"
  by (simp add: domain_suffix_def)

lemma append_dot_cases:
  assumes "l @ CHR ''.'' # p = x @ CHR ''.'' # d" "CHR ''.'' \<notin> set l"
  shows "(x = l \<and> d = p) \<or> (\<exists>y. x = l @ CHR ''.'' # y \<and> p = y @ CHR ''.'' # d)"
proof -
  have "(\<exists>us. l = x @ us \<and> us @ CHR ''.'' # p = CHR ''.'' # d)
      \<or> (\<exists>us. l @ us = x \<and> CHR ''.'' # p = us @ CHR ''.'' # d)"
    using assms(1) unfolding append_eq_append_conv2 by blast
  then consider us where "l = x @ us" "us @ CHR ''.'' # p = CHR ''.'' # d"
    | us where "l @ us = x" "CHR ''.'' # p = us @ CHR ''.'' # d"
    by blast
  then show ?thesis
  proof cases
    case 1
    then show ?thesis using assms(2) by (cases us) auto
  next
    case 2
    then show ?thesis by (cases us) auto
  qed
qed

lemma domain_suffix_step:
  assumes "CHR ''.'' \<notin> set l"
  shows "domain_suffix d (l @ CHR ''.'' # p) \<longleftrightarrow> d = l @ CHR ''.'' # p \<or> domain_suffix d p"
proof
  assume "domain_suffix d (l @ CHR ''.'' # p)"
  then show "d = l @ CHR ''.'' # p \<or> domain_suffix d p"
    using append_dot_cases [OF _ assms] by (auto simp: domain_suffix_def)
next
  assume "d = l @ CHR ''.'' # p \<or> domain_suffix d p"
  then show "domain_suffix d (l @ CHR ''.'' # p)"
    by (auto simp: domain_suffix_def)
qed

lemma domain_suffix_nodot: "CHR ''.'' \<notin> set h \<Longrightarrow> domain_suffix d h \<longleftrightarrow> d = h"
  by (auto simp: domain_suffix_def)

lemma suffix_walk_None:
  "suffix_walk m h = None \<longleftrightarrow> (\<forall>d. domain_suffix d h \<longrightarrow> map_of m d = None)"
proof (induction m h rule: suffix_walk.induct)
  case (1 m h)
  show ?case
  proof (cases "map_of m h")
    case (Some i)
    then show ?thesis by (auto simp: suffix_walk_hit intro: exI [of _ h])
  next
    case None
    show ?thesis
    proof (cases "split_once CHR ''.'' h")
      case None': None
      then have "CHR ''.'' \<notin> set h"
        by (simp add: split_once_None)
      then show ?thesis
        using None by (subst suffix_walk.simps) (auto simp: domain_suffix_nodot)
    next
      case (Some lp)
      obtain l p where lp: "lp = (l, p)" by fastforce
      have h: "h = l @ CHR ''.'' # p" "CHR ''.'' \<notin> set l"
        using Some by (simp_all add: lp split_once_Some)
      have "suffix_walk m h = suffix_walk m p"
        using None Some lp by (subst suffix_walk.simps) simp
      moreover have "suffix_walk m p = None \<longleftrightarrow> (\<forall>d. domain_suffix d p \<longrightarrow> map_of m d = None)"
        using 1 None Some lp by blast
      ultimately show ?thesis
        using None h by (auto simp: domain_suffix_step)
    qed
  qed
qed

lemma suffix_walk_Some:
  "suffix_walk m h = Some (d, i) \<Longrightarrow>
     map_of m d = Some i \<and> domain_suffix d h
     \<and> (\<forall>d'. domain_suffix d' h \<and> map_of m d' \<noteq> None \<longrightarrow> length d' \<le> length d)"
proof (induction m h rule: suffix_walk.induct)
  case (1 m h)
  show ?case
  proof (cases "map_of m h")
    case (Some j)
    then have "d = h" "i = j" using 1 by (simp_all add: suffix_walk_hit)
    then show ?thesis using Some by (auto simp: domain_suffix_def)
  next
    case None
    obtain l p where lp: "split_once CHR ''.'' h = Some (l, p)" "suffix_walk m p = Some (d, i)"
      using 1(2) None by (subst (asm) suffix_walk.simps) (auto split: option.splits)
    then have h: "h = l @ CHR ''.'' # p" "CHR ''.'' \<notin> set l"
      by (simp_all add: split_once_Some)
    show ?thesis
      using 1(1) [OF None lp(1) refl lp(2)] None h by (auto simp: domain_suffix_step)
  qed
qed

lemma regex_tier_Some: "regex_tier rxm xs h = Some i \<Longrightarrow> \<exists>x\<in>set xs. rxm (rx_pattern x) h \<and> rx_route x = i"
  by (induction xs) (auto split: if_splits)

text \<open>On a normalised host the matcher is the ladder of its tiers.\<close>

lemma match_host_ladder:
  assumes "normalize h = h" "h \<noteq> []"
  shows "match_host rxm r h = first_some
    [map_of (r_exact r) h,
     Option.bind (split_once CHR ''.'' h) (\<lambda>(_, p). map_of (r_wildcard r) p),
     map_option snd (suffix_walk (r_suffix r) h),
     regex_tier rxm (r_regex r) h,
     r_default r]"
proof -
  have "(if r_suffix r \<noteq> [] then suffix_walk (r_suffix r) h else None) = suffix_walk (r_suffix r) h"
    by simp
  then show ?thesis
    using assms
    by (cases "r_default r"; cases "regex_tier rxm (r_regex r) h"; cases "suffix_walk (r_suffix r) h";
        cases "map_of (r_exact r) h"; cases "split_once CHR ''.'' h")
      (auto simp: match_host_def split: option.splits)
qed

lemma match_host_normalize: "normalize (normalize h) = normalize h \<Longrightarrow>
    match_host rxm r (normalize h) = match_host rxm r h"
  by (simp add: match_host_def)

lemma match_host_under:
  assumes "normalize (l @ CHR ''.'' # p) = l @ CHR ''.'' # p" "is_label l"
  shows "match_host rxm r (l @ CHR ''.'' # p) = first_some
    [map_of (r_exact r) (l @ CHR ''.'' # p), map_of (r_wildcard r) p,
     map_option snd (suffix_walk (r_suffix r) (l @ CHR ''.'' # p)),
     regex_tier rxm (r_regex r) (l @ CHR ''.'' # p), r_default r]"
  using assms by (simp add: match_host_ladder is_label_def)


section \<open>Confinement is sound\<close>

text \<open>The hosts a scope declaration speaks for, and the contract the configuration asks of a
  regex: it only matches hosts of its declared scopes.\<close>

definition host_in_scope :: "string \<Rightarrow> string \<Rightarrow> bool" where
  "host_in_scope scope h =
     (case strip_prefix ''*.'' scope of
        Some d \<Rightarrow> \<exists>l. is_label l \<and> h = l @ CHR ''.'' # d
      | None \<Rightarrow> (case strip_prefix ''.'' scope of
          Some d \<Rightarrow> h = d \<or> (\<exists>x. h = x @ CHR ''.'' # d)
        | None \<Rightarrow> h = scope))"

definition regexes_truthful :: "('re \<Rightarrow> string \<Rightarrow> bool) \<Rightarrow> 're router \<Rightarrow> bool" where
  "regexes_truthful rxm r \<longleftrightarrow>
     (\<forall>x\<in>set (r_regex r). \<forall>h. rxm (rx_pattern x) h \<longrightarrow> (\<exists>s\<in>set (rx_scope x). host_in_scope s h))"

lemma one_label_above_iff:
  "one_label_above k p \<noteq> None \<longleftrightarrow> (\<exists>l. is_label l \<and> l @ CHR ''.'' # p = k)"
  using one_label_above_ex [of k p] by blast

lemma is_label_a: "is_label ''a''"
  by (simp add: is_label_def)

lemma match_scope_pattern_iff:
  "match_scope_pattern s p \<longleftrightarrow> (\<exists>l. is_label l \<and> host_in_scope s (l @ CHR ''.'' # p))"
proof -
  consider d where "strip_prefix ''*.'' s = Some d"
    | d where "strip_prefix ''*.'' s = None" "strip_prefix ''.'' s = Some d"
    | "strip_prefix ''*.'' s = None" "strip_prefix ''.'' s = None"
    by (cases "strip_prefix ''*.'' s"; cases "strip_prefix ''.'' s") auto
  then show ?thesis
  proof cases
    case 1
    have "l = l' \<and> p = d" if "l @ CHR ''.'' # p = l' @ CHR ''.'' # d" "is_label l" "is_label l'" for l l'
      using append_dot_cases [OF that(1)] that by (auto simp: is_label_def)
    then have "(\<exists>l l'. is_label l \<and> is_label l' \<and> l @ CHR ''.'' # p = l' @ CHR ''.'' # d) \<longleftrightarrow> p = d"
      using is_label_a by blast
    then show ?thesis
      unfolding match_scope_pattern_def host_in_scope_def 1 option.case by blast
  next
    case 2
    have dots: "CHR ''.'' \<notin> set l" if "is_label l" for l
      using that by (simp add: is_label_def)
    have "match_scope_pattern s p \<longleftrightarrow> domain_suffix d p \<or> (\<exists>l. is_label l \<and> l @ CHR ''.'' # p = d)"
      by (simp only: match_scope_pattern_def 2 option.case is_suffix_of_or_equal_iff one_label_above_iff)
    also have "\<dots> \<longleftrightarrow> (\<exists>l. is_label l \<and> domain_suffix d (l @ CHR ''.'' # p))"
    proof (intro iffI)
      assume "domain_suffix d p \<or> (\<exists>l. is_label l \<and> l @ CHR ''.'' # p = d)"
      then show "\<exists>l. is_label l \<and> domain_suffix d (l @ CHR ''.'' # p)"
        using is_label_a domain_suffix_step [OF dots [OF is_label_a], of d p] by (elim disjE) auto
    next
      assume "\<exists>l. is_label l \<and> domain_suffix d (l @ CHR ''.'' # p)"
      then show "domain_suffix d p \<or> (\<exists>l. is_label l \<and> l @ CHR ''.'' # p = d)"
        using domain_suffix_step [OF dots] by auto
    qed
    also have "\<dots> \<longleftrightarrow> (\<exists>l. is_label l \<and> host_in_scope s (l @ CHR ''.'' # p))"
      using 2 by (simp add: host_in_scope_def domain_suffix_def)
    finally show ?thesis .
  next
    case 3
    then show ?thesis
      by (simp add: match_scope_pattern_def host_in_scope_def one_label_above_iff del: not_None_eq)
  qed
qed

lemma check_named_ok:
  "check_named rxm r S hs = Inr () \<longleftrightarrow> (\<forall>h\<in>set hs. \<exists>i. match_host rxm r h = Some i \<and> S i)"
  by (induction hs) (auto split: option.splits)

lemma check_regex_ok:
  "check_regex S p xs = Inr () \<longleftrightarrow>
     (\<forall>x\<in>set xs. S (rx_route x) \<or> (\<forall>s\<in>set (rx_scope x). \<not> match_scope_pattern s p))"
  by (induction xs) (auto simp: list_ex_iff)

lemma named_hosts_iff: "h \<in> set (named_hosts r p) \<longleftrightarrow>
    one_label_above h p \<noteq> None \<and> h \<in> fst ` set (r_exact r) \<union> fst ` set (r_suffix r)"
  by (auto simp: named_hosts_def)

lemma not_named:
  assumes "l @ CHR ''.'' # p \<notin> set (named_hosts r p)" "is_label l"
  shows "map_of (r_exact r) (l @ CHR ''.'' # p) = None"
    and "map_of (r_suffix r) (l @ CHR ''.'' # p) = None"
  using assms one_label_above_ex [of "l @ CHR ''.'' # p" p]
  by (auto simp: named_hosts_iff map_of_eq_None_iff)

lemma match_host_generic:
  assumes "normalize (l @ CHR ''.'' # p) = l @ CHR ''.'' # p" "is_label l"
    and "l @ CHR ''.'' # p \<notin> set (named_hosts r p)"
  shows "match_host rxm r (l @ CHR ''.'' # p) = first_some
    [map_of (r_wildcard r) p, map_option snd (suffix_walk (r_suffix r) p),
     regex_tier rxm (r_regex r) (l @ CHR ''.'' # p), r_default r]"
  using assms by (simp add: match_host_under not_named suffix_walk_step)

text \<open>The confinement verdict as a conjunction of the tiers.\<close>

lemma wildcard_confined_ok:
  assumes "normalize p = p"
  shows "wildcard_confined rxm r p S = Inr () \<longleftrightarrow>
    (\<forall>h\<in>set (named_hosts r p). \<exists>i. match_host rxm r h = Some i \<and> S i) \<and>
    (case first_some [map_of (r_wildcard r) p, map_option snd (suffix_walk (r_suffix r) p)] of
       Some i \<Rightarrow> S i
     | None \<Rightarrow> (\<exists>i. r_default r = Some i \<and> S i) \<and> check_regex S p (r_regex r) = Inr ())"
proof -
  have "check_named rxm r S (named_hosts r p) = Inr ()
      \<longleftrightarrow> (\<forall>h\<in>set (named_hosts r p). \<exists>i. match_host rxm r h = Some i \<and> S i)"
    by (rule check_named_ok)
  then show ?thesis
    using assms
    by (cases "check_named rxm r S (named_hosts r p)")
      (auto simp: wildcard_confined_def split: option.splits)
qed

lemma wildcard_confined_host:
  assumes ok: "wildcard_confined rxm r p S = Inr ()" and p: "normalize p = p"
    and rx: "regexes_truthful rxm r"
    and l: "is_label l" and h: "normalize (l @ CHR ''.'' # p) = l @ CHR ''.'' # p"
  shows "\<exists>i. match_host rxm r (l @ CHR ''.'' # p) = Some i \<and> S i"
proof (cases "l @ CHR ''.'' # p \<in> set (named_hosts r p)")
  case True
  then show ?thesis using ok p by (simp add: wildcard_confined_ok)
next
  case False
  note host = match_host_generic [OF h l False]
  show ?thesis
  proof (cases "first_some [map_of (r_wildcard r) p, map_option snd (suffix_walk (r_suffix r) p)]")
    case (Some i)
    then have "match_host rxm r (l @ CHR ''.'' # p) = Some i"
      by (cases "map_of (r_wildcard r) p"; cases "suffix_walk (r_suffix r) p") (auto simp: host)
    moreover have "S i" using ok p Some by (simp add: wildcard_confined_ok)
    ultimately show ?thesis by blast
  next
    case None
    then obtain i where d: "r_default r = Some i" "S i" and c: "check_regex S p (r_regex r) = Inr ()"
      using ok p by (auto simp: wildcard_confined_ok)
    have m: "match_host rxm r (l @ CHR ''.'' # p)
        = first_some [regex_tier rxm (r_regex r) (l @ CHR ''.'' # p), r_default r]"
      using None by (simp add: host)
    show ?thesis
    proof (cases "regex_tier rxm (r_regex r) (l @ CHR ''.'' # p)")
      case None
      then show ?thesis using m d by simp
    next
      case (Some j)
      then obtain x where x: "x \<in> set (r_regex r)" "rxm (rx_pattern x) (l @ CHR ''.'' # p)" "rx_route x = j"
        using regex_tier_Some by blast
      then obtain s where "s \<in> set (rx_scope x)" "host_in_scope s (l @ CHR ''.'' # p)"
        using rx by (auto simp: regexes_truthful_def)
      then have "S j"
        using c x l by (auto simp: check_regex_ok match_scope_pattern_iff)
      then show ?thesis using m Some by simp
    qed
  qed
qed


text \<open>The contract a certificate cache relies on: what it may assert without naming a host that
  routes elsewhere.\<close>

locale confinement =
  fixes ready :: "'r \<Rightarrow> bool"
    and route :: "'r \<Rightarrow> string \<Rightarrow> route_id option"
    and name_ok :: "'r \<Rightarrow> string \<Rightarrow> (route_id \<Rightarrow> bool) \<Rightarrow> bool"
    and wild_ok :: "'r \<Rightarrow> string \<Rightarrow> (route_id \<Rightarrow> bool) \<Rightarrow> bool"
  assumes name_ok_routes: "name_ok r n S \<Longrightarrow> \<exists>i. route r n = Some i \<and> S i"
    and wild_ok_routes: "\<lbrakk>ready r; wild_ok r p S; clean_host p; is_label l; list_all host_char l\<rbrakk>
      \<Longrightarrow> \<exists>i. route r (l @ CHR ''.'' # p) = Some i \<and> S i"

interpretation router_conf: confinement "regexes_truthful rxm" "match_host rxm"
    "\<lambda>r n S. is_ok (name_confined rxm r n S)" "\<lambda>r p S. is_ok (wildcard_confined rxm r p S)" for rxm
proof unfold_locales
  fix r n S
  assume "is_ok (name_confined rxm r n S)"
  then show "\<exists>i. match_host rxm r n = Some i \<and> S i"
    by (auto simp: is_ok_iff name_confined_def split: option.splits if_splits)
next
  fix r p S l
  assume "regexes_truthful rxm r" "is_ok (wildcard_confined rxm r p S)" "clean_host p" "is_label l"
    "list_all host_char l"
  then show "\<exists>i. match_host rxm r (l @ CHR ''.'' # p) = Some i \<and> S i"
    by (auto simp: is_ok_iff clean_host_normal clean_host_under intro!: wildcard_confined_host)
qed

section \<open>Confinement is exact without a regex tier\<close>

text \<open>Every key of the keyed tiers is stored in normal form.\<close>

definition keys_normal :: "'re router \<Rightarrow> bool" where
  "keys_normal r \<longleftrightarrow> list_all (\<lambda>(k, _). normalize k = k) (r_exact r)
     \<and> list_all (\<lambda>(k, _). normalize k = k) (r_suffix r)"

lemma fresh_label: "finite H \<Longrightarrow> \<exists>l. is_label l \<and> list_all host_char l \<and> l @ CHR ''.'' # p \<notin> H"
proof -
  assume fin: "finite H"
  let ?f = "\<lambda>n. replicate (Suc n) CHR ''a'' @ CHR ''.'' # p"
  have "inj ?f"
    by (rule injI) (metis Suc_inject append_same_eq length_replicate)
  then have "infinite (range ?f)"
    using finite_imageD [of ?f UNIV] infinite_UNIV_nat by blast
  then obtain n where "?f n \<notin> H"
    using fin by (meson finite_subset image_subsetI)
  moreover have "is_label (replicate (Suc n) CHR ''a'')" "list_all host_char (replicate (Suc n) CHR ''a'')"
    by (auto simp: is_label_def list_all_iff host_char_def is_graphic_def is_upper_def)
  ultimately show ?thesis by blast
qed

lemma confined_if_all_route:
  assumes p: "clean_host p" and keys: "keys_normal r" and norx: "r_regex r = []"
    and all: "\<forall>l. is_label l \<and> normalize (l @ CHR ''.'' # p) = l @ CHR ''.'' # p \<longrightarrow>
      (\<exists>i. match_host rxm r (l @ CHR ''.'' # p) = Some i \<and> S i)"
  shows "wildcard_confined rxm r p S = Inr ()"
proof -
  have np: "normalize p = p" using p by (rule clean_host_normal)
  have named: "\<exists>i. match_host rxm r h = Some i \<and> S i" if h: "h \<in> set (named_hosts r p)" for h
  proof -
    have "normalize h = h"
      using h keys by (auto simp: named_hosts_iff keys_normal_def list_all_iff)
    moreover obtain l where "h = l @ CHR ''.'' # p" "is_label l"
      using h by (auto simp: named_hosts_iff one_label_above_ex simp del: not_None_eq)
    ultimately show ?thesis using all by auto
  qed
  obtain l where l: "is_label l" "list_all host_char l" "l @ CHR ''.'' # p \<notin> set (named_hosts r p)"
    using fresh_label [of "set (named_hosts r p)" p] by auto
  have n: "normalize (l @ CHR ''.'' # p) = l @ CHR ''.'' # p"
    using l p by (simp add: clean_host_normal clean_host_under)
  then obtain i where i: "match_host rxm r (l @ CHR ''.'' # p) = Some i" "S i"
    using all l by blast
  have gen: "match_host rxm r (l @ CHR ''.'' # p) = first_some
      [map_of (r_wildcard r) p, map_option snd (suffix_walk (r_suffix r) p), r_default r]"
    using match_host_generic [OF n l(1) l(3), of rxm] norx
    by (cases "map_of (r_wildcard r) p"; cases "suffix_walk (r_suffix r) p") auto
  show ?thesis
    unfolding wildcard_confined_ok [OF np]
  proof
    show "\<forall>h\<in>set (named_hosts r p). \<exists>i. match_host rxm r h = Some i \<and> S i"
      using named by blast
  next
    show "case first_some [map_of (r_wildcard r) p, map_option snd (suffix_walk (r_suffix r) p)] of
        None \<Rightarrow> (\<exists>i. r_default r = Some i \<and> S i) \<and> check_regex S p (r_regex r) = Inr ()
      | Some i \<Rightarrow> S i"
      using gen i norx
      by (cases "map_of (r_wildcard r) p"; cases "suffix_walk (r_suffix r) p"; cases "r_default r") auto
  qed
qed

section \<open>Building the tables\<close>

datatype tier = TExact | TWildcard | TSuffix

text \<open>What a pattern means, independently of the order in which the builder tests its prefixes.\<close>

definition pattern_key :: "string \<Rightarrow> (tier \<times> string) option" where
  "pattern_key pat =
     (let t = trim pat in
      if t = [] \<or> hd t \<in> {CHR ''@'', CHR ''~''} then None
      else if take 2 t = ''*.'' then Some (TWildcard, normalize (drop 2 t))
      else if hd t = CHR ''.'' then Some (TSuffix, normalize (tl t))
      else Some (TExact, normalize t))"

fun table :: "'re router \<Rightarrow> tier \<Rightarrow> (string \<times> route_id) list" where
  "table r TExact = r_exact r"
| "table r TWildcard = r_wildcard r"
| "table r TSuffix = r_suffix r"

lemma strip_one: "strip_prefix [c] t = (if t \<noteq> [] \<and> hd t = c then Some (tl t) else None)"
  by (cases t) auto

lemma strip_two: "strip_prefix [c, d] t = (if take 2 t = [c, d] then Some (drop 2 t) else None)"
  by (cases t; cases "tl t") auto

lemma add_pattern_table:
  assumes "add_pattern rxc rgs i p r = Inr r'"
  shows "(case pattern_key p of
      Some (t, k) \<Rightarrow> k \<notin> fst ` set (table r t) \<and> table r' t = (k, i) # table r t
        \<and> (\<forall>t'. t' \<noteq> t \<longrightarrow> table r' t' = table r t')
    | None \<Rightarrow> \<forall>t. table r' t = table r t)
    \<and> r_default r' = r_default r"
proof -
  have eqs: "table r t = table q t" if "r_exact r = r_exact q" "r_wildcard r = r_wildcard q"
      "r_suffix r = r_suffix q" for t :: tier and q
    using that by (cases t) auto
  have two: "\<And>t. take 2 t = ''*.'' \<Longrightarrow> t \<noteq> [] \<and> hd t = CHR ''*''"
    by (case_tac t) auto
  have sp: "(\<forall>t'. t' \<noteq> t \<longrightarrow> Q t') \<longleftrightarrow> (t \<noteq> TExact \<longrightarrow> Q TExact)
      \<and> (t \<noteq> TWildcard \<longrightarrow> Q TWildcard) \<and> (t \<noteq> TSuffix \<longrightarrow> Q TSuffix)" for t Q
    by (metis tier.exhaust)
  have all: "(\<forall>t'. Q t') \<longleftrightarrow> Q TExact \<and> Q TWildcard \<and> Q TSuffix" for Q
    by (metis tier.exhaust)
  show ?thesis
    using assms two [of "trim p"]
    by (auto simp: add_pattern_def pattern_key_def Let_def strip_one strip_two starts_with_def
        insert_unique_def sp all split: option.splits if_splits)
qed

lemma add_patterns_table:
  assumes "add_patterns rxc rgs i ps r = Inr r'"
  shows "table r' t = rev (List.map_filter (\<lambda>p. case pattern_key p of
        Some (t', k) \<Rightarrow> if t' = t then Some (k, i) else None | None \<Rightarrow> None) ps) @ table r t
    \<and> (distinct (List.map fst (table r t)) \<longrightarrow> distinct (List.map fst (table r' t)))
    \<and> r_default r' = r_default r"
  using assms
proof (induction ps arbitrary: r)
  case Nil
  then show ?case by (simp add: map_filter_simps)
next
  case (Cons p ps)
  obtain r1 where r1: "add_pattern rxc rgs i p r = Inr r1" "add_patterns rxc rgs i ps r1 = Inr r'"
    using Cons.prems by (auto split: sum.splits)
  note step = add_pattern_table [OF r1(1)]
  show ?case
    using Cons.IH [OF r1(2)] step
    by (cases "pattern_key p"; cases "fst (the (pattern_key p)) = t")
      (auto simp: map_filter_simps split: prod.splits)
qed

text \<open>The entries the routes from \<open>base\<close> on contribute to a tier.\<close>

definition declared :: "string list list \<Rightarrow> route_id \<Rightarrow> tier \<Rightarrow> (string \<times> route_id) set" where
  "declared pss base t =
     {(k, base + j) | k j. j < length pss \<and> (\<exists>p\<in>set (pss ! j). pattern_key p = Some (t, k))}"

lemma declared_Nil [simp]: "declared [] base t = {}"
  by (simp add: declared_def)

lemma declared_Cons: "declared (ps # pss) base t =
    {(k, base) | k. \<exists>p\<in>set ps. pattern_key p = Some (t, k)} \<union> declared pss (Suc base) t"
  by (auto simp: declared_def less_Suc_eq_0_disj)

lemma set_map_filter: "set (List.map_filter f xs) = {y. \<exists>x\<in>set xs. f x = Some y}"
  by (induction xs) (auto simp: map_filter_simps split: option.splits)

lemma key_case: "(case pattern_key p of
      Some (t', k) \<Rightarrow> if t' = t then Some (k, i) else None | None \<Rightarrow> None) = Some y
    \<longleftrightarrow> (\<exists>k. y = (k, i) \<and> pattern_key p = Some (t, k))"
  by (cases "pattern_key p") (auto split: if_splits)

lemma add_routes_table:
  assumes "add_routes rxc rgs base pss r = Inr r'"
  shows "set (table r' t) = declared pss base t \<union> set (table r t)
    \<and> (distinct (List.map fst (table r t)) \<longrightarrow> distinct (List.map fst (table r' t)))
    \<and> r_default r' = r_default r"
  using assms
proof (induction pss arbitrary: r base)
  case Nil
  then show ?case by simp
next
  case (Cons ps pss)
  obtain r1 where r1: "add_patterns rxc rgs base ps r = Inr r1" "add_routes rxc rgs (Suc base) pss r1 = Inr r'"
    using Cons.prems by (auto split: sum.splits)
  have one: "set (table r1 t) = {(k, base) | k. \<exists>p\<in>set ps. pattern_key p = Some (t, k)} \<union> set (table r t)"
    using add_patterns_table [OF r1(1), of t] by (auto simp: set_map_filter key_case)
  have "set (table r' t) = declared (ps # pss) base t \<union> set (table r t)"
    using Cons.IH [OF r1(2)] one by (simp add: declared_Cons Un_ac)
  then show ?case
    using Cons.IH [OF r1(2)] add_patterns_table [OF r1(1), of t] by (metis (no_types, lifting))
qed

lemma build_table:
  fixes r :: "'re router"
  assumes "build rxc pss dflt rgs = Inr r"
  shows "set (table r t) = declared pss 0 t" and "distinct (List.map fst (table r t))"
    and "r_default r = dflt"
proof -
  let ?r0 = "\<lparr>r_exact = [], r_wildcard = [], r_suffix = [], r_regex = [], r_default = dflt\<rparr> :: 're router"
  have "table ?r0 t = []"
    by (cases t) auto
  moreover have "add_routes rxc rgs 0 pss ?r0 = Inr r"
    using assms by (simp add: build_def)
  ultimately show "set (table r t) = declared pss 0 t" "distinct (List.map fst (table r t))"
      "r_default r = dflt"
    using add_routes_table [of rxc rgs 0 pss ?r0 r t] by simp_all
qed

lemma build_lookup:
  assumes "build rxc pss dflt rgs = Inr r"
  shows "map_of (table r t) k = Some i \<longleftrightarrow>
    i < length pss \<and> (\<exists>p\<in>set (pss ! i). pattern_key p = Some (t, k))"
  using build_table [OF assms] by (simp add: map_of_eq_Some_iff declared_def)

lemma build_keys_normal:
  assumes "build rxc pss dflt rgs = Inr r"
    and "\<forall>ps\<in>set pss. \<forall>p\<in>set ps. \<forall>t k. pattern_key p = Some (t, k) \<longrightarrow> normalize k = k"
  shows "keys_normal r"
proof -
  have "normalize k = k" if "(k, i) \<in> set (table r t)" for k i t
  proof -
    have "(k, i) \<in> declared pss 0 t" using that build_table(1) [OF assms(1)] by blast
    then obtain j p where "j < length pss" "p \<in> set (pss ! j)" "pattern_key p = Some (t, k)"
      by (auto simp: declared_def)
    then show ?thesis using assms(2) nth_mem by blast
  qed
  from this [of _ _ TExact] this [of _ _ TSuffix] show ?thesis
    by (auto simp: keys_normal_def list_all_iff)
qed

text \<open>The regex list is the regex references in declaration order; its verdict on a host only
  depends on which references each route has.\<close>

definition regex_ref ::
    "(string \<Rightarrow> 're option) \<Rightarrow> (string \<rightharpoonup> regex_def) \<Rightarrow> route_id \<Rightarrow> string \<Rightarrow> 're regex_route option" where
  "regex_ref rxc rgs i pat =
     (case strip_prefix ''@'' (trim pat) of None \<Rightarrow> None
      | Some name \<Rightarrow> (case rgs name of None \<Rightarrow> None
        | Some def \<Rightarrow> (case rxc (rd_pattern def) of None \<Rightarrow> None
          | Some re \<Rightarrow> Some \<lparr>rx_pattern = re, rx_route = i,
              rx_scope = List.map normalize_scope_suffix (rd_scope_suffix def)\<rparr>)))"

fun regex_first ::
    "('re \<Rightarrow> string \<Rightarrow> bool) \<Rightarrow> (route_id \<Rightarrow> string \<Rightarrow> 're regex_route option) \<Rightarrow> route_id
     \<Rightarrow> string list list \<Rightarrow> string \<Rightarrow> route_id option" where
  "regex_first rxm ref i [] h = None"
| "regex_first rxm ref i (ps # pss) h =
     (if \<exists>p\<in>set ps. \<exists>x. ref i p = Some x \<and> rxm (rx_pattern x) h then Some i
      else regex_first rxm ref (Suc i) pss h)"

lemma add_pattern_regex:
  assumes "add_pattern rxc rgs i p r = Inr r'"
  shows "r_regex r' = r_regex r @ (case regex_ref rxc rgs i p of None \<Rightarrow> [] | Some x \<Rightarrow> [x])"
  using assms
  by (auto simp: add_pattern_def regex_ref_def Let_def insert_unique_def split: option.splits if_splits)

lemma add_patterns_regex:
  "add_patterns rxc rgs i ps r = Inr r'
   \<Longrightarrow> r_regex r' = r_regex r @ List.map_filter (regex_ref rxc rgs i) ps"
proof (induction ps arbitrary: r)
  case Nil
  then show ?case by (simp add: map_filter_simps)
next
  case (Cons p ps)
  obtain r1 where "add_pattern rxc rgs i p r = Inr r1" "add_patterns rxc rgs i ps r1 = Inr r'"
    using Cons.prems by (auto split: sum.splits)
  then show ?case
    using Cons.IH [of r1] by (auto simp: add_pattern_regex map_filter_simps split: option.splits)
qed

lemma regex_tier_append: "regex_tier rxm (xs @ ys) h = first_some [regex_tier rxm xs h, regex_tier rxm ys h]"
  by (induction xs) (auto split: option.splits, (metis first_some.simps option.exhaust)+)

lemma regex_tier_one_route:
  assumes "\<forall>p x. ref p = Some x \<longrightarrow> rx_route x = i"
  shows "regex_tier rxm (List.map_filter ref ps) h =
    (if \<exists>p\<in>set ps. \<exists>x. ref p = Some x \<and> rxm (rx_pattern x) h then Some i else None)"
  using assms by (induction ps) (auto simp: map_filter_simps split: option.splits)

lemma regex_ref_route: "regex_ref rxc rgs i p = Some x \<Longrightarrow> rx_route x = i"
  by (auto simp: regex_ref_def split: option.splits)

lemma add_routes_regex:
  assumes "add_routes rxc rgs i pss r = Inr r'"
  shows "regex_tier rxm (r_regex r') h = first_some
    [regex_tier rxm (r_regex r) h, regex_first rxm (regex_ref rxc rgs) i pss h]"
  using assms
proof (induction pss arbitrary: r i)
  case Nil
  then show ?case by (cases "regex_tier rxm (r_regex r) h") auto
next
  case (Cons ps pss)
  obtain r1 where r1: "add_patterns rxc rgs i ps r = Inr r1" "add_routes rxc rgs (Suc i) pss r1 = Inr r'"
    using Cons.prems by (auto split: sum.splits)
  have "regex_tier rxm (r_regex r1) h = first_some [regex_tier rxm (r_regex r) h,
      if \<exists>p\<in>set ps. \<exists>x. regex_ref rxc rgs i p = Some x \<and> rxm (rx_pattern x) h then Some i else None]"
  proof -
    have hyp: "\<forall>p x. regex_ref rxc rgs i p = Some x \<longrightarrow> rx_route x = i"
      using regex_ref_route by blast
    show ?thesis
      by (simp only: add_patterns_regex [OF r1(1)] regex_tier_append regex_tier_one_route [OF hyp])
  qed
  then show ?case
    using Cons.IH [OF r1(2)] by (cases "regex_tier rxm (r_regex r) h") auto
qed

lemma build_regex:
  assumes "build rxc pss dflt rgs = Inr r"
  shows "regex_tier rxm (r_regex r) h = regex_first rxm (regex_ref rxc rgs) 0 pss h"
  using add_routes_regex [OF assms [unfolded build_def], of rxm h]
  by (cases "regex_first rxm (regex_ref rxc rgs) 0 pss h") auto

lemma regex_first_cong:
  "list_all2 (\<lambda>ps qs. set ps = set qs) pss qss
   \<Longrightarrow> regex_first rxm ref i pss h = regex_first rxm ref i qss h"
  by (induction pss qss arbitrary: i rule: list_all2_induct) auto

lemma suffix_walk_cong:
  assumes "\<And>k. map_of m k = map_of m' k"
  shows "suffix_walk m h = suffix_walk m' h"
proof (induction "length h" arbitrary: h rule: less_induct)
  case less
  have "suffix_walk m p = suffix_walk m' p" if "split_once CHR ''.'' h = Some (l, p)" for l p
    using less that by (simp add: split_once_Some)
  then show ?case
    using assms by (subst (1 2) suffix_walk.simps) (auto split: option.splits)
qed

text \<open>Routing only depends on which patterns each route declares, not on their order.\<close>

lemma build_reorder:
  fixes r r' :: "'re router"
  assumes r: "build rxc pss dflt rgs = Inr r" and r': "build rxc qss dflt rgs = Inr r'"
    and eq: "list_all2 (\<lambda>ps qs. set ps = set qs) pss qss"
  shows "match_host rxm r h = match_host rxm r' h"
proof -
  have look: "map_of (table r t) k = map_of (table r' t) k" for t k
  proof -
    have "map_of (table r t) k = Some i \<longleftrightarrow> map_of (table r' t) k = Some i" for i
      using eq by (auto simp: build_lookup [OF r] build_lookup [OF r'] list_all2_conv_all_nth)
    then show ?thesis by (metis not_Some_eq)
  qed
  have walk: "(if r_suffix q \<noteq> [] then suffix_walk (r_suffix q) x else None) = suffix_walk (r_suffix q) x"
    for q :: "'re router" and x
    by simp
  have e1: "suffix_walk (r_suffix r) = suffix_walk (r_suffix r')"
    using look [of TSuffix] by (intro ext suffix_walk_cong) simp
  have e2: "regex_tier rxm (r_regex r) = regex_tier rxm (r_regex r')"
    using regex_first_cong [OF eq] by (intro ext) (simp add: build_regex [OF r] build_regex [OF r'])
  have e3: "map_of (r_exact r) = map_of (r_exact r')" "map_of (r_wildcard r) = map_of (r_wildcard r')"
    using look [of TExact] look [of TWildcard] by (auto intro!: ext)
  have e4: "r_default r = r_default r'"
    using build_table(3) [OF r] build_table(3) [OF r'] by simp
  show ?thesis
    unfolding match_host_def walk unfolding e1 e2 e3 e4 ..
qed

section \<open>Properties\<close>

text \<open>A sample router: an exact host, a wildcard, a suffix, a regex and a default route. The regex
  engine of the samples matches a host equal to the pattern.\<close>

definition sample_regexes :: "string \<rightharpoonup> regex_def" where
  "sample_regexes = [''r'' \<mapsto> \<lparr>rd_pattern = ''x.re.org'', rd_scope_suffix = ['' *.Re.org. '']\<rparr>]"

definition sample_patterns :: "string list list" where
  "sample_patterns = [[''A.com'', ''*.b.com''], ['' .c.com'', '''', ''c.b.com''], [''@r'']]"

definition sample_router :: "string router" where
  "sample_router = (case build Some sample_patterns (Some 3) sample_regexes of
      Inr r \<Rightarrow> r | Inl _ \<Rightarrow> \<lparr>r_exact = [], r_wildcard = [], r_suffix = [], r_regex = [], r_default = None\<rparr>)"

lemma sample_build: "build Some sample_patterns (Some 3) sample_regexes = Inr sample_router"
  by code_simp

lemma sample_router_eq: "sample_router =
   \<lparr>r_exact = [(''c.b.com'', 1), (''a.com'', 0)], r_wildcard = [(''b.com'', 0)],
    r_suffix = [(''c.com'', 1)],
    r_regex = [\<lparr>rx_pattern = ''x.re.org'', rx_route = 2, rx_scope = [''*.re.org'']\<rparr>],
    r_default = Some 3\<rparr>"
  by code_simp

lemma sample_truthful: "regexes_truthful (=) sample_router"
  by (auto simp: sample_router_eq regexes_truthful_def host_in_scope_def is_label_def
      intro!: exI [of _ "''x''"])

text \<open>C5. Soundness of the wildcard check. If \<open>wildcard_confined\<close> accepts \<open>*.parent\<close> for a scope, and
  every regex only matches hosts of its declared scopes, then every host the wildcard covers is
  routed, and routed into the scope: no certificate for the wildcard lets a client reach the wrong
  upstream.\<close>

theorem wildcard_confined_sound:
  assumes "wildcard_confined rxm r parent S = Inr ()"
    and "regexes_truthful rxm r" and "is_normal parent"
    and "is_label l" and "is_normal (l @ CHR ''.'' # parent)"
  shows "\<exists>i. match_host rxm r (l @ CHR ''.'' # parent) = Some i \<and> S i"
  using assms unfolding is_normal_def by (intro wildcard_confined_host)

lemma wildcard_confined_sound_witness:
  "\<exists>i. match_host (=) sample_router ''x.d.com'' = Some i \<and> i \<in> {2, 3}"
proof -
  have "wildcard_confined (=) sample_router ''d.com'' (\<lambda>i. i \<in> {2, 3}) = Inr ()" by code_simp
  moreover have "is_normal ''d.com''" "is_label ''x''" "is_normal (''x'' @ CHR ''.'' # ''d.com'')"
    by code_simp+
  ultimately show ?thesis
    using wildcard_confined_sound [of "(=)" sample_router "''d.com''" "\<lambda>i. i \<in> {2, 3}" "''x''"]
      sample_truthful by simp
qed

text \<open>C21. The wildcard check is exact when there is no regex tier: on a router built from patterns
  whose keys are in normal form, \<open>*.parent\<close> is accepted precisely when every host it covers is
  routed into the scope, so a refusal is never gratuitous.\<close>

theorem wildcard_confined_exact:
  assumes "build rxc patterns dflt regexes = Inr r" and "r_regex r = []"
    and "\<forall>ps\<in>set patterns. \<forall>p\<in>set ps. \<forall>t k. pattern_key p = Some (t, k) \<longrightarrow> is_normal k"
    and "clean_host parent"
  shows "wildcard_confined rxm r parent S = Inr () \<longleftrightarrow>
    (\<forall>l. is_label l \<and> is_normal (l @ CHR ''.'' # parent) \<longrightarrow>
      (\<exists>i. match_host rxm r (l @ CHR ''.'' # parent) = Some i \<and> S i))"
proof
  assume "wildcard_confined rxm r parent S = Inr ()"
  moreover have "regexes_truthful rxm r" using assms(2) by (simp add: regexes_truthful_def)
  ultimately show "\<forall>l. is_label l \<and> is_normal (l @ CHR ''.'' # parent) \<longrightarrow>
      (\<exists>i. match_host rxm r (l @ CHR ''.'' # parent) = Some i \<and> S i)"
    using assms(4) by (auto simp: is_normal_def clean_host_normal intro: wildcard_confined_host)
next
  assume "\<forall>l. is_label l \<and> is_normal (l @ CHR ''.'' # parent) \<longrightarrow>
      (\<exists>i. match_host rxm r (l @ CHR ''.'' # parent) = Some i \<and> S i)"
  moreover have "keys_normal r"
    using build_keys_normal [OF assms(1)] assms(3) by (simp add: is_normal_def)
  ultimately show "wildcard_confined rxm r parent S = Inr ()"
    using assms(2,4) by (intro confined_if_all_route) (simp_all add: is_normal_def)
qed

definition plain_router :: "string router" where
  "plain_router = \<lparr>r_exact = [(''a.b.com'', 1)], r_wildcard = [(''b.com'', 0)], r_suffix = [],
     r_regex = [], r_default = None\<rparr>"

lemma wildcard_confined_exact_witness:
  "\<exists>l. is_label l \<and> is_normal (l @ CHR ''.'' # ''b.com'')
    \<and> match_host (=) plain_router (l @ CHR ''.'' # ''b.com'') \<noteq> Some 0"
proof -
  have "build Some [[''*.b.com''], [''a.b.com'']] None (\<lambda>_. None) = Inr plain_router"
    by code_simp
  moreover have "r_regex plain_router = []" by (simp add: plain_router_def)
  moreover have "\<forall>ps\<in>set [[''*.b.com''], [''a.b.com'']]. \<forall>p\<in>set ps. \<forall>t k.
      pattern_key p = Some (t, k) \<longrightarrow> is_normal k"
  proof -
    have "pattern_key ''*.b.com'' = Some (TWildcard, ''b.com'')" "is_normal ''b.com''"
      "pattern_key ''a.b.com'' = Some (TExact, ''a.b.com'')" "is_normal ''a.b.com''"
      by code_simp+
    then show ?thesis by auto
  qed
  moreover have "clean_host ''b.com''" by code_simp
  moreover have "wildcard_confined (=) plain_router ''b.com'' (\<lambda>i. i = 0) \<noteq> Inr ()"
    by code_simp
  ultimately show ?thesis
    using wildcard_confined_exact [of Some "[[''*.b.com''], [''a.b.com'']]" None "\<lambda>_. None"
        plain_router "''b.com''" "(=)" "\<lambda>i. i = 0"]
    by auto
qed

text \<open>C15. Routing precedence. On a normalised host an exact entry wins; failing that the wildcard
  entry of the parent; failing that the longest suffix entry that is the host or an ancestor of
  it; failing all three the first regex that matches, and last the default route.\<close>

theorem match_host_precedence:
  assumes "is_normal h" and "h \<noteq> []"
  shows "(\<forall>i. map_of (r_exact r) h = Some i \<longrightarrow> match_host rxm r h = Some i)
    \<and> (map_of (r_exact r) h = None \<longrightarrow>
        (\<forall>l p i. h = l @ CHR ''.'' # p \<and> CHR ''.'' \<notin> set l \<and> map_of (r_wildcard r) p = Some i \<longrightarrow>
           match_host rxm r h = Some i)
      \<and> ((\<forall>l p. h = l @ CHR ''.'' # p \<and> CHR ''.'' \<notin> set l \<longrightarrow> map_of (r_wildcard r) p = None) \<longrightarrow>
          (\<forall>d i. domain_suffix d h \<and> map_of (r_suffix r) d = Some i
             \<and> (\<forall>d'. domain_suffix d' h \<and> length d < length d' \<longrightarrow> map_of (r_suffix r) d' = None) \<longrightarrow>
             match_host rxm r h = Some i)
        \<and> ((\<forall>d. domain_suffix d h \<longrightarrow> map_of (r_suffix r) d = None) \<longrightarrow>
             match_host rxm r h = first_some [regex_tier rxm (r_regex r) h, r_default r])))"
proof -
  note ladder = match_host_ladder [of h rxm r]
  have uniq: "d = d'" if "domain_suffix d h" "domain_suffix d' h" "length d = length d'" for d d'
    using that by (auto simp: domain_suffix_def)
  have walk: "suffix_walk (r_suffix r) h = Some (d, i)"
    if d: "domain_suffix d h" "map_of (r_suffix r) d = Some i"
      and longest: "\<forall>d'. domain_suffix d' h \<and> length d < length d' \<longrightarrow> map_of (r_suffix r) d' = None"
    for d i
  proof -
    have "suffix_walk (r_suffix r) h \<noteq> None"
      using d suffix_walk_None [of "r_suffix r" h] by auto
    then obtain e j where e: "suffix_walk (r_suffix r) h = Some (e, j)"
      by auto
    then have e': "map_of (r_suffix r) e = Some j" "domain_suffix e h" "length d \<le> length e"
      using suffix_walk_Some [OF e] d by auto
    moreover have "length d = length e"
      using e' longest by (metis le_neq_implies_less option.distinct(1))
    ultimately have "e = d" using uniq d by metis
    then show ?thesis using e e' d by simp
  qed
  have wild: "Option.bind (split_once CHR ''.'' h) (\<lambda>(_, p). map_of (r_wildcard r) p) = None"
    if "\<forall>l p. h = l @ CHR ''.'' # p \<and> CHR ''.'' \<notin> set l \<longrightarrow> map_of (r_wildcard r) p = None"
    using that by (cases "split_once CHR ''.'' h") (auto simp: split_once_Some)
  show ?thesis
    using assms ladder walk wild suffix_walk_None [of "r_suffix r" h]
    by (auto simp: is_normal_def)
qed

lemma match_host_precedence_witness:
  "match_host (=) sample_router ''c.b.com'' = Some 1"
proof -
  have "is_normal ''c.b.com''" by code_simp
  moreover have "map_of (r_exact sample_router) ''c.b.com'' = Some 1" by code_simp
  ultimately show ?thesis
    using match_host_precedence [of "''c.b.com''" sample_router "(=)", THEN conjunct1] by simp
qed

text \<open>\<open>match_scope_pattern\<close> decides set intersection: it holds exactly when some host the
  wildcard covers is a host the regex's scope declaration speaks for.\<close>

theorem match_scope_pattern_exact:
  "match_scope_pattern scope parent \<longleftrightarrow>
     (\<exists>l. is_label l \<and> host_in_scope scope (l @ CHR ''.'' # parent))"
  by (rule match_scope_pattern_iff)

text \<open>A router that builds holds exactly the declared patterns: each keyed tier maps a key to a
  route if and only if that route declares a pattern of that tier with that key, no two routes
  declare the same key of one tier (such a table fails to build), and the default is the one
  given.\<close>

theorem build_tables:
  assumes "build rxc patterns dflt regexes = Inr r"
  shows "(map_of (table r t) k = Some i \<longleftrightarrow>
      i < length patterns \<and> (\<exists>p\<in>set (patterns ! i). pattern_key p = Some (t, k)))
    \<and> (\<forall>i j p q. i < length patterns \<and> j < length patterns \<and> p \<in> set (patterns ! i)
        \<and> q \<in> set (patterns ! j) \<and> pattern_key p = Some (t, k) \<and> pattern_key q = Some (t, k) \<longrightarrow> i = j)
    \<and> r_default r = dflt"
proof -
  have "i = j" if "i < length patterns" "j < length patterns" "p \<in> set (patterns ! i)"
      "q \<in> set (patterns ! j)" "pattern_key p = Some (t, k)" "pattern_key q = Some (t, k)" for i j p q
    using that build_lookup [OF assms, of t k i] build_lookup [OF assms, of t k j] by auto
  then show ?thesis
    using build_lookup [OF assms, of t k] build_table(3) [OF assms] by blast
qed

lemma build_tables_witness:
  "map_of (table sample_router TSuffix) ''c.com'' = Some 1 \<longleftrightarrow>
      1 < length sample_patterns \<and> (\<exists>p\<in>set (sample_patterns ! 1). pattern_key p = Some (TSuffix, ''c.com''))"
  using build_tables [OF sample_build, of TSuffix "''c.com''" 1] by blast

end
