(* ===== verification/NetAddr.thy ===== *)
theory NetAddr
  imports Prelude
begin

unbundle bit_operations_syntax

text \<open>
  The standard library's network addresses, as far as the program parses and prints them: the
  grammar of \<open>core::net\<close>'s parser (decimal octets without leading zeros, at most four hex digits
  per group, one \<open>::\<close>, an embedded IPv4 tail) and the canonical display form.
\<close>

type_synonym ipv4 = "32 word"
type_synonym ipv6 = "128 word"

datatype ip_addr = V4 ipv4 | V6 ipv6

datatype socket_addr = SockV4 ipv4 nat | SockV6 ipv6 nat nat

definition ipv4_of :: "nat \<Rightarrow> nat \<Rightarrow> nat \<Rightarrow> nat \<Rightarrow> ipv4" where
  "ipv4_of a b c d = of_nat (((a * 256 + b) * 256 + c) * 256 + d)"

definition ipv6_of :: "nat list \<Rightarrow> ipv6" where
  "ipv6_of gs = of_nat (foldl (\<lambda>a g. a * 65536 + g) 0 gs)"

definition octets4 :: "ipv4 \<Rightarrow> nat list" where
  "octets4 w = List.map (\<lambda>i. unat (drop_bit i w) mod 256) [24, 16, 8, 0]"

definition groups6 :: "ipv6 \<Rightarrow> nat list" where
  "groups6 w = List.map (\<lambda>i. unat (drop_bit i w) mod 65536) [112, 96, 80, 64, 48, 32, 16, 0]"

section \<open>Parsing\<close>

definition read_octet :: "string \<Rightarrow> (nat \<times> string) option" where
  "read_octet s =
     (let ds = takeWhile is_digit s in
      if ds = [] \<or> 3 < length ds \<or> 255 < dec_val ds \<or> (hd ds = CHR ''0'' \<and> 1 < length ds)
      then None else Some (dec_val ds, dropWhile is_digit s))"

fun read_sep_octets :: "nat \<Rightarrow> string \<Rightarrow> (nat list \<times> string) option" where
  "read_sep_octets 0 s = Some ([], s)"
| "read_sep_octets (Suc n) s =
     (case strip_prefix ''.'' s of None \<Rightarrow> None
      | Some t \<Rightarrow> (case read_octet t of None \<Rightarrow> None
        | Some (a, r) \<Rightarrow> (case read_sep_octets n r of None \<Rightarrow> None
          | Some (as, r') \<Rightarrow> Some (a # as, r'))))"

definition read_ipv4 :: "string \<Rightarrow> (ipv4 \<times> string) option" where
  "read_ipv4 s =
     (case read_octet s of None \<Rightarrow> None
      | Some (a, r) \<Rightarrow> (case read_sep_octets 3 r of
          Some ([b, c, d], r') \<Rightarrow> Some (ipv4_of a b c d, r')
        | _ \<Rightarrow> None))"

definition hex_digit_val :: "char \<Rightarrow> nat" where
  "hex_digit_val c = (if is_digit c then byte c - 48
     else if 97 \<le> byte c then byte c - 87 else byte c - 55)"

definition hex_val :: "string \<Rightarrow> nat" where
  "hex_val s = foldl (\<lambda>a c. a * 16 + hex_digit_val c) 0 s"

definition read_hextet :: "string \<Rightarrow> (nat \<times> string) option" where
  "read_hextet s =
     (let hs = takeWhile is_hexdigit s in
      if hs = [] \<or> 4 < length hs then None else Some (hex_val hs, dropWhile is_hexdigit s))"

text \<open>Read up to \<open>n\<close> groups, each but the first preceded by a colon; while two or more are left
  an IPv4 address is tried first and ends the run.\<close>

fun read_groups :: "bool \<Rightarrow> nat \<Rightarrow> string \<Rightarrow> nat list \<times> bool \<times> string" where
  "read_groups first 0 s = ([], False, s)"
| "read_groups first (Suc n) s =
     (case (if first then Some s else strip_prefix '':'' s) of
        None \<Rightarrow> ([], False, s)
      | Some t \<Rightarrow>
        (case (if 0 < n then read_ipv4 t else None) of
           Some (v, r) \<Rightarrow> ([unat (drop_bit 16 v), unat v mod 65536], True, r)
         | None \<Rightarrow>
           (case read_hextet t of None \<Rightarrow> ([], False, s)
            | Some (g, r) \<Rightarrow>
                (let (gs, v4, r') = read_groups False n r in (g # gs, v4, r')))))"

definition read_ipv6 :: "string \<Rightarrow> (ipv6 \<times> string) option" where
  "read_ipv6 s =
     (let (head, v4, r) = read_groups True 8 s in
      if length head = 8 then Some (ipv6_of head, r)
      else if v4 then None
      else case strip_prefix ''::'' r of
        None \<Rightarrow> None
      | Some r2 \<Rightarrow>
        (let (back, _, r3) = read_groups True (7 - length head) r2
         in Some (ipv6_of (head @ replicate (8 - length head - length back) 0 @ back), r3)))"

definition whole :: "('a \<times> string) option \<Rightarrow> 'a option" where
  "whole p = (case p of Some (x, []) \<Rightarrow> Some x | _ \<Rightarrow> None)"

definition parse_ipv4 :: "string \<Rightarrow> ipv4 option" where
  "parse_ipv4 s = (if 15 < length s then None else whole (read_ipv4 s))"

definition parse_ipv6 :: "string \<Rightarrow> ipv6 option" where
  "parse_ipv6 s = whole (read_ipv6 s)"

definition parse_ip :: "string \<Rightarrow> ip_addr option" where
  "parse_ip s = (case read_ipv4 s of
      Some (v, r) \<Rightarrow> if r = [] then Some (V4 v) else None
    | None \<Rightarrow> map_option V6 (parse_ipv6 s))"

definition is_ip_literal :: "string \<Rightarrow> bool" where
  "is_ip_literal s \<longleftrightarrow> parse_ip s \<noteq> None"

text \<open>\<open>:port\<close> of a socket address: digits, leading zeros allowed.\<close>

definition read_port :: "string \<Rightarrow> nat option" where
  "read_port s = (case strip_prefix '':'' s of None \<Rightarrow> None
     | Some ds \<Rightarrow> if all_digits ds \<and> dec_val ds \<le> 65535 then Some (dec_val ds) else None)"

definition read_scope_id :: "string \<Rightarrow> (nat \<times> string) option" where
  "read_scope_id s = (case strip_prefix ''%'' s of None \<Rightarrow> Some (0, s)
     | Some t \<Rightarrow> (let ds = takeWhile is_digit t in
         if ds = [] \<or> 2 ^ 32 \<le> dec_val ds then Some (0, s) else Some (dec_val ds, dropWhile is_digit t)))"

definition parse_sockv4 :: "string \<Rightarrow> socket_addr option" where
  "parse_sockv4 s = (case read_ipv4 s of None \<Rightarrow> None
     | Some (v, r) \<Rightarrow> map_option (SockV4 v) (read_port r))"

definition parse_sockv6 :: "string \<Rightarrow> socket_addr option" where
  "parse_sockv6 s = (case strip_prefix ''['' s of None \<Rightarrow> None
     | Some t \<Rightarrow> (case read_ipv6 t of None \<Rightarrow> None
       | Some (v, r) \<Rightarrow> (case read_scope_id r of None \<Rightarrow> None
         | Some (sid, r2) \<Rightarrow> (case strip_prefix '']'' r2 of None \<Rightarrow> None
           | Some r3 \<Rightarrow> map_option (SockV6 v sid) (read_port r3)))))"

definition parse_sock :: "string \<Rightarrow> socket_addr option" where
  "parse_sock s = first_some [parse_sockv4 s, parse_sockv6 s]"

section \<open>Printing\<close>

definition show_ipv4 :: "ipv4 \<Rightarrow> string" where
  "show_ipv4 w = join ''.'' (List.map show_nat (octets4 w))"

definition hex_digit :: "nat \<Rightarrow> char" where
  "hex_digit n = (if n < 10 then char_of (48 + n) else char_of (87 + n))"

fun show_hex :: "nat \<Rightarrow> string" where
  "show_hex n = (if n < 16 then [hex_digit n] else show_hex (n div 16) @ [hex_digit (n mod 16)])"

declare show_hex.simps [simp del]

text \<open>The leftmost longest run of zero groups, as start and length.\<close>

fun zero_runs :: "nat \<Rightarrow> nat list \<Rightarrow> (nat \<times> nat) \<Rightarrow> (nat \<times> nat) \<Rightarrow> nat \<times> nat" where
  "zero_runs i [] cur best = best"
| "zero_runs i (g # gs) cur best =
     (if g = 0 then
        (let cur' = (if snd cur = 0 then (i, 1) else (fst cur, snd cur + 1))
         in zero_runs (Suc i) gs cur' (if snd best < snd cur' then cur' else best))
      else zero_runs (Suc i) gs (0, 0) best)"

definition show_ipv6 :: "ipv6 \<Rightarrow> string" where
  "show_ipv6 w =
     (let gs = groups6 w; v4 = of_nat (gs ! 6 * 65536 + gs ! 7) :: ipv4 in
      if take 6 gs = [0, 0, 0, 0, 0, 65535] then ''::ffff:'' @ show_ipv4 v4
      else
        (let (st, ln) = zero_runs 0 gs (0, 0) (0, 0) in
         if 1 < ln then join '':'' (List.map show_hex (take st gs)) @ ''::''
                         @ join '':'' (List.map show_hex (drop (st + ln) gs))
         else join '':'' (List.map show_hex gs)))"

fun show_ip :: "ip_addr \<Rightarrow> string" where
  "show_ip (V4 v) = show_ipv4 v"
| "show_ip (V6 v) = show_ipv6 v"

section \<open>Facts\<close>

lemma hex_digit_val_digit: "n < 16 \<Longrightarrow> is_hexdigit (hex_digit n) \<and> hex_digit_val (hex_digit n) = n"
  by (auto simp: hex_digit_def hex_digit_val_def is_hexdigit_def is_digit_def)

lemma hex_val_snoc: "hex_val (s @ [c]) = hex_val s * 16 + hex_digit_val c"
  by (simp add: hex_val_def)

lemma hex_val_show_hex [simp]: "hex_val (show_hex n) = n"
proof (induction n rule: show_hex.induct)
  case (1 n)
  show ?case
  proof (cases "n < 16")
    case True
    then show ?thesis by (subst show_hex.simps) (simp add: hex_val_def hex_digit_val_digit)
  next
    case False
    then show ?thesis using 1 by (subst show_hex.simps) (simp add: hex_val_snoc hex_digit_val_digit)
  qed
qed

lemma show_hex_hexdigits: "c \<in> set (show_hex n) \<Longrightarrow> is_hexdigit c"
proof (induction n rule: show_hex.induct)
  case (1 n)
  then show ?case
    by (subst (asm) (2) show_hex.simps) (auto simp: hex_digit_val_digit split: if_splits)
qed

lemma show_hex_nonempty [simp]: "show_hex n \<noteq> []"
  by (subst show_hex.simps) simp

lemma length_show_hex: "n < 16 ^ k \<Longrightarrow> 0 < k \<Longrightarrow> length (show_hex n) \<le> k"
proof (induction n arbitrary: k rule: show_hex.induct)
  case (1 n)
  show ?case
  proof (cases "n < 16")
    case True
    then show ?thesis using 1 by (subst show_hex.simps) simp
  next
    case False
    obtain j where j: "k = Suc j" using 1 by (cases k) auto
    have "0 < j" using False 1(2) j by (cases j) auto
    moreover have "n div 16 < 16 ^ j"
      using 1(2) j by (simp add: div_less_iff_less_mult mult.commute)
    ultimately have "length (show_hex (n div 16)) \<le> j"
      using 1(1) False by blast
    then show ?thesis using False j by (subst show_hex.simps) simp
  qed
qed

lemma read_hextet_show:
  assumes "n < 65536" "r = [] \<or> \<not> is_hexdigit (hd r)"
  shows "read_hextet (show_hex n @ r) = Some (n, r)"
proof -
  have "takeWhile is_hexdigit (show_hex n @ r) = show_hex n"
    using assms(2) show_hex_hexdigits by (cases r) (auto simp: takeWhile_append2)
  moreover have "dropWhile is_hexdigit (show_hex n @ r) = r"
    using assms(2) show_hex_hexdigits by (cases r) (auto simp: dropWhile_append2)
  ultimately show ?thesis
    using length_show_hex [of n 4] assms(1) by (simp add: read_hextet_def)
qed

lemma read_groups_length: "length (fst (read_groups b n s)) \<le> n"
proof (induction n arbitrary: b s)
  case 0
  then show ?case by simp
next
  case (Suc n)
  then show ?case
    by (auto split: option.splits prod.splits) (metis fst_conv)+
qed

lemma read_sep_octets_nodot: "CHR ''.'' \<notin> set s \<Longrightarrow> read_sep_octets (Suc n) s = None"
  by (cases s) (auto split: option.splits)

lemma read_ipv4_nodot:
  assumes "CHR ''.'' \<notin> set s"
  shows "read_ipv4 s = None"
proof -
  have "CHR ''.'' \<notin> set r" if "read_octet s = Some (a, r)" for a r
    using assms that set_dropWhileD by (fastforce simp: read_octet_def Let_def split: if_splits)
  then show ?thesis
    using read_sep_octets_nodot [of _ 2]
    by (auto simp: read_ipv4_def numeral_3_eq_3 eval_nat_numeral split: option.splits)
qed

lemma hexdigit_not_sep: "is_hexdigit c \<Longrightarrow> c \<noteq> CHR '':'' \<and> c \<noteq> CHR ''.'' \<and> c \<noteq> CHR ''/''"
  by (auto simp: is_hexdigit_def is_digit_def)

definition show_groups :: "nat list \<Rightarrow> string" where
  "show_groups gs = join '':'' (List.map show_hex gs)"

lemma show_groups_one: "show_groups [g] = show_hex g"
  by (simp add: show_groups_def)

lemma show_groups_Cons: "gs \<noteq> [] \<Longrightarrow> show_groups (g # gs) = show_hex g @ CHR '':'' # show_groups gs"
  by (cases gs) (auto simp: show_groups_def)

lemma show_groups_set: "c \<in> set (show_groups gs) \<Longrightarrow> is_hexdigit c \<or> c = CHR '':''"
proof (induction gs)
  case Nil
  then show ?case by (simp add: show_groups_def)
next
  case (Cons g gs)
  then show ?case
    by (cases "gs = []") (auto simp: show_groups_one show_groups_Cons dest: show_hex_hexdigits)
qed

lemma show_groups_nodot: "CHR ''.'' \<notin> set (show_groups gs)"
  using show_groups_set hexdigit_not_sep by fastforce

lemma read_groups_show:
  assumes "\<forall>g\<in>set gs. g < 65536" "length gs \<le> n" "gs \<noteq> []"
  shows "read_groups b n ((if b then [] else '':'') @ show_groups gs) = (gs, False, [])"
  using assms
proof (induction gs arbitrary: n b)
  case Nil
  then show ?case by simp
next
  case (Cons g gs)
  obtain m where n: "n = Suc m" using Cons.prems by (cases n) auto
  have v4: "read_ipv4 (show_groups (g # gs)) = None"
    by (intro read_ipv4_nodot show_groups_nodot)
  show ?case
  proof (cases "gs = []")
    case True
    have "read_groups False m [] = ([], False, [])" by (cases m) auto
    then show ?thesis
      using True Cons.prems n v4 read_hextet_show [of g "[]"] by (auto simp: show_groups_one)
  next
    case False
    have "read_hextet (show_groups (g # gs)) = Some (g, CHR '':'' # show_groups gs)"
      using Cons.prems False read_hextet_show [of g "CHR '':'' # show_groups gs"]
      by (simp add: show_groups_Cons is_hexdigit_def is_digit_def)
    moreover have "read_groups False m (CHR '':'' # show_groups gs) = (gs, False, [])"
      using Cons.IH [of m False] Cons.prems False n by simp
    ultimately show ?thesis
      using n v4 False by (cases b; cases m) simp_all
  qed
qed

text \<open>The groups of an address assembled from groups are those groups.\<close>

lemma foldl_groups_bound:
  "\<forall>g\<in>set gs. g < 65536 \<Longrightarrow> foldl (\<lambda>a g. a * 65536 + g) 0 gs < (65536 :: nat) ^ length gs"
proof (induction gs rule: rev_induct)
  case Nil
  then show ?case by simp
next
  case (snoc g gs)
  then have "foldl (\<lambda>a g. a * 65536 + g) 0 gs + 1 \<le> (65536 :: nat) ^ length gs" "g < 65536"
    by auto
  then have "foldl (\<lambda>a g. a * 65536 + g) 0 gs * 65536 + g < 65536 ^ length gs * 65536"
    by linarith
  then show ?case by simp
qed

lemma unat_ipv6_of:
  assumes "\<forall>g\<in>set gs. g < 65536" "length gs = 8"
  shows "unat (ipv6_of gs) = foldl (\<lambda>a g. a * 65536 + g) 0 gs"
  using foldl_groups_bound [OF assms(1)] assms(2)
  by (simp add: ipv6_of_def unat_of_nat take_bit_eq_mod)

lemma foldl_groups_div:
  "\<forall>g\<in>set ys. g < 65536 \<Longrightarrow>
   foldl (\<lambda>a g. a * 65536 + g) 0 (xs @ ys) div (65536 :: nat) ^ length ys
     = foldl (\<lambda>a g. a * 65536 + g) 0 xs"
proof (induction ys rule: rev_induct)
  case Nil
  then show ?case by simp
next
  case (snoc y ys)
  have "(m * 65536 + y) div 65536 ^ Suc n = m div (65536 :: nat) ^ n" for m n
    using snoc.prems by (simp add: div_mult2_eq)
  then show ?case
    using snoc by (simp del: foldl_append add: foldl_append [of _ _ "xs @ ys" "[y]", simplified])
qed

lemma groups6_ipv6_of:
  assumes "\<forall>g\<in>set gs. g < 65536" "length gs = 8"
  shows "groups6 (ipv6_of gs) = gs"
proof (rule nth_equalityI)
  show "length (groups6 (ipv6_of gs)) = length gs"
    using assms(2) by (simp add: groups6_def)
next
  fix i assume "i < length (groups6 (ipv6_of gs))"
  then have i: "i < 8" by (simp add: groups6_def)
  have sh: "[112, 96, 80, 64, 48, 32, 16, 0] ! i = 16 * (7 - i)"
    using i by (auto simp: less_Suc_eq numeral_eq_Suc)
  have split: "length (drop (Suc i) gs) = 7 - i"
    "take (Suc i) gs = take i gs @ [gs ! i]" "take (Suc i) gs @ drop (Suc i) gs = gs"
    using i assms(2) by (simp_all add: take_Suc_conv_app_nth [symmetric])
  have small: "\<forall>g\<in>set (drop (Suc i) gs). g < 65536"
    using assms(1) by (meson in_set_dropD)
  have "unat (drop_bit (16 * (7 - i)) (ipv6_of gs))
      = foldl (\<lambda>a g. a * 65536 + g) 0 gs div 65536 ^ (7 - i)"
    unfolding unat_drop_bit_eq unat_ipv6_of [OF assms] drop_bit_eq_div [where 'a = nat] by (simp add: power_mult)
  also have "\<dots> = foldl (\<lambda>a g. a * 65536 + g) 0 (take (Suc i) gs)"
    using foldl_groups_div [OF small, of "take (Suc i) gs"]
    by (simp only: append_take_drop_id split(1))
  also have "\<dots> mod 65536 = gs ! i"
    using split(2) assms i by simp
  finally have "unat (drop_bit (16 * (7 - i)) (ipv6_of gs)) mod 65536 = gs ! i" .
  moreover have "groups6 w ! i = unat (drop_bit ([112, 96, 80, 64, 48, 32, 16, 0] ! i) w) mod 65536" for w
    unfolding groups6_def by (rule nth_map) (use i in simp)
  ultimately show "groups6 (ipv6_of gs) ! i = gs ! i"
    by (simp only: sh)
qed

text \<open>An IPv6 literal always contains a colon.\<close>

lemma read_octet_rest: "read_octet s = Some (a, r) \<Longrightarrow> set r \<subseteq> set s"
  by (auto simp: read_octet_def Let_def split: if_splits dest: set_dropWhileD)

lemma read_sep_octets_rest: "read_sep_octets n s = Some (as, r) \<Longrightarrow> set r \<subseteq> set s"
proof (induction n arbitrary: s as)
  case (Suc n)
  then obtain t a t' as' where t: "strip_prefix ''.'' s = Some t" "read_octet t = Some (a, t')"
      "read_sep_octets n t' = Some (as', r)"
    by (auto split: option.splits)
  then show ?case
    using Suc.IH [OF t(3)] read_octet_rest [OF t(2)] by (auto simp: strip_prefix_Some)
qed simp

lemma read_ipv4_rest: "read_ipv4 s = Some (v, r) \<Longrightarrow> set r \<subseteq> set s"
  using read_octet_rest read_sep_octets_rest
  by (auto simp: read_ipv4_def split: option.splits list.splits prod.splits) blast

lemma read_groups_nocolon:
  assumes "CHR '':'' \<notin> set s" "read_groups True n s = (gs, v4, r)"
  shows "length gs \<le> 2 \<and> set r \<subseteq> set s"
proof (cases n)
  case (Suc m)
  have stop: "read_groups False m t = ([], False, t)" if "set t \<subseteq> set s" for t m
    using assms(1) that by (cases m; cases "strip_prefix '':'' t") (auto simp: strip_prefix_Some)
  show ?thesis
  proof (cases "if 0 < m then read_ipv4 s else None")
    case (Some vr)
    then show ?thesis
      using assms(2) Suc read_ipv4_rest [of s] by (cases vr) (auto split: if_splits)
  next
    case nov4: None
    show ?thesis
    proof (cases "read_hextet s")
      case None
      then show ?thesis using assms(2) Suc nov4 by auto
    next
      case (Some gr)
      obtain g t where gr: "gr = (g, t)" by fastforce
      have "set t \<subseteq> set s"
        using Some gr by (auto simp: read_hextet_def Let_def split: if_splits dest: set_dropWhileD)
      then show ?thesis
        using assms(2) Suc nov4 Some gr stop [of t m] by auto
    qed
  qed
qed (use assms in auto)

lemma parse_ipv6_colon: "parse_ipv6 s = Some a \<Longrightarrow> CHR '':'' \<in> set s"
proof (rule ccontr)
  assume s: "parse_ipv6 s = Some a" "CHR '':'' \<notin> set s"
  obtain gs v4 r where g: "read_groups True 8 s = (gs, v4, r)" by (cases "read_groups True 8 s") auto
  then have "length gs \<le> 2" "set r \<subseteq> set s" using read_groups_nocolon [OF s(2)] by auto
  then have "length gs \<noteq> 8" "strip_prefix ''::'' r = None"
    using s(2) by (auto simp: strip_prefix_None prefix_def)
  then show False using s(1) g by (auto simp: parse_ipv6_def read_ipv6_def whole_def split: if_splits)
qed

end
