(* ===== verification/ConfigTypes.thy ===== *)
theory ConfigTypes
  imports Complex_Main Router NetAddr
begin

text \<open>
  The configuration document and the flattened settings derived from it: the types of
  \<open>src/src/config.rs\<close>, with the source's fields under a short prefix per record.

  A \<open>HashMap<String, T>\<close> of the document is an association list with distinct keys, in the order
  the map happens to be iterated; a \<open>Duration\<close> is a number of milliseconds; a \<open>PathBuf\<close> is its
  text. An \<open>f64\<close> of the document is a rational or one of the non-finite values, since the
  configuration only compares it.
\<close>

section \<open>Enumerations\<close>

datatype route_type = RtEch | RtTls | RtHttp | RtRaw

datatype sni_policy = SniReflect | SniFixed string | SniOmit

datatype h2_probe = H2Off | H2Warn | H2Require

datatype ech_mode = EchDoh | EchStatic | EchDohWithFallback

datatype verify_mode = VFull | VChain | VNone

datatype address_family = Dual | Ipv4Only | Ipv6Only

datatype fail_policy = FailClose | FailSystemOutbound | FailPassthrough socket_addr

datatype selector = SelIndex nat | SelTag string

datatype f64 = Finite rat | NonFinite

section \<open>Scopes of the document\<close>

record ech_config =
  ec_mode :: "ech_mode option"
  ec_config :: "string option"
  ec_ech_domain :: "string option"
  ec_require_ech :: "bool option"
  ec_max_retries :: "nat option"
  ec_ech_refresh :: "nat option"
  ec_ech_resolver :: "string option"

record http2_config =
  hc_enabled :: "bool option"
  hc_probe :: "h2_probe option"
  hc_probe_timeout :: "nat option"

record verify_config =
  vc_mode :: "verify_mode option"
  vc_name :: "string option"
  vc_pins :: "string list option"
  vc_ca_file :: "string option"
  vc_trust_webpki :: "bool option"

record common_opts =
  co_resolver :: "string option"
  co_ech_resolver :: "string option"
  co_addr_resolver :: "string option"
  co_ech_refresh :: "nat option"
  co_nat64_prefix :: "string option"
  co_address_family :: "address_family option"
  co_require_ech :: "bool option"
  co_connect_timeout :: "nat option"
  co_idle_timeout :: "nat option"

record template =
  t_route_type :: "route_type option"
  t_upstream :: "string option"
  t_override_sni :: "string option"
  t_cert_file :: "string option"
  t_key_file :: "string option"
  t_ech :: "ech_config option"
  t_http2 :: "http2_config option"
  t_verify :: "verify_config option"
  t_select :: "selector list option"
  t_common :: common_opts
  t_fail :: "fail_policy option"

record route =
  rt_name :: "string option"
  rt_use_template :: "string option"
  rt_route_type :: "route_type option"
  rt_match_sni :: "string list"
  rt_upstream :: "string option"
  rt_override_sni :: "string option"
  rt_ech :: "ech_config option"
  rt_http2 :: "http2_config option"
  rt_verify :: "verify_config option"
  rt_cert_file :: "string option"
  rt_key_file :: "string option"
  rt_select :: "selector list option"
  rt_common :: common_opts
  rt_fail :: "fail_policy option"

record listener =
  ln_addr :: socket_addr
  ln_use_template :: "string option"
  ln_common :: common_opts
  ln_ech :: "ech_config option"
  ln_http2 :: "http2_config option"
  ln_verify :: "verify_config option"
  ln_routes :: "route list"
  ln_default_route :: "route option"

record global =
  g_log :: string
  g_common :: common_opts
  g_ech :: "ech_config option"
  g_http2 :: "http2_config option"
  g_verify :: "verify_config option"
  g_unmatched :: fail_policy

record resolver_def =
  rd_endpoint :: string
  rd_upstream :: "string option"
  rd_override_sni :: "string option"
  rd_bootstrap :: "string option"
  rd_ech :: "ech_config option"
  rd_verify :: "verify_config option"
  rd_address_family :: "address_family option"
  rd_nat64_prefix :: "string option"
  rd_connect_timeout :: "nat option"

record tagged_target =
  tt_addr :: string
  tt_tags :: "string list"

datatype target_def = TargetAddr string | TargetTagged tagged_target

record probe_def =
  pd_mode :: string
  pd_port :: "nat option"
  pd_sni :: "string option"
  pd_url :: "string option"
  pd_expect_status :: "nat list"
  pd_timeout :: "nat option"
  pd_ech :: "ech_config option"
  pd_verify :: "verify_config option"
  pd_interval :: "nat option"
  pd_degraded_interval :: "nat option"
  pd_fail_threshold :: "nat option"
  pd_max_concurrent_probes :: "nat option"
  pd_score_payload_bytes :: "nat option"
  pd_throughput_discount :: "f64 option"
  pd_rtt_process_noise :: "f64 option"
  pd_rtt_obs_noise :: "f64 option"

record pool_nat64_def =
  pn_prefixes :: "string list"
  pn_from :: "nat list option"
  pn_timeout :: "nat option"

record pool_def =
  po_targets :: "target_def list"
  po_fallback :: "nat option"
  po_probe :: probe_def
  po_nat64 :: "pool_nat64_def option"
  po_resolver :: "string option"

record ca_config =
  ca_cert_path :: string
  ca_key_path :: string
  ca_common_name :: string
  ca_organization :: string
  ca_country :: string
  ca_leaf_validity_days :: nat
  ca_install_to_system_root :: bool

record store_config =
  sc_enabled :: bool
  sc_dir :: string
  sc_renew_margin_days :: nat

record cache_config =
  cc_capacity :: nat
  cc_ttl_secs :: nat

record config =
  c_global :: global
  c_ca :: ca_config
  c_store :: store_config
  c_cache :: cache_config
  c_templates :: "(string \<times> template) list"
  c_pools :: "(string \<times> pool_def) list"
  c_resolvers :: "(string \<times> resolver_def) list"
  c_regexes :: "(string \<times> regex_def) list"
  c_listeners :: "listener list"

section \<open>Flattened settings\<close>

record effective_verify =
  ev_mode :: verify_mode
  ev_name :: "string option"
  ev_pins :: "string list"
  ev_ca_file :: "string option"
  ev_trust_webpki :: bool

record effective_ech =
  ee_mode :: ech_mode
  ee_config :: "string option"
  ee_ech_domain :: "string option"
  ee_max_retries :: nat

record effective_http2 =
  eh_enabled :: bool
  eh_probe :: h2_probe
  eh_probe_timeout :: nat

record effective =
  ef_ech_resolver :: "string option"
  ef_addr_resolver :: "string option"
  ef_ech_refresh :: nat
  ef_nat64_prefix :: "string option"
  ef_address_family :: address_family
  ef_require_ech :: bool
  ef_connect_timeout :: nat
  ef_idle_timeout :: nat
  ef_fail :: fail_policy

record ech_shared =
  es_require_ech :: "bool option"
  es_ech_refresh :: "nat option"
  es_ech_resolver :: "string option"

record effective_resolver =
  er_name :: string
  er_endpoint :: string
  er_upstream :: "string option"
  er_sni_policy :: sni_policy
  er_bootstrap :: "string option"
  er_address_family :: address_family
  er_nat64_prefix :: "string option"
  er_connect_timeout :: nat
  er_ech :: "effective_ech option"
  er_require_ech :: bool
  er_ech_refresh :: nat
  er_ech_resolver :: "string option"
  er_verify :: effective_verify

record effective_probe_ech =
  ep_settings :: effective_ech
  ep_require_ech :: bool
  ep_ech_refresh :: nat
  ep_ech_resolver :: "string option"

section \<open>Defaults\<close>

definition default_log :: string where
  "default_log = ''info''"

definition default_ca_common_name :: string where
  "default_ca_common_name = ''SNI Gate Local CA''"

definition default_leaf_validity_days :: nat where
  "default_leaf_validity_days = 397"

definition default_store_dir :: string where
  "default_store_dir = ''certs''"

definition default_renew_margin_days :: nat where
  "default_renew_margin_days = 30"

definition default_cache_capacity :: nat where
  "default_cache_capacity = 8192"

definition default_cache_ttl_secs :: nat where
  "default_cache_ttl_secs = 24 * 60 * 60"

definition default_ech_refresh :: nat where
  "default_ech_refresh = 3600 * 1000"

definition default_connect_timeout :: nat where
  "default_connect_timeout = 15 * 1000"

definition default_idle_timeout :: nat where
  "default_idle_timeout = 300 * 1000"

definition default_probe_timeout :: nat where
  "default_probe_timeout = 3 * 1000"

definition default_effective_verify :: effective_verify where
  "default_effective_verify =
     \<lparr>ev_mode = VFull, ev_name = None, ev_pins = [], ev_ca_file = None, ev_trust_webpki = True\<rparr>"

definition default_store_config :: store_config where
  "default_store_config =
     \<lparr>sc_enabled = True, sc_dir = default_store_dir, sc_renew_margin_days = default_renew_margin_days\<rparr>"

definition default_cache_config :: cache_config where
  "default_cache_config = \<lparr>cc_capacity = default_cache_capacity, cc_ttl_secs = default_cache_ttl_secs\<rparr>"

section \<open>Small operations\<close>

definition sni_resolve :: "string option \<Rightarrow> sni_policy" where
  "sni_resolve override_sni =
     (case override_sni of None \<Rightarrow> SniReflect
      | Some s \<Rightarrow> if trim s = [] then SniOmit else SniFixed (trim s))"

fun verify_mode_str :: "verify_mode \<Rightarrow> string" where
  "verify_mode_str VFull = ''full''"
| "verify_mode_str VChain = ''chain''"
| "verify_mode_str VNone = ''none''"

fun target_addr :: "target_def \<Rightarrow> string" where
  "target_addr (TargetAddr s) = s"
| "target_addr (TargetTagged t) = tt_addr t"

fun target_tags :: "target_def \<Rightarrow> string list" where
  "target_tags (TargetAddr s) = []"
| "target_tags (TargetTagged t) = tt_tags t"

fun sock_port :: "socket_addr \<Rightarrow> nat" where
  "sock_port (SockV4 _ p) = p"
| "sock_port (SockV6 _ _ p) = p"

fun sock_ip :: "socket_addr \<Rightarrow> ip_addr" where
  "sock_ip (SockV4 a _) = V4 a"
| "sock_ip (SockV6 a _ _) = V6 a"

text \<open>The two shapes a fail policy is written in, and the modes they select.\<close>

datatype fail_repr = FailStr string | FailTable string "socket_addr option"

datatype fail_error = PassthroughNeedsAddr | UnknownFailMode string

definition fail_policy_of :: "fail_repr \<Rightarrow> (fail_error, fail_policy) result" where
  "fail_policy_of r =
     (let (m, addr) = (case r of FailStr s \<Rightarrow> (s, None) | FailTable s a \<Rightarrow> (s, a)) in
      if m = ''close'' then Inr FailClose
      else if m = ''system-outbound'' then Inr FailSystemOutbound
      else if m = ''passthrough'' then
        (case addr of None \<Rightarrow> Inl PassthroughNeedsAddr | Some a \<Rightarrow> Inr (FailPassthrough a))
      else Inl (UnknownFailMode m))"

end
