(* ===== verification/Upstream.thy ===== *)
theory Upstream
  imports ConfigTypes
begin

text \<open>
  The address forms of the configuration (\<open>src/src/config.rs\<close>): \<open>split_host_port\<close>, the \<open>upstream\<close>
  forms and their resolution against a listener's port, listener bind addresses, and the syntax
  check of a regex's scope patterns.
\<close>

datatype upstream_host = Reflect | FixedHost string | PoolRef string

record upstream_spec =
  us_host :: upstream_host
  us_port :: "nat option"

record resolved_upstream =
  ru_host :: upstream_host
  ru_port :: nat

section \<open>Operations\<close>

definition split_host_port :: "string \<Rightarrow> (string \<times> nat) option" where
  "split_host_port s0 =
     (let s = trim s0 in
      case strip_prefix ''['' s of
        Some rest \<Rightarrow>
          (case split_once CHR '']'' rest of None \<Rightarrow> None
           | Some (host, tail) \<Rightarrow>
             (case parse_ipv6 host of None \<Rightarrow> None
              | Some _ \<Rightarrow>
                (case strip_prefix '':'' tail of None \<Rightarrow> None
                 | Some port \<Rightarrow> map_option (Pair host) (parse_u16 port))))
      | None \<Rightarrow>
          (case rsplit_once CHR '':'' s of None \<Rightarrow> None
           | Some (host, port) \<Rightarrow>
             if host = [] \<or> CHR '':'' \<in> set host then None
             else map_option (Pair host) (parse_u16 port)))"

definition parse_pool_ref :: "string \<Rightarrow> upstream_spec option" where
  "parse_pool_ref rest =
     (case (case rsplit_once CHR '':'' rest of
              Some (n, p) \<Rightarrow> map_option (\<lambda>q. (n, Some q)) (parse_u16 p)
            | None \<Rightarrow> Some (rest, None)) of
        None \<Rightarrow> None
      | Some (name, port) \<Rightarrow>
          if trim name = [] then None
          else Some \<lparr>us_host = PoolRef (trim name), us_port = port\<rparr>)"

definition parse_upstream :: "string \<Rightarrow> upstream_spec option" where
  "parse_upstream s0 =
     (let s = trim s0 in
      if s = [] then None
      else case strip_prefix ''@'' s of
        Some rest \<Rightarrow> parse_pool_ref rest
      | None \<Rightarrow>
          if list_all is_digit s
          then map_option (\<lambda>p. \<lparr>us_host = Reflect, us_port = Some p\<rparr>) (parse_u16 s)
          else if CHR '':'' \<in> set s
          then map_option (\<lambda>(host, port). \<lparr>us_host = FixedHost host, us_port = Some port\<rparr>) (split_host_port s)
          else Some \<lparr>us_host = FixedHost s, us_port = None\<rparr>)"

definition resolved_upstream_from :: "string option \<Rightarrow> nat \<Rightarrow> resolved_upstream option" where
  "resolved_upstream_from spec listener_port =
     (case spec of None \<Rightarrow> Some \<lparr>ru_host = Reflect, ru_port = listener_port\<rparr>
      | Some sp \<Rightarrow> map_option (\<lambda>parsed. \<lparr>ru_host = us_host parsed,
           ru_port = (case us_port parsed of Some p \<Rightarrow> p | None \<Rightarrow> listener_port)\<rparr>) (parse_upstream sp))"

text \<open>The integer forms accepted where a port or an address is written: the value is bounded to a
  port before it is stored.\<close>

datatype scalar = ScStr string | ScInt int

datatype addr_error = AddrEmpty | PortOutOfRange | AddrMalformed

definition de_upstream :: "scalar option \<Rightarrow> (addr_error, string option) result" where
  "de_upstream v =
     (case v of None \<Rightarrow> Inr None
      | Some (ScStr s) \<Rightarrow> Inr (Some s)
      | Some (ScInt n) \<Rightarrow> if 0 \<le> n \<and> n \<le> 65535 then Inr (Some (show_nat (nat n))) else Inl PortOutOfRange)"

definition parse_listen_addr :: "string \<Rightarrow> (addr_error, socket_addr) result" where
  "parse_listen_addr s0 =
     (let s = trim s0 in
      if s = [] then Inl AddrEmpty
      else if list_all is_digit s
      then map_sum id (SockV4 0) (ok_or PortOutOfRange (parse_u16 s))
      else ok_or AddrMalformed (parse_sock s))"

definition de_listen_addr :: "scalar \<Rightarrow> (addr_error, socket_addr) result" where
  "de_listen_addr v =
     (case v of ScStr s \<Rightarrow> parse_listen_addr s
      | ScInt n \<Rightarrow> if 0 \<le> n \<and> n \<le> 65535 then Inr (SockV4 0 (nat n)) else Inl PortOutOfRange)"

datatype scope_error =
    ScopeEmpty | ScopePrefixOnly | ScopeBareTld | ScopeEmptyLabel | ScopeHyphen string | ScopeChars string

definition check_scope_label :: "string \<Rightarrow> (scope_error, unit) result" where
  "check_scope_label label =
     (if label = [] then Inl ScopeEmptyLabel
      else if starts_with ''-'' label \<or> ends_with ''-'' label then Inl (ScopeHyphen label)
      else if \<not> list_all (\<lambda>c. is_alnum c \<or> c = CHR ''-'') label then Inl (ScopeChars label)
      else Inr ())"

definition validate_scope_pattern :: "string \<Rightarrow> (scope_error, unit) result" where
  "validate_scope_pattern scope0 =
     (let scope = trim scope0 in
      if scope = [] then Inl ScopeEmpty
      else let domain = (case strip_prefix ''*.'' scope of Some rest \<Rightarrow> rest
                         | None \<Rightarrow> (case strip_prefix ''.'' scope of Some rest \<Rightarrow> rest | None \<Rightarrow> scope)) in
        if domain = [] then Inl ScopePrefixOnly
        else if CHR ''.'' \<notin> set domain then Inl ScopeBareTld
        else check_all check_scope_label (split_char CHR ''.'' domain))"

section \<open>Printing upstreams\<close>

fun show_upstream :: "upstream_host \<Rightarrow> nat option \<Rightarrow> string" where
  "show_upstream Reflect None = []"
| "show_upstream Reflect (Some p) = show_nat p"
| "show_upstream (PoolRef n) None = CHR ''@'' # n"
| "show_upstream (PoolRef n) (Some p) = CHR ''@'' # n @ CHR '':'' # show_nat p"
| "show_upstream (FixedHost h) None = h"
| "show_upstream (FixedHost h) (Some p) =
     (if CHR '':'' \<in> set h then CHR ''['' # h @ '']:'' @ show_nat p else h @ CHR '':'' # show_nat p)"

text \<open>The values the parser can return: each has a canonical spelling.\<close>

fun upstream_ok :: "upstream_host \<Rightarrow> nat option \<Rightarrow> bool" where
  "upstream_ok Reflect None \<longleftrightarrow> False"
| "upstream_ok Reflect (Some p) \<longleftrightarrow> p \<le> 65535"
| "upstream_ok (PoolRef n) None \<longleftrightarrow> n \<noteq> [] \<and> trim n = n \<and> CHR '':'' \<notin> set n"
| "upstream_ok (PoolRef n) (Some p) \<longleftrightarrow> n \<noteq> [] \<and> trim n = n \<and> p \<le> 65535"
| "upstream_ok (FixedHost h) None \<longleftrightarrow> h \<noteq> [] \<and> trim h = h \<and> hd h \<noteq> CHR ''@''
     \<and> \<not> list_all is_digit h \<and> CHR '':'' \<notin> set h"
| "upstream_ok (FixedHost h) (Some p) \<longleftrightarrow> p \<le> 65535 \<and> h \<noteq> [] \<and>
     (if CHR '':'' \<in> set h then parse_ipv6 h \<noteq> None \<and> CHR '']'' \<notin> set h
      else ws_front h = 0 \<and> hd h \<noteq> CHR ''@'' \<and> hd h \<noteq> CHR ''['')"

lemma ws_back_snoc: "ws_back t = 0 \<Longrightarrow> is_graphic a \<Longrightarrow> ws_back (t @ [a]) = 0"
  by (cases t rule: ws_back.cases)
    (auto simp: is_graphic_def is_ascii_ws_def ws2_def ws3_def split: if_splits)

lemma ws_front_snoc: "ws_front h = 0 \<Longrightarrow> is_graphic c \<Longrightarrow> h \<noteq> [] \<Longrightarrow> ws_front (h @ c # t) = 0"
  by (cases h rule: ws_front.cases; cases t)
    (auto simp: is_graphic_def is_ascii_ws_def ws2_def ws3_def split: if_splits)

lemma digit_graphic: "is_digit c \<Longrightarrow> is_graphic c"
  by (simp add: is_digit_def is_graphic_def)

lemma last_show_nat: "is_graphic (last (show_nat n))" "is_digit (last (show_nat n))"
  using show_nat_digits [of "last (show_nat n)" n] by (simp_all add: digit_graphic)

lemma trim_digits_end: "ws_front s = 0 \<Longrightarrow> trim (s @ show_nat n) = s @ show_nat n" if "s \<noteq> []" "is_graphic (last s)"
proof (rule trim_fix)
  assume "ws_front s = 0"
  show "ws_front (s @ show_nat n) = 0"
    using ws_front_snoc [of "butlast s" "last s" "show_nat n"] \<open>ws_front s = 0\<close> that
      graphic_ws_front [of "last s" "show_nat n"]
    by (cases "butlast s = []") (metis append_Cons append_Nil append_assoc append_butlast_last_id ws_front_append)+
  obtain u x where "show_nat n = u @ [x]" "is_graphic x"
    using last_show_nat(1) [of n] by (metis append_butlast_last_id show_nat_nonempty)
  then show "ws_back (rev (s @ show_nat n)) = 0" by (simp add: graphic_ws_back)
qed

lemma strip_char: "strip_prefix [d] (c # s) = (if c = d then Some s else None)"
  by simp

lemma not_starts: "s \<noteq> [] \<Longrightarrow> hd s \<noteq> d \<Longrightarrow> strip_prefix [d] s = None"
  by (cases s) auto

lemma list_all_snoc_colon: "CHR '':'' \<in> set s \<Longrightarrow> \<not> list_all is_digit s"
proof
  assume "CHR '':'' \<in> set s" "list_all is_digit s"
  then have "is_digit CHR '':''" by (auto simp: list_all_iff)
  then show False by (simp add: is_digit_def)
qed

lemma show_nat_no: "CHR '':'' \<notin> set (show_nat n)" "CHR '']'' \<notin> set (show_nat n)" "hd (show_nat n) \<noteq> CHR ''@''"
proof -
  have "is_digit (hd (show_nat n))" by (rule show_nat_digits [of _ n]) (simp add: hd_in_set)
  then show "hd (show_nat n) \<noteq> CHR ''@''" by (auto simp: is_digit_def)
qed (use show_nat_digits [of "CHR '':''" n] show_nat_digits [of "CHR '']''" n] in \<open>auto simp: is_digit_def\<close>)

text \<open>What a split address consists of.\<close>

lemma split_host_port_Some:
  assumes "split_host_port s = Some (h, q)" "trim s = s"
  shows "(\<exists>port. s = CHR ''['' # h @ CHR '']'' # CHR '':'' # port \<and> CHR '']'' \<notin> set h \<and> parse_ipv6 h \<noteq> None
       \<and> parse_u16 port = Some q)
    \<or> (\<exists>port. s = h @ CHR '':'' # port \<and> h \<noteq> [] \<and> CHR '':'' \<notin> set h \<and> hd h \<noteq> CHR ''['' \<and> parse_u16 port = Some q)"
proof (cases "strip_prefix ''['' s")
  case None
  then obtain port where h: "rsplit_once CHR '':'' s = Some (h, port)" "h \<noteq> []" "CHR '':'' \<notin> set h"
      "parse_u16 port = Some q"
    using assms(1) unfolding split_host_port_def assms(2) Let_def
    by (cases "rsplit_once CHR '':'' s") (auto split: if_splits)
  then have s: "s = h @ CHR '':'' # port" by (simp add: rsplit_once_Some)
  have "hd h \<noteq> CHR ''[''" using None h(2) unfolding s by (cases h) auto
  then show ?thesis using h s by blast
next
  case (Some rest)
  then obtain tail port where t: "split_once CHR '']'' rest = Some (h, tail)" "parse_ipv6 h \<noteq> None"
      "strip_prefix '':'' tail = Some port" "parse_u16 port = Some q"
    using assms(1) unfolding split_host_port_def assms(2) Let_def
    by (cases "split_once CHR '']'' rest") (auto split: option.splits)
  then have "s = CHR ''['' # h @ CHR '']'' # CHR '':'' # port" "CHR '']'' \<notin> set h"
    using Some by (auto simp: strip_prefix_Some split_once_Some)
  then show ?thesis using t by blast
qed

lemma split_host_port_show:
  assumes "upstream_ok (FixedHost h) (Some p)"
  shows "split_host_port (show_upstream (FixedHost h) (Some p)) = Some (h, p)"
proof (cases "CHR '':'' \<in> set h")
  case True
  have "trim (CHR ''['' # h @ '']:'' @ show_nat p) = CHR ''['' # h @ '']:'' @ show_nat p"
    using trim_digits_end [of "CHR ''['' # h @ '']:''" p] by (simp add: is_graphic_def graphic_ws_front)
  then show ?thesis
    using assms True by (auto simp: split_host_port_def Let_def parse_uint_show_nat)
next
  case False
  have "trim (h @ CHR '':'' # show_nat p) = h @ CHR '':'' # show_nat p"
    using trim_digits_end [of "h @ '':''" p] assms False ws_front_snoc [of h "CHR '':''" "[]"]
    by (simp add: is_graphic_def)
  moreover have "rsplit_once CHR '':'' (h @ CHR '':'' # show_nat p) = Some (h, show_nat p)"
    using show_nat_no by (simp add: rsplit_once_Some)
  ultimately show ?thesis
    using assms False not_starts [of "h @ CHR '':'' # show_nat p" "CHR ''[''"]
    by (simp add: split_host_port_def Let_def parse_uint_show_nat hd_append)
qed

lemma trim_split_host_port: "split_host_port (trim s) = split_host_port s"
  by (simp add: split_host_port_def)

lemma parse_show_upstream:
  assumes "upstream_ok u p"
  shows "parse_upstream (show_upstream u p) = Some \<lparr>us_host = u, us_port = p\<rparr>"
proof (cases u; cases p)
  fix q assume up: "u = Reflect" "p = Some q"
  have "list_all is_digit (show_nat q)" "trim (show_nat q) = show_nat q"
    using show_nat_digits [of _ q]
    by (auto simp: list_all_iff digit_graphic intro!: trim_all_graphic)
  then show ?thesis
    using show_nat_no(3) [of q]
      up assms not_starts [of "show_nat q" "CHR ''@''"]
    by (simp add: parse_upstream_def Let_def parse_uint_show_nat)
next
  fix n assume up: "u = PoolRef n" "p = None"
  have "ws_back (rev n) = 0" using assms up by (metis trim_rev_back upstream_ok.simps(3))
  then have "trim (CHR ''@'' # n) = CHR ''@'' # n"
    by (intro trim_fix) (simp_all add: ws_back_snoc is_graphic_def graphic_ws_front)
  then show ?thesis using up assms by (simp add: parse_upstream_def parse_pool_ref_def Let_def)
next
  fix n q assume up: "u = PoolRef n" "p = Some q"
  have "trim (CHR ''@'' # n @ CHR '':'' # show_nat q) = CHR ''@'' # n @ CHR '':'' # show_nat q"
    using trim_digits_end [of "CHR ''@'' # n @ '':''" q] by (simp add: is_graphic_def graphic_ws_front)
  moreover have "rsplit_once CHR '':'' (n @ CHR '':'' # show_nat q) = Some (n, show_nat q)"
    using show_nat_no by (simp add: rsplit_once_Some)
  ultimately show ?thesis
    using up assms by (simp add: parse_upstream_def parse_pool_ref_def Let_def parse_uint_show_nat)
next
  fix h assume up: "u = FixedHost h" "p = None"
  then show ?thesis
    using assms not_starts [of h "CHR ''@''"] by (simp add: parse_upstream_def Let_def)
next
  fix h q assume up: "u = FixedHost h" "p = Some q"
  let ?s = "show_upstream u p"
  have "trim ?s = ?s"
  proof (cases "CHR '':'' \<in> set h")
    case True
    then show ?thesis
      using up trim_digits_end [of "CHR ''['' # h @ '']:''" q] by (simp add: is_graphic_def graphic_ws_front)
  next
    case False
    then show ?thesis
      using up assms trim_digits_end [of "h @ '':''" q] ws_front_snoc [of h "CHR '':''" "[]"]
      by (simp add: is_graphic_def)
  qed
  moreover have "?s \<noteq> []" "hd ?s \<noteq> CHR ''@''" "CHR '':'' \<in> set ?s"
    using up assms by (auto simp: hd_append split: if_splits)
  ultimately show ?thesis
    using up assms split_host_port_show [of h q] not_starts [of ?s "CHR ''@''"] list_all_snoc_colon [of ?s]
    by (simp add: parse_upstream_def Let_def)
qed (use assms in auto)

lemma trim_hd: "trim s \<noteq> [] \<Longrightarrow> ws_front (trim s) = 0"
  by (rule trim_front)

lemma parse_upstream_ok:
  assumes "parse_upstream s0 = Some \<lparr>us_host = u, us_port = p\<rparr>"
  shows "upstream_ok u p"
proof -
  define s where "s = trim s0"
  have s: "s \<noteq> []" "trim s = s" "ws_front s = 0"
    using assms by (auto simp: s_def parse_upstream_def Let_def trim_front split: if_splits)
  consider (pool) rest where "s = CHR ''@'' # rest" "parse_pool_ref rest = Some \<lparr>us_host = u, us_port = p\<rparr>"
    | (port) q where "u = Reflect" "p = Some q" "parse_u16 s = Some q"
    | (addr) h q where "u = FixedHost h" "p = Some q" "hd s \<noteq> CHR ''@''" "split_host_port s = Some (h, q)"
    | (host) "u = FixedHost s" "p = None" "hd s \<noteq> CHR ''@''" "\<not> list_all is_digit s" "CHR '':'' \<notin> set s"
  proof -
    have "hd s \<noteq> CHR ''@''" if "strip_prefix ''@'' s = None" using that s(1) by (cases s) (auto split: if_splits)
    then show thesis
      using assms that s(1)
      by (auto simp: parse_upstream_def Let_def s_def [symmetric] strip_prefix_Some split: option.splits if_splits)
  qed
  then show ?thesis
  proof cases
    case pool
    then show ?thesis
      using parse_uint_le [of 65535]
      by (auto simp: parse_pool_ref_def rsplit_once_None split: option.splits if_splits prod.splits
          dest: subsetD [OF trim_set])
  next
    case port
    then show ?thesis using parse_uint_le by simp
  next
    case addr
    then consider host port where "s = CHR ''['' # host @ CHR '']'' # CHR '':'' # port" "CHR '']'' \<notin> set host"
        "parse_ipv6 host \<noteq> None" "h = host" "parse_u16 port = Some q"
      | host port where "hd s \<noteq> CHR ''[''" "s = host @ CHR '':'' # port" "host \<noteq> []" "CHR '':'' \<notin> set host" "h = host"
        "parse_u16 port = Some q"
      using split_host_port_Some [OF addr(4) s(2)] by auto
    then show ?thesis
    proof cases
      case 1
      then have "CHR '':'' \<in> set host" using parse_ipv6_colon by blast
      moreover from this have "host \<noteq> []" by auto
      ultimately show ?thesis
        using 1 addr parse_uint_le [OF 1(5)] by auto
    next
      case 2
      then have "ws_front host = 0" using s(3) ws_front_append by blast
      then show ?thesis using 2 addr parse_uint_le [OF 2(6)] by (auto simp: hd_append)
    qed
  next
    case host
    then show ?thesis using s by simp
  qed
qed

section \<open>Properties\<close>

text \<open>C40. The upstream grammar is unambiguous and complete: every value the parser returns is a
  reflected port, a fixed host (an IPv6 literal only in brackets) or a pool reference, within the
  port range; each such value has a spelling that parses back to it; and resolving it against a
  listener fills in the listener's port exactly when none was written.\<close>

theorem upstream_roundtrip:
  "(upstream_ok u p \<longrightarrow> parse_upstream (show_upstream u p) = Some \<lparr>us_host = u, us_port = p\<rparr>)
   \<and> (parse_upstream s = Some \<lparr>us_host = u, us_port = p\<rparr> \<longrightarrow> upstream_ok u p
     \<and> resolved_upstream_from (Some s) lp =
         Some \<lparr>ru_host = u, ru_port = (if p = None then lp else the p)\<rparr>)"
  using parse_show_upstream parse_upstream_ok by (auto simp: resolved_upstream_from_def split: option.splits)

lemma upstream_roundtrip_witness:
  "parse_upstream ''@edge:8443'' = Some \<lparr>us_host = PoolRef ''edge'', us_port = Some 8443\<rparr>
   \<and> resolved_upstream_from (Some ''@edge'') 443 = Some \<lparr>ru_host = PoolRef ''edge'', ru_port = 443\<rparr>"
proof -
  have ok: "upstream_ok (PoolRef ''edge'') (Some 8443)" "upstream_ok (PoolRef ''edge'') None"
    by (simp_all, code_simp+)
  have s: "show_upstream (PoolRef ''edge'') (Some 8443) = ''@edge:8443''"
    "show_upstream (PoolRef ''edge'') None = ''@edge''"
    by (simp_all add: show_nat.simps [of 8443] show_nat.simps [of 844] show_nat.simps [of 84] show_nat.simps [of 8]
        digit_def) code_simp
  then have "parse_upstream ''@edge:8443'' = Some \<lparr>us_host = PoolRef ''edge'', us_port = Some 8443\<rparr>"
    "parse_upstream ''@edge'' = Some \<lparr>us_host = PoolRef ''edge'', us_port = None\<rparr>"
    using upstream_roundtrip [of "PoolRef ''edge''" "Some 8443"] upstream_roundtrip [of "PoolRef ''edge''" None] ok
    by simp_all
  then show ?thesis
    using upstream_roundtrip [of "PoolRef ''edge''" None "''@edge''" 443] by simp
qed

end
