(* ===== verification/Ladder.thy ===== *)
theory Ladder
  imports Upstream
begin

text \<open>
  The fallback ladder of the configuration (\<open>src/src/config.rs\<close>): how a route's settings are
  picked from the route, its template, the listener, the listener's template and \<open>[global]\<close>, and
  how a named resolver's and a pool probe's settings are picked from their own block and
  \<open>[global]\<close>. A tier that is absent is \<open>None\<close>; every pick takes the first tier that sets the
  field.
\<close>

section \<open>Picking\<close>

fun or_else :: "'a option \<Rightarrow> 'a option \<Rightarrow> 'a option" where
  "or_else None y = y"
| "or_else (Some v) y = Some v"

definition unwrap_or :: "'a \<Rightarrow> 'a option \<Rightarrow> 'a" where
  "unwrap_or d x = (case x of None \<Rightarrow> d | Some v \<Rightarrow> v)"

text \<open>The fields set in a list of present tiers, deepest first.\<close>

definition flatten :: "'a option list \<Rightarrow> 'a list" where
  "flatten xs = List.map_filter id xs"

definition tier :: "'a option \<Rightarrow> ('a \<Rightarrow> 'b option) \<Rightarrow> 'b option" where
  "tier t f = Option.bind t f"

section \<open>Upstream verification\<close>

definition verify_merge :: "verify_config option list \<Rightarrow> verify_config option list \<Rightarrow> effective_verify" where
  "verify_merge own outer =
     (let tiers = flatten (own @ outer) in
      \<lparr>ev_mode = unwrap_or (ev_mode default_effective_verify) (find_map vc_mode tiers),
       ev_name = find_map vc_name (flatten own),
       ev_pins = unwrap_or (ev_pins default_effective_verify) (find_map vc_pins tiers),
       ev_ca_file = find_map vc_ca_file tiers,
       ev_trust_webpki = unwrap_or (ev_trust_webpki default_effective_verify) (find_map vc_trust_webpki tiers)\<rparr>)"

definition verify_resolve :: "verify_config option \<Rightarrow> global \<Rightarrow> effective_verify" where
  "verify_resolve own g = verify_merge [own] [g_verify g]"

section \<open>Routes\<close>

definition effective_route_type :: "route \<Rightarrow> template option \<Rightarrow> route_type option" where
  "effective_route_type rt tpl = or_else (rt_route_type rt) (tier tpl t_route_type)"

definition upstream_spec_of :: "route \<Rightarrow> template option \<Rightarrow> string option" where
  "upstream_spec_of rt tpl = or_else (rt_upstream rt) (tier tpl t_upstream)"

definition select_for :: "route \<Rightarrow> template option \<Rightarrow> selector list option" where
  "select_for rt tpl = or_else (rt_select rt) (tier tpl t_select)"

definition cert_key :: "route \<Rightarrow> template option \<Rightarrow> string option \<times> string option" where
  "cert_key rt tpl =
     (if rt_cert_file rt \<noteq> None \<or> rt_key_file rt \<noteq> None then (rt_cert_file rt, rt_key_file rt)
      else (case tpl of Some t \<Rightarrow> (t_cert_file t, t_key_file t) | None \<Rightarrow> (None, None)))"

definition sni_policy_of :: "route \<Rightarrow> template option \<Rightarrow> sni_policy" where
  "sni_policy_of rt tpl = sni_resolve (or_else (rt_override_sni rt) (tier tpl t_override_sni))"

definition ech_tiers :: "config \<Rightarrow> listener \<Rightarrow> route \<Rightarrow> template option \<Rightarrow> template option \<Rightarrow> ech_config list" where
  "ech_tiers c lis rt rt_tpl ln_tpl =
     flatten [rt_ech rt, tier rt_tpl t_ech, ln_ech lis, tier ln_tpl t_ech, g_ech (c_global c)]"

definition effective_ech_shared ::
    "config \<Rightarrow> listener \<Rightarrow> route \<Rightarrow> template option \<Rightarrow> template option \<Rightarrow> ech_shared" where
  "effective_ech_shared c lis rt rt_tpl ln_tpl =
     (let tiers = ech_tiers c lis rt rt_tpl ln_tpl in
      \<lparr>es_require_ech = find_map ec_require_ech tiers,
       es_ech_refresh = find_map ec_ech_refresh tiers,
       es_ech_resolver = find_map ec_ech_resolver tiers\<rparr>)"

definition effective_ech_of ::
    "config \<Rightarrow> listener \<Rightarrow> route \<Rightarrow> template option \<Rightarrow> template option \<Rightarrow> effective_ech" where
  "effective_ech_of c lis rt rt_tpl ln_tpl =
     (let tiers = ech_tiers c lis rt rt_tpl ln_tpl in
      \<lparr>ee_mode = unwrap_or EchDoh (find_map ec_mode tiers),
       ee_config = find_map ec_config tiers,
       ee_ech_domain = find_map ec_ech_domain tiers,
       ee_max_retries = unwrap_or 2 (find_map ec_max_retries tiers)\<rparr>)"

definition http2_tiers :: "config \<Rightarrow> listener \<Rightarrow> route \<Rightarrow> template option \<Rightarrow> template option \<Rightarrow> http2_config list" where
  "http2_tiers c lis rt rt_tpl ln_tpl =
     flatten [rt_http2 rt, tier rt_tpl t_http2, ln_http2 lis, tier ln_tpl t_http2, g_http2 (c_global c)]"

definition effective_http2_of ::
    "config \<Rightarrow> listener \<Rightarrow> route \<Rightarrow> template option \<Rightarrow> template option \<Rightarrow> effective_http2" where
  "effective_http2_of c lis rt rt_tpl ln_tpl =
     (let tiers = http2_tiers c lis rt rt_tpl ln_tpl;
          is_raw = (effective_route_type rt rt_tpl = Some RtRaw)
      in \<lparr>eh_enabled = (\<not> is_raw \<and> unwrap_or False (find_map hc_enabled tiers)),
          eh_probe = unwrap_or H2Warn (find_map hc_probe tiers),
          eh_probe_timeout = unwrap_or default_probe_timeout (find_map hc_probe_timeout tiers)\<rparr>)"

definition effective_verify_of ::
    "config \<Rightarrow> listener \<Rightarrow> route \<Rightarrow> template option \<Rightarrow> template option \<Rightarrow> effective_verify" where
  "effective_verify_of c lis rt rt_tpl ln_tpl =
     (if effective_route_type rt rt_tpl \<notin> {Some RtTls, Some RtEch} then default_effective_verify
      else verify_merge [rt_verify rt, tier rt_tpl t_verify]
             [ln_verify lis, tier ln_tpl t_verify, g_verify (c_global c)])"

definition effective_of ::
    "config \<Rightarrow> listener \<Rightarrow> route \<Rightarrow> template option \<Rightarrow> template option \<Rightarrow> effective" where
  "effective_of c lis rt rt_tpl ln_tpl =
     (let g = g_common (c_global c); l = ln_common lis; r = rt_common rt;
          rtc = map_option t_common rt_tpl; ltc = map_option t_common ln_tpl;
          sh = effective_ech_shared c lis rt rt_tpl ln_tpl
      in
      \<lparr>ef_ech_resolver = first_some
         [es_ech_resolver sh, co_ech_resolver r, co_resolver r,
          tier rtc co_ech_resolver, tier rtc co_resolver, co_ech_resolver l, co_resolver l,
          tier ltc co_ech_resolver, tier ltc co_resolver, co_ech_resolver g, co_resolver g],
       ef_addr_resolver = first_some
         [co_addr_resolver r, co_resolver r,
          tier rtc co_addr_resolver, tier rtc co_resolver, co_addr_resolver l, co_resolver l,
          tier ltc co_addr_resolver, tier ltc co_resolver, co_addr_resolver g, co_resolver g],
       ef_ech_refresh = unwrap_or default_ech_refresh (first_some
         [es_ech_refresh sh, co_ech_refresh r, tier rtc co_ech_refresh, co_ech_refresh l,
          tier ltc co_ech_refresh, co_ech_refresh g]),
       ef_nat64_prefix = first_some
         [co_nat64_prefix r, tier rtc co_nat64_prefix, co_nat64_prefix l, tier ltc co_nat64_prefix, co_nat64_prefix g],
       ef_address_family = unwrap_or Dual (first_some
         [co_address_family r, tier rtc co_address_family, co_address_family l, tier ltc co_address_family,
          co_address_family g]),
       ef_require_ech = unwrap_or True (first_some
         [es_require_ech sh, co_require_ech r, tier rtc co_require_ech, co_require_ech l,
          tier ltc co_require_ech, co_require_ech g]),
       ef_connect_timeout = unwrap_or default_connect_timeout (first_some
         [co_connect_timeout r, tier rtc co_connect_timeout, co_connect_timeout l,
          tier ltc co_connect_timeout, co_connect_timeout g]),
       ef_idle_timeout = unwrap_or default_idle_timeout (first_some
         [co_idle_timeout r, tier rtc co_idle_timeout, co_idle_timeout l,
          tier ltc co_idle_timeout, co_idle_timeout g]),
       ef_fail = unwrap_or (g_unmatched (c_global c)) (first_some [rt_fail rt, tier rt_tpl t_fail])\<rparr>)"

section \<open>Named resolvers and probes\<close>

text \<open>The block of a top-level object over \<open>[global.ech]\<close>, field by field.\<close>

definition ech_over_global :: "ech_config \<Rightarrow> ech_config option \<Rightarrow> effective_ech" where
  "ech_over_global e ge =
     \<lparr>ee_mode = unwrap_or EchDoh (or_else (ec_mode e) (tier ge ec_mode)),
      ee_config = or_else (ec_config e) (tier ge ec_config),
      ee_ech_domain = or_else (ec_ech_domain e) (tier ge ec_ech_domain),
      ee_max_retries = unwrap_or 2 (or_else (ec_max_retries e) (tier ge ec_max_retries))\<rparr>"

definition resolver_effective :: "resolver_def \<Rightarrow> string \<Rightarrow> global \<Rightarrow> effective_resolver" where
  "resolver_effective d name g =
     (let gc = g_common g; ge = g_ech g in
      \<lparr>er_name = name,
       er_endpoint = rd_endpoint d,
       er_upstream = resolver_def.rd_upstream d,
       er_sni_policy = sni_resolve (rd_override_sni d),
       er_bootstrap = rd_bootstrap d,
       er_address_family = unwrap_or Dual (or_else (rd_address_family d) (co_address_family gc)),
       er_nat64_prefix = or_else (rd_nat64_prefix d) (co_nat64_prefix gc),
       er_connect_timeout =
         unwrap_or default_connect_timeout (or_else (rd_connect_timeout d) (co_connect_timeout gc)),
       er_ech = map_option (\<lambda>e. ech_over_global e ge) (rd_ech d),
       er_require_ech = unwrap_or True (tier (rd_ech d) (\<lambda>e.
         first_some [ec_require_ech e, tier ge ec_require_ech, co_require_ech gc])),
       er_ech_refresh = unwrap_or default_ech_refresh (tier (rd_ech d) (\<lambda>e.
         first_some [ec_ech_refresh e, tier ge ec_ech_refresh, co_ech_refresh gc])),
       er_ech_resolver = tier (rd_ech d) ec_ech_resolver,
       er_verify = verify_resolve (rd_verify d) g\<rparr>)"

definition resolver_references :: "resolver_def \<Rightarrow> string list" where
  "resolver_references d = flatten [rd_bootstrap d, tier (rd_ech d) ec_ech_resolver]"

definition probe_ech_resolve :: "ech_config \<Rightarrow> global \<Rightarrow> effective_probe_ech" where
  "probe_ech_resolve e g =
     (let gc = g_common g; ge = g_ech g in
      \<lparr>ep_settings = ech_over_global e ge,
       ep_require_ech = unwrap_or True (first_some [ec_require_ech e, tier ge ec_require_ech, co_require_ech gc]),
       ep_ech_refresh =
         unwrap_or default_ech_refresh (first_some [ec_ech_refresh e, tier ge ec_ech_refresh, co_ech_refresh gc]),
       ep_ech_resolver = ec_ech_resolver e\<rparr>)"

section \<open>The ladder as an override of records\<close>

text \<open>Putting a deeper scope over a shallower one: its fields win where they are set.\<close>

definition over_common :: "common_opts \<Rightarrow> common_opts \<Rightarrow> common_opts" where
  "over_common a b =
     \<lparr>co_resolver = or_else (co_resolver a) (co_resolver b),
      co_ech_resolver = or_else (co_ech_resolver a) (co_ech_resolver b),
      co_addr_resolver = or_else (co_addr_resolver a) (co_addr_resolver b),
      co_ech_refresh = or_else (co_ech_refresh a) (co_ech_refresh b),
      co_nat64_prefix = or_else (co_nat64_prefix a) (co_nat64_prefix b),
      co_address_family = or_else (co_address_family a) (co_address_family b),
      co_require_ech = or_else (co_require_ech a) (co_require_ech b),
      co_connect_timeout = or_else (co_connect_timeout a) (co_connect_timeout b),
      co_idle_timeout = or_else (co_idle_timeout a) (co_idle_timeout b)\<rparr>"

text \<open>Within one scope the specific resolver settings stand over the generic one.\<close>

definition specific :: "common_opts \<Rightarrow> common_opts" where
  "specific c = c\<lparr>co_ech_resolver := or_else (co_ech_resolver c) (co_resolver c),
     co_addr_resolver := or_else (co_addr_resolver c) (co_resolver c)\<rparr>"

definition over_ech :: "ech_config \<Rightarrow> ech_config \<Rightarrow> ech_config" where
  "over_ech a b =
     \<lparr>ec_mode = or_else (ec_mode a) (ec_mode b), ec_config = or_else (ec_config a) (ec_config b),
      ec_ech_domain = or_else (ec_ech_domain a) (ec_ech_domain b),
      ec_require_ech = or_else (ec_require_ech a) (ec_require_ech b),
      ec_max_retries = or_else (ec_max_retries a) (ec_max_retries b),
      ec_ech_refresh = or_else (ec_ech_refresh a) (ec_ech_refresh b),
      ec_ech_resolver = or_else (ec_ech_resolver a) (ec_ech_resolver b)\<rparr>"

definition no_ech :: ech_config where
  "no_ech = \<lparr>ec_mode = None, ec_config = None, ec_ech_domain = None, ec_require_ech = None,
     ec_max_retries = None, ec_ech_refresh = None, ec_ech_resolver = None\<rparr>"

definition no_common :: common_opts where
  "no_common = \<lparr>co_resolver = None, co_ech_resolver = None, co_addr_resolver = None, co_ech_refresh = None,
     co_nat64_prefix = None, co_address_family = None, co_require_ech = None, co_connect_timeout = None,
     co_idle_timeout = None\<rparr>"

definition merged_common :: "common_opts list \<Rightarrow> common_opts" where
  "merged_common scopes = foldr over_common scopes no_common"

definition merged_ech :: "ech_config list \<Rightarrow> ech_config" where
  "merged_ech tiers = foldr over_ech tiers no_ech"

lemma find_map_Cons: "find_map f (x # xs) = or_else (f x) (find_map f xs)"
  by (cases "f x") auto

lemma merged_ech_fields:
  "ec_mode (merged_ech ts) = find_map ec_mode ts"
  "ec_config (merged_ech ts) = find_map ec_config ts"
  "ec_ech_domain (merged_ech ts) = find_map ec_ech_domain ts"
  "ec_require_ech (merged_ech ts) = find_map ec_require_ech ts"
  "ec_max_retries (merged_ech ts) = find_map ec_max_retries ts"
  "ec_ech_refresh (merged_ech ts) = find_map ec_ech_refresh ts"
  "ec_ech_resolver (merged_ech ts) = find_map ec_ech_resolver ts"
  by (induction ts) (simp_all add: merged_ech_def no_ech_def over_ech_def find_map_Cons del: find_map.simps(2))

lemma merged_common_fields:
  "co_ech_resolver (merged_common cs) = find_map co_ech_resolver cs"
  "co_addr_resolver (merged_common cs) = find_map co_addr_resolver cs"
  "co_ech_refresh (merged_common cs) = find_map co_ech_refresh cs"
  "co_nat64_prefix (merged_common cs) = find_map co_nat64_prefix cs"
  "co_address_family (merged_common cs) = find_map co_address_family cs"
  "co_require_ech (merged_common cs) = find_map co_require_ech cs"
  "co_connect_timeout (merged_common cs) = find_map co_connect_timeout cs"
  "co_idle_timeout (merged_common cs) = find_map co_idle_timeout cs"
  by (induction cs) (simp_all add: merged_common_def no_common_def over_common_def find_map_Cons del: find_map.simps(2))

lemma find_map_flatten: "find_map f (flatten ts) = first_some (List.map (\<lambda>t. tier t f) ts)"
  by (induction ts) (auto simp: flatten_def tier_def map_filter_simps split: option.splits)

lemma tier_simps [simp]: "tier None f = None" "tier (Some x) f = f x"
  by (simp_all add: tier_def)

lemma first_some_Cons: "first_some (x # xs) = or_else x (first_some xs)"
  by (cases x) auto

lemma tier_common: "tier (map_option t_common t) f = tier t (\<lambda>t. f (t_common t))"
  by (cases t) auto

text \<open>The scopes of a route, deepest first.\<close>

definition route_scopes :: "config \<Rightarrow> listener \<Rightarrow> route \<Rightarrow> template option \<Rightarrow> template option \<Rightarrow> common_opts list" where
  "route_scopes c lis rt rt_tpl ln_tpl =
     flatten [Some (rt_common rt), map_option t_common rt_tpl, Some (ln_common lis), map_option t_common ln_tpl,
       Some (g_common (c_global c))]"

lemma specific_fields:
  "co_ech_resolver (specific c) = or_else (co_ech_resolver c) (co_resolver c)"
  "co_addr_resolver (specific c) = or_else (co_addr_resolver c) (co_resolver c)"
  "co_ech_refresh (specific c) = co_ech_refresh c" "co_nat64_prefix (specific c) = co_nat64_prefix c"
  "co_address_family (specific c) = co_address_family c" "co_require_ech (specific c) = co_require_ech c"
  "co_connect_timeout (specific c) = co_connect_timeout c" "co_idle_timeout (specific c) = co_idle_timeout c"
  by (simp_all add: specific_def)

lemma or_else_assoc: "or_else (or_else x y) z = or_else x (or_else y z)"
  by (cases x) auto

lemma or_else_None: "or_else x None = x"
  by (cases x) auto

lemma find_map_map: "find_map f (List.map g xs) = find_map (\<lambda>x. f (g x)) xs"
  by (induction xs) (auto split: option.splits)

section \<open>Properties\<close>


text \<open>A small document: one TLS route under one listener, with a template and global defaults.\<close>

definition doc_global :: global where
  "doc_global = \<lparr>g_log = default_log, g_common = no_common\<lparr>co_resolver := Some ''@dns'', co_connect_timeout := Some 5000\<rparr>,
     g_ech = None, g_http2 = None, g_verify = None, g_unmatched = FailClose\<rparr>"

definition doc_template :: template where
  "doc_template = \<lparr>t_route_type = Some RtTls, t_upstream = Some ''edge.net'', t_override_sni = None,
     t_cert_file = None, t_key_file = None, t_ech = None, t_http2 = None, t_verify = None, t_select = None,
     t_common = no_common\<lparr>co_addr_resolver := Some ''system''\<rparr>, t_fail = None\<rparr>"

definition doc_route :: route where
  "doc_route = \<lparr>rt_name = None, rt_use_template = Some ''edge'', rt_route_type = None, rt_match_sni = [''a.com''],
     rt_upstream = None, rt_override_sni = None, rt_ech = None, rt_http2 = None, rt_verify = None,
     rt_cert_file = None, rt_key_file = None, rt_select = None, rt_common = no_common, rt_fail = None\<rparr>"

definition doc_listener :: listener where
  "doc_listener = \<lparr>ln_addr = SockV4 0 443, ln_use_template = None, ln_common = no_common\<lparr>co_resolver := Some ''@lan''\<rparr>,
     ln_ech = None, ln_http2 = None, ln_verify = None, ln_routes = [doc_route], ln_default_route = None\<rparr>"

definition doc_ca :: ca_config where
  "doc_ca = \<lparr>ca_cert_path = ''ca.pem'', ca_key_path = ''ca.key'', ca_common_name = default_ca_common_name,
     ca_organization = [], ca_country = [], ca_leaf_validity_days = default_leaf_validity_days,
     ca_install_to_system_root = False\<rparr>"

definition plain_resolver :: "string \<Rightarrow> resolver_def" where
  "plain_resolver ep = \<lparr>rd_endpoint = ep, rd_upstream = None, rd_override_sni = None, rd_bootstrap = None, rd_ech = None,
     rd_verify = None, rd_address_family = None, rd_nat64_prefix = None, rd_connect_timeout = None\<rparr>"

definition doc_config :: config where
  "doc_config = \<lparr>c_global = doc_global, c_ca = doc_ca, c_store = default_store_config, c_cache = default_cache_config,
     c_templates = [(''edge'', doc_template)], c_pools = [],
     c_resolvers = [(''dns'', plain_resolver ''system''), (''lan'', (plain_resolver ''system'')\<lparr>rd_bootstrap := Some ''@dns''\<rparr>)],
     c_regexes = [], c_listeners = [doc_listener]\<rparr>"

lemmas doc_defs = doc_config_def doc_global_def doc_template_def doc_route_def doc_listener_def doc_ca_def
  plain_resolver_def no_common_def


end
