(* ===== verification/ResolverOrder.thy ===== *)
theory ResolverOrder
  imports Ladder
begin

text \<open>
  The dependency order of the named resolvers (\<open>Config::resolver_build_order\<close> of
  \<open>src/src/config.rs\<close>): a depth-first search with an explicit stack of enter and exit steps, marks
  on the names, and the path of every pending step for the report of a cycle. The
  \<open>[resolvers]\<close> table is an association list with distinct names.
\<close>

type_synonym resolver_table = "(string \<times> resolver_def) list"

definition is_resolver_ref :: "string \<Rightarrow> bool" where
  "is_resolver_ref spec \<longleftrightarrow> starts_with ''@'' (trim spec)"

datatype resolver_error =
    UnknownResolver string
  | NotAReference string
  | BareReference
  | BadEdge string string
  | UnknownEdge string string
  | DependencyCycle "string list"

definition resolver_def_of :: "resolver_table \<Rightarrow> string \<Rightarrow> (resolver_error, resolver_def) result" where
  "resolver_def_of tbl name = ok_or (UnknownResolver name) (map_of tbl name)"

definition resolve_resolver_ref :: "resolver_table \<Rightarrow> string \<Rightarrow> (resolver_error, resolver_def) result" where
  "resolve_resolver_ref tbl spec =
     (case strip_prefix ''@'' (trim spec) of None \<Rightarrow> Inl (NotAReference spec)
      | Some name \<Rightarrow> if name = [] then Inl BareReference else resolver_def_of tbl name)"

section \<open>The search\<close>

datatype mark = Open | Done

datatype dfs_step = Enter string "string list" | Exit string

text \<open>The declared names a resolver depends on: its references that are not inline specs, sorted
  and without repetition.\<close>

definition edge_target :: "resolver_table \<Rightarrow> string \<Rightarrow> string \<Rightarrow> (resolver_error, string) result" where
  "edge_target tbl name e =
     (case strip_prefix ''@'' e of None \<Rightarrow> Inl (BadEdge name e)
      | Some bare \<Rightarrow> if map_of tbl bare = None then Inl (UnknownEdge name e) else Inr bare)"

definition resolver_edges :: "resolver_table \<Rightarrow> string \<Rightarrow> (resolver_error, string list) result" where
  "resolver_edges tbl name =
     res_bind (resolver_def_of tbl name) (\<lambda>d.
       map_res (edge_target tbl name) (remdups_adj (sort (filter is_resolver_ref (resolver_references d)))))"

definition unmarked :: "resolver_table \<Rightarrow> (string \<rightharpoonup> mark) \<Rightarrow> nat" where
  "unmarked tbl marks = card {n \<in> dom (map_of tbl). marks n = None}"

lemma resolver_edges_declared: "resolver_edges tbl name = Inr es \<Longrightarrow> name \<in> dom (map_of tbl)"
  by (auto simp: resolver_edges_def resolver_def_of_def)

lemma unmarked_mark: "unmarked tbl (marks(n \<mapsto> m)) \<le> unmarked tbl marks"
  unfolding unmarked_def by (rule card_mono) (auto intro: finite_subset [OF _ finite_dom_map_of])

lemma unmarked_open:
  assumes "name \<in> dom (map_of tbl)" "marks name = None"
  shows "unmarked tbl (marks(name \<mapsto> m)) < unmarked tbl marks"
  unfolding unmarked_def
proof (rule psubset_card_mono)
  show "finite {n \<in> dom (map_of tbl). marks n = None}"
    by (rule finite_subset [OF _ finite_dom_map_of [of tbl]]) blast
  show "{n \<in> dom (map_of tbl). (marks(name \<mapsto> m)) n = None} \<subset> {n \<in> dom (map_of tbl). marks n = None}"
    using assms by auto
qed

function order_loop ::
    "resolver_table \<Rightarrow> (string \<rightharpoonup> mark) \<Rightarrow> string list \<Rightarrow> dfs_step list
     \<Rightarrow> (resolver_error, (string \<rightharpoonup> mark) \<times> string list) result" where
  "order_loop tbl marks order [] = Inr (marks, order)"
| "order_loop tbl marks order (Exit name # stack) =
     order_loop tbl (marks(name \<mapsto> Done)) (order @ [name]) stack"
| "order_loop tbl marks order (Enter name path # stack) =
     (case marks name of
        Some Done \<Rightarrow> order_loop tbl marks order stack
      | Some Open \<Rightarrow> Inl (DependencyCycle path)
      | None \<Rightarrow>
          (case resolver_edges tbl name of Inl e \<Rightarrow> Inl e
           | Inr edges \<Rightarrow> order_loop tbl (marks(name \<mapsto> Open)) order
               (rev (List.map (\<lambda>key. Enter key (path @ [key])) edges) @ Exit name # stack)))"
  by pat_completeness auto
termination
proof (relation "inv_image (less_than <*lex*> less_than) (\<lambda>(tbl, marks, order, stack). (unmarked tbl marks, length stack))")
  show "((tbl, marks(name \<mapsto> Done), order @ [name], stack), (tbl, marks, order, Exit name # stack))
      \<in> inv_image (less_than <*lex*> less_than) (\<lambda>(tbl, marks, order, stack). (unmarked tbl marks, length stack))"
    for tbl marks order name stack
    using unmarked_mark [of tbl marks name Done] by (auto simp: le_less)
qed (auto dest: resolver_edges_declared intro: unmarked_open)

fun order_roots ::
    "resolver_table \<Rightarrow> (string \<rightharpoonup> mark) \<Rightarrow> string list \<Rightarrow> string list
     \<Rightarrow> (resolver_error, (string \<rightharpoonup> mark) \<times> string list) result" where
  "order_roots tbl marks order [] = Inr (marks, order)"
| "order_roots tbl marks order (top0 # rest) =
     (if marks top0 = Some Done then order_roots tbl marks order rest
      else (case order_loop tbl marks order [Enter top0 [top0]] of Inl e \<Rightarrow> Inl e
        | Inr (marks', order') \<Rightarrow> order_roots tbl marks' order' rest))"

definition resolver_build_order :: "resolver_table \<Rightarrow> (resolver_error, string list) result" where
  "resolver_build_order tbl =
     map_sum id snd (order_roots tbl (\<lambda>_. None) [] (sort (List.map fst tbl)))"

section \<open>The dependency graph\<close>

definition depends :: "resolver_table \<Rightarrow> string \<Rightarrow> string set" where
  "depends tbl n = (case map_of tbl n of None \<Rightarrow> {}
     | Some d \<Rightarrow> {m. CHR ''@'' # m \<in> set (resolver_references d) \<and> is_resolver_ref (CHR ''@'' # m)})"

definition dep_walk :: "resolver_table \<Rightarrow> string list \<Rightarrow> bool" where
  "dep_walk tbl p \<longleftrightarrow> (\<forall>i. Suc i < length p \<longrightarrow> p ! Suc i \<in> depends tbl (p ! i))"

definition topological :: "resolver_table \<Rightarrow> string list \<Rightarrow> bool" where
  "topological tbl order \<longleftrightarrow> (\<forall>ys n zs. order = ys @ n # zs \<longrightarrow> depends tbl n \<subseteq> set ys)"

text \<open>Every reference names a declared resolver, spelled without surrounding blanks.\<close>

definition refs_resolve :: "resolver_table \<Rightarrow> bool" where
  "refs_resolve tbl \<longleftrightarrow> (\<forall>(n, d)\<in>set tbl. \<forall>e\<in>set (resolver_references d). is_resolver_ref e \<longrightarrow>
     (\<exists>m. e = CHR ''@'' # m \<and> m \<in> fst ` set tbl))"

lemma resolver_edges_set: "resolver_edges tbl n = Inr es \<Longrightarrow> set es = depends tbl n"
proof -
  assume r: "resolver_edges tbl n = Inr es"
  then obtain d where d: "map_of tbl n = Some d"
    and es: "map_res (edge_target tbl n) (remdups_adj (sort (filter is_resolver_ref (resolver_references d)))) = Inr es"
    by (auto simp: resolver_edges_def resolver_def_of_def)
  let ?xs = "remdups_adj (sort (filter is_resolver_ref (resolver_references d)))"
  have t: "edge_target tbl n (?xs ! i) = Inr (es ! i)" if "i < length ?xs" for i
    using es that by (simp add: map_res_ok)
  have len: "length es = length ?xs" using es by (simp add: map_res_ok)
  have e: "?xs ! i = CHR ''@'' # es ! i" if "i < length ?xs" for i
    using t [OF that] by (auto simp: edge_target_def strip_prefix_Some split: option.splits if_splits)
  have "?xs = List.map (Cons CHR ''@'') es"
    by (rule nth_equalityI) (simp_all add: len e)
  then have "set ?xs = Cons CHR ''@'' ` set es" by simp
  then have "{m. CHR ''@'' # m \<in> set ?xs} = set es" by auto
  then show ?thesis using d by (simp add: depends_def)
qed

lemma map_res_total: "\<forall>x\<in>set xs. \<exists>y. f x = Inr y \<Longrightarrow> \<exists>ys. map_res f xs = Inr ys"
  by (induction xs) (auto split: sum.splits)

lemma map_res_err: "map_res f xs = Inl e \<Longrightarrow> \<exists>x\<in>set xs. f x = Inl e"
  by (induction xs) (auto split: sum.splits)

lemma ok_or_Inl: "ok_or e x = Inl e' \<longleftrightarrow> x = None \<and> e' = e"
  by (cases x) auto

lemma edge_target_err: "edge_target tbl n e = Inl er \<Longrightarrow> er = BadEdge n e \<or> er = UnknownEdge n e"
  by (auto simp: edge_target_def split: option.splits if_splits)

lemma resolver_edges_ok:
  assumes "refs_resolve tbl" "n \<in> dom (map_of tbl)"
  shows "\<exists>es. resolver_edges tbl n = Inr es"
proof -
  obtain d where d: "map_of tbl n = Some d" using assms(2) by auto
  have "\<exists>m. edge_target tbl n e = Inr m" if e: "e \<in> set (resolver_references d)" "is_resolver_ref e" for e
    using assms(1) map_of_SomeD [OF d] that
  proof -
    obtain m where "e = CHR ''@'' # m" "m \<in> fst ` set tbl"
      using bspec [OF assms(1) [unfolded refs_resolve_def] map_of_SomeD [OF d]] e by force
    then show ?thesis by (simp add: edge_target_def map_of_eq_None_iff)
  qed
  then have "\<exists>es. map_res (edge_target tbl n)
      (remdups_adj (sort (filter is_resolver_ref (resolver_references d)))) = Inr es"
    by (intro map_res_total) auto
  then show ?thesis using d by (auto simp: resolver_edges_def resolver_def_of_def)
qed

lemma resolver_edges_no_cycle: "resolver_edges tbl n \<noteq> Inl (DependencyCycle p)"
proof (cases "map_of tbl n")
  case None
  then show ?thesis by (simp add: resolver_edges_def resolver_def_of_def)
next
  case (Some d)
  then show ?thesis
    by (auto simp: resolver_edges_def resolver_def_of_def dest!: map_res_err edge_target_err)
qed

section \<open>The invariant of the search\<close>

fun exits :: "dfs_step list \<Rightarrow> string list" where
  "exits [] = []"
| "exits (Exit n # s) = n # exits s"
| "exits (Enter n p # s) = exits s"

fun frames_ok :: "resolver_table \<Rightarrow> dfs_step list \<Rightarrow> bool" where
  "frames_ok tbl [] \<longleftrightarrow> True"
| "frames_ok tbl (Exit n # s) \<longleftrightarrow> frames_ok tbl s"
| "frames_ok tbl (Enter n p # s) \<longleftrightarrow>
     p \<noteq> [] \<and> last p = n \<and> butlast p = rev (exits s) \<and> dep_walk tbl p \<and> frames_ok tbl s"

fun covered :: "resolver_table \<Rightarrow> string set \<Rightarrow> string set \<Rightarrow> dfs_step list \<Rightarrow> bool" where
  "covered tbl D A [] \<longleftrightarrow> True"
| "covered tbl D A (Enter n p # s) \<longleftrightarrow> covered tbl D (insert n A) s"
| "covered tbl D A (Exit n # s) \<longleftrightarrow> depends tbl n \<subseteq> D \<union> A \<and> covered tbl D (insert n A) s"

definition dfs_inv :: "resolver_table \<Rightarrow> (string \<rightharpoonup> mark) \<Rightarrow> string list \<Rightarrow> dfs_step list \<Rightarrow> bool" where
  "dfs_inv tbl marks order stack \<longleftrightarrow>
     distinct order \<and> set order = {n. marks n = Some Done} \<and> set order \<subseteq> dom (map_of tbl)
     \<and> distinct (exits stack) \<and> set (exits stack) = {n. marks n = Some Open} \<and> set (exits stack) \<subseteq> dom (map_of tbl)
     \<and> frames_ok tbl stack \<and> covered tbl (set order) {} stack \<and> topological tbl order"

lemma covered_mono: "covered tbl D A s \<Longrightarrow> D \<union> A \<subseteq> D' \<union> A' \<Longrightarrow> covered tbl D' A' s"
proof (induction s arbitrary: A A')
  case (Cons st s)
  show ?case
  proof (cases st)
    case (Enter n p)
    then show ?thesis using Cons.IH [of "insert n A" "insert n A'"] Cons.prems by auto
  next
    case (Exit n)
    then show ?thesis using Cons.IH [of "insert n A" "insert n A'"] Cons.prems by auto
  qed
qed simp

lemma exits_enters [simp]: "exits (List.map (\<lambda>k. Enter k (f k)) ks @ s) = exits s"
  by (induction ks) auto

lemma covered_enters: "covered tbl D A (List.map (\<lambda>k. Enter k (f k)) ks @ s) \<longleftrightarrow> covered tbl D (set ks \<union> A) s"
  by (induction ks arbitrary: A) auto

lemma frames_enters: "frames_ok tbl (List.map (\<lambda>k. Enter k (f k)) ks @ s) \<longleftrightarrow>
    (\<forall>k\<in>set ks. f k \<noteq> [] \<and> last (f k) = k \<and> butlast (f k) = rev (exits s) \<and> dep_walk tbl (f k)) \<and> frames_ok tbl s"
  by (induction ks) auto

lemma dep_walk_snoc: "dep_walk tbl p \<Longrightarrow> p \<noteq> [] \<Longrightarrow> k \<in> depends tbl (last p) \<Longrightarrow> dep_walk tbl (p @ [k])"
  by (auto simp: dep_walk_def nth_append last_conv_nth less_Suc_eq) (metis diff_Suc_Suc diff_zero)

lemma topological_snoc: "topological tbl order \<Longrightarrow> depends tbl n \<subseteq> set order \<Longrightarrow> topological tbl (order @ [n])"
  unfolding topological_def
proof (intro allI impI)
  fix ys m zs
  assume t: "\<forall>ys n zs. order = ys @ n # zs \<longrightarrow> depends tbl n \<subseteq> set ys" "depends tbl n \<subseteq> set order"
    and eq: "order @ [n] = ys @ m # zs"
  show "depends tbl m \<subseteq> set ys"
    using t eq by (cases zs rule: rev_cases) auto
qed

text \<open>One pop preserves the invariant.\<close>

lemma dfs_inv_exit:
  assumes "dfs_inv tbl marks order (Exit n # s)"
  shows "dfs_inv tbl (marks(n \<mapsto> Done)) (order @ [n]) s"
proof -
  have "insert n (set (exits s)) = {k. marks k = Some Open}" using assms by (simp add: dfs_inv_def)
  then have "marks n = Some Open" by blast
  then have i: "n \<notin> set (exits s)" "marks n = Some Open" "n \<notin> set order" "n \<in> dom (map_of tbl)"
    using assms by (simp_all add: dfs_inv_def)
  have "covered tbl (set (order @ [n])) {} s"
    using assms by (auto simp: dfs_inv_def intro: covered_mono)
  moreover have "topological tbl (order @ [n])"
    using assms by (auto simp: dfs_inv_def intro: topological_snoc)
  moreover have "set (exits s) = {k. (marks(n \<mapsto> Done)) k = Some Open}"
    using assms i(1,2) by (auto simp: dfs_inv_def)
  ultimately show ?thesis
    using assms i by (auto simp: dfs_inv_def)
qed

lemma dfs_inv_skip:
  assumes "dfs_inv tbl marks order (Enter n p # s)" "marks n = Some Done"
  shows "dfs_inv tbl marks order s"
proof -
  have "n \<in> set order" using assms by (simp add: dfs_inv_def)
  then have "covered tbl (set order) {} s"
    using assms by (auto simp: dfs_inv_def intro: covered_mono)
  then show ?thesis using assms by (auto simp: dfs_inv_def)
qed

lemma dfs_inv_enter:
  assumes inv: "dfs_inv tbl marks order (Enter n p # s)" and "marks n = None"
    and es: "resolver_edges tbl n = Inr es"
  shows "dfs_inv tbl (marks(n \<mapsto> Open)) order
     (rev (List.map (\<lambda>key. Enter key (p @ [key])) es) @ Exit n # s)"
proof -
  note E = resolver_edges_set [OF es] and dom = resolver_edges_declared [OF es]
  have fr: "p \<noteq> []" "last p = n" "butlast p = rev (exits s)" "dep_walk tbl p" "frames_ok tbl s"
    using inv by (simp_all add: dfs_inv_def)
  have p: "p = rev (n # exits s)" using fr(1-3) by (metis append_butlast_last_id rev.simps(2))
  have new: "n \<notin> set (exits s)" "n \<notin> set order" using assms(2) inv by (auto simp: dfs_inv_def)
  have "frames_ok tbl (List.map (\<lambda>key. Enter key (p @ [key])) (rev es) @ Exit n # s)"
    unfolding frames_enters using fr E dep_walk_snoc [OF fr(4,1)] p by (simp add: butlast_append)
  moreover have "covered tbl (set order) {} (List.map (\<lambda>key. Enter key (p @ [key])) (rev es) @ Exit n # s)"
    unfolding covered_enters using inv E by (auto simp: dfs_inv_def intro: covered_mono)
  moreover have "insert n (set (exits s)) = {k. (marks(n \<mapsto> Open)) k = Some Open}"
    "{k. (marks(n \<mapsto> Open)) k = Some Done} = {k. marks k = Some Done}"
    using inv assms(2) by (auto simp: dfs_inv_def)
  ultimately show ?thesis
    using inv new dom by (auto simp: dfs_inv_def rev_map)
qed

text \<open>A repeated open name closes a cycle of the graph.\<close>

definition dep_cycle :: "resolver_table \<Rightarrow> string list \<Rightarrow> bool" where
  "dep_cycle tbl p \<longleftrightarrow> p \<noteq> [] \<and> dep_walk tbl p \<and> last p \<in> set (butlast p)"

lemma dfs_inv_cycle:
  "dfs_inv tbl marks order (Enter n p # s) \<Longrightarrow> marks n = Some Open \<Longrightarrow> dep_cycle tbl p"
  by (auto simp: dfs_inv_def dep_cycle_def)

lemma order_loop_ok:
  assumes "order_loop tbl marks order stack = Inr (marks', order')" "dfs_inv tbl marks order stack"
  shows "dfs_inv tbl marks' order' [] \<and> dom marks \<subseteq> dom marks'
    \<and> (\<forall>n p. Enter n p \<in> set stack \<longrightarrow> n \<in> dom marks')"
  using assms
proof (induction tbl marks order stack rule: order_loop.induct)
  case (1 tbl marks order)
  then show ?case by simp
next
  case (2 tbl marks order name stack)
  have "order_loop tbl (marks(name \<mapsto> Done)) (order @ [name]) stack = Inr (marks', order')"
    using "2.prems"(1) by simp
  then have "dfs_inv tbl marks' order' []" "dom (marks(name \<mapsto> Done)) \<subseteq> dom marks'"
    "\<forall>n p. Enter n p \<in> set stack \<longrightarrow> n \<in> dom marks'"
    using "2.IH" [OF _ dfs_inv_exit [OF "2.prems"(2)]] by blast+
  then show ?case by auto
next
  case (3 tbl marks order name path stack)
  show ?case
  proof (cases "marks name")
    case None
    then obtain es where es: "resolver_edges tbl name = Inr es"
      using "3.prems" by (auto split: sum.splits)
    let ?stack = "rev (List.map (\<lambda>key. Enter key (path @ [key])) es) @ Exit name # stack"
    have "order_loop tbl (marks(name \<mapsto> Open)) order ?stack = Inr (marks', order')"
      using "3.prems"(1) None es by simp
    then have "dfs_inv tbl marks' order' []" "dom (marks(name \<mapsto> Open)) \<subseteq> dom marks'"
      "\<forall>n p. Enter n p \<in> set ?stack \<longrightarrow> n \<in> dom marks'"
      using "3.IH"(1) [OF None es _ dfs_inv_enter [OF "3.prems"(2) None es]] by blast+
    then show ?thesis by auto
  next
    case (Some m)
    then have m: "m = Done" using "3.prems" by (cases m) auto
    have "order_loop tbl marks order stack = Inr (marks', order')"
      using "3.prems"(1) Some m by simp
    then have "dfs_inv tbl marks' order' []" "dom marks \<subseteq> dom marks'"
      "\<forall>n p. Enter n p \<in> set stack \<longrightarrow> n \<in> dom marks'"
      using "3.IH"(2) [OF Some m _ dfs_inv_skip [OF "3.prems"(2)]] Some m by simp_all
    then show ?thesis using Some by auto
  qed
qed

lemma order_loop_cycle:
  assumes "order_loop tbl marks order stack = Inl (DependencyCycle p)" "dfs_inv tbl marks order stack"
  shows "dep_cycle tbl p"
  using assms
proof (induction tbl marks order stack rule: order_loop.induct)
  case (2 tbl marks order name stack)
  have "order_loop tbl (marks(name \<mapsto> Done)) (order @ [name]) stack = Inl (DependencyCycle p)"
    using "2.prems"(1) by simp
  then show ?case by (rule "2.IH" [OF _ dfs_inv_exit [OF "2.prems"(2)]])
next
  case (3 tbl marks order name path stack)
  show ?case
  proof (cases "marks name")
    case None
    show ?thesis
    proof (cases "resolver_edges tbl name")
      case (Inl e)
      then have "e = DependencyCycle p" using "3.prems"(1) None by simp
      then show ?thesis using Inl resolver_edges_no_cycle by blast
    next
      case (Inr es)
      have "order_loop tbl (marks(name \<mapsto> Open)) order
          (rev (List.map (\<lambda>key. Enter key (path @ [key])) es) @ Exit name # stack) = Inl (DependencyCycle p)"
        using "3.prems"(1) None Inr by simp
      then show ?thesis by (rule "3.IH"(1) [OF None Inr _ dfs_inv_enter [OF "3.prems"(2) None Inr]])
    qed
  next
    case (Some m)
    then show ?thesis
      using "3.IH"(2) [OF Some _ _ dfs_inv_skip [OF "3.prems"(2)]] dfs_inv_cycle [OF "3.prems"(2)] "3.prems"(1) Some
      by (cases m) auto
  qed
qed simp

lemma dfs_inv_start:
  "dfs_inv tbl marks order [] \<Longrightarrow> top0 \<in> dom (map_of tbl) \<Longrightarrow> dfs_inv tbl marks order [Enter top0 [top0]]"
  unfolding dfs_inv_def by (auto simp: dep_walk_def)

lemma dfs_inv_empty: "dfs_inv tbl (\<lambda>_. None) [] []"
  by (simp add: dfs_inv_def topological_def)

lemma order_roots_ok:
  assumes "order_roots tbl marks order tops = Inr (marks', order')" "dfs_inv tbl marks order []"
    and "set tops \<subseteq> dom (map_of tbl)"
  shows "dfs_inv tbl marks' order' [] \<and> dom marks \<subseteq> dom marks' \<and> set tops \<subseteq> dom marks'"
  using assms
proof (induction tbl marks order tops rule: order_roots.induct)
  case (2 tbl marks order top0 rest)
  show ?case
  proof (cases "marks top0 = Some Done")
    case True
    have "order_roots tbl marks order rest = Inr (marks', order')" using "2.prems"(1) True by simp
    then have "dfs_inv tbl marks' order' []" "dom marks \<subseteq> dom marks'" "set rest \<subseteq> dom marks'"
      using "2.IH"(1) [OF True] "2.prems"(2,3) by simp_all
    then show ?thesis using True by auto
  next
    case False
    then obtain m o' where l: "order_loop tbl marks order [Enter top0 [top0]] = Inr (m, o')"
      using "2.prems"(1) by (auto split: sum.splits)
    have start: "dfs_inv tbl marks order [Enter top0 [top0]]"
      using "2.prems"(2,3) by (intro dfs_inv_start) auto
    have "dfs_inv tbl m o' []" "dom marks \<subseteq> dom m" "top0 \<in> dom m"
      using order_loop_ok [OF l start] by auto
    moreover have "order_roots tbl m o' rest = Inr (marks', order')" using "2.prems"(1) False l by simp
    moreover have "dfs_inv tbl marks' order' [] \<and> dom m \<subseteq> dom marks' \<and> set rest \<subseteq> dom marks'"
      if "order_roots tbl m o' rest = Inr (marks', order')" "dfs_inv tbl m o' []"
      using "2.IH"(2) [OF False l refl that] "2.prems"(3) by simp
    ultimately have m: "dfs_inv tbl marks' order' []" "dom m \<subseteq> dom marks'" "set rest \<subseteq> dom marks'"
      "dom marks \<subseteq> dom m" "top0 \<in> dom m" by blast+
    show ?thesis using m(1,3) subset_trans [OF m(4,2)] subsetD [OF m(2,5)] by simp
  qed
qed simp

lemma order_roots_cycle:
  assumes "order_roots tbl marks order tops = Inl (DependencyCycle p)" "dfs_inv tbl marks order []"
    and "set tops \<subseteq> dom (map_of tbl)"
  shows "dep_cycle tbl p"
  using assms
proof (induction tbl marks order tops rule: order_roots.induct)
  case (2 tbl marks order top0 rest)
  show ?case
  proof (cases "marks top0 = Some Done")
    case True
    then show ?thesis using "2.IH"(1) [OF True] "2.prems" by simp
  next
    case False
    have start: "dfs_inv tbl marks order [Enter top0 [top0]]"
      using "2.prems"(2,3) by (intro dfs_inv_start) auto
    show ?thesis
    proof (cases "order_loop tbl marks order [Enter top0 [top0]]")
      case (Inl e)
      then show ?thesis using order_loop_cycle [OF _ start] "2.prems"(1) False by simp
    next
      case (Inr mo)
      obtain m o' where mo: "mo = (m, o')" by fastforce
      have "dfs_inv tbl m o' []" using order_loop_ok [OF Inr [unfolded mo] start] by blast
      then show ?thesis using "2.IH"(2) [OF False Inr mo [symmetric]] "2.prems"(1,3) False Inr mo by simp
    qed
  qed
qed simp

text \<open>With every reference declared the search can only fail on a cycle.\<close>

lemma order_loop_err:
  assumes "order_loop tbl marks order stack = Inl e" "refs_resolve tbl"
    and "\<forall>n p. Enter n p \<in> set stack \<longrightarrow> n \<in> dom (map_of tbl)"
  shows "\<exists>p. e = DependencyCycle p"
  using assms
proof (induction tbl marks order stack rule: order_loop.induct)
  case (3 tbl marks order name path stack)
  show ?case
  proof (cases "marks name")
    case None
    obtain es where es: "resolver_edges tbl name = Inr es"
      using resolver_edges_ok [OF "3.prems"(2), of name] "3.prems"(3) by auto
    let ?stack = "rev (List.map (\<lambda>key. Enter key (path @ [key])) es) @ Exit name # stack"
    have "set es \<subseteq> dom (map_of tbl)"
    proof -
      have "depends tbl name \<subseteq> dom (map_of tbl)"
      proof
        fix m assume "m \<in> depends tbl name"
        then obtain d where d: "map_of tbl name = Some d" "CHR ''@'' # m \<in> set (resolver_references d)"
            "is_resolver_ref (CHR ''@'' # m)"
          by (auto simp: depends_def split: option.splits)
        then have "m \<in> fst ` set tbl"
          using bspec [OF "3.prems"(2) [unfolded refs_resolve_def] map_of_SomeD [OF d(1)]] by auto
        then show "m \<in> dom (map_of tbl)" by (simp add: dom_map_of_conv_image_fst)
      qed
      then show ?thesis using resolver_edges_set [OF es] by simp
    qed
    then have "\<forall>n p. Enter n p \<in> set ?stack \<longrightarrow> n \<in> dom (map_of tbl)" using "3.prems"(3) by auto
    moreover have "order_loop tbl (marks(name \<mapsto> Open)) order ?stack = Inl e" using "3.prems"(1) None es by simp
    ultimately show ?thesis using "3.IH"(1) [OF None es] "3.prems"(2) by blast
  next
    case (Some m)
    then show ?thesis using "3.IH"(2) [OF Some] "3.prems" by (cases m) auto
  qed
qed auto

lemma order_roots_err:
  assumes "order_roots tbl marks order tops = Inl e" "refs_resolve tbl" "set tops \<subseteq> dom (map_of tbl)"
  shows "\<exists>p. e = DependencyCycle p"
  using assms
proof (induction tbl marks order tops rule: order_roots.induct)
  case (2 tbl marks order top0 rest)
  then show ?case
    using order_loop_err [of tbl marks order "[Enter top0 [top0]]"] by (auto split: if_splits sum.splits)
qed simp

lemma topological_acyclic:
  assumes "topological tbl order" "distinct order" "dep_walk tbl p" "set p \<subseteq> set order" "p \<noteq> []"
  shows "last p \<notin> set (butlast p)"
proof
  let ?pos = "\<lambda>n. THE i. i < length order \<and> order ! i = n"
  assume "last p \<in> set (butlast p)"
  have pos: "?pos (order ! i) = i" if "i < length order" for i
    using that assms(2) by (auto simp: nth_eq_iff_index_eq intro: the_equality)
  have step: "?pos b < ?pos a" if ab: "a \<in> set order" "b \<in> depends tbl a" for a b
  proof -
    obtain i where i: "i < length order" "order ! i = a" using ab(1) by (auto simp: in_set_conv_nth)
    then have "order = take i order @ a # drop (Suc i) order" using id_take_nth_drop by metis
    then have "b \<in> set (take i order)" using assms(1) ab(2) unfolding topological_def by blast
    then obtain j where "j < i" "order ! j = b" using i(1) by (auto simp: in_set_conv_nth)
    then show ?thesis using i pos by force
  qed
  have down: "?pos (p ! j) < ?pos (p ! i)" if "i < j" "j < length p" for i j
    using that
  proof (induction j)
    case (Suc j)
    have "?pos (p ! Suc j) < ?pos (p ! j)"
    proof (rule step)
      have "p ! j \<in> set p" using Suc.prems(2) by simp
      then show "p ! j \<in> set order" using assms(4) by blast
      show "p ! Suc j \<in> depends tbl (p ! j)" using assms(3) Suc.prems(2) by (simp add: dep_walk_def)
    qed
    then show ?case using Suc by (cases "i = j") auto
  qed simp
  obtain i where "i < length p - 1" "p ! i = last p"
    using \<open>last p \<in> set (butlast p)\<close> by (auto simp: in_set_conv_nth nth_butlast)
  then show False
    using down [of i "length p - 1"] assms(5) by (simp add: last_conv_nth)
qed

lemma dep_walk_declared:
  assumes "dep_cycle tbl p"
  shows "set p \<subseteq> dom (map_of tbl)"
proof -
  obtain q x where p: "p = q @ [x]" using assms by (cases p rule: rev_cases) (auto simp: dep_cycle_def)
  have w: "dep_walk tbl p" and x: "x \<in> set q" using assms p by (simp_all add: dep_cycle_def)
  have "q ! i \<in> dom (map_of tbl)" if i: "i < length q" for i
  proof -
    have "p ! Suc i \<in> depends tbl (p ! i)" using w i p by (simp add: dep_walk_def)
    then show ?thesis using i p by (auto simp: nth_append depends_def split: option.splits)
  qed
  then have "set q \<subseteq> dom (map_of tbl)" by (metis in_set_conv_nth subsetI)
  then show ?thesis using x p by auto
qed

lemma build_order_ok:
  assumes "resolver_build_order tbl = Inr order"
  shows "distinct order \<and> set order = fst ` set tbl \<and> topological tbl order"
proof -
  obtain marks where r: "order_roots tbl (\<lambda>_. None) [] (sort (List.map fst tbl)) = Inr (marks, order)"
    using assms by (cases "order_roots tbl (\<lambda>_. None) [] (sort (List.map fst tbl))") (auto simp: resolver_build_order_def)
  have names: "set (sort (List.map fst tbl)) = dom (map_of tbl)"
    by (simp add: dom_map_of_conv_image_fst)
  have inv: "dfs_inv tbl marks order []" "dom (map_of tbl) \<subseteq> dom marks"
    using order_roots_ok [OF r dfs_inv_empty] names by auto
  have "set order = dom (map_of tbl)"
  proof
    show "dom (map_of tbl) \<subseteq> set order"
    proof
      fix n assume "n \<in> dom (map_of tbl)"
      then obtain m where m: "marks n = Some m" using inv(2) by blast
      moreover have "marks n \<noteq> Some Open" using inv(1) by (auto simp: dfs_inv_def)
      ultimately show "n \<in> set order" using inv(1) by (cases m) (simp_all add: dfs_inv_def)
    qed
    show "set order \<subseteq> dom (map_of tbl)" using inv(1) unfolding dfs_inv_def by blast
  qed
  then show ?thesis using inv(1) unfolding dfs_inv_def by (auto simp: dom_map_of_conv_image_fst)
qed

section \<open>Properties\<close>

text \<open>C12. The build order always comes back. When it succeeds it lists every declared resolver
  exactly once, each after all the resolvers it depends on, and the graph has no cycle; when it
  reports a cycle, the reported path is a closed walk of the dependency graph; and provided every
  reference names a declared resolver, it succeeds exactly when the graph is acyclic.\<close>

theorem build_order_correct:
  "(\<forall>order. resolver_build_order tbl = Inr order \<longrightarrow>
      distinct order \<and> set order = fst ` set tbl
      \<and> (\<forall>ys n zs. order = ys @ n # zs \<longrightarrow> depends tbl n \<subseteq> set ys))
   \<and> (\<forall>p. resolver_build_order tbl = Inl (DependencyCycle p) \<longrightarrow> dep_cycle tbl p)
   \<and> (refs_resolve tbl \<longrightarrow> is_ok (resolver_build_order tbl) = (\<nexists>p. dep_cycle tbl p))"
proof -
  have cyc: "dep_cycle tbl p" if "resolver_build_order tbl = Inl (DependencyCycle p)" for p
  proof -
    have "order_roots tbl (\<lambda>_. None) [] (sort (List.map fst tbl)) = Inl (DependencyCycle p)"
      using that by (cases "order_roots tbl (\<lambda>_. None) [] (sort (List.map fst tbl))") (auto simp: resolver_build_order_def)
    then show ?thesis
      by (rule order_roots_cycle [OF _ dfs_inv_empty]) (simp add: dom_map_of_conv_image_fst)
  qed
  have acyc: "\<not> dep_cycle tbl p" if "resolver_build_order tbl = Inr order" for order p
  proof
    assume p: "dep_cycle tbl p"
    have "set p \<subseteq> set order"
      using dep_walk_declared [OF p] build_order_ok [OF that] by (simp add: dom_map_of_conv_image_fst)
    then show False
      using topological_acyclic [of tbl order p] build_order_ok [OF that] p by (simp add: dep_cycle_def)
  qed
  have err: "\<exists>p. e = DependencyCycle p" if "refs_resolve tbl" "resolver_build_order tbl = Inl e" for e
  proof -
    have "order_roots tbl (\<lambda>_. None) [] (sort (List.map fst tbl)) = Inl e"
      using that(2) by (cases "order_roots tbl (\<lambda>_. None) [] (sort (List.map fst tbl))") (auto simp: resolver_build_order_def)
    then show ?thesis by (rule order_roots_err [OF _ that(1)]) (simp add: dom_map_of_conv_image_fst)
  qed
  have "is_ok (resolver_build_order tbl) = (\<nexists>p. dep_cycle tbl p)" if "refs_resolve tbl"
    using cyc acyc err [OF that] by (cases "resolver_build_order tbl") auto
  then show ?thesis
    using build_order_ok cyc unfolding topological_def by blast
qed


text \<open>Two chained resolvers, and one that bootstraps through itself.\<close>

definition chained :: resolver_table where
  "chained = [(''lan'', (plain_resolver ''system'')\<lparr>rd_bootstrap := Some ''@dns''\<rparr>), (''dns'', plain_resolver ''system'')]"

definition selfish :: resolver_table where
  "selfish = [(''a'', (plain_resolver ''system'')\<lparr>rd_bootstrap := Some ''@a''\<rparr>)]"

lemma sample_edges:
  "resolver_edges chained ''dns'' = Inr []" "resolver_edges chained ''lan'' = Inr [''dns'']"
  "resolver_edges selfish ''a'' = Inr [''a'']"
proof -
  have "is_resolver_ref ''@dns''" "is_resolver_ref ''@a''" by code_simp+
  then show "resolver_edges chained ''dns'' = Inr []" "resolver_edges chained ''lan'' = Inr [''dns'']"
    "resolver_edges selfish ''a'' = Inr [''a'']"
    by (simp_all add: resolver_edges_def resolver_def_of_def chained_def selfish_def plain_resolver_def
        resolver_references_def flatten_def map_filter_simps edge_target_def)
qed

lemma build_order_correct_witness:
  "depends chained ''lan'' \<subseteq> {''dns''} \<and> dep_cycle selfish [''a'', ''a'']"
proof -
  have names: "sort (List.map fst chained) = [''dns'', ''lan'']" "sort (List.map fst selfish) = [''a'']"
    unfolding chained_def selfish_def by code_simp+
  have "resolver_build_order chained = Inr [''dns'', ''lan'']"
    "resolver_build_order selfish = Inl (DependencyCycle [''a'', ''a''])"
    by (simp_all add: resolver_build_order_def names sample_edges)
  then show ?thesis
    using build_order_correct [of chained] build_order_correct [of selfish]
    by (metis append_Cons append_Nil list.set(1) list.simps(15))
qed

end
