(* ===== verification/Endpoint.thy ===== *)
theory Endpoint
  imports ResolverOrder
begin

text \<open>
  The specification strings other modules own: a resolver endpoint
  (\<open>Endpoint\<close> of \<open>src/src/dns_resolvers.rs\<close>) and a pool target (\<open>TargetSpec\<close> of
  \<open>src/src/pool.rs\<close>). The CIDR parser of the \<open>ipnet\<close> crate is the parameter \<open>cidr\<close>: the network's
  address and prefix length.
\<close>

section \<open>Resolver endpoints\<close>

datatype endpoint =
    EpSystem
  | EpDoh string nat string
  | EpDot string nat
  | EpPlain string nat

datatype endpoint_error = EpNoHost | EpBadPort | EpNotAnIp

definition split_authority_path :: "string \<Rightarrow> string \<times> nat option \<times> string" where
  "split_authority_path s =
     (let (authority, path) = (case split_once CHR ''/'' s of Some (a, p) \<Rightarrow> (a, CHR ''/'' # p) | None \<Rightarrow> (s, []))
      in case rsplit_once CHR '':'' authority of
          Some (h, p) \<Rightarrow> if all_digits p then (h, parse_u16 p, path) else (authority, None, path)
        | None \<Rightarrow> (authority, None, path))"

definition parse_ip_addr :: "string \<Rightarrow> socket_addr option" where
  "parse_ip_addr s =
     (case parse_sock s of Some sa \<Rightarrow> Some sa
      | None \<Rightarrow> map_option (\<lambda>ip. case ip of V4 a \<Rightarrow> SockV4 a 53 | V6 a \<Rightarrow> SockV6 a 0 53) (parse_ip s))"

definition parse_plain :: "string \<Rightarrow> bool \<Rightarrow> (endpoint_error, endpoint) result" where
  "parse_plain body allow_hostname =
     (case parse_ip_addr body of
        Some addr \<Rightarrow> Inr (EpPlain (show_ip (sock_ip addr)) (sock_port addr))
      | None \<Rightarrow>
          if allow_hostname then
            (case rsplit_once CHR '':'' body of
               Some (host, p) \<Rightarrow>
                 if all_digits p then map_sum id (EpPlain host) (ok_or EpBadPort (parse_u16 p))
                 else Inr (EpPlain body 53)
             | None \<Rightarrow> Inr (EpPlain body 53))
          else Inl EpNotAnIp)"

definition endpoint_parse :: "string \<Rightarrow> (endpoint_error, endpoint) result" where
  "endpoint_parse s0 =
     (let s = trim s0 in
      if s = [] \<or> eq_nocase s ''system'' then Inr EpSystem
      else case strip_prefix ''https://'' s of
        Some rest \<Rightarrow>
          (let (host, port, path) = split_authority_path rest in
           if host = [] then Inl EpNoHost
           else Inr (EpDoh host (unwrap_or 443 port) (if path = [] then ''/dns-query'' else path)))
      | None \<Rightarrow>
      (case strip_prefix ''tls://'' s of
        Some rest \<Rightarrow>
          (let (host, port, _) = split_authority_path rest in
           if host = [] then Inl EpNoHost else Inr (EpDot host (unwrap_or 853 port)))
      | None \<Rightarrow>
      (case strip_prefix ''udp://'' s of Some rest \<Rightarrow> parse_plain rest True
      | None \<Rightarrow>
      (case strip_prefix ''tcp://'' s of Some rest \<Rightarrow> parse_plain rest True
      | None \<Rightarrow> parse_plain s False))))"

fun ep_host :: "endpoint \<Rightarrow> string option" where
  "ep_host EpSystem = None"
| "ep_host (EpDoh h p path) = Some h"
| "ep_host (EpDot h p) = Some h"
| "ep_host (EpPlain t p) = (if is_ip_literal t then None else Some t)"

fun ep_port :: "endpoint \<Rightarrow> nat" where
  "ep_port EpSystem = 53"
| "ep_port (EpDoh h p path) = p"
| "ep_port (EpDot h p) = p"
| "ep_port (EpPlain t p) = p"

fun ep_is_tls :: "endpoint \<Rightarrow> bool" where
  "ep_is_tls (EpDoh h p path) = True"
| "ep_is_tls (EpDot h p) = True"
| "ep_is_tls _ = False"

section \<open>Pool targets\<close>

datatype target_spec = TsDomain string | TsIp ip_addr | TsCidr ip_addr nat "nat option"

datatype target_error =
    TargetEmpty | SampleNotANumber | SampleZero | UnmatchedBracket | BadCidr | CidrTooLarge nat
  | SampleWithoutCidr | LooksLikeIpv6

definition max_cidr_expansion :: nat where
  "max_cidr_expansion = 64"

definition max_prefix_len :: "ip_addr \<Rightarrow> nat" where
  "max_prefix_len a = (case a of V4 _ \<Rightarrow> 32 | V6 _ \<Rightarrow> 128)"

text \<open>\<open>network_size\<close> saturates at the largest 128-bit value.\<close>

definition network_size :: "ip_addr \<Rightarrow> nat \<Rightarrow> nat" where
  "network_size a prefix_len =
     (let host_bits = max_prefix_len a - prefix_len in
      if 128 \<le> host_bits then 2 ^ 128 - 1 else 2 ^ host_bits)"

text \<open>\<open>usize::from_str\<close> on the target's 64-bit machine.\<close>

abbreviation parse_usize :: "string \<Rightarrow> nat option" where
  "parse_usize \<equiv> parse_uint (2 ^ 64 - 1)"

definition split_sample :: "string \<Rightarrow> (target_error, string \<times> nat option) result" where
  "split_sample s =
     (case strip_suffix '']'' s of None \<Rightarrow> Inr (s, None)
      | Some head \<Rightarrow>
          (case rsplit_once CHR ''['' head of None \<Rightarrow> Inl UnmatchedBracket
           | Some (base, n) \<Rightarrow>
               (case parse_usize (trim n) of None \<Rightarrow> Inl SampleNotANumber
                | Some k \<Rightarrow> if k = 0 then Inl SampleZero else Inr (trim base, Some k))))"

definition target_parse :: "(string \<Rightarrow> (ip_addr \<times> nat) option) \<Rightarrow> string \<Rightarrow> (target_error, target_spec) result" where
  "target_parse cidr s0 =
     (let s = trim s0 in
      if s = [] then Inl TargetEmpty
      else res_bind (split_sample s) (\<lambda>(body, sample).
        if CHR ''/'' \<in> set body then
          (case cidr body of None \<Rightarrow> Inl BadCidr
           | Some (a, len) \<Rightarrow>
               if sample = None \<and> max_cidr_expansion < network_size a len
               then Inl (CidrTooLarge (network_size a len))
               else Inr (TsCidr a len sample))
        else if sample \<noteq> None then Inl SampleWithoutCidr
        else (case parse_ip body of Some ip \<Rightarrow> Inr (TsIp ip)
          | None \<Rightarrow> if CHR '':'' \<in> set body then Inl LooksLikeIpv6 else Inr (TsDomain body))))"

section \<open>Facts\<close>

lemma at_not_addr: "parse_ip_addr (CHR ''@'' # s) = None"
  by (simp add: parse_ip_addr_def parse_sock_def parse_sockv4_def parse_sockv6_def parse_ip_def read_ipv4_def
      read_octet_def is_digit_def Let_def parse_ipv6_def read_ipv6_def read_hextet_def is_hexdigit_def whole_def
      eval_nat_numeral)

lemma split_authority_port: "split_authority_path s = (h, Some p, path) \<Longrightarrow> p \<le> 65535"
  by (auto simp: split_authority_path_def Let_def parse_uint_le split: option.splits if_splits prod.splits)

lemma split_authority_slash: "split_authority_path s = (h, p, path) \<Longrightarrow> path = [] \<or> hd path = CHR ''/''"
  by (auto simp: split_authority_path_def Let_def split: option.splits if_splits prod.splits)

lemma read_port_le: "read_port s = Some p \<Longrightarrow> p \<le> 65535"
  by (auto simp: read_port_def split: option.splits if_splits)

lemma parse_sock_port: "parse_sock s = Some a \<Longrightarrow> sock_port a \<le> 65535"
proof -
  assume "parse_sock s = Some a"
  then have "parse_sockv4 s = Some a \<or> parse_sockv6 s = Some a"
    using first_some_Some by (fastforce simp: parse_sock_def)
  then show ?thesis
    by (auto simp: parse_sockv4_def parse_sockv6_def read_port_le split: option.splits prod.splits)
qed

lemma parse_ip_addr_port: "parse_ip_addr s = Some a \<Longrightarrow> sock_port a \<le> 65535"
  using parse_sock_port
  by (cases "parse_sock s"; cases "parse_ip s") (auto simp: parse_ip_addr_def split: ip_addr.splits)

lemma parse_plain_port:
  assumes "parse_plain body b = Inr ep"
  shows "ep_port ep \<le> 65535 \<and> \<not> ep_is_tls ep"
proof (cases "parse_ip_addr body")
  case (Some a)
  then show ?thesis using assms parse_ip_addr_port by (auto simp: parse_plain_def)
next
  case None
  then show ?thesis
  proof (cases "rsplit_once CHR '':'' body")
    case (Some hp)
    obtain h p where hp: "hp = (h, p)" by fastforce
    show ?thesis
      using assms None Some hp parse_uint_le [of 65535 p]
      by (cases "parse_u16 p") (auto simp: parse_plain_def split: if_splits)
  next
    case n2: None
    then show ?thesis using assms None by (auto simp: parse_plain_def split: if_splits)
  qed
qed

text \<open>The five forms, told apart.\<close>

lemma endpoint_parse_cases:
  assumes "endpoint_parse s = Inr ep"
  obtains (System) "ep = EpSystem" "trim s = [] \<or> eq_nocase (trim s) ''system''"
  | (Doh) rest h p path where "trim s = ''https://'' @ rest" "split_authority_path rest = (h, p, path)" "h \<noteq> []"
      "ep = EpDoh h (unwrap_or 443 p) (if path = [] then ''/dns-query'' else path)"
  | (Dot) rest h p path where "trim s = ''tls://'' @ rest" "split_authority_path rest = (h, p, path)" "h \<noteq> []"
      "ep = EpDot h (unwrap_or 853 p)"
  | (Scheme) rest where "trim s = ''udp://'' @ rest \<or> trim s = ''tcp://'' @ rest" "parse_plain rest True = Inr ep"
  | (Bare) "parse_plain (trim s) False = Inr ep" "strip_prefix ''https://'' (trim s) = None"
      "strip_prefix ''tls://'' (trim s) = None"
proof -
  consider "trim s = [] \<or> eq_nocase (trim s) ''system''" | rest where "\<not> (trim s = [] \<or> eq_nocase (trim s) ''system'')"
      "strip_prefix ''https://'' (trim s) = Some rest"
    | rest where "\<not> (trim s = [] \<or> eq_nocase (trim s) ''system'')" "strip_prefix ''https://'' (trim s) = None"
      "strip_prefix ''tls://'' (trim s) = Some rest"
    | "\<not> (trim s = [] \<or> eq_nocase (trim s) ''system'')" "strip_prefix ''https://'' (trim s) = None"
      "strip_prefix ''tls://'' (trim s) = None"
    by fastforce
  then show thesis
  proof cases
    case 1
    then show thesis using assms by (intro System) (auto simp: endpoint_parse_def)
  next
    case (2 rest)
    obtain h p path where sp: "split_authority_path rest = (h, p, path)" by (metis surj_pair)
    then show thesis
      using assms 2 by (intro Doh [of rest h p path]) (auto simp: endpoint_parse_def strip_prefix_Some split: if_splits)
  next
    case (3 rest)
    obtain h p path where sp: "split_authority_path rest = (h, p, path)" by (metis surj_pair)
    then show thesis
      using assms 3 by (intro Dot [of rest h p path]) (auto simp: endpoint_parse_def strip_prefix_Some split: if_splits)
  next
    case 4
    show thesis
    proof (cases "strip_prefix ''udp://'' (trim s)")
      case (Some rest)
      then show thesis using assms 4 by (intro Scheme [of rest]) (auto simp: endpoint_parse_def strip_prefix_Some)
    next
      case no_udp: None
      show thesis
      proof (cases "strip_prefix ''tcp://'' (trim s)")
        case (Some rest)
        then show thesis using assms 4 no_udp by (intro Scheme [of rest]) (auto simp: endpoint_parse_def strip_prefix_Some)
      next
        case None
        then show thesis using assms 4 no_udp by (intro Bare) (auto simp: endpoint_parse_def)
      qed
    qed
  qed
qed

section \<open>Properties\<close>

text \<open>An endpoint specification and a reference to a named resolver never overlap, and a parsed
  endpoint is well formed: its port fits, an encrypted one has a host, an HTTPS one a path that
  starts with a slash, and it is encrypted exactly when its scheme says so.\<close>

theorem endpoint_well_formed:
  assumes "endpoint_parse s = Inr ep"
  shows "\<not> is_resolver_ref s \<and> ep_port ep \<le> 65535
    \<and> (ep_is_tls ep \<longrightarrow> (\<exists>h. ep_host ep = Some h \<and> h \<noteq> []))
    \<and> (\<forall>h p path. ep = EpDoh h p path \<longrightarrow> path \<noteq> [] \<and> hd path = CHR ''/'')
    \<and> (ep_is_tls ep \<longleftrightarrow> starts_with ''https://'' (trim s) \<or> starts_with ''tls://'' (trim s))"
  using assms
proof (cases rule: endpoint_parse_cases)
  case System
  have e: "lowercase ''system'' = ''system''" by code_simp
  have "\<not> is_resolver_ref s" "\<not> starts_with ''https://'' (trim s)" "\<not> starts_with ''tls://'' (trim s)"
  proof -
    have "trim s \<noteq> c # t" if "lower_char c \<noteq> CHR ''s''" for c t
      using System(2) that e by (auto simp: eq_nocase_def)
    moreover have "lower_char CHR ''@'' \<noteq> CHR ''s''" "lower_char CHR ''h'' \<noteq> CHR ''s''" "lower_char CHR ''t'' \<noteq> CHR ''s''"
      by code_simp+
    ultimately show "\<not> is_resolver_ref s" "\<not> starts_with ''https://'' (trim s)" "\<not> starts_with ''tls://'' (trim s)"
      by (auto simp: is_resolver_ref_def starts_with_iff)
  qed
  then show ?thesis using System by simp
next
  case (Doh rest h p path)
  then show ?thesis
    using split_authority_port [of rest h _ path] split_authority_slash [OF Doh(2)]
    by (cases p) (auto simp: is_resolver_ref_def starts_with_iff unwrap_or_def)
next
  case (Dot rest h p path)
  then show ?thesis
    using split_authority_port [of rest h _ path]
    by (cases p) (auto simp: is_resolver_ref_def starts_with_iff unwrap_or_def)
next
  case (Scheme rest)
  then show ?thesis using parse_plain_port [OF Scheme(2)] by (cases ep) (auto simp: is_resolver_ref_def starts_with_iff)
next
  case Bare
  have "\<not> is_resolver_ref s"
    using Bare(1) at_not_addr by (auto simp: is_resolver_ref_def starts_with_iff parse_plain_def)
  then show ?thesis using parse_plain_port [OF Bare(1)] Bare(2,3) by (cases ep) (auto simp: starts_with_def)
qed

lemma endpoint_well_formed_witness:
  "endpoint_parse ''https://dns.net/q'' = Inr (EpDoh ''dns.net'' 443 ''/q'')
   \<and> \<not> is_resolver_ref ''https://dns.net/q''"
proof -
  have "trim ''https://dns.net/q'' = ''https://dns.net/q''" "eq_nocase ''https://dns.net/q'' ''system'' = False"
    by code_simp+
  then have "endpoint_parse ''https://dns.net/q'' = Inr (EpDoh ''dns.net'' 443 ''/q'')"
    by (simp add: endpoint_parse_def split_authority_path_def unwrap_or_def)
  then show ?thesis using endpoint_well_formed by blast
qed

text \<open>An encrypted endpoint's port that does not fit is dropped and the default used, where a plain
  endpoint's is an error.\<close>

lemma endpoint_port_overflow:
  "endpoint_parse ''https://h:99999'' = Inr (EpDoh ''h'' 443 ''/dns-query'')
   \<and> endpoint_parse ''udp://h:99999'' = Inl EpBadPort"
proof -
  have "parse_u16 ''99999'' = None" "all_digits ''99999''"
    by (simp_all add: parse_uint_def all_digits_def dec_val_def is_digit_def)
  moreover have "trim ''https://h:99999'' = ''https://h:99999''" "eq_nocase ''https://h:99999'' ''system'' = False"
    "trim ''udp://h:99999'' = ''udp://h:99999''" "eq_nocase ''udp://h:99999'' ''system'' = False"
    "parse_ip_addr ''h:99999'' = None" "rsplit_once CHR '':'' ''h:99999'' = Some (''h'', ''99999'')"
    by code_simp+
  ultimately show ?thesis
    by (simp add: endpoint_parse_def split_authority_path_def unwrap_or_def parse_plain_def)
qed

end
