(* ===== verification/Probespec.thy ===== *)
theory Probespec
  imports Endpoint
begin

text \<open>
  Checks that need no other part of the document (\<open>src/src/config.rs\<close>): a verification policy
  (\<open>EffectiveVerify::validate\<close> and its helpers, the SPKI pin parser) and a pool's probe table
  (\<open>ProbeDef::validate\<close>), reduced to the fields its mode uses.

  Third-party parsers are the fields of \<open>libs\<close>: the base64 decoder, the check of a TLS server name,
  the regex compiler, the URL parser and the CIDR parser.
\<close>

record url =
  url_scheme :: string
  url_host :: "string option"
  url_port :: "nat option"
  url_path :: string
  url_query :: "string option"

record libs =
  lb_base64 :: "string \<Rightarrow> string option"
  lb_server_name :: "string \<Rightarrow> bool"
  lb_regex :: "string \<Rightarrow> bool"
  lb_url :: "string \<Rightarrow> url option"
  lb_cidr :: "string \<Rightarrow> (ip_addr \<times> nat) option"

section \<open>Pins\<close>

definition spki_pin_prefix :: string where
  "spki_pin_prefix = ''sha256/''"

datatype pin_error = PinNoPrefix string | PinNotBase64 string | PinLength string nat

definition parse_spki_pin :: "libs \<Rightarrow> string \<Rightarrow> (pin_error, string) result" where
  "parse_spki_pin lib pin0 =
     (let pin = trim pin0 in
      case strip_prefix spki_pin_prefix pin of None \<Rightarrow> Inl (PinNoPrefix pin)
      | Some body \<Rightarrow>
        (case lb_base64 lib (trim body) of None \<Rightarrow> Inl (PinNotBase64 pin)
         | Some raw \<Rightarrow> if length raw = 32 then Inr raw else Inl (PinLength pin (length raw))))"

section \<open>Verification policies\<close>

datatype verify_error =
    VerifyBlankName
  | VerifyBadName string
  | VerifyBadPin pin_error
  | VerifyEmptyCaFile
  | VerifyMeaningless string verify_mode
  | VerifyNoAnchors
  | VerifyNameNotHere

definition check_verify_name :: "libs \<Rightarrow> string option \<Rightarrow> (verify_error, unit) result" where
  "check_verify_name lib name =
     (case name of None \<Rightarrow> Inr ()
      | Some n \<Rightarrow> if trim n = [] then Inl VerifyBlankName else require (lb_server_name lib n) (VerifyBadName n))"

definition check_verify_pins :: "libs \<Rightarrow> string list \<Rightarrow> (verify_error, unit) result" where
  "check_verify_pins lib pins =
     check_all (\<lambda>pin. case parse_spki_pin lib pin of Inl e \<Rightarrow> Inl (VerifyBadPin e) | Inr _ \<Rightarrow> Inr ()) pins"

definition check_verify_ca_file :: "string option \<Rightarrow> (verify_error, unit) result" where
  "check_verify_ca_file ca_file = require (ca_file \<noteq> Some []) VerifyEmptyCaFile"

definition verify_validate :: "libs \<Rightarrow> effective_verify \<Rightarrow> (verify_error, unit) result" where
  "verify_validate lib v =
     res_bind (check_verify_name lib (ev_name v)) (\<lambda>_.
     res_bind (check_verify_pins lib (ev_pins v)) (\<lambda>_.
     res_bind (check_verify_ca_file (ev_ca_file v)) (\<lambda>_.
       if ev_mode v \<noteq> VFull \<and> ev_name v \<noteq> None then Inl (VerifyMeaningless ''name'' (ev_mode v))
       else if ev_mode v = VNone then
         (if ev_ca_file v \<noteq> None then Inl (VerifyMeaningless ''ca_file'' (ev_mode v))
          else if \<not> ev_trust_webpki v then Inl (VerifyMeaningless ''trust_webpki'' (ev_mode v))
          else Inr ())
       else if \<not> ev_trust_webpki v \<and> ev_ca_file v = None then Inl VerifyNoAnchors
       else Inr ())))"

definition verify_validate_syntax :: "libs \<Rightarrow> verify_config \<Rightarrow> (verify_error, unit) result" where
  "verify_validate_syntax lib v =
     res_bind (check_verify_name lib (vc_name v)) (\<lambda>_.
     res_bind (check_verify_pins lib (unwrap_or [] (vc_pins v))) (\<lambda>_.
       check_verify_ca_file (vc_ca_file v)))"

definition verify_reject_name :: "verify_config \<Rightarrow> (verify_error, unit) result" where
  "verify_reject_name v = require (vc_name v = None) VerifyNameNotHere"

section \<open>Probes\<close>

datatype probe_spec =
    ProbeTcp "nat option" "nat option"
  | ProbeTls "nat option" string "nat option" "ech_config option" "verify_config option"
  | ProbeHttp url "nat list" "nat option" "ech_config option" "verify_config option"

fun probe_ech :: "probe_spec \<Rightarrow> ech_config option" where
  "probe_ech (ProbeTcp _ _) = None"
| "probe_ech (ProbeTls _ _ _ e _) = e"
| "probe_ech (ProbeHttp _ _ _ e _) = e"

fun probe_verify :: "probe_spec \<Rightarrow> verify_config option" where
  "probe_verify (ProbeTcp _ _) = None"
| "probe_verify (ProbeTls _ _ _ _ v) = v"
| "probe_verify (ProbeHttp _ _ _ _ v) = v"

fun probe_handshakes :: "probe_spec \<Rightarrow> bool" where
  "probe_handshakes (ProbeTcp _ _) = False"
| "probe_handshakes (ProbeTls _ _ _ _ _) = True"
| "probe_handshakes (ProbeHttp u _ _ _ _) = (url_scheme u = ''https'')"

datatype probe_error =
    Meaningless string string
  | ProbeNotPositive string
  | ProbeFailThreshold
  | ProbeConcurrency
  | ProbeDiscount
  | ProbeProcessNoise
  | ProbeObsNoise
  | ProbeNoSni
  | ProbeNoUrl
  | ProbeBadUrl string
  | ProbeScheme string
  | ProbeUrlNoHost string
  | ProbeNoStatus
  | ProbeBadStatus nat
  | ProbeUnknownMode string

fun finite_where :: "(rat \<Rightarrow> bool) \<Rightarrow> f64 \<Rightarrow> bool" where
  "finite_where P NonFinite = False"
| "finite_where P (Finite v) = P v"

definition opt_ok :: "('a \<Rightarrow> bool) \<Rightarrow> 'a option \<Rightarrow> bool" where
  "opt_ok P x = (case x of None \<Rightarrow> True | Some v \<Rightarrow> P v)"

definition validate_parameters :: "probe_def \<Rightarrow> (probe_error, unit) result" where
  "validate_parameters d =
     res_bind (check_all (\<lambda>(name, v). require (v \<noteq> Some 0) (ProbeNotPositive name))
       [(''timeout'', pd_timeout d), (''interval'', pd_interval d), (''degraded_interval'', pd_degraded_interval d)]) (\<lambda>_.
     res_bind (require (pd_fail_threshold d \<noteq> Some 0) ProbeFailThreshold) (\<lambda>_.
     res_bind (require (opt_ok (\<lambda>n. 0 < n \<and> n \<le> 4096) (pd_max_concurrent_probes d)) ProbeConcurrency) (\<lambda>_.
     res_bind (require (opt_ok (finite_where (\<lambda>v. 0 < v \<and> v \<le> 1)) (pd_throughput_discount d)) ProbeDiscount) (\<lambda>_.
     res_bind (require (opt_ok (finite_where (\<lambda>v. 0 \<le> v)) (pd_rtt_process_noise d)) ProbeProcessNoise) (\<lambda>_.
       require (opt_ok (finite_where (\<lambda>v. 0 < v)) (pd_rtt_obs_noise d)) ProbeObsNoise)))))"

definition reduce_tcp :: "probe_def \<Rightarrow> (probe_error, probe_spec) result" where
  "reduce_tcp d =
     (if pd_sni d \<noteq> None then Inl (Meaningless ''sni'' ''tcp'')
      else if pd_url d \<noteq> None then Inl (Meaningless ''url'' ''tcp'')
      else if pd_expect_status d \<noteq> [] then Inl (Meaningless ''expect_status'' ''tcp'')
      else if pd_ech d \<noteq> None then Inl (Meaningless ''ech'' ''tcp'')
      else if pd_verify d \<noteq> None then Inl (Meaningless ''verify'' ''tcp'')
      else Inr (ProbeTcp (pd_port d) (pd_timeout d)))"

definition reduce_tls :: "probe_def \<Rightarrow> (probe_error, probe_spec) result" where
  "reduce_tls d =
     (if pd_url d \<noteq> None then Inl (Meaningless ''url'' ''tls'')
      else if pd_expect_status d \<noteq> [] then Inl (Meaningless ''expect_status'' ''tls'')
      else (case pd_sni d of None \<Rightarrow> Inl ProbeNoSni
        | Some s \<Rightarrow> if trim s = [] then Inl ProbeNoSni
            else Inr (ProbeTls (pd_port d) (trim s) (pd_timeout d) (pd_ech d) (pd_verify d))))"

definition status_code_ok :: "nat \<Rightarrow> bool" where
  "status_code_ok code \<longleftrightarrow> 100 \<le> code \<and> code \<le> 599"

definition reduce_http :: "libs \<Rightarrow> probe_def \<Rightarrow> (probe_error, probe_spec) result" where
  "reduce_http lib d =
     (if pd_sni d \<noteq> None then Inl (Meaningless ''sni'' ''http'')
      else if pd_port d \<noteq> None then Inl (Meaningless ''port'' ''http'')
      else (case pd_url d of None \<Rightarrow> Inl ProbeNoUrl
      | Some raw \<Rightarrow>
        (case lb_url lib raw of None \<Rightarrow> Inl (ProbeBadUrl raw)
         | Some u \<Rightarrow>
           if url_scheme u \<noteq> ''http'' \<and> url_scheme u \<noteq> ''https'' then Inl (ProbeScheme (url_scheme u))
           else if url_host u = None then Inl (ProbeUrlNoHost raw)
           else if pd_expect_status d = [] then Inl ProbeNoStatus
           else (case check_all (\<lambda>code. require (status_code_ok code) (ProbeBadStatus code)) (pd_expect_status d) of
               Inl e \<Rightarrow> Inl e
             | Inr _ \<Rightarrow>
               if pd_ech d \<noteq> None \<and> url_scheme u \<noteq> ''https'' then Inl (Meaningless ''ech'' ''http'')
               else if pd_verify d \<noteq> None \<and> url_scheme u \<noteq> ''https'' then Inl (Meaningless ''verify'' ''http'')
               else Inr (ProbeHttp u (pd_expect_status d) (pd_timeout d) (pd_ech d) (pd_verify d))))))"

definition probe_reduce :: "libs \<Rightarrow> probe_def \<Rightarrow> (probe_error, probe_spec) result" where
  "probe_reduce lib d =
     (if pd_mode d = ''tcp'' then reduce_tcp d
      else if pd_mode d = ''tls'' then reduce_tls d
      else if pd_mode d = ''http'' then reduce_http lib d
      else Inl (ProbeUnknownMode (pd_mode d)))"

definition probe_validate :: "libs \<Rightarrow> probe_def \<Rightarrow> (probe_error, probe_spec) result" where
  "probe_validate lib d = res_bind (probe_reduce lib d) (\<lambda>spec. res_bind (validate_parameters d) (\<lambda>_. Inr spec))"

section \<open>Facts\<close>

lemma verify_validate_ok:
  "verify_validate lib v = Inr () \<longleftrightarrow>
     (\<forall>n. ev_name v = Some n \<longrightarrow> trim n \<noteq> [] \<and> lb_server_name lib n)
     \<and> (\<forall>p\<in>set (ev_pins v). is_ok (parse_spki_pin lib p)) \<and> ev_ca_file v \<noteq> Some []
     \<and> (ev_mode v \<noteq> VFull \<longrightarrow> ev_name v = None)
     \<and> (if ev_mode v = VNone then ev_ca_file v = None \<and> ev_trust_webpki v
        else ev_trust_webpki v \<or> ev_ca_file v \<noteq> None)"
proof -
  have name: "check_verify_name lib (ev_name v) = Inr () \<longleftrightarrow>
      (\<forall>n. ev_name v = Some n \<longrightarrow> trim n \<noteq> [] \<and> lb_server_name lib n)"
    by (cases "ev_name v") (auto simp: check_verify_name_def)
  have pin: "(case parse_spki_pin lib p of Inl e \<Rightarrow> Inl (VerifyBadPin e) | Inr _ \<Rightarrow> Inr ()) = Inr ()
      \<longleftrightarrow> is_ok (parse_spki_pin lib p)" for p
    by (cases "parse_spki_pin lib p") auto
  show ?thesis
    by (auto simp: verify_validate_def name check_verify_pins_def pin check_verify_ca_file_def)
qed

lemma reduce_http_ok:
  assumes "reduce_http lib d = Inr spec"
  obtains u where "spec = ProbeHttp u (pd_expect_status d) (pd_timeout d) (pd_ech d) (pd_verify d)"
    "url_scheme u = ''http'' \<or> url_scheme u = ''https''" "url_host u \<noteq> None" "pd_expect_status d \<noteq> []"
    "\<forall>code\<in>set (pd_expect_status d). status_code_ok code"
    "url_scheme u \<noteq> ''https'' \<longrightarrow> pd_ech d = None \<and> pd_verify d = None" "pd_sni d = None" "pd_port d = None"
proof (cases "pd_url d")
  case None
  then show ?thesis using assms by (simp add: reduce_http_def split: if_splits)
next
  case raw: (Some raw)
  show ?thesis
  proof (cases "lb_url lib raw")
    case None
    then show ?thesis using assms raw by (simp add: reduce_http_def split: if_splits)
  next
    case (Some u)
    then show ?thesis
      using assms raw that [of u] by (auto simp: reduce_http_def split: if_splits sum.splits)
  qed
qed

section \<open>Properties\<close>

text \<open>A probe table that validates is reduced to exactly the fields its mode uses: every field
  the operator wrote is kept or was refused by name, never dropped; an HTTP probe has an http or
  https URL with a host and in-range status codes, and carries ECH or a verification block only on
  https; a TLS probe has a nonblank name; and the scoring parameters are in range.\<close>

theorem probe_validate_sound:
  assumes "probe_validate lib d = Inr spec"
  shows "(case spec of
      ProbeTcp port t \<Rightarrow> pd_mode d = ''tcp'' \<and> port = pd_port d \<and> t = pd_timeout d \<and> pd_sni d = None \<and> pd_url d = None
        \<and> pd_expect_status d = [] \<and> pd_ech d = None \<and> pd_verify d = None
    | ProbeTls port sni t e v \<Rightarrow> pd_mode d = ''tls'' \<and> port = pd_port d \<and> map_option trim (pd_sni d) = Some sni \<and> sni \<noteq> []
        \<and> t = pd_timeout d \<and> e = pd_ech d \<and> v = pd_verify d \<and> pd_url d = None \<and> pd_expect_status d = []
    | ProbeHttp u codes t e v \<Rightarrow> pd_mode d = ''http'' \<and> url_scheme u \<in> {''http'', ''https''} \<and> url_host u \<noteq> None
        \<and> codes = pd_expect_status d \<and> codes \<noteq> [] \<and> (\<forall>c\<in>set codes. 100 \<le> c \<and> c \<le> 599)
        \<and> t = pd_timeout d \<and> e = pd_ech d \<and> v = pd_verify d \<and> (url_scheme u = ''http'' \<longrightarrow> e = None \<and> v = None)
        \<and> pd_sni d = None \<and> pd_port d = None)
    \<and> pd_timeout d \<noteq> Some 0 \<and> (\<forall>n. pd_max_concurrent_probes d = Some n \<longrightarrow> 1 \<le> n \<and> n \<le> 4096)
    \<and> (\<forall>x. pd_throughput_discount d = Some x \<longrightarrow> (\<exists>r. x = Finite r \<and> 0 < r \<and> r \<le> 1))"
proof -
  have r: "probe_reduce lib d = Inr spec" and p: "validate_parameters d = Inr ()"
    using assms by (auto simp: probe_validate_def)
  have params: "pd_timeout d \<noteq> Some 0" "\<forall>n. pd_max_concurrent_probes d = Some n \<longrightarrow> 1 \<le> n \<and> n \<le> 4096"
    "\<forall>x. pd_throughput_discount d = Some x \<longrightarrow> (\<exists>r. x = Finite r \<and> 0 < r \<and> r \<le> 1)"
    using p by (auto simp: validate_parameters_def opt_ok_def simp del: check_all.simps
        split: option.splits elim: finite_where.elims)
  from r consider "pd_mode d = ''tcp''" "reduce_tcp d = Inr spec" | "pd_mode d = ''tls''" "reduce_tls d = Inr spec"
    | "pd_mode d = ''http''" "reduce_http lib d = Inr spec"
    by (auto simp: probe_reduce_def split: if_splits)
  then show ?thesis
  proof cases
    case 1
    then show ?thesis using params by (auto simp: reduce_tcp_def split: if_splits)
  next
    case 2
    then show ?thesis using params by (auto simp: reduce_tls_def split: if_splits option.splits)
  next
    case 3
    from 3(2) show ?thesis
      by (rule reduce_http_ok) (use 3(1) params in \<open>auto simp: status_code_ok_def\<close>)
  qed
qed

definition plain_probe :: probe_def where
  "plain_probe = \<lparr>pd_mode = ''http'', pd_port = None, pd_sni = None, pd_url = Some ''https://a.com/'',
     pd_expect_status = [200], pd_timeout = None, pd_ech = None, pd_verify = None, pd_interval = None,
     pd_degraded_interval = None, pd_fail_threshold = None, pd_max_concurrent_probes = Some 8,
     pd_score_payload_bytes = None, pd_throughput_discount = None, pd_rtt_process_noise = None, pd_rtt_obs_noise = None\<rparr>"

definition sample_url :: url where
  "sample_url = \<lparr>url_scheme = ''https'', url_host = Some ''a.com'', url_port = None, url_path = ''/'', url_query = None\<rparr>"

definition sample_libs :: libs where
  "sample_libs = \<lparr>lb_base64 = (\<lambda>_. None), lb_server_name = (\<lambda>_. True), lb_regex = (\<lambda>_. True),
     lb_url = (\<lambda>s. if s = ''https://a.com/'' then Some sample_url else None), lb_cidr = (\<lambda>_. None)\<rparr>"

lemma probe_validate_sound_witness:
  "probe_validate sample_libs plain_probe = Inr (ProbeHttp sample_url [200] None None None) \<and> 100 \<le> (200::nat)"
proof -
  have "probe_validate sample_libs plain_probe = Inr (ProbeHttp sample_url [200] None None None)"
    by (simp add: probe_validate_def probe_reduce_def reduce_http_def plain_probe_def sample_libs_def sample_url_def
        status_code_ok_def require_def validate_parameters_def opt_ok_def)
  then show ?thesis using probe_validate_sound [of sample_libs plain_probe] by fastforce
qed

end
