(* ===== verification/Tlsverify.thy ===== *)
theory Tlsverify
  imports Ladder Probespec
begin

text \<open>
  What an upstream certificate must prove (\<open>src/src/verify.rs\<close>): the verifier a policy is built
  into, the factory that builds one verifier per distinct policy, and the check the verifier
  performs inside a handshake.

  Certificates are their DER bytes. The parameters are the TLS library (parsing a certificate, the
  chain and the name check), the X.509 parser and the digest behind a pin, the PEM reader and the
  file system.
\<close>

section \<open>Data\<close>

datatype name_check = NameRequested | NameFixed string | NameSkip

record 'r cert_verifier =
  cv_roots :: "'r list option"
  cv_name :: name_check
  cv_pins :: "string list"

record 'r upstream_verify =
  uv_verifier :: "'r cert_verifier"
  uv_is_default :: bool
  uv_name :: "string option"
  uv_label :: string

record 'r verifier_factory =
  vf_webpki :: "'r list"
  vf_cache :: "(effective_verify \<times> 'r upstream_verify) list"

text \<open>
  Reading a \<open>ca_file\<close>: \<open>std::fs::read\<close>, the items \<open>rustls_pemfile::certs\<close> yields (\<open>None\<close> for
  an unreadable one) and \<open>RootCertStore::add\<close>.
\<close>

record 'r anchor_env =
  an_read :: "string \<Rightarrow> string option"
  an_pem :: "string \<Rightarrow> string option list"
  an_add :: "string \<Rightarrow> 'r option"

text \<open>The TLS library's half of a check.\<close>

record 'r tls_lib =
  tl_parse :: "string \<Rightarrow> bool"
  tl_spki :: "string \<Rightarrow> string option"
  tl_sha256 :: "string \<Rightarrow> string"
  tl_chain :: "string \<Rightarrow> 'r list \<Rightarrow> string list \<Rightarrow> nat \<Rightarrow> bool"
  tl_name :: "string \<Rightarrow> string \<Rightarrow> bool"
  tl_encode :: "string \<Rightarrow> string"

datatype factory_error =
    FactoryPin pin_error
  | FactoryName string
  | FactoryNoAnchors
  | FactoryRead string
  | FactoryPem string
  | FactoryAnchor string
  | FactoryNoCerts string

datatype tls_error =
    TlsBadCertificate
  | TlsBadEncoding
  | TlsPinMismatch string nat
  | TlsChainRejected
  | TlsNameRejected

section \<open>Building a verifier\<close>

fun add_pins :: "libs \<Rightarrow> string list \<Rightarrow> string list \<Rightarrow> (factory_error, string list) result" where
  "add_pins lib pins [] = Inr pins"
| "add_pins lib pins (p # ps) =
     (case parse_spki_pin lib p of Inl e \<Rightarrow> Inl (FactoryPin e)
      | Inr parsed \<Rightarrow> add_pins lib (if parsed \<in> set pins then pins else pins @ [parsed]) ps)"

definition name_check_of :: "libs \<Rightarrow> effective_verify \<Rightarrow> (factory_error, name_check) result" where
  "name_check_of lib policy =
     (if ev_mode policy = VFull then
        (case ev_name policy of
           Some name \<Rightarrow> if lb_server_name lib name then Inr (NameFixed name) else Inl (FactoryName name)
         | None \<Rightarrow> Inr NameRequested)
      else Inr NameSkip)"

fun add_certs :: "'r anchor_env \<Rightarrow> string \<Rightarrow> string option list \<Rightarrow> 'r list \<Rightarrow> nat
    \<Rightarrow> (factory_error, 'r list \<times> nat) result" where
  "add_certs env path [] store added = Inr (store, added)"
| "add_certs env path (None # cs) store added = Inl (FactoryPem path)"
| "add_certs env path (Some cert # cs) store added =
     (case an_add env cert of None \<Rightarrow> Inl (FactoryAnchor path)
      | Some r \<Rightarrow> add_certs env path cs (store @ [r]) (added + 1))"

definition add_anchors :: "'r anchor_env \<Rightarrow> string \<Rightarrow> 'r list \<Rightarrow> (factory_error, 'r list) result" where
  "add_anchors env path store =
     (case an_read env path of None \<Rightarrow> Inl (FactoryRead path)
      | Some pem \<Rightarrow>
        (case add_certs env path (an_pem env pem) store 0 of Inl e \<Rightarrow> Inl e
         | Inr (store', added) \<Rightarrow> if added = 0 then Inl (FactoryNoCerts path) else Inr store'))"

definition roots_for :: "'r anchor_env \<Rightarrow> 'r list \<Rightarrow> effective_verify \<Rightarrow> (factory_error, 'r list) result" where
  "roots_for env webpki policy =
     (case ev_ca_file policy of
        None \<Rightarrow> if ev_trust_webpki policy then Inr webpki else Inl FactoryNoAnchors
      | Some path \<Rightarrow> add_anchors env path (if ev_trust_webpki policy then webpki else []))"

definition describe :: "effective_verify \<Rightarrow> string" where
  "describe policy =
     verify_mode_str (ev_mode policy)
     @ (case ev_name policy of None \<Rightarrow> [] | Some name \<Rightarrow> '' name='' @ name)
     @ (let n = length (ev_pins policy) in
        if n = 0 then [] else if n = 1 then '' +1 pin'' else '' +'' @ show_nat n @ '' pins'')
     @ (case ev_ca_file policy of None \<Rightarrow> []
        | Some path \<Rightarrow> '' ca_file='' @ path @ (if ev_trust_webpki policy then [] else '' (only)''))"

definition verifier_build :: "libs \<Rightarrow> 'r anchor_env \<Rightarrow> 'r list \<Rightarrow> effective_verify
    \<Rightarrow> (factory_error, 'r upstream_verify) result" where
  "verifier_build lib env webpki policy =
     res_bind (add_pins lib [] (ev_pins policy)) (\<lambda>pins.
     res_bind (name_check_of lib policy) (\<lambda>name.
     res_bind (if ev_mode policy = VNone then Inr None
               else (case roots_for env webpki policy of Inl e \<Rightarrow> Inl e | Inr rs \<Rightarrow> Inr (Some rs))) (\<lambda>roots.
       Inr \<lparr>uv_verifier = \<lparr>cv_roots = roots, cv_name = name, cv_pins = pins\<rparr>,
            uv_is_default = (policy = default_effective_verify),
            uv_name = ev_name policy,
            uv_label = describe policy\<rparr>)))"

text \<open>The level at which a scope's policy is reported at startup.\<close>

datatype report_level = LevelDebug | LevelInfo | LevelWarn

definition report :: "effective_verify \<Rightarrow> report_level" where
  "report policy =
     (let pinned = ev_pins policy \<noteq> [] in
      case ev_mode policy of
        VFull \<Rightarrow> if ev_name policy = None then LevelDebug else LevelInfo
      | VChain \<Rightarrow> if pinned then LevelInfo else LevelWarn
      | VNone \<Rightarrow> if pinned then LevelInfo else LevelWarn)"

definition new_factory :: "'r list \<Rightarrow> 'r verifier_factory" where
  "new_factory webpki = \<lparr>vf_webpki = webpki, vf_cache = []\<rparr>"

definition factory_get :: "libs \<Rightarrow> 'r anchor_env \<Rightarrow> effective_verify \<Rightarrow> 'r verifier_factory
    \<Rightarrow> 'r verifier_factory \<times> (factory_error, 'r upstream_verify) result" where
  "factory_get lib env policy fac =
     (case map_of (vf_cache fac) policy of
        Some existing \<Rightarrow> (fac, Inr existing)
      | None \<Rightarrow>
        (case verifier_build lib env (vf_webpki fac) policy of
           Inl e \<Rightarrow> (fac, Inl e)
         | Inr built \<Rightarrow> (fac\<lparr>vf_cache := (policy, built) # vf_cache fac\<rparr>, Inr built)))"

section \<open>The check inside a handshake\<close>

definition spki_sha256 :: "'r tls_lib \<Rightarrow> string \<Rightarrow> (tls_error, string) result" where
  "spki_sha256 tls cert =
     (case tl_spki tls cert of None \<Rightarrow> Inl TlsBadEncoding | Some raw \<Rightarrow> Inr (tl_sha256 tls raw))"

definition encode_pin :: "'r tls_lib \<Rightarrow> string \<Rightarrow> string" where
  "encode_pin tls digest = spki_pin_prefix @ tl_encode tls digest"

definition verify_server_cert :: "'r tls_lib \<Rightarrow> 'r cert_verifier \<Rightarrow> string \<Rightarrow> string list \<Rightarrow> string \<Rightarrow> nat
    \<Rightarrow> (tls_error, unit) result" where
  "verify_server_cert tls v end_entity intermediates server_name now =
     res_bind (require (tl_parse tls end_entity) TlsBadCertificate) (\<lambda>_.
     res_bind (if cv_pins v = [] then Inr ()
               else res_bind (spki_sha256 tls end_entity) (\<lambda>presented.
                 require (presented \<in> set (cv_pins v))
                   (TlsPinMismatch (encode_pin tls presented) (length (cv_pins v))))) (\<lambda>_.
     res_bind (case cv_roots v of None \<Rightarrow> Inr ()
               | Some roots \<Rightarrow> require (tl_chain tls end_entity roots intermediates now) TlsChainRejected) (\<lambda>_.
       case cv_name v of
         NameRequested \<Rightarrow> require (tl_name tls end_entity server_name) TlsNameRejected
       | NameFixed fixed \<Rightarrow> require (tl_name tls end_entity fixed) TlsNameRejected
       | NameSkip \<Rightarrow> Inr ())))"

section \<open>Facts\<close>

lemma add_pins_ok:
  "add_pins lib pins ps = Inr out \<Longrightarrow>
     set out = set pins \<union> {d. \<exists>p\<in>set ps. parse_spki_pin lib p = Inr d} \<and> (distinct pins \<longrightarrow> distinct out)"
proof (induction ps arbitrary: pins)
  case (Cons p ps)
  then obtain d where d: "parse_spki_pin lib p = Inr d" by (auto split: sum.splits)
  show ?case using Cons.prems Cons.IH [of "if d \<in> set pins then pins else pins @ [d]"] by (auto simp: d split: if_splits)
qed auto

lemma add_pins_err:
  "add_pins lib pins ps = Inl e \<Longrightarrow> \<exists>p\<in>set ps. \<not> is_ok (parse_spki_pin lib p)"
proof (induction ps arbitrary: pins)
  case (Cons p ps)
  then show ?case by (cases "parse_spki_pin lib p") auto
qed auto

lemma add_certs_ok:
  "add_certs env path cs store n = Inr (out, m) \<Longrightarrow>
     \<exists>new. out = store @ new \<and> m = n + length cs
       \<and> map Some new = map (\<lambda>c. Option.bind c (an_add env)) cs"
proof (induction env path cs store n rule: add_certs.induct)
  case (3 env path cert cs store added)
  then obtain r where r: "an_add env cert = Some r" by (auto split: option.splits)
  then obtain new where n: "out = (store @ [r]) @ new" "m = Suc added + length cs"
      "map Some new = map (\<lambda>c. Option.bind c (an_add env)) cs"
    using 3 by auto
  then show ?case using r by (intro exI [of _ "r # new"]) auto
qed auto

text \<open>The trust anchors a policy names: the web-PKI ones unless it narrows trust, then those of its file.\<close>

definition anchors_of :: "'r anchor_env \<Rightarrow> 'r list \<Rightarrow> effective_verify \<Rightarrow> 'r list \<Rightarrow> bool" where
  "anchors_of env webpki policy roots \<longleftrightarrow>
     (case ev_ca_file policy of
        None \<Rightarrow> ev_trust_webpki policy \<and> roots = webpki
      | Some path \<Rightarrow> \<exists>pem new. an_read env path = Some pem \<and> new \<noteq> []
          \<and> roots = (if ev_trust_webpki policy then webpki else []) @ new
          \<and> map Some new = map (\<lambda>c. Option.bind c (an_add env)) (an_pem env pem))"

lemma roots_for_ok:
  assumes "roots_for env webpki policy = Inr roots"
  shows "anchors_of env webpki policy roots"
proof (cases "ev_ca_file policy")
  case None
  then show ?thesis using assms by (simp add: roots_for_def anchors_of_def split: if_splits)
next
  case (Some path)
  define store where "store = (if ev_trust_webpki policy then webpki else [])"
  obtain pem m where p: "an_read env path = Some pem" "add_certs env path (an_pem env pem) store 0 = Inr (roots, m)" "m \<noteq> 0"
    using assms Some by (auto simp: roots_for_def add_anchors_def store_def split: option.splits sum.splits if_splits)
  obtain new where "roots = store @ new" "m = 0 + length (an_pem env pem)"
      "map Some new = map (\<lambda>c. Option.bind c (an_add env)) (an_pem env pem)"
    using add_certs_ok [OF p(2)] by blast
  then show ?thesis using p Some by (auto simp: anchors_of_def store_def)
qed

lemma roots_for_err:
  assumes "roots_for env webpki policy = Inl e"
  shows "(ev_ca_file policy = None \<and> \<not> ev_trust_webpki policy) \<or> (\<exists>path. ev_ca_file policy = Some path
     \<and> e \<in> {FactoryRead path, FactoryPem path, FactoryAnchor path, FactoryNoCerts path})"
proof (cases "ev_ca_file policy")
  case None
  then show ?thesis using assms by (simp add: roots_for_def split: if_splits)
next
  case (Some path)
  have "add_certs env path cs store n = Inl e \<Longrightarrow> e \<in> {FactoryPem path, FactoryAnchor path}" for cs store n
    by (induction env path cs store n rule: add_certs.induct) (auto split: option.splits)
  then show ?thesis using assms Some
    by (auto simp: roots_for_def add_anchors_def split: option.splits sum.splits if_splits)
qed

text \<open>What a policy demands of a certificate, given the anchors its chain may end in.\<close>

definition policy_accepts :: "libs \<Rightarrow> 'r tls_lib \<Rightarrow> effective_verify \<Rightarrow> 'r list \<Rightarrow> string \<Rightarrow> string list
    \<Rightarrow> string \<Rightarrow> nat \<Rightarrow> bool" where
  "policy_accepts lib tls policy roots leaf mids sn now \<longleftrightarrow>
     tl_parse tls leaf
     \<and> (ev_pins policy \<noteq> [] \<longrightarrow> (\<exists>raw. tl_spki tls leaf = Some raw
          \<and> Inr (tl_sha256 tls raw) \<in> parse_spki_pin lib ` set (ev_pins policy)))
     \<and> (ev_mode policy \<noteq> VNone \<longrightarrow> tl_chain tls leaf roots mids now)
     \<and> (ev_mode policy = VFull \<longrightarrow> tl_name tls leaf (unwrap_or sn (ev_name policy)))"

lemma res_bind_unit: "res_bind r f = Inr y \<longleftrightarrow> r = Inr () \<and> f () = Inr y"
  by (cases r) auto

lemma verifier_build_parts:
  assumes "verifier_build lib env webpki policy = Inr v"
  shows "name_check_of lib policy = Inr (cv_name (uv_verifier v))"
    and "add_pins lib [] (ev_pins policy) = Inr (cv_pins (uv_verifier v))"
    and "ev_mode policy = VNone \<longleftrightarrow> cv_roots (uv_verifier v) = None"
    and "cv_roots (uv_verifier v) = Some roots \<Longrightarrow> anchors_of env webpki policy roots"
    and "uv_is_default v \<longleftrightarrow> policy = default_effective_verify" and "uv_name v = ev_name policy"
  using assms roots_for_ok [of env webpki policy]
  by (auto simp: verifier_build_def split: if_splits sum.splits)

lemma verifier_enforces:
  assumes b: "verifier_build lib env webpki policy = Inr v"
    and r: "ev_mode policy \<noteq> VNone \<Longrightarrow> cv_roots (uv_verifier v) = Some roots"
  shows "verify_server_cert tls (uv_verifier v) leaf mids sn now = Inr ()
    \<longleftrightarrow> policy_accepts lib tls policy roots leaf mids sn now"
proof -
  note parts = verifier_build_parts [OF b]
  have pins: "set (cv_pins (uv_verifier v)) = {d. \<exists>p\<in>set (ev_pins policy). parse_spki_pin lib p = Inr d}"
    using add_pins_ok [OF parts(2)] by simp
  have none: "cv_pins (uv_verifier v) = [] \<longleftrightarrow> ev_pins policy = []"
  proof
    assume "cv_pins (uv_verifier v) = []"
    then have no: "\<not> is_ok (parse_spki_pin lib p)" if "p \<in> set (ev_pins policy)" for p
      using pins that by (auto simp: is_ok_iff)
    show "ev_pins policy = []"
    proof (cases "ev_pins policy")
      case (Cons p ps)
      then show ?thesis using parts(2) no [of p] by (cases "parse_spki_pin lib p") auto
    qed
  next
    assume "ev_pins policy = []"
    then show "cv_pins (uv_verifier v) = []" using pins by auto
  qed
  have name: "(case cv_name (uv_verifier v) of
         NameRequested \<Rightarrow> require (tl_name tls leaf sn) TlsNameRejected
       | NameFixed fixed \<Rightarrow> require (tl_name tls leaf fixed) TlsNameRejected
       | NameSkip \<Rightarrow> Inr ()) = Inr ()
     \<longleftrightarrow> (ev_mode policy = VFull \<longrightarrow> tl_name tls leaf (unwrap_or sn (ev_name policy)))"
    using parts(1) by (auto simp: name_check_of_def unwrap_or_def split: if_splits option.splits name_check.splits)
  have chain: "(case cv_roots (uv_verifier v) of None \<Rightarrow> Inr ()
       | Some roots \<Rightarrow> require (tl_chain tls leaf roots mids now) TlsChainRejected) = Inr ()
     \<longleftrightarrow> (ev_mode policy \<noteq> VNone \<longrightarrow> tl_chain tls leaf roots mids now)"
    using parts(3) r by (cases "ev_mode policy = VNone") auto
  have pin: "(if cv_pins (uv_verifier v) = [] then Inr ()
       else res_bind (spki_sha256 tls leaf) (\<lambda>presented.
         require (presented \<in> set (cv_pins (uv_verifier v)))
           (TlsPinMismatch (encode_pin tls presented) (length (cv_pins (uv_verifier v)))))) = Inr ()
     \<longleftrightarrow> (ev_pins policy \<noteq> [] \<longrightarrow> (\<exists>raw. tl_spki tls leaf = Some raw
          \<and> Inr (tl_sha256 tls raw) \<in> parse_spki_pin lib ` set (ev_pins policy)))"
    by (cases "tl_spki tls leaf") (auto simp: none pins spki_sha256_def image_iff, metis)
  show ?thesis
    unfolding verify_server_cert_def policy_accepts_def
    by (simp only: res_bind_unit require_ok pin chain name)
qed

text \<open>A startup: the scopes ask for their policies one after another.\<close>

fun factory_run :: "libs \<Rightarrow> 'r verifier_factory \<Rightarrow> ('r anchor_env \<times> effective_verify) list
    \<Rightarrow> 'r verifier_factory \<times> (effective_verify \<times> (factory_error, 'r upstream_verify) result) list" where
  "factory_run lib fac [] = (fac, [])"
| "factory_run lib fac ((env, policy) # reqs) =
     (let (fac1, out) = factory_get lib env policy fac; (fac2, outs) = factory_run lib fac1 reqs in
      (fac2, (policy, out) # outs))"

definition factory_inv :: "libs \<Rightarrow> 'r list \<Rightarrow> ('r anchor_env \<times> effective_verify) set \<Rightarrow> 'r verifier_factory \<Rightarrow> bool" where
  "factory_inv lib webpki reqs fac \<longleftrightarrow> vf_webpki fac = webpki
     \<and> (\<forall>p v. map_of (vf_cache fac) p = Some v
          \<longrightarrow> (\<exists>env. (env, p) \<in> reqs \<and> verifier_build lib env webpki p = Inr v))"

lemma factory_get_inv:
  assumes inv: "factory_inv lib webpki reqs fac" and g: "factory_get lib env policy fac = (fac1, out)"
    and mem: "(env, policy) \<in> reqs"
  shows "factory_inv lib webpki reqs fac1"
    and "map_of (vf_cache fac) p = Some v \<Longrightarrow> map_of (vf_cache fac1) p = Some v"
    and "out = Inr w \<Longrightarrow> map_of (vf_cache fac1) policy = Some w"
    and "out = Inl e \<Longrightarrow> verifier_build lib env webpki policy = Inl e"
  using inv g mem by (auto simp: factory_get_def factory_inv_def split: option.splits sum.splits if_splits)

lemma factory_run_inv:
  assumes "factory_inv lib webpki R fac" "set reqs \<subseteq> R" "factory_run lib fac reqs = (fac', outs)"
  shows "factory_inv lib webpki R fac'"
    and "\<And>p v. map_of (vf_cache fac) p = Some v \<Longrightarrow> map_of (vf_cache fac') p = Some v"
    and "\<And>p v. (p, Inr v) \<in> set outs \<Longrightarrow> map_of (vf_cache fac') p = Some v"
    and "\<And>p e. (p, Inl e) \<in> set outs \<Longrightarrow> \<exists>env. (env, p) \<in> R \<and> verifier_build lib env webpki p = Inl e"
  using assms
proof (induction reqs arbitrary: fac outs)
  case (Cons req reqs)
  obtain env policy where req: "req = (env, policy)" by (cases req)
  {
    case 1
    obtain fac1 out outs' where g: "factory_get lib env policy fac = (fac1, out)"
      and r: "factory_run lib fac1 reqs = (fac', outs')" "outs = (policy, out) # outs'"
      using 1 req by (auto split: prod.splits)
    have inv: "factory_inv lib webpki R fac1" using factory_get_inv(1) [OF 1(1) g] 1(2) req by simp
    show ?case using Cons.IH(1) [OF inv _ r(1)] 1(2) by simp
  next
    case (2 p v)
    obtain fac1 out outs' where g: "factory_get lib env policy fac = (fac1, out)"
      and r: "factory_run lib fac1 reqs = (fac', outs')" "outs = (policy, out) # outs'"
      using 2 req by (auto split: prod.splits)
    have inv: "factory_inv lib webpki R fac1" using factory_get_inv(1) [OF 2(2) g] 2(3) req by simp
    show ?case using Cons.IH(2) [OF _ inv _ r(1)] factory_get_inv(2) [OF 2(2) g _ 2(1)] 2(3) req by simp
  next
    case (3 p v)
    obtain fac1 out outs' where g: "factory_get lib env policy fac = (fac1, out)"
      and r: "factory_run lib fac1 reqs = (fac', outs')" "outs = (policy, out) # outs'"
      using 3 req by (auto split: prod.splits)
    have inv: "factory_inv lib webpki R fac1" using factory_get_inv(1) [OF 3(2) g] 3(3) req by simp
    show ?case
      using Cons.IH(2) [OF _ inv _ r(1)] Cons.IH(3) [OF _ inv _ r(1)] factory_get_inv(3) [OF 3(2) g] 3(1,3) req r(2)
      by auto
  next
    case (4 p e)
    obtain fac1 out outs' where g: "factory_get lib env policy fac = (fac1, out)"
      and r: "factory_run lib fac1 reqs = (fac', outs')" "outs = (policy, out) # outs'"
      using 4 req by (auto split: prod.splits)
    have inv: "factory_inv lib webpki R fac1" using factory_get_inv(1) [OF 4(2) g] 4(3) req by simp
    show ?case
      using Cons.IH(4) [OF _ inv _ r(1)] factory_get_inv(4) [OF 4(2) g] 4(1,3) req r(2) by auto
  }
qed auto

text \<open>A policy that passed load-time validation can fail to build only because of its file.\<close>

lemma validated_policy_builds:
  assumes ok: "verify_validate lib policy = Inr ()" and e: "verifier_build lib env webpki policy = Inl e"
  shows "\<exists>path. ev_ca_file policy = Some path
    \<and> e \<in> {FactoryRead path, FactoryPem path, FactoryAnchor path, FactoryNoCerts path}"
proof -
  note v = ok [unfolded verify_validate_ok]
  obtain pins where p: "add_pins lib [] (ev_pins policy) = Inr pins"
  proof (cases "add_pins lib [] (ev_pins policy)")
    case (Inl x)
    then show ?thesis using add_pins_err [OF Inl] v by auto
  qed (use that in auto)
  have "is_ok (name_check_of lib policy)"
    using v by (cases "ev_name policy") (auto simp: name_check_of_def)
  then obtain nm where n: "name_check_of lib policy = Inr nm" by (auto simp: is_ok_iff)
  have "ev_mode policy \<noteq> VNone \<and> roots_for env webpki policy = Inl e"
    using e p n by (auto simp: verifier_build_def split: if_splits sum.splits)
  then show ?thesis using roots_for_err [of env webpki policy e] v by auto
qed

section \<open>Properties\<close>

text \<open>C3. The verifier a scope is given enforces exactly its policy, whatever was asked of the
  factory before. In \<open>full\<close> mode a certificate is accepted only for the requested name, or for
  \<open>verify.name\<close> in its place; except in \<open>none\<close> mode it must chain to the anchors the policy names
  (the web-PKI ones unless trust was narrowed, then every certificate of the \<open>ca_file\<close>, which is
  never empty); with pins the key must match one of them, in every mode. Nothing else is demanded.
  Scopes with equal policies share one verifier, and a policy that passed validation can fail to
  build only because of its \<open>ca_file\<close>.
\<close>

theorem policy_enforced:
  assumes run: "factory_run lib (new_factory webpki) reqs = (fac, outs)"
    and got: "(policy, Inr v) \<in> set outs"
  shows "(\<exists>roots env. (env, policy) \<in> set reqs
        \<and> (ev_mode policy \<noteq> VNone \<longrightarrow> anchors_of env webpki policy roots)
        \<and> (\<forall>tls leaf mids sn now. verify_server_cert tls (uv_verifier v) leaf mids sn now = Inr ()
             \<longleftrightarrow> policy_accepts lib tls policy roots leaf mids sn now))
    \<and> (\<forall>w. (policy, Inr w) \<in> set outs \<longrightarrow> w = v)
    \<and> (\<forall>other e. verify_validate lib other = Inr () \<and> (other, Inl e) \<in> set outs
        \<longrightarrow> (\<exists>path. ev_ca_file other = Some path
              \<and> e \<in> {FactoryRead path, FactoryPem path, FactoryAnchor path, FactoryNoCerts path}))"
proof -
  have start: "factory_inv lib webpki (set reqs) (new_factory webpki)"
    by (simp add: factory_inv_def new_factory_def)
  note ends = factory_run_inv [OF start subset_refl run]
  obtain env where env: "(env, policy) \<in> set reqs" "verifier_build lib env webpki policy = Inr v"
    using ends(1) ends(3) [OF got] by (auto simp: factory_inv_def)
  note parts = verifier_build_parts [OF env(2)]
  define roots where "roots = (case cv_roots (uv_verifier v) of Some rs \<Rightarrow> rs | None \<Rightarrow> [])"
  have rs: "cv_roots (uv_verifier v) = Some roots" if "ev_mode policy \<noteq> VNone"
    using that parts(3) by (auto simp: roots_def split: option.splits)
  have "ev_mode policy \<noteq> VNone \<longrightarrow> anchors_of env webpki policy roots" using rs parts(4) by blast
  then have "\<exists>roots env. (env, policy) \<in> set reqs
        \<and> (ev_mode policy \<noteq> VNone \<longrightarrow> anchors_of env webpki policy roots)
        \<and> (\<forall>tls leaf mids sn now. verify_server_cert tls (uv_verifier v) leaf mids sn now = Inr ()
             \<longleftrightarrow> policy_accepts lib tls policy roots leaf mids sn now)"
    using env(1) verifier_enforces [OF env(2) rs] by blast
  moreover have "\<forall>w. (policy, Inr w) \<in> set outs \<longrightarrow> w = v"
    using ends(3) [OF got] ends(3) [of policy] by auto
  moreover have "\<exists>path. ev_ca_file other = Some path
        \<and> e \<in> {FactoryRead path, FactoryPem path, FactoryAnchor path, FactoryNoCerts path}"
    if "verify_validate lib other = Inr () \<and> (other, Inl e) \<in> set outs" for other e
    using that ends(4) [of other e] validated_policy_builds [of lib other _ webpki e] by blast
  ultimately show ?thesis by (intro conjI allI impI) simp_all
qed

text \<open>Two scopes pin the same key, one without a chain and one against a private authority.\<close>

definition sample_tls_libs :: libs where
  "sample_tls_libs = \<lparr>lb_base64 = (\<lambda>s. if s = ''k'' then Some (replicate 32 CHR ''k'') else None),
     lb_server_name = (\<lambda>s. s \<noteq> []), lb_regex = (\<lambda>_. True), lb_url = (\<lambda>_. None), lb_cidr = (\<lambda>_. None)\<rparr>"

definition sample_anchor_env :: "string anchor_env" where
  "sample_anchor_env = \<lparr>an_read = (\<lambda>p. if p = ''ca.pem'' then Some ''pem'' else None), an_pem = (\<lambda>b. [Some b]),
     an_add = Some\<rparr>"

definition sample_policies :: "(string anchor_env \<times> effective_verify) list" where
  "sample_policies =
     [(sample_anchor_env, default_effective_verify\<lparr>ev_mode := VNone, ev_pins := [''sha256/k'']\<rparr>),
      (sample_anchor_env, default_effective_verify\<lparr>ev_ca_file := Some ''ca.pem'', ev_trust_webpki := False\<rparr>),
      (sample_anchor_env, default_effective_verify\<lparr>ev_ca_file := Some ''lost.pem''\<rparr>)]"

lemma policy_enforced_witness:
  "\<exists>v roots. snd (factory_run sample_tls_libs (new_factory [''web'']) sample_policies) ! 1
      = (default_effective_verify\<lparr>ev_ca_file := Some ''ca.pem'', ev_trust_webpki := False\<rparr>, Inr v)
    \<and> roots = [''pem'']
    \<and> (\<forall>tls leaf mids sn now. verify_server_cert tls (uv_verifier v) leaf mids sn now = Inr ()
         \<longleftrightarrow> tl_parse tls leaf \<and> tl_chain tls leaf roots mids now \<and> tl_name tls leaf sn)"
proof -
  define policy where "policy = default_effective_verify\<lparr>ev_ca_file := Some ''ca.pem'', ev_trust_webpki := False\<rparr>"
  define run where "run = factory_run sample_tls_libs (new_factory [''web'']) sample_policies"
  obtain fac outs where r: "run = (fac, outs)" by (cases run)
  have "is_ok (snd (snd run ! 1)) \<and> fst (snd run ! 1) = policy \<and> length (snd run) = 3"
    unfolding run_def policy_def by code_simp
  then obtain v where v: "outs ! 1 = (policy, Inr v)" "length outs = 3" unfolding r by (cases "outs ! 1") (auto simp: is_ok_iff)
  have mem: "(policy, Inr v) \<in> set outs" using v nth_mem [of 1 outs] by simp
  obtain roots env where e: "(env, policy) \<in> set sample_policies"
      "ev_mode policy \<noteq> VNone \<longrightarrow> anchors_of env [''web''] policy roots"
      "\<forall>tls leaf mids sn now. verify_server_cert tls (uv_verifier v) leaf mids sn now = Inr ()
         \<longleftrightarrow> policy_accepts sample_tls_libs tls policy roots leaf mids sn now"
    using policy_enforced [OF _ mem, of sample_tls_libs "[''web'']" sample_policies fac] r unfolding run_def by blast
  have "env = sample_anchor_env" using e(1) by (auto simp: sample_policies_def)
  then have roots: "roots = [''pem'']"
    using e(2) by (auto simp: policy_def anchors_of_def default_effective_verify_def sample_anchor_env_def)
  have "policy_accepts sample_tls_libs tls policy roots leaf mids sn now
      \<longleftrightarrow> tl_parse tls leaf \<and> tl_chain tls leaf roots mids now \<and> tl_name tls leaf sn" for tls leaf mids sn now
    by (simp add: policy_accepts_def policy_def default_effective_verify_def unwrap_or_def)
  then show ?thesis
    using v(1) e(3) roots r unfolding run_def policy_def by auto
qed

end
