(* ===== verification/Nat64.thy ===== *)
theory Nat64
  imports NetAddr
begin

text \<open>
  NAT64 address synthesis (\<open>src/src/nat64.rs\<close>): a \<open>/96\<close> prefix is a 128-bit value whose low 32
  bits are the slot for an IPv4 address.
\<close>

record nat64_prefix =
  n64_prefix :: ipv6

datatype nat64_error =
    EmptyPrefix
  | InvalidPrefixLength string
  | UnsupportedPrefixLength nat
  | InvalidPrefix string

definition top96_mask :: ipv6 where
  "top96_mask = NOT (push_bit 32 1 - 1)"

definition from_ipv6 :: "ipv6 \<Rightarrow> nat64_prefix" where
  "from_ipv6 addr = \<lparr>n64_prefix = addr AND top96_mask\<rparr>"

definition synthesize :: "nat64_prefix \<Rightarrow> ipv4 \<Rightarrow> ipv6" where
  "synthesize p v4 = n64_prefix p OR ucast v4"

definition count_groups :: "string \<Rightarrow> nat" where
  "count_groups s = (if s = [] then 0 else length (split_char CHR '':'' s))"

definition parse_prefix_address :: "string \<Rightarrow> ipv6 option" where
  "parse_prefix_address addr =
     (case parse_ipv6 addr of Some v6 \<Rightarrow> Some v6
      | None \<Rightarrow> if count_groups addr = 6 \<and> \<not> contains_str ''::'' addr
                then parse_ipv6 (addr @ '':0:0'') else None)"

definition nat64_from_str :: "string \<Rightarrow> (nat64_error, nat64_prefix) result" where
  "nat64_from_str s =
     (let trimmed = trim s in
      if trimmed = [] then Inl EmptyPrefix
      else
        (case (case split_once CHR ''/'' trimmed of
                 Some (addr, len) \<Rightarrow> (case parse_u8 len of
                     None \<Rightarrow> Inl (InvalidPrefixLength trimmed)
                   | Some n \<Rightarrow> if n \<noteq> 96 then Inl (UnsupportedPrefixLength n) else Inr addr)
               | None \<Rightarrow> Inr trimmed) of
           Inl e \<Rightarrow> Inl e
         | Inr addr_part \<Rightarrow> (case parse_prefix_address addr_part of
             None \<Rightarrow> Inl (InvalidPrefix trimmed)
           | Some addr \<Rightarrow> Inr (from_ipv6 addr))))"

section \<open>Bits\<close>

definition wf_nat64 :: "nat64_prefix \<Rightarrow> bool" where
  "wf_nat64 p \<longleftrightarrow> take_bit 32 (n64_prefix p) = 0"

lemma bit_top96_mask: "bit top96_mask n \<longleftrightarrow> 32 \<le> n \<and> n < 128"
proof -
  have "push_bit 32 (1 :: ipv6) - 1 = mask 32"
    by (simp add: mask_eq_exp_minus_1 push_bit_eq_mult)
  then have eq: "top96_mask = NOT (mask 32)"
    by (simp add: top96_mask_def)
  show ?thesis
    unfolding eq by (simp add: bit_not_iff bit_mask_iff) auto
qed

lemma from_ipv6_wf: "wf_nat64 (from_ipv6 a)"
  unfolding wf_nat64_def from_ipv6_def
  by (rule bit_word_eqI) (simp add: bit_take_bit_iff bit_and_iff bit_top96_mask)

lemma from_ipv6_top: "drop_bit 32 (n64_prefix (from_ipv6 a)) = drop_bit 32 a"
  unfolding from_ipv6_def
  by (rule bit_word_eqI) (auto simp: bit_drop_bit_eq bit_and_iff bit_top96_mask dest: bit_imp_le_length)

lemma synthesize_low:
  assumes "wf_nat64 p"
  shows "take_bit 32 (synthesize p v) = ucast v"
proof (rule bit_word_eqI)
  fix n
  have "\<not> bit (n64_prefix p) n" if "n < 32"
    using assms that unfolding wf_nat64_def
    by (metis bit_0_eq bit_take_bit_iff bot_apply bot_bool_def)
  then show "bit (take_bit 32 (synthesize p v)) n = bit (ucast v :: ipv6) n"
    by (auto simp: synthesize_def bit_take_bit_iff bit_or_iff bit_ucast_iff dest: bit_imp_le_length)
qed

lemma synthesize_high: "drop_bit 32 (synthesize p v) = drop_bit 32 (n64_prefix p)"
  by (rule bit_word_eqI)
    (auto simp: synthesize_def bit_drop_bit_eq bit_or_iff bit_ucast_iff dest: bit_imp_le_length)

lemma ucast_ucast_ipv4: "ucast (ucast (v :: ipv4) :: ipv6) = v"
  by (rule bit_word_eqI) (auto simp: bit_ucast_iff dest: bit_imp_le_length)

lemma show_groups_snoc: "gs \<noteq> [] \<Longrightarrow> show_groups (gs @ [g]) = show_groups gs @ CHR '':'' # show_hex g"
proof (induction gs)
  case Nil
  then show ?case by simp
next
  case (Cons a gs)
  then show ?case by (cases "gs = []") (simp_all add: show_groups_Cons show_groups_one)
qed

lemma split_show_groups: "gs \<noteq> [] \<Longrightarrow> split_char CHR '':'' (show_groups gs) = List.map show_hex gs"
  unfolding show_groups_def using hexdigit_not_sep
  by (intro split_char_join) (auto dest!: show_hex_hexdigits)

lemma show_groups_no_gap:
  assumes "gs \<noteq> []"
  shows "\<not> contains_str ''::'' (show_groups gs)"
proof
  assume "contains_str ''::'' (show_groups gs)"
  then obtain a b where "show_groups gs = a @ CHR '':'' # CHR '':'' # b"
    by (auto simp: contains_str_iff)
  then have "[] \<in> set (split_char CHR '':'' (show_groups gs))"
    by (simp add: split_char_append)
  then show False
    using split_show_groups [OF assms] by (auto dest: sym)
qed

lemma parse_bare_groups:
  assumes "length gs = 6" "\<forall>g\<in>set gs. g < 65536"
  shows "parse_prefix_address (show_groups gs) = Some (ipv6_of (gs @ [0, 0]))"
proof -
  have ne: "gs \<noteq> []" using assms(1) by auto
  have r6: "read_groups True 8 (show_groups gs) = (gs, False, [])"
    using read_groups_show [of gs 8 True] assms ne by auto
  then have "parse_ipv6 (show_groups gs) = None"
    using assms(1) by (simp add: parse_ipv6_def read_ipv6_def whole_def)
  moreover have "count_groups (show_groups gs) = 6"
    using split_show_groups [OF ne] assms(1) by (auto simp: count_groups_def)
  moreover have "show_groups gs @ '':0:0'' = show_groups (gs @ [0] @ [0])"
  proof -
    have "show_hex 0 = ''0''" by code_simp
    then show ?thesis
      using ne show_groups_snoc [of "gs @ [0]" 0] by (simp add: show_groups_snoc)
  qed
  moreover have "read_groups True 8 (show_groups (gs @ [0] @ [0])) = (gs @ [0] @ [0], False, [])"
    using read_groups_show [of "gs @ [0] @ [0]" 8 True] assms by auto
  then have "parse_ipv6 (show_groups (gs @ [0] @ [0])) = Some (ipv6_of (gs @ [0, 0]))"
    using assms(1) by (simp add: parse_ipv6_def read_ipv6_def whole_def)
  ultimately show ?thesis
    using show_groups_no_gap [OF ne] by (simp add: parse_prefix_address_def)
qed

text \<open>A word is its top 96 and its low 32 bits.\<close>

lemma halves_eq:
  assumes "drop_bit 32 (w :: ipv6) = drop_bit 32 w'" "take_bit 32 w = take_bit 32 w'"
  shows "w = w'"
  by (metis assms bits_ident)

lemma ipv6_of_halves:
  assumes "length gs = 6" "\<forall>g\<in>set gs. g < 65536" "x < 65536" "y < 65536"
  shows "unat (drop_bit 32 (ipv6_of (gs @ [x, y]))) = foldl (\<lambda>a g. a * 65536 + g) 0 gs"
    and "unat (take_bit 32 (ipv6_of (gs @ [x, y]))) = x * 65536 + y"
proof -
  define N where "N = foldl (\<lambda>a g. a * 65536 + g) (0 :: nat) gs"
  have u: "unat (ipv6_of (gs @ [x, y])) = (N * 65536 + x) * 65536 + y"
    using unat_ipv6_of [of "gs @ [x, y]"] assms by (simp add: N_def)
  have "((N * 65536 + x) * 65536 + y) div 2 ^ 32 = N"
    using assms(3,4) by simp
  then show "unat (drop_bit 32 (ipv6_of (gs @ [x, y]))) = foldl (\<lambda>a g. a * 65536 + g) 0 gs"
    unfolding unat_drop_bit_eq u drop_bit_eq_div [where 'a = nat] N_def .
  have "((N * 65536 + x) * 65536 + y) mod 2 ^ 32 = (x * 65536 + y + N * 2 ^ 32) mod 2 ^ 32"
    by (simp add: algebra_simps)
  also have "\<dots> = (x * 65536 + y) mod 2 ^ 32"
    by (rule mod_mult_self1)
  also have "\<dots> = x * 65536 + y"
    using assms(3,4) by (intro mod_less) simp
  finally show "unat (take_bit 32 (ipv6_of (gs @ [x, y]))) = x * 65536 + y"
    unfolding unsigned_take_bit_eq u take_bit_eq_mod [where 'a = nat] .
qed

lemma synthesize_groups:
  assumes "length gs = 6" "\<forall>g\<in>set gs. g < 65536" "a < 256" "b < 256" "c < 256" "d < 256"
  shows "synthesize (from_ipv6 (ipv6_of (gs @ [0, 0]))) (ipv4_of a b c d)
    = ipv6_of (gs @ [a * 256 + b, c * 256 + d])"
proof (rule halves_eq)
  let ?p = "from_ipv6 (ipv6_of (gs @ [0, 0]))"
  have "unat (drop_bit 32 (ipv6_of (gs @ [0, 0])))
      = unat (drop_bit 32 (ipv6_of (gs @ [a * 256 + b, c * 256 + d])))"
    using assms by (simp only: ipv6_of_halves)
  then show "drop_bit 32 (synthesize ?p (ipv4_of a b c d))
      = drop_bit 32 (ipv6_of (gs @ [a * 256 + b, c * 256 + d]))"
    by (simp only: synthesize_high from_ipv6_top word_unat_eq_iff)
  have lt: "((a * 256 + b) * 256 + c) * 256 + d < 2 ^ 32"
    using assms by simp
  have uc: "unat (ucast (of_nat n :: ipv4) :: ipv6) = n" if "n < 2 ^ 32" for n
    using that by (simp add: unsigned_ucast_eq unat_of_nat take_bit_eq_mod)
  have "unat (ucast (ipv4_of a b c d) :: ipv6) = ((a * 256 + b) * 256 + c) * 256 + d"
    unfolding ipv4_of_def using uc [OF lt] .
  also have "\<dots> = unat (take_bit 32 (ipv6_of (gs @ [a * 256 + b, c * 256 + d])))"
    using assms by (subst ipv6_of_halves) auto
  finally show "take_bit 32 (synthesize ?p (ipv4_of a b c d))
      = take_bit 32 (ipv6_of (gs @ [a * 256 + b, c * 256 + d]))"
    by (simp only: synthesize_low [OF from_ipv6_wf] word_unat_eq_iff)
qed

lemma from_str_groups:
  assumes "length gs = 6" "\<forall>g\<in>set gs. g < 65536"
  shows "nat64_from_str (show_groups gs) = Inr (from_ipv6 (ipv6_of (gs @ [0, 0])))"
proof -
  have chars: "is_hexdigit c \<or> c = CHR '':''" if "c \<in> set (show_groups gs)" for c
    using that by (rule show_groups_set)
  have "trim (show_groups gs) = show_groups gs"
    using chars by (intro trim_all_graphic) (fastforce simp: is_hexdigit_def is_digit_def is_graphic_def)
  moreover have "split_once CHR ''/'' (show_groups gs) = None"
    using chars hexdigit_not_sep by (intro split_once_nodelim) fastforce
  moreover have "show_groups gs \<noteq> []"
    using assms(1) by (cases gs; cases "tl gs") (auto simp: show_groups_def)
  ultimately show ?thesis
    using parse_bare_groups [OF assms] by (simp add: nat64_from_str_def)
qed

lemma from_str_wf: "nat64_from_str s = Inr p \<Longrightarrow> wf_nat64 p"
  by (auto simp: nat64_from_str_def Let_def from_ipv6_wf split: if_splits option.splits sum.splits)

text \<open>C39. RFC 6052 embedding: through any prefix the program accepts, the synthesized address keeps
  the prefix's top 96 bits and carries the IPv4 address in its low 32 bits, so two IPv4 addresses
  never share a synthesized address.\<close>

theorem synthesize_embeds:
  assumes "nat64_from_str s = Inr p"
  shows "drop_bit 32 (synthesize p v) = drop_bit 32 (n64_prefix p)
    \<and> ucast (synthesize p v) = v \<and> (synthesize p v = synthesize p v' \<longleftrightarrow> v = v')"
proof -
  have low: "ucast (synthesize p u) = u" for u
  proof -
    have "ucast (take_bit 32 (synthesize p u)) = u"
      using synthesize_low [OF from_str_wf [OF assms]] ucast_ucast_ipv4 by metis
    moreover have "(ucast (take_bit 32 w) :: ipv4) = ucast w" for w :: ipv6
      by (rule bit_word_eqI) (auto simp: bit_ucast_iff bit_take_bit_iff dest: bit_imp_le_length)
    ultimately show ?thesis by simp
  qed
  then show ?thesis
    using synthesize_high by metis
qed

lemma synthesize_embeds_witness:
  "\<exists>p. nat64_from_str (show_groups [100, 65435, 0, 0, 0, 0]) = Inr p
     \<and> ucast (synthesize p (ipv4_of 1 2 3 4)) = ipv4_of 1 2 3 4"
proof -
  have "nat64_from_str (show_groups [100, 65435, 0, 0, 0, 0])
      = Inr (from_ipv6 (ipv6_of ([100, 65435, 0, 0, 0, 0] @ [0, 0])))"
    by (rule from_str_groups) auto
  then show ?thesis using synthesize_embeds by blast
qed

text \<open>The bare six-group spelling: any six 16-bit groups, written in hexadecimal and joined by
  colons, parse to the \<open>/96\<close> prefix of those groups, and embedding the address \<open>a.b.c.d\<close> appends
  exactly the groups \<open>ab\<close> and \<open>cd\<close>.\<close>

theorem bare_prefix_roundtrip:
  assumes "length gs = 6" and "\<forall>g\<in>set gs. g < 65536"
    and "a < 256" and "b < 256" and "c < 256" and "d < 256"
  shows "\<exists>p. nat64_from_str (show_groups gs) = Inr p
    \<and> groups6 (synthesize p (ipv4_of a b c d)) = gs @ [a * 256 + b, c * 256 + d]"
proof -
  have "\<forall>g\<in>set (gs @ [a * 256 + b, c * 256 + d]). g < 65536"
    using assms by auto
  then have "groups6 (ipv6_of (gs @ [a * 256 + b, c * 256 + d])) = gs @ [a * 256 + b, c * 256 + d]"
    using assms(1) by (intro groups6_ipv6_of) auto
  then show ?thesis
    using from_str_groups [OF assms(1,2)] synthesize_groups [OF assms] by simp
qed

lemma bare_prefix_roundtrip_witness:
  "\<exists>p. nat64_from_str (show_groups [10753, 1272, 3116, 4671, 100, 5]) = Inr p
    \<and> groups6 (synthesize p (ipv4_of 203 0 113 5))
        = [10753, 1272, 3116, 4671, 100, 5] @ [203 * 256 + 0, 113 * 256 + 5]"
  by (rule bare_prefix_roundtrip) auto

end
