(* ===== verification/Dns.thy ===== *)
theory Dns
  imports Nat64 Endpoint
begin

text \<open>
  Name resolution (\<open>src/src/dns.rs\<close>): inline resolver specifications, and turning an upstream host
  into the addresses to dial. A lookup through a live resolver is the parameter \<open>lk\<close>, from a name
  and a record type to the answer's records or an error; the blocking lookup of the operating
  system is the parameter \<open>os\<close>.

  An \<open>anyhow::Error\<close> is the list of its causes, outermost first; the causes the program looks for
  are kept apart from mere text.
\<close>

section \<open>Errors and records\<close>

datatype rustls_error = ServerRejectedEch | OtherRustls string

datatype error_link = LinkRustls rustls_error | LinkIo "rustls_error option" | LinkText string

type_synonym anyhow = "error_link list"

definition with_context :: "string \<Rightarrow> (anyhow, 'a) result \<Rightarrow> (anyhow, 'a) result" where
  "with_context msg r = (case r of Inl e \<Rightarrow> Inl (LinkText msg # e) | Inr x \<Rightarrow> Inr x)"

definition anyhow :: "string \<Rightarrow> anyhow" where
  "anyhow msg = [LinkText msg]"

datatype record_type = RrA | RrAaaa | RrHttps

datatype svc_param = EchParam string | OtherParam

datatype rdata = RdA ipv4 | RdAaaa ipv6 | RdHttps "svc_param list" | RdOther

record dns_record =
  dr_ttl :: nat
  dr_data :: rdata

type_synonym lookup_fn = "string \<Rightarrow> record_type \<Rightarrow> (anyhow, dns_record list) result"

section \<open>Resolved addresses\<close>

definition sock_of :: "ip_addr \<Rightarrow> nat \<Rightarrow> socket_addr" where
  "sock_of ip port = (case ip of V4 a \<Rightarrow> SockV4 a port | V6 a \<Rightarrow> SockV6 a 0 port)"

record resolved_addrs =
  ra_primary :: socket_addr
  ra_fallback :: "socket_addr option"

definition ra_single :: "socket_addr \<Rightarrow> resolved_addrs" where
  "ra_single addr = \<lparr>ra_primary = addr, ra_fallback = None\<rparr>"

definition ra_dual :: "socket_addr \<Rightarrow> socket_addr \<Rightarrow> resolved_addrs" where
  "ra_dual v6 v4 = \<lparr>ra_primary = v6, ra_fallback = Some v4\<rparr>"

section \<open>Inline specifications\<close>

datatype resolver_spec =
    SpecSystem
  | SpecDoh ip_addr string string
  | SpecDot ip_addr string
  | SpecPlain socket_addr

definition resolve_bootstrap :: "(string \<Rightarrow> nat \<Rightarrow> socket_addr list option) \<Rightarrow> string \<Rightarrow> nat
    \<Rightarrow> (anyhow, ip_addr) result" where
  "resolve_bootstrap os host port =
     (case parse_ip host of Some ip \<Rightarrow> Inr ip
      | None \<Rightarrow>
        (case os host port of
           None \<Rightarrow> Inl [LinkText (''bootstrap-resolving '' @ host), LinkIo None]
         | Some [] \<Rightarrow> Inl (anyhow (''could not resolve '' @ host))
         | Some (sa # _) \<Rightarrow> Inr (sock_ip sa)))"

definition spec_parse :: "(string \<Rightarrow> nat \<Rightarrow> socket_addr list option) \<Rightarrow> string
    \<Rightarrow> (anyhow, resolver_spec) result" where
  "spec_parse os s0 =
     (let s = trim s0 in
      if s = [] \<or> eq_nocase s ''system'' then Inr SpecSystem
      else case strip_prefix ''https://'' s of
        Some rest \<Rightarrow>
          (let (host, port, path) = split_authority_path rest in
           res_bind (with_context (''resolving DoH host '' @ host) (resolve_bootstrap os host (unwrap_or 443 port)))
             (\<lambda>ip. Inr (SpecDoh ip host (if path = [] then ''/dns-query'' else path))))
      | None \<Rightarrow>
      (case strip_prefix ''tls://'' s of
        Some rest \<Rightarrow>
          (let (host, port, _) = split_authority_path rest in
           res_bind (with_context (''resolving DoT host '' @ host) (resolve_bootstrap os host (unwrap_or 853 port)))
             (\<lambda>ip. Inr (SpecDot ip host)))
      | None \<Rightarrow>
          (let body = unwrap_or s (first_some [strip_prefix ''udp://'' s, strip_prefix ''tcp://'' s]) in
           case parse_ip_addr body of
             None \<Rightarrow> Inl [LinkText (''resolver spec '' @ s @ '' is not a valid ip[:port]''), LinkText (''invalid IP address '' @ body)]
           | Some addr \<Rightarrow> Inr (SpecPlain addr))))"

text \<open>
  What a hickory resolver is built from. A name server whose port is not set uses the default port
  of its transport; \<open>tk_hosts\<close> is \<open>ResolveHosts::Auto\<close>.
\<close>

datatype name_server =
    NsHttps ip_addr string string "nat option"
  | NsTls ip_addr string "nat option"
  | NsPlain ip_addr "nat option"

fun ns_set_port :: "nat \<Rightarrow> name_server \<Rightarrow> name_server" where
  "ns_set_port p (NsHttps ip name path _) = NsHttps ip name path (Some p)"
| "ns_set_port p (NsTls ip name _) = NsTls ip name (Some p)"
| "ns_set_port p (NsPlain ip _) = NsPlain ip (Some p)"

fun ns_dials :: "name_server \<Rightarrow> ip_addr \<times> nat" where
  "ns_dials (NsHttps ip name path p) = (ip, unwrap_or 443 p)"
| "ns_dials (NsTls ip name p) = (ip, unwrap_or 853 p)"
| "ns_dials (NsPlain ip p) = (ip, unwrap_or 53 p)"

datatype ip_strategy = Ipv6ThenIpv4 | StrategyIpv4Only | StrategyIpv6Only

record 't tokio_resolver =
  tk_servers :: "name_server list"
  tk_strategy :: ip_strategy
  tk_hosts :: bool
  tk_timeout :: "nat option"
  tk_tls :: "'t option"

fun strategy_for :: "address_family \<Rightarrow> ip_strategy" where
  "strategy_for Dual = Ipv6ThenIpv4"
| "strategy_for Ipv4Only = StrategyIpv4Only"
| "strategy_for Ipv6Only = StrategyIpv6Only"

definition system_resolver_config :: "name_server list" where
  "system_resolver_config = [NsPlain (V4 (ipv4_of 1 1 1 1)) None]"

definition spec_servers :: "resolver_spec \<Rightarrow> name_server list" where
  "spec_servers spec =
     (case spec of
        SpecSystem \<Rightarrow> system_resolver_config
      | SpecDoh ip server_name path \<Rightarrow> [NsHttps ip server_name path None]
      | SpecDot ip server_name \<Rightarrow> [NsTls ip server_name None]
      | SpecPlain addr \<Rightarrow> [ns_set_port (sock_port addr) (NsPlain (sock_ip addr) None)])"

text \<open>\<open>builder.build()\<close> may refuse a resolver: the parameter \<open>accept\<close>.\<close>

definition spec_build :: "('t tokio_resolver \<Rightarrow> (anyhow, unit) result) \<Rightarrow> resolver_spec \<Rightarrow> address_family
    \<Rightarrow> (anyhow, 't tokio_resolver) result" where
  "spec_build accept spec family =
     (let r = \<lparr>tk_servers = spec_servers spec, tk_strategy = strategy_for family,
               tk_hosts = (spec = SpecSystem), tk_timeout = None, tk_tls = None\<rparr> in
      res_bind (accept r) (\<lambda>_. Inr r))"

section \<open>Resolving an upstream\<close>

fun record_v4 :: "rdata \<Rightarrow> ipv4 option" where
  "record_v4 (RdA a) = Some a"
| "record_v4 _ = None"

fun record_v6 :: "rdata \<Rightarrow> ipv6 option" where
  "record_v6 (RdAaaa a) = Some a"
| "record_v6 _ = None"

definition lookup_all_v4 :: "lookup_fn \<Rightarrow> string \<Rightarrow> (anyhow, ipv4 list) result" where
  "lookup_all_v4 lk host =
     res_bind (with_context (''A lookup for '' @ host) (lk host RrA))
       (\<lambda>rs. Inr (List.map_filter (\<lambda>r. record_v4 (dr_data r)) rs))"

definition lookup_all_v6 :: "lookup_fn \<Rightarrow> string \<Rightarrow> (anyhow, ipv6 list) result" where
  "lookup_all_v6 lk host =
     res_bind (with_context (''AAAA lookup for '' @ host) (lk host RrAaaa))
       (\<lambda>rs. Inr (List.map_filter (\<lambda>r. record_v6 (dr_data r)) rs))"

definition lookup_v4 :: "lookup_fn \<Rightarrow> string \<Rightarrow> (anyhow, ipv4) result" where
  "lookup_v4 lk host =
     res_bind (with_context (''A lookup for '' @ host) (lk host RrA))
       (\<lambda>rs. ok_or (anyhow (''no A record for '' @ host)) (find_map (\<lambda>r. record_v4 (dr_data r)) rs))"

definition lookup_v6 :: "lookup_fn \<Rightarrow> string \<Rightarrow> (anyhow, ipv6) result" where
  "lookup_v6 lk host =
     res_bind (with_context (''AAAA lookup for '' @ host) (lk host RrAaaa))
       (\<lambda>rs. ok_or (anyhow (''no AAAA record for '' @ host)) (find_map (\<lambda>r. record_v6 (dr_data r)) rs))"

text \<open>
  The IPv6 error is folded in as text (\<open>render\<close> is the alternate display of an error), so only the causes of the
  IPv4 error stay visible.
\<close>

definition neither_family_resolved :: "(anyhow \<Rightarrow> string) \<Rightarrow> string \<Rightarrow> anyhow \<Rightarrow> anyhow \<Rightarrow> anyhow" where
  "neither_family_resolved render host v6_err v4_err =
     LinkText (''resolving '' @ host @ '': AAAA also failed: '' @ render v6_err) # v4_err"

definition nat64_or_v4 :: "ipv4 \<Rightarrow> nat \<Rightarrow> nat64_prefix option \<Rightarrow> socket_addr" where
  "nat64_or_v4 v4 port nat64 =
     (case nat64 of Some pre \<Rightarrow> sock_of (V6 (synthesize pre v4)) port | None \<Rightarrow> sock_of (V4 v4) port)"

definition resolve_upstream :: "(anyhow \<Rightarrow> string) \<Rightarrow> lookup_fn \<Rightarrow> string \<Rightarrow> nat \<Rightarrow> address_family \<Rightarrow> nat64_prefix option
    \<Rightarrow> (anyhow, resolved_addrs) result" where
  "resolve_upstream render lk host port family nat64 =
     (case parse_ip host of
        Some ip \<Rightarrow>
          Inr (ra_single (case ip of
             V4 v4 \<Rightarrow> if family \<noteq> Ipv6Only then nat64_or_v4 v4 port nat64 else sock_of (V4 v4) port
           | V6 v6 \<Rightarrow> sock_of (V6 v6) port))
      | None \<Rightarrow>
        (case family of
           Ipv6Only \<Rightarrow> res_bind (lookup_v6 lk host) (\<lambda>v6. Inr (ra_single (sock_of (V6 v6) port)))
         | Ipv4Only \<Rightarrow> res_bind (lookup_v4 lk host) (\<lambda>v4. Inr (ra_single (nat64_or_v4 v4 port nat64)))
         | Dual \<Rightarrow>
             if nat64 \<noteq> None then
               (case lookup_v6 lk host of
                  Inr v6 \<Rightarrow> Inr (ra_single (sock_of (V6 v6) port))
                | Inl v6_err \<Rightarrow>
                    (case lookup_v4 lk host of
                       Inr v4 \<Rightarrow> Inr (ra_single (nat64_or_v4 v4 port nat64))
                     | Inl v4_err \<Rightarrow> Inl (neither_family_resolved render host v6_err v4_err)))
             else
               (case (lookup_v6 lk host, lookup_v4 lk host) of
                  (Inr v6, Inr v4) \<Rightarrow> Inr (ra_dual (sock_of (V6 v6) port) (nat64_or_v4 v4 port nat64))
                | (Inr v6, Inl _) \<Rightarrow> Inr (ra_single (sock_of (V6 v6) port))
                | (Inl _, Inr v4) \<Rightarrow> Inr (ra_single (nat64_or_v4 v4 port nat64))
                | (Inl v6_err, Inl v4_err) \<Rightarrow> Inl (neither_family_resolved render host v6_err v4_err))))"

definition resolve_all_ips :: "lookup_fn \<Rightarrow> string \<Rightarrow> address_family \<Rightarrow> (anyhow, ip_addr list) result" where
  "resolve_all_ips lk host family =
     (case parse_ip host of
        Some ip \<Rightarrow>
          (let usable = (case ip of V4 _ \<Rightarrow> family \<noteq> Ipv6Only | V6 _ \<Rightarrow> family \<noteq> Ipv4Only) in
           Inr (if usable then [ip] else []))
      | None \<Rightarrow>
          (let (out, last_err) =
             (if family \<noteq> Ipv6Only
              then (case lookup_all_v4 lk host of Inr v \<Rightarrow> (map V4 v, None) | Inl e \<Rightarrow> ([], Some e))
              else ([], None));
           (out, last_err) =
             (if family \<noteq> Ipv4Only
              then (case lookup_all_v6 lk host of Inr v \<Rightarrow> (out @ map V6 v, last_err) | Inl e \<Rightarrow> (out, Some e))
              else (out, last_err)) in
           if out = [] then Inl (unwrap_or (anyhow (''no A or AAAA records for '' @ host)) last_err) else Inr out))"

section \<open>Facts\<close>

fun is_v6 :: "socket_addr \<Rightarrow> bool" where
  "is_v6 (SockV6 _ _ _) = True"
| "is_v6 (SockV4 _ _) = False"

lemma sock_of_simps [simp]:
  "is_v6 (sock_of (V6 a) port)" "\<not> is_v6 (sock_of (V4 b) port)"
  "sock_port (sock_of ip port) = port" "sock_ip (sock_of ip port) = ip"
  by (cases ip; simp add: sock_of_def)+

lemma nat64_or_v4_simps [simp]:
  "sock_port (nat64_or_v4 v4 port nat64) = port" "is_v6 (nat64_or_v4 v4 port nat64) \<longleftrightarrow> nat64 \<noteq> None"
  by (cases nat64; simp add: nat64_or_v4_def)+

lemma with_context_ok [simp]: "with_context msg r = Inr x \<longleftrightarrow> r = Inr x"
  by (cases r) (auto simp: with_context_def)

lemma with_context_causes: "with_context msg r = Inl e \<Longrightarrow> \<exists>e0. r = Inl e0 \<and> set e0 \<subseteq> set e"
  by (cases r) (auto simp: with_context_def)

text \<open>The addresses a lookup may lead to, by the records that are published.\<close>

definition published :: "lookup_fn \<Rightarrow> string \<Rightarrow> ip_addr \<Rightarrow> bool" where
  "published lk host ip \<longleftrightarrow>
     (case ip of
        V4 a \<Rightarrow> \<exists>rs r. lk host RrA = Inr rs \<and> r \<in> set rs \<and> dr_data r = RdA a
      | V6 a \<Rightarrow> \<exists>rs r. lk host RrAaaa = Inr rs \<and> r \<in> set rs \<and> dr_data r = RdAaaa a)"

lemma record_v4_iff: "record_v4 d = Some a \<longleftrightarrow> d = RdA a"
  by (cases d) auto

lemma record_v6_iff: "record_v6 d = Some a \<longleftrightarrow> d = RdAaaa a"
  by (cases d) auto

lemma find_map_mem: "find_map f xs = Some y \<Longrightarrow> \<exists>x\<in>set xs. f x = Some y"
  by (induction xs) (auto split: option.splits)

lemma lookup_v4_published: "lookup_v4 lk host = Inr a \<Longrightarrow> published lk host (V4 a)"
  using find_map_mem [of "\<lambda>r. record_v4 (dr_data r)" _ a]
  by (fastforce simp: lookup_v4_def published_def record_v4_iff)

lemma lookup_v6_published: "lookup_v6 lk host = Inr a \<Longrightarrow> published lk host (V6 a)"
  using find_map_mem [of "\<lambda>r. record_v6 (dr_data r)" _ a]
  by (fastforce simp: lookup_v6_def published_def record_v6_iff)

lemma map_filter_mem: "y \<in> set (List.map_filter f xs) \<longleftrightarrow> (\<exists>x\<in>set xs. f x = Some y)"
  by (force simp: List.map_filter_def)

text \<open>\<open>resolve_all_ips\<close> returns exactly what is published in the families asked for.\<close>

lemma lookup_all_v4_ok: "lookup_all_v4 lk host = Inr v \<Longrightarrow> a \<in> set v \<longleftrightarrow> published lk host (V4 a)"
  by (auto simp: lookup_all_v4_def published_def map_filter_mem record_v4_iff)

lemma lookup_all_v6_ok: "lookup_all_v6 lk host = Inr v \<Longrightarrow> a \<in> set v \<longleftrightarrow> published lk host (V6 a)"
  by (auto simp: lookup_all_v6_def published_def map_filter_mem record_v6_iff)

lemma lookup_all_v4_err: "lookup_all_v4 lk host = Inl e \<Longrightarrow> \<not> published lk host (V4 a)"
  by (cases "lk host RrA") (auto simp: lookup_all_v4_def published_def with_context_def)

lemma lookup_all_v6_err: "lookup_all_v6 lk host = Inl e \<Longrightarrow> \<not> published lk host (V6 a)"
  by (cases "lk host RrAaaa") (auto simp: lookup_all_v6_def published_def with_context_def)

lemma resolve_all_ips_exact:
  assumes "resolve_all_ips lk host family = Inr ips" and name: "parse_ip host = None"
  shows "ip \<in> set ips \<longleftrightarrow> published lk host ip
     \<and> (case ip of V4 _ \<Rightarrow> family \<noteq> Ipv6Only | V6 _ \<Rightarrow> family \<noteq> Ipv4Only)"
proof -
  have v4: "V4 a \<in> set ips \<longleftrightarrow> published lk host (V4 a) \<and> family \<noteq> Ipv6Only" for a
    using assms lookup_all_v4_ok [of lk host _ a] lookup_all_v4_err [of lk host _ a]
    by (auto simp: resolve_all_ips_def Let_def image_iff split: if_splits sum.splits prod.splits)
  have v6: "V6 a \<in> set ips \<longleftrightarrow> published lk host (V6 a) \<and> family \<noteq> Ipv4Only" for a
    using assms lookup_all_v6_ok [of lk host _ a] lookup_all_v6_err [of lk host _ a]
    by (auto simp: resolve_all_ips_def Let_def image_iff split: if_splits sum.splits prod.splits)
  show ?thesis using v4 v6 by (cases ip) simp_all
qed

text \<open>
  An inline DoH or DoT specification is resolved at the port it names but dialled at the default one:
  \<open>spec_servers\<close> has no port to set.
\<close>

lemma inline_port_ignored:
  assumes "split_authority_path rest = (host, port, path)" "parse_ip host = Some ip" "trim (''https://'' @ rest) = ''https://'' @ rest"
  shows "\<exists>p. spec_parse os (''https://'' @ rest) = Inr (SpecDoh ip host p)
    \<and> map ns_dials (spec_servers (SpecDoh ip host p)) = [(ip, 443)]"
proof -
  have "spec_parse os (''https://'' @ rest) = Inr (SpecDoh ip host (if path = [] then ''/dns-query'' else path))"
    using assms by (simp add: spec_parse_def eq_nocase_def lowercase_def lower_char_def is_upper_def resolve_bootstrap_def with_context_def)
  then show ?thesis by (simp add: spec_servers_def unwrap_or_def)
qed

text \<open>The address dialled for a published one: itself, or its NAT64 image when there is a prefix.\<close>

fun dialled_as :: "address_family \<Rightarrow> nat64_prefix option \<Rightarrow> nat \<Rightarrow> ip_addr \<Rightarrow> socket_addr" where
  "dialled_as family nat64 port (V4 a) =
     (if family = Ipv6Only then sock_of (V4 a) port else nat64_or_v4 a port nat64)"
| "dialled_as family nat64 port (V6 a) = sock_of (V6 a) port"

lemma resolve_upstream_error:
  assumes name: "parse_ip host = None" and e: "resolve_upstream render lk host port family nat64 = Inl e"
  shows "(family \<noteq> Ipv4Only \<longrightarrow> \<not> is_ok (lookup_v6 lk host))
    \<and> (family \<noteq> Ipv6Only \<longrightarrow> (\<exists>e4. lookup_v4 lk host = Inl e4 \<and> set e4 \<subseteq> set e))"
  using e by (cases "lookup_v6 lk host"; cases "lookup_v4 lk host"; cases family)
    (auto simp: resolve_upstream_def name neither_family_resolved_def split: if_splits)

section \<open>Properties\<close>

text \<open>C30. Resolving an upstream name dials only published addresses, on the requested
  port and in the requested family, an IPv4 address through its NAT64 image when a prefix is
  configured. A second address to race is offered exactly when both families answered and no prefix
  makes them the same path; IPv6 then leads. Every address is IPv6 under a prefix (and in IPv6-only
  mode, where no prefix applies). Resolution fails only when every family it may use failed, and the
  causes of the IPv4 failure stay visible to the caller, so an ECH rejection by the resolver itself
  is still recognised.
\<close>

theorem resolve_upstream_sound:
  assumes name: "parse_ip host = None"
  shows "(\<forall>addrs. resolve_upstream render lk host port family nat64 = Inr addrs \<longrightarrow>
      (\<forall>d\<in>set (ra_primary addrs # (case ra_fallback addrs of None \<Rightarrow> [] | Some f \<Rightarrow> [f])).
         \<exists>ip. published lk host ip \<and> d = dialled_as family nat64 port ip
           \<and> (case ip of V4 _ \<Rightarrow> family \<noteq> Ipv6Only | V6 _ \<Rightarrow> family \<noteq> Ipv4Only)
           \<and> (nat64 \<noteq> None \<or> family = Ipv6Only \<longrightarrow> is_v6 d))
      \<and> (ra_fallback addrs \<noteq> None \<longleftrightarrow>
           family = Dual \<and> nat64 = None \<and> is_ok (lookup_v6 lk host) \<and> is_ok (lookup_v4 lk host))
      \<and> (\<forall>f. ra_fallback addrs = Some f \<longrightarrow> is_v6 (ra_primary addrs) \<and> \<not> is_v6 f))
    \<and> (\<forall>e. resolve_upstream render lk host port family nat64 = Inl e \<longrightarrow>
      (family \<noteq> Ipv4Only \<longrightarrow> \<not> is_ok (lookup_v6 lk host))
      \<and> (family \<noteq> Ipv6Only \<longrightarrow> (\<exists>e4. lookup_v4 lk host = Inl e4 \<and> set e4 \<subseteq> set e)))"
proof -
  define reach where "reach d \<longleftrightarrow> (\<exists>ip. published lk host ip \<and> d = dialled_as family nat64 port ip
           \<and> (case ip of V4 _ \<Rightarrow> family \<noteq> Ipv6Only | V6 _ \<Rightarrow> family \<noteq> Ipv4Only)
           \<and> (nat64 \<noteq> None \<or> family = Ipv6Only \<longrightarrow> is_v6 d))" for d
  have v6: "reach (sock_of (V6 a) port)" if "lookup_v6 lk host = Inr a" "family \<noteq> Ipv4Only" for a
    using lookup_v6_published [OF that(1)] that(2) unfolding reach_def by (intro exI [of _ "V6 a"]) simp
  have v4: "reach (nat64_or_v4 a port nat64)" if "lookup_v4 lk host = Inr a" "family \<noteq> Ipv6Only" for a
    using lookup_v4_published [OF that(1)] that(2) unfolding reach_def by (intro exI [of _ "V4 a"]) simp
  have ok: "(\<forall>d\<in>set (ra_primary addrs # (case ra_fallback addrs of None \<Rightarrow> [] | Some f \<Rightarrow> [f])). reach d)
      \<and> (ra_fallback addrs \<noteq> None \<longleftrightarrow>
           family = Dual \<and> nat64 = None \<and> is_ok (lookup_v6 lk host) \<and> is_ok (lookup_v4 lk host))
      \<and> (\<forall>f. ra_fallback addrs = Some f \<longrightarrow> is_v6 (ra_primary addrs) \<and> \<not> is_v6 f)"
    if r: "resolve_upstream render lk host port family nat64 = Inr addrs" for addrs
  proof (cases family)
    case Ipv6Only
    then show ?thesis using r v6 by (cases "lookup_v6 lk host") (auto simp: resolve_upstream_def name ra_single_def)
  next
    case Ipv4Only
    then show ?thesis using r v4 by (cases "lookup_v4 lk host") (auto simp: resolve_upstream_def name ra_single_def)
  next
    case Dual
    then show ?thesis using r v6 v4
      by (cases "lookup_v6 lk host"; cases "lookup_v4 lk host"; cases nat64)
        (auto simp: resolve_upstream_def name ra_single_def ra_dual_def)
  qed
  show ?thesis using ok resolve_upstream_error [OF name] unfolding reach_def by blast
qed

lemma resolve_upstream_sound_witness:
  "\<exists>lk :: lookup_fn. resolve_upstream (\<lambda>_. []) lk ''a.b'' 443 Dual None
       = Inr (ra_dual (SockV6 1 0 443) (SockV4 2 443))
     \<and> (\<exists>ip. published lk ''a.b'' ip \<and> SockV6 1 0 443 = dialled_as Dual None 443 ip)"
proof -
  define lk :: lookup_fn where "lk = (\<lambda>_ t. case t of RrA \<Rightarrow> Inr [\<lparr>dr_ttl = 1, dr_data = RdA 2\<rparr>]
    | RrAaaa \<Rightarrow> Inr [\<lparr>dr_ttl = 1, dr_data = RdOther\<rparr>, \<lparr>dr_ttl = 1, dr_data = RdAaaa 1\<rparr>] | RrHttps \<Rightarrow> Inl [])"
  have name: "parse_ip ''a.b'' = None" by code_simp
  have r: "resolve_upstream (\<lambda>_. []) lk ''a.b'' 443 Dual None = Inr (ra_dual (SockV6 1 0 443) (SockV4 2 443))"
    by (simp add: resolve_upstream_def name lookup_v6_def lookup_v4_def lk_def nat64_or_v4_def sock_of_def with_context_def)
  show ?thesis
    using resolve_upstream_sound [OF name, of "\<lambda>_. []" lk 443 Dual None] r by (intro exI [of _ lk]) (auto simp: ra_dual_def)
qed

end
