(* ===== verification/Ech.thy ===== *)
theory Ech
  imports Tlsverify Dns
begin

text \<open>
  Encrypted Client Hello (\<open>src/src/ech.rs\<close>): the provider of a route, which resolves one
  ECHConfigList per inner name and assembles one client configuration per ALPN offer from it, and
  the helpers a resolver's own handshake shares with it.

  An ECHConfigList is its bytes, a \<open>Duration\<close> and an \<open>Instant\<close> are milliseconds. The base64
  decoder, rustls (which lists it supports, whether a configuration can be built) and the random
  GREASE key are parameters, and so is the DNS answer of each lookup.
\<close>

section \<open>Data\<close>

datatype ech_error =
    EchNoRecord string
  | EchLookup string anyhow
  | EchBase64
  | EchNoCompatible
  | EchRustls

datatype tls_ech = RealEch string | GreaseEch string

record 'r client_config =
  cl_ech :: "tls_ech option"
  cl_verifier :: "'r cert_verifier"
  cl_sni :: bool
  cl_alpn :: "string list"

record ech_lib =
  xl_base64 :: "string \<Rightarrow> string option"
  xl_compatible :: "string \<Rightarrow> bool"
  xl_with_ech :: "tls_ech \<Rightarrow> bool"
  xl_versions :: bool

text \<open>What one call meets: the DNS, the GREASE key, and the clock before and after the lookup.\<close>

record ech_world =
  xw_lookup :: "string \<Rightarrow> (anyhow, dns_record list) result"
  xw_grease_key :: "string option"
  xw_now :: nat
  xw_then :: nat

record 'r ech_cached =
  cg_mode :: tls_ech
  cg_configs :: "string list \<rightharpoonup> 'r client_config"
  cg_refresh_at :: nat
  cg_generation :: nat

record 'r ech_provider =
  pv_settings :: effective_ech
  pv_port :: nat
  pv_require :: bool
  pv_sni :: bool
  pv_verify :: "'r upstream_verify"
  pv_bound :: nat

text \<open>The part of the provider behind its lock, and its generation counter (a \<open>u64\<close>).\<close>

record 'r ech_state =
  xs_cache :: "string \<rightharpoonup> 'r ech_cached"
  xs_next :: nat

record 'r ech_client =
  ek_config :: "'r client_config"
  ek_generation :: nat

definition ech_state_new :: "'r ech_state" where
  "ech_state_new = \<lparr>xs_cache = Map.empty, xs_next = 1\<rparr>"

section \<open>Shared helpers\<close>

definition https_lookup_name :: "string \<Rightarrow> nat \<Rightarrow> string" where
  "https_lookup_name base port =
     (if port = 443 then base else ''_'' @ show_nat port @ ''._https.'' @ base)"

definition decode_ech_b64 :: "ech_lib \<Rightarrow> string \<Rightarrow> (ech_error, string) result" where
  "decode_ech_b64 lib s = ok_or EchBase64 (xl_base64 lib (trim s))"

definition build_real_ech_mode :: "ech_lib \<Rightarrow> string \<Rightarrow> (ech_error, tls_ech) result" where
  "build_real_ech_mode lib bytes = (if xl_compatible lib bytes then Inr (RealEch bytes) else Inl EchNoCompatible)"

definition grease_mode :: "string option \<Rightarrow> (ech_error, tls_ech) result" where
  "grease_mode key = (case key of None \<Rightarrow> Inl EchRustls | Some k \<Rightarrow> Inr (GreaseEch k))"

fun ech_param :: "svc_param \<Rightarrow> string option" where
  "ech_param (EchParam list) = Some list"
| "ech_param OtherParam = None"

fun record_ech :: "rdata \<Rightarrow> string option" where
  "record_ech (RdHttps params) = find_map ech_param params"
| "record_ech _ = None"

definition extract_ech_from_lookup :: "dns_record list \<Rightarrow> string option" where
  "extract_ech_from_lookup answers = find_map (\<lambda>r. record_ech (dr_data r)) answers"

text \<open>An ECH rejection may be any cause of an error, bare or wrapped in an I/O error.\<close>

fun is_ech_reject_io :: "error_link \<Rightarrow> bool" where
  "is_ech_reject_io (LinkIo (Some ServerRejectedEch)) = True"
| "is_ech_reject_io _ = False"

definition is_ech_reject_chain :: "anyhow \<Rightarrow> bool" where
  "is_ech_reject_chain err = list_ex (\<lambda>cause. cause = LinkRustls ServerRejectedEch \<or> is_ech_reject_io cause) err"

section \<open>The provider of a route\<close>

definition lookup_name :: "'r ech_provider \<Rightarrow> string \<Rightarrow> string" where
  "lookup_name pv inner =
     https_lookup_name (unwrap_or inner (ee_ech_domain (pv_settings pv))) (pv_port pv)"

definition lookup_doh :: "'r ech_provider \<Rightarrow> ech_world \<Rightarrow> string \<Rightarrow> (ech_error, (string \<times> nat) option) result" where
  "lookup_doh pv w inner =
     (let name = lookup_name pv inner in
      case xw_lookup w name of Inl source \<Rightarrow> Inl (EchLookup name source)
      | Inr answers \<Rightarrow>
          Inr (find_map (\<lambda>r. map_option (\<lambda>bytes. (bytes, dr_ttl r * 1000)) (record_ech (dr_data r))) answers))"

definition static_list :: "ech_lib \<Rightarrow> effective_ech \<Rightarrow> (ech_error, string) result" where
  "static_list lib settings = res_bind (ok_or EchNoCompatible (ee_config settings)) (decode_ech_b64 lib)"

definition acquire_config_list :: "ech_lib \<Rightarrow> 'r ech_provider \<Rightarrow> ech_world \<Rightarrow> string
    \<Rightarrow> (ech_error, string option \<times> nat option) result" where
  "acquire_config_list lib pv w inner =
     (case ee_mode (pv_settings pv) of
        EchStatic \<Rightarrow> res_bind (static_list lib (pv_settings pv)) (\<lambda>b. Inr (Some b, None))
      | EchDoh \<Rightarrow>
          (case lookup_doh pv w inner of
             Inr (Some (b, ttl)) \<Rightarrow> Inr (Some b, Some ttl)
           | Inr None \<Rightarrow> Inr (None, None)
           | Inl e \<Rightarrow> Inl e)
      | EchDohWithFallback \<Rightarrow>
          (case lookup_doh pv w inner of
             Inr (Some (b, ttl)) \<Rightarrow> Inr (Some b, Some ttl)
           | _ \<Rightarrow> res_bind (static_list lib (pv_settings pv)) (\<lambda>b. Inr (Some b, None))))"

text \<open>A successful build takes the next generation; the counter wraps like \<open>AtomicU64::fetch_add\<close>.\<close>

definition ech_build :: "ech_lib \<Rightarrow> 'r ech_provider \<Rightarrow> ech_world \<Rightarrow> string \<Rightarrow> nat
    \<Rightarrow> nat \<times> (ech_error, 'r ech_cached) result" where
  "ech_build lib pv w inner next =
     (case acquire_config_list lib pv w inner of Inl e \<Rightarrow> (next, Inl e)
      | Inr (ech_bytes, ttl) \<Rightarrow>
        (case (case ech_bytes of
                 Some bytes \<Rightarrow> build_real_ech_mode lib bytes
               | None \<Rightarrow> if pv_require pv then Inl (EchNoRecord (lookup_name pv inner))
                         else grease_mode (xw_grease_key w)) of
           Inl e \<Rightarrow> (next, Inl e)
         | Inr mode \<Rightarrow>
             (let refresh = max (case ttl of Some t \<Rightarrow> min t (pv_bound pv) | None \<Rightarrow> pv_bound pv) 5000 in
              ((next + 1) mod 2 ^ 64,
               Inr \<lparr>cg_mode = mode, cg_configs = Map.empty, cg_refresh_at = xw_then w + refresh,
                    cg_generation = next\<rparr>))))"

definition assemble_client_config :: "ech_lib \<Rightarrow> 'r ech_provider \<Rightarrow> tls_ech
    \<Rightarrow> (ech_error, 'r client_config) result" where
  "assemble_client_config lib pv mode =
     (if xl_with_ech lib mode
      then Inr \<lparr>cl_ech = Some mode, cl_verifier = uv_verifier (pv_verify pv), cl_sni = pv_sni pv, cl_alpn = []\<rparr>
      else Inl EchRustls)"

definition config_for :: "ech_lib \<Rightarrow> 'r ech_provider \<Rightarrow> 'r ech_cached \<Rightarrow> string list
    \<Rightarrow> 'r ech_cached \<times> (ech_error, 'r client_config) result" where
  "config_for lib pv c alpn =
     (case cg_configs c alpn of Some cfg \<Rightarrow> (c, Inr cfg)
      | None \<Rightarrow>
        (case assemble_client_config lib pv (cg_mode c) of Inl e \<Rightarrow> (c, Inl e)
         | Inr config \<Rightarrow>
             (let cfg = config\<lparr>cl_alpn := alpn\<rparr> in (c\<lparr>cg_configs := (cg_configs c)(alpn \<mapsto> cfg)\<rparr>, Inr cfg))))"

text \<open>The tail of every branch of \<open>client\<close>: assemble from the entry in the cache.\<close>

definition serve_entry :: "ech_lib \<Rightarrow> 'r ech_provider \<Rightarrow> string \<Rightarrow> string list \<Rightarrow> 'r ech_cached
    \<Rightarrow> 'r ech_state \<Rightarrow> 'r ech_state \<times> (ech_error, 'r ech_client) result" where
  "serve_entry lib pv inner alpn c st =
     (let (c', r) = config_for lib pv c alpn in
      (st\<lparr>xs_cache := (xs_cache st)(inner \<mapsto> c')\<rparr>,
       case r of Inl e \<Rightarrow> Inl e | Inr cfg \<Rightarrow> Inr \<lparr>ek_config = cfg, ek_generation = cg_generation c'\<rparr>))"

text \<open>The fast path, under the read lock.\<close>

definition client_fast :: "string \<Rightarrow> string list \<Rightarrow> nat \<Rightarrow> 'r ech_state \<Rightarrow> 'r ech_client option" where
  "client_fast inner alpn now st =
     (case xs_cache st inner of None \<Rightarrow> None
      | Some c \<Rightarrow>
          if now < cg_refresh_at c
          then map_option (\<lambda>cfg. \<lparr>ek_config = cfg, ek_generation = cg_generation c\<rparr>) (cg_configs c alpn)
          else None)"

text \<open>The slow path: the write lock is held until it returns, the lookup included.\<close>

definition client_slow :: "ech_lib \<Rightarrow> 'r ech_provider \<Rightarrow> string \<Rightarrow> string list \<Rightarrow> ech_world
    \<Rightarrow> 'r ech_state \<Rightarrow> 'r ech_state \<times> (ech_error, 'r ech_client) result" where
  "client_slow lib pv inner alpn w st =
     (case xs_cache st inner of
        Some c \<Rightarrow>
          if xw_now w < cg_refresh_at c then serve_entry lib pv inner alpn c st
          else (case ech_build lib pv w inner (xs_next st) of
              (next, Inr fresh) \<Rightarrow> serve_entry lib pv inner alpn fresh (st\<lparr>xs_next := next\<rparr>)
            | (next, Inl e) \<Rightarrow>
                serve_entry lib pv inner alpn (c\<lparr>cg_refresh_at := xw_then w + 30000\<rparr>) (st\<lparr>xs_next := next\<rparr>))
      | None \<Rightarrow>
          (case ech_build lib pv w inner (xs_next st) of
              (next, Inr fresh) \<Rightarrow> serve_entry lib pv inner alpn fresh (st\<lparr>xs_next := next\<rparr>)
            | (next, Inl e) \<Rightarrow> (st\<lparr>xs_next := next\<rparr>, Inl e)))"

text \<open>
  A rejected generation is evicted if it is still the cached one. The last component is the name
  whose HTTPS record the resolver is told to forget.
\<close>

definition invalidate_after_rejection :: "'r ech_provider \<Rightarrow> string \<Rightarrow> nat \<Rightarrow> 'r ech_state
    \<Rightarrow> 'r ech_state \<times> bool \<times> string option" where
  "invalidate_after_rejection pv inner generation st =
     (case xs_cache st inner of None \<Rightarrow> (st, False, None)
      | Some c \<Rightarrow>
          if cg_generation c \<noteq> generation then (st, False, None)
          else (st\<lparr>xs_cache := (xs_cache st)(inner := None)\<rparr>, True,
                if ee_mode (pv_settings pv) \<in> {EchDoh, EchDohWithFallback} then Some (lookup_name pv inner)
                else None))"

section \<open>A resolver's own handshake\<close>

datatype resolver_ech = ResEchDisabled | ResEchConfig string | ResEchGrease

definition resolver_client_config :: "ech_lib \<Rightarrow> string option \<Rightarrow> resolver_ech \<Rightarrow> bool \<Rightarrow> 'r upstream_verify
    \<Rightarrow> (ech_error, 'r client_config) result" where
  "resolver_client_config lib key mode enable_sni verify =
     res_bind (case mode of
        ResEchConfig bytes \<Rightarrow> res_bind (build_real_ech_mode lib bytes) (\<lambda>m. if xl_with_ech lib m then Inr (Some m) else Inl EchRustls)
      | ResEchGrease \<Rightarrow> res_bind (grease_mode key) (\<lambda>m. if xl_with_ech lib m then Inr (Some m) else Inl EchRustls)
      | ResEchDisabled \<Rightarrow> if xl_versions lib then Inr None else Inl EchRustls)
     (\<lambda>ech. Inr \<lparr>cl_ech = ech, cl_verifier = uv_verifier verify, cl_sni = enable_sni, cl_alpn = []\<rparr>)"

datatype acquire_error = AcquireNoConfig | AcquireDecode ech_error | AcquireLookup anyhow

definition static_bytes :: "ech_lib \<Rightarrow> effective_ech \<Rightarrow> (acquire_error, string option) result" where
  "static_bytes lib settings =
     (case ee_config settings of None \<Rightarrow> Inl AcquireNoConfig
      | Some cfg \<Rightarrow> (case decode_ech_b64 lib cfg of Inl e \<Rightarrow> Inl (AcquireDecode e) | Inr b \<Rightarrow> Inr (Some b)))"

definition acquire_resolver_ech :: "ech_lib \<Rightarrow> effective_ech \<Rightarrow> (anyhow, dns_record list) result
    \<Rightarrow> (acquire_error, string option) result" where
  "acquire_resolver_ech lib settings answer =
     (case ee_mode settings of
        EchStatic \<Rightarrow> static_bytes lib settings
      | EchDoh \<Rightarrow> (case answer of Inl e \<Rightarrow> Inl (AcquireLookup e) | Inr lookup \<Rightarrow> Inr (extract_ech_from_lookup lookup))
      | EchDohWithFallback \<Rightarrow>
          (case answer of
             Inr lookup \<Rightarrow>
               (case extract_ech_from_lookup lookup of Some bytes \<Rightarrow> Inr (Some bytes) | None \<Rightarrow> static_bytes lib settings)
           | Inl e \<Rightarrow> static_bytes lib settings))"

section \<open>Runs\<close>

text \<open>
  The tasks of a route share one provider. Each event is one critical section of one task: a look
  under the read lock, a call under the write lock, or the report of a rejection.
\<close>

datatype ech_event =
    EchLook string "string list" nat
  | EchFetch string "string list" ech_world
  | EchReject string nat

datatype 'r ech_out =
    OutMiss
  | OutClient string "string list" "'r ech_client"
  | OutError string ech_error
  | OutEvicted nat
  | OutStale

fun ech_step :: "ech_lib \<Rightarrow> 'r ech_provider \<Rightarrow> ech_event \<Rightarrow> 'r ech_state \<Rightarrow> 'r ech_state \<times> 'r ech_out" where
  "ech_step lib pv (EchLook inner alpn now) st =
     (st, case client_fast inner alpn now st of None \<Rightarrow> OutMiss | Some k \<Rightarrow> OutClient inner alpn k)"
| "ech_step lib pv (EchFetch inner alpn w) st =
     (case client_slow lib pv inner alpn w st of
        (st', Inl e) \<Rightarrow> (st', OutError inner e)
      | (st', Inr k) \<Rightarrow> (st', OutClient inner alpn k))"
| "ech_step lib pv (EchReject inner g) st =
     (case invalidate_after_rejection pv inner g st of
        (st', granted, cleared) \<Rightarrow> (st', if granted then OutEvicted g else OutStale))"

fun ech_run :: "ech_lib \<Rightarrow> 'r ech_provider \<Rightarrow> ech_event list \<Rightarrow> 'r ech_state \<Rightarrow> 'r ech_state \<times> 'r ech_out list" where
  "ech_run lib pv [] st = (st, [])"
| "ech_run lib pv (ev # evs) st =
     (let (st1, out) = ech_step lib pv ev st; (st2, outs) = ech_run lib pv evs st1 in (st2, out # outs))"

section \<open>Facts\<close>

text \<open>What every configuration handed out must look like.\<close>

definition config_proper :: "'r ech_provider \<Rightarrow> tls_ech \<Rightarrow> string list \<Rightarrow> 'r client_config \<Rightarrow> bool" where
  "config_proper pv mode alpn cfg \<longleftrightarrow>
     cfg = \<lparr>cl_ech = Some mode, cl_verifier = uv_verifier (pv_verify pv), cl_sni = pv_sni pv, cl_alpn = alpn\<rparr>
     \<and> (pv_require pv \<longrightarrow> (\<exists>bytes. mode = RealEch bytes))"

definition entry_ok :: "'r ech_provider \<Rightarrow> 'r ech_cached \<Rightarrow> bool" where
  "entry_ok pv c \<longleftrightarrow> (pv_require pv \<longrightarrow> (\<exists>bytes. cg_mode c = RealEch bytes))
     \<and> (\<forall>alpn cfg. cg_configs c alpn = Some cfg \<longrightarrow> config_proper pv (cg_mode c) alpn cfg)"

text \<open>Every entry satisfies \<open>P\<close>, and every entry of generation \<open>g\<close> satisfies \<open>Q\<close> of its name and mode.\<close>

definition entries :: "(string \<Rightarrow> 'r ech_cached \<Rightarrow> bool) \<Rightarrow> 'r ech_state \<Rightarrow> bool" where
  "entries P st \<longleftrightarrow> (\<forall>inner c. xs_cache st inner = Some c \<longrightarrow> P inner c)"

lemma ech_build_next: "fst (ech_build lib pv w inner g) \<in> {g, (g + 1) mod 2 ^ 64}"
  by (auto simp: ech_build_def split: sum.splits option.splits prod.splits)

lemma ech_build_ok:
  assumes "ech_build lib pv w inner g = (g', Inr c)"
  shows "entry_ok pv c" "cg_generation c = g" "g' = (g + 1) mod 2 ^ 64" "cg_configs c = Map.empty"
proof -
  obtain eb ttl mode where a: "acquire_config_list lib pv w inner = Inr (eb, ttl)"
    and m: "(case eb of Some bytes \<Rightarrow> build_real_ech_mode lib bytes
        | None \<Rightarrow> if pv_require pv then Inl (EchNoRecord (lookup_name pv inner)) else grease_mode (xw_grease_key w)) = Inr mode"
    and c: "cg_mode c = mode" "cg_configs c = Map.empty" "cg_generation c = g" "g' = (g + 1) mod 2 ^ 64"
    using assms by (auto simp: ech_build_def Let_def split: sum.splits prod.splits)
  have "pv_require pv \<Longrightarrow> \<exists>bytes. mode = RealEch bytes"
    using m by (auto simp: build_real_ech_mode_def split: option.splits if_splits)
  then show "entry_ok pv c" using c by (simp add: entry_ok_def)
qed (use assms in \<open>auto simp: ech_build_def Let_def split: sum.splits prod.splits\<close>)

lemma config_for_parts:
  assumes ok: "entry_ok pv c" and f: "config_for lib pv c alpn = (c', r)"
  shows "entry_ok pv c'" "cg_mode c' = cg_mode c" "cg_generation c' = cg_generation c"
    "cg_refresh_at c' = cg_refresh_at c" "r = Inr cfg \<Longrightarrow> config_proper pv (cg_mode c) alpn cfg"
    "r = Inl e \<Longrightarrow> \<not> xl_with_ech lib (cg_mode c)"
proof -
  show "entry_ok pv c'" "r = Inr cfg \<Longrightarrow> config_proper pv (cg_mode c) alpn cfg"
    using ok f by (auto simp: config_for_def entry_ok_def config_proper_def assemble_client_config_def Let_def
        split: option.splits if_splits)
qed (use f in \<open>auto simp: config_for_def assemble_client_config_def Let_def split: option.splits if_splits\<close>)

text \<open>
  One critical section, seen from outside: the entries other than the one of its name stay, and that
  one is removed, kept up to its memoised configurations, or replaced by one of the next generation.
\<close>

lemma client_slow_cases:
  fixes st :: "'r ech_state"
  assumes inv: "entries (\<lambda>_. entry_ok pv) st" and s: "client_slow lib pv inner alpn w st = (st', r)"
  obtains (kept) c c' where "xs_cache st inner = Some c" "xs_cache st' = (xs_cache st)(inner \<mapsto> c')"
      "xs_next st' = xs_next st" "entry_ok pv c'" "cg_mode c' = cg_mode c" "cg_generation c' = cg_generation c"
      "\<And>k. r = Inr k \<Longrightarrow> config_proper pv (cg_mode c') alpn (ek_config k) \<and> ek_generation k = cg_generation c'"
      "\<And>e. r = Inl e \<Longrightarrow> \<not> xl_with_ech lib (cg_mode c')"
    | (fresh) c' where "xs_cache st' = (xs_cache st)(inner \<mapsto> c')" "xs_next st' = (xs_next st + 1) mod 2 ^ 64"
      "entry_ok pv c'" "cg_generation c' = xs_next st"
      "\<And>k. r = Inr k \<Longrightarrow> config_proper pv (cg_mode c') alpn (ek_config k) \<and> ek_generation k = cg_generation c'"
      "\<And>e. r = Inl e \<Longrightarrow> \<not> xl_with_ech lib (cg_mode c')"
    | (failed) e where "xs_cache st inner = None" "xs_cache st' = xs_cache st" "xs_next st' = xs_next st" "r = Inl e"
proof -
  have serve: "\<exists>c'. xs_cache t = (xs_cache st0)(inner \<mapsto> c') \<and> xs_next t = xs_next st0 \<and> entry_ok pv c'
      \<and> cg_mode c' = cg_mode c \<and> cg_generation c' = cg_generation c
      \<and> (\<forall>k. rr = Inr k \<longrightarrow> config_proper pv (cg_mode c') alpn (ek_config k) \<and> ek_generation k = cg_generation c')
      \<and> (\<forall>e. rr = Inl e \<longrightarrow> \<not> xl_with_ech lib (cg_mode c'))"
    if "serve_entry lib pv inner alpn c st0 = (t, rr)" "entry_ok pv c" for c t rr and st0 :: "'r ech_state"
  proof -
    obtain c' cr where cf: "config_for lib pv c alpn = (c', cr)" by fastforce
    note parts = config_for_parts [OF that(2) cf]
    show ?thesis using that(1) parts by (intro exI [of _ c']) (auto simp: serve_entry_def cf split: sum.splits)
  qed
  have fail_next: "ech_build lib pv w inner g = (g', Inl e) \<Longrightarrow> g' = g" for g g' e
    by (auto simp: ech_build_def Let_def split: sum.splits prod.splits)
  obtain g' b where b: "ech_build lib pv w inner (xs_next st) = (g', b)" by fastforce
  show ?thesis
  proof (cases "xs_cache st inner")
    case None
    show ?thesis
    proof (cases b)
      case (Inl e)
      then show ?thesis using failed [of e] s None b fail_next [of "xs_next st" g' e]
        by (auto simp: client_slow_def)
    next
      case (Inr c)
      note fr = ech_build_ok [OF b [unfolded Inr]]
      have "serve_entry lib pv inner alpn c (st\<lparr>xs_next := g'\<rparr>) = (st', r)"
        using s None b Inr by (simp add: client_slow_def)
      from serve [OF this fr(1)] show ?thesis using fresh fr by auto
    qed
  next
    case (Some c)
    have ok: "entry_ok pv c" using inv Some by (simp add: entries_def)
    show ?thesis
    proof (cases "xw_now w < cg_refresh_at c")
      case True
      have "serve_entry lib pv inner alpn c st = (st', r)" using s Some True by (simp add: client_slow_def)
      from serve [OF this ok] show ?thesis using kept [OF Some] by auto
    next
      case stale: False
      show ?thesis
      proof (cases b)
        case (Inl e)
        have okr: "entry_ok pv (c\<lparr>cg_refresh_at := xw_then w + 30000\<rparr>)" using ok by (simp add: entry_ok_def)
        have "serve_entry lib pv inner alpn (c\<lparr>cg_refresh_at := xw_then w + 30000\<rparr>) (st\<lparr>xs_next := g'\<rparr>) = (st', r)"
          using s Some stale b Inl by (simp add: client_slow_def)
        from serve [OF this okr] show ?thesis
          using kept [OF Some] fail_next [of "xs_next st" g' e] b Inl by auto
      next
        case (Inr c1)
        note fr = ech_build_ok [OF b [unfolded Inr]]
        have "serve_entry lib pv inner alpn c1 (st\<lparr>xs_next := g'\<rparr>) = (st', r)"
          using s Some stale b Inr by (simp add: client_slow_def)
        from serve [OF this fr(1)] show ?thesis using fresh fr by auto
      qed
    qed
  qed
qed

lemma invalidate_cases:
  assumes "invalidate_after_rejection pv inner g st = (st', granted, cleared)"
  obtains (stale) "st' = st" "\<not> granted" "\<And>c. xs_cache st inner = Some c \<Longrightarrow> cg_generation c \<noteq> g"
    | (evicted) c where "xs_cache st inner = Some c" "cg_generation c = g" "granted"
      "st' = st\<lparr>xs_cache := (xs_cache st)(inner := None)\<rparr>"
proof (cases "xs_cache st inner")
  case None
  then show ?thesis using stale assms by (simp add: invalidate_after_rejection_def)
next
  case (Some c)
  then show ?thesis
    using stale evicted [of c] assms by (cases "cg_generation c = g") (auto simp: invalidate_after_rejection_def)
qed

definition ech_inv :: "'r ech_provider \<Rightarrow> 'r ech_state \<Rightarrow> bool" where
  "ech_inv pv st \<longleftrightarrow> entries (\<lambda>_. entry_ok pv) st \<and> entries (\<lambda>_ c. cg_generation c < xs_next st) st
     \<and> (\<forall>i j c d. xs_cache st i = Some c \<and> xs_cache st j = Some d \<and> cg_generation c = cg_generation d \<longrightarrow> i = j)"

lemma ech_inv_new [inv_intros]: "ech_inv pv ech_state_new"
  by (simp add: ech_inv_def entries_def ech_state_new_def)

text \<open>Generation \<open>g\<close> is settled: it was given out, and every entry that carries it satisfies \<open>Q\<close>.\<close>

definition settled :: "nat \<Rightarrow> (string \<Rightarrow> tls_ech \<Rightarrow> bool) \<Rightarrow> 'r ech_state \<Rightarrow> bool" where
  "settled g Q st \<longleftrightarrow> g < xs_next st \<and> entries (\<lambda>inner c. cg_generation c = g \<longrightarrow> Q inner (cg_mode c)) st"

lemma ech_step_inv:
  assumes inv: "ech_inv pv st" and small: "xs_next st + 1 < 2 ^ 64" and s: "ech_step lib pv ev st = (st', out)"
  shows "ech_inv pv st' \<and> xs_next st' \<le> xs_next st + 1 \<and> (settled g Q st \<longrightarrow> settled g Q st')"
proof (cases ev)
  case (EchLook inner alpn now)
  then show ?thesis using inv s by simp
next
  case (EchFetch inner alpn w)
  obtain r where c: "client_slow lib pv inner alpn w st = (st', r)"
    using s EchFetch by (auto split: prod.splits sum.splits)
  have ok: "entries (\<lambda>_. entry_ok pv) st" using inv by (simp add: ech_inv_def)
  show ?thesis using ok c
  proof (cases rule: client_slow_cases)
    case (kept c c')
    then show ?thesis using inv by (auto simp: ech_inv_def settled_def entries_def)
  next
    case (fresh c')
    then show ?thesis using inv small by (fastforce simp: ech_inv_def settled_def entries_def)
  next
    case (failed e)
    then show ?thesis using inv by (auto simp: ech_inv_def settled_def entries_def)
  qed
next
  case (EchReject inner g')
  obtain granted cleared where i: "invalidate_after_rejection pv inner g' st = (st', granted, cleared)"
    using s EchReject by (auto split: prod.splits)
  then show ?thesis
    by (cases rule: invalidate_cases) (use inv in \<open>auto simp: ech_inv_def settled_def entries_def split: if_splits\<close>)
qed

text \<open>What an outcome says of the state it leaves.\<close>

lemma ech_step_client:
  assumes inv: "ech_inv pv st" and s: "ech_step lib pv ev st = (st', OutClient inner alpn k)"
  shows "\<exists>c. xs_cache st' inner = Some c \<and> cg_generation c = ek_generation k
    \<and> config_proper pv (cg_mode c) alpn (ek_config k)"
proof (cases ev)
  case (EchLook i a now)
  have f: "client_fast i a now st = Some k" "i = inner" "a = alpn" "st' = st"
    using s by (auto simp: EchLook split: option.splits)
  then obtain c where c: "xs_cache st inner = Some c" "map_option (\<lambda>cfg. \<lparr>ek_config = cfg, ek_generation = cg_generation c\<rparr>) (cg_configs c alpn) = Some k"
    unfolding client_fast_def by (cases "xs_cache st inner") (simp_all split: if_splits)
  then obtain cfg where cfg: "cg_configs c alpn = Some cfg" "k = \<lparr>ek_config = cfg, ek_generation = cg_generation c\<rparr>"
    by (cases "cg_configs c alpn") simp_all
  have "entry_ok pv c" using inv c(1) by (simp add: ech_inv_def entries_def)
  then show ?thesis using c(1) cfg f(4) by (simp add: entry_ok_def)
next
  case (EchFetch i a w)
  have c: "client_slow lib pv inner alpn w st = (st', Inr k)"
    using s EchFetch by (auto split: prod.splits sum.splits)
  have ok: "entries (\<lambda>_. entry_ok pv) st" using inv by (simp add: ech_inv_def)
  show ?thesis using ok c by (cases rule: client_slow_cases) auto
next
  case (EchReject i g')
  then show ?thesis using s by (auto split: prod.splits if_splits)
qed

lemma ech_step_evicted:
  assumes inv: "ech_inv pv st" and s: "ech_step lib pv ev st = (st', OutEvicted g)"
  shows "(\<exists>inner c. xs_cache st inner = Some c \<and> cg_generation c = g) \<and> settled g (\<lambda>_ _. False) st'"
proof (cases ev)
  case (EchReject inner g')
  obtain granted cleared where i: "invalidate_after_rejection pv inner g' st = (st', granted, cleared)"
    using s EchReject by (auto split: prod.splits)
  then show ?thesis
  proof (cases rule: invalidate_cases)
    case stale
    then show ?thesis using s EchReject i by auto
  next
    case (evicted c)
    have "g' = g" using s EchReject i evicted by simp
    then show ?thesis using evicted inv by (fastforce simp: ech_inv_def settled_def entries_def)
  qed
next
  case (EchFetch i a w)
  then show ?thesis using s by (auto split: prod.splits sum.splits)
next
  case (EchLook i a now)
  then show ?thesis using s by (auto split: option.splits)
qed

lemma ech_run_inv:
  assumes "ech_inv pv st" "xs_next st + length evs < 2 ^ 64"
  shows "ech_inv pv (fst (ech_run lib pv evs st)) \<and> xs_next (fst (ech_run lib pv evs st)) \<le> xs_next st + length evs
    \<and> (settled g Q st \<longrightarrow> settled g Q (fst (ech_run lib pv evs st)))"
  using assms
proof (induction evs arbitrary: st)
  case (Cons ev evs)
  obtain st1 out where s: "ech_step lib pv ev st = (st1, out)" by fastforce
  have one: "ech_inv pv st1" "xs_next st1 \<le> xs_next st + 1" "settled g Q st \<longrightarrow> settled g Q st1"
    using ech_step_inv [OF Cons.prems(1) _ s] Cons.prems(2) by auto
  have "xs_next st1 + length evs < 2 ^ 64" using one(2) Cons.prems(2) by simp
  from Cons.IH [OF one(1) this] one show ?case by (auto simp: s split: prod.splits)
qed auto

lemma ech_run_append:
  "ech_run lib pv (es @ fs) st =
     (let (st1, outs1) = ech_run lib pv es st; (st2, outs2) = ech_run lib pv fs st1 in (st2, outs1 @ outs2))"
  by (induction es arbitrary: st) (auto split: prod.splits)

lemma ech_run_length: "length (snd (ech_run lib pv es st)) = length es"
proof (induction es arbitrary: st)
  case (Cons ev es)
  obtain st1 out where s: "ech_step lib pv ev st = (st1, out)" by fastforce
  show ?case using Cons [of st1] by (simp add: s split_beta)
qed simp

lemma ech_run_nth:
  assumes "i < length evs"
  obtains st' where "ech_run lib pv (take (Suc i) evs) st = (st', take (Suc i) (snd (ech_run lib pv evs st)))"
    "ech_step lib pv (evs ! i) (fst (ech_run lib pv (take i evs) st)) = (st', snd (ech_run lib pv evs st) ! i)"
proof -
  define st0 where "st0 = fst (ech_run lib pv (take i evs) st)"
  obtain st' out where s: "ech_step lib pv (evs ! i) st0 = (st', out)" by fastforce
  have t: "take (Suc i) evs = take i evs @ [evs ! i]" using assms by (simp add: take_Suc_conv_app_nth)
  have e: "evs = take (Suc i) evs @ drop (Suc i) evs" by simp
  have one: "ech_run lib pv (take (Suc i) evs) st = (st', snd (ech_run lib pv (take i evs) st) @ [out])"
    using s by (auto simp: t ech_run_append st0_def split: prod.splits)
  have outs: "snd (ech_run lib pv evs st)
      = snd (ech_run lib pv (take i evs) st) @ [out] @ snd (ech_run lib pv (drop (Suc i) evs) st')"
    using ech_run_append [of lib pv "take (Suc i) evs" "drop (Suc i) evs" st] one by (auto split: prod.splits)
  have len: "length (snd (ech_run lib pv (take i evs) st)) = i" using assms by (simp add: ech_run_length)
  show ?thesis
    using that [of st'] one s outs len by (simp add: st0_def nth_append)
qed

lemma ech_states:
  fixes lib :: ech_lib and pv :: "'r ech_provider"
  assumes small: "1 + length evs < 2 ^ 64" and le: "m \<le> length evs"
  defines "S k \<equiv> fst (ech_run lib pv (take k evs) ech_state_new)"
  shows "ech_inv pv (S m)" "k \<le> m \<Longrightarrow> settled g Q (S k) \<Longrightarrow> settled g Q (S m)"
proof -
  have one: "ech_inv pv (S k) \<and> xs_next (S k) \<le> 1 + k" if "k \<le> length evs" for k
    using ech_run_inv [of pv ech_state_new "take k evs" lib] small that
    by (simp add: S_def ech_inv_new) (simp add: ech_state_new_def)
  then show "ech_inv pv (S m)" using le by blast
  show "settled g Q (S m)" if k: "k \<le> m" and g: "settled g Q (S k)"
  proof -
    have t: "take m evs = take k evs @ take (m - k) (drop k evs)"
      using k by (metis le_add_diff_inverse take_add)
    have "S m = fst (ech_run lib pv (take (m - k) (drop k evs)) (S k))"
      unfolding S_def by (subst t) (simp add: ech_run_append split_beta)
    moreover have "length (take (m - k) (drop k evs)) = m - k" using k le by simp
    then have "xs_next (S k) + length (take (m - k) (drop k evs)) < 2 ^ 64"
      using one [of k] small k le by linarith
    ultimately show ?thesis using ech_run_inv [of pv "S k" "take (m - k) (drop k evs)" lib g Q] one [of k] g k le by simp
  qed
qed

lemma settled_entry:
  assumes inv: "ech_inv pv st" and c: "xs_cache st inner = Some c"
  shows "settled (cg_generation c) (\<lambda>n m. n = inner \<and> m = cg_mode c) st"
proof -
  have "n = inner \<and> cg_mode d = cg_mode c" if d: "xs_cache st n = Some d" "cg_generation d = cg_generation c" for n d
  proof -
    have "n = inner" using inv c d unfolding ech_inv_def by blast
    then show ?thesis using c d by simp
  qed
  moreover have "cg_generation c < xs_next st" using inv c by (simp add: ech_inv_def entries_def)
  ultimately show ?thesis by (simp add: settled_def entries_def)
qed

lemma entry_serves:
  assumes lib: "\<And>m. xl_with_ech lib m" and c: "xs_cache st inner = Some c"
  shows "is_ok (snd (client_slow lib pv inner alpn w st))"
proof -
  have f: "is_ok (snd (config_for lib pv c' alpn))" for c'
    using lib by (auto simp: config_for_def assemble_client_config_def Let_def split: option.splits)
  have "is_ok (snd (serve_entry lib pv inner alpn c' st0))" for c' st0
    using f [of c'] by (auto simp: serve_entry_def split: sum.splits prod.splits)
  then show ?thesis using c by (auto simp: client_slow_def split: prod.splits sum.splits)
qed

text \<open>The state of a run before its \<open>k\<close>-th event.\<close>

definition state_at :: "ech_lib \<Rightarrow> 'r ech_provider \<Rightarrow> ech_event list \<Rightarrow> nat \<Rightarrow> 'r ech_state" where
  "state_at lib pv evs k = fst (ech_run lib pv (take k evs) ech_state_new)"

lemma state_at_step:
  assumes "ech_run lib pv evs ech_state_new = (st, outs)" "i < length evs"
  shows "ech_step lib pv (evs ! i) (state_at lib pv evs i) = (state_at lib pv evs (Suc i), outs ! i)"
  using ech_run_nth [OF assms(2), of lib pv ech_state_new] assms(1) by (metis state_at_def fst_conv snd_conv)

lemma state_at_inv:
  assumes "1 + length evs < 2 ^ 64" "m \<le> length evs"
  shows "ech_inv pv (state_at lib pv evs m)"
    and "k \<le> m \<Longrightarrow> settled g Q (state_at lib pv evs k) \<Longrightarrow> settled g Q (state_at lib pv evs m)"
  using ech_states [OF assms] by (simp_all add: state_at_def)

text \<open>A configuration that is handed out is the entry the cache holds then, and its generation stays
  with that entry's name and mode.\<close>

lemma client_entry:
  assumes "1 + length evs < 2 ^ 64" "ech_run lib pv evs ech_state_new = (st, outs)"
    and "i < length evs" "outs ! i = OutClient inner alpn k"
  obtains c where "xs_cache (state_at lib pv evs (Suc i)) inner = Some c" "cg_generation c = ek_generation k"
    "config_proper pv (cg_mode c) alpn (ek_config k)"
    "settled (ek_generation k) (\<lambda>n m. n = inner \<and> m = cg_mode c) (state_at lib pv evs (Suc i))"
proof -
  note inv = state_at_inv(1) [OF assms(1)]
  obtain c where c: "xs_cache (state_at lib pv evs (Suc i)) inner = Some c" "cg_generation c = ek_generation k"
      "config_proper pv (cg_mode c) alpn (ek_config k)"
    using ech_step_client [OF inv state_at_step [OF assms(2,3), unfolded assms(4)]] assms(3) by auto
  have "settled (ek_generation k) (\<lambda>n m. n = inner \<and> m = cg_mode c) (state_at lib pv evs (Suc i))"
    using settled_entry [OF inv c(1)] assms(3) c(2) by simp
  then show thesis by (rule that [OF c])
qed

lemma same_generation_later:
  assumes n: "1 + length evs < 2 ^ 64" and run: "ech_run lib pv evs ech_state_new = (st, outs)"
    and ij: "i \<le> j" "j < length evs" and out: "outs ! i = OutClient inner alpn k" "outs ! j = OutClient inner' alpn' k'"
    and g: "ek_generation k' = ek_generation k"
  shows "inner' = inner \<and> cl_ech (ek_config k') = cl_ech (ek_config k)"
proof -
  have il: "i < length evs" using ij by simp
  obtain c where "xs_cache (state_at lib pv evs (Suc i)) inner = Some c" "cg_generation c = ek_generation k"
      and c: "config_proper pv (cg_mode c) alpn (ek_config k)"
      "settled (ek_generation k) (\<lambda>n m. n = inner \<and> m = cg_mode c) (state_at lib pv evs (Suc i))"
    by (rule client_entry [OF n run il out(1)])
  obtain d where d: "xs_cache (state_at lib pv evs (Suc j)) inner' = Some d" "cg_generation d = ek_generation k'"
      "config_proper pv (cg_mode d) alpn' (ek_config k')"
      and "settled (ek_generation k') (\<lambda>n m. n = inner' \<and> m = cg_mode d) (state_at lib pv evs (Suc j))"
    by (rule client_entry [OF n run ij(2) out(2)])
  have "settled (ek_generation k) (\<lambda>n m. n = inner \<and> m = cg_mode c) (state_at lib pv evs (Suc j))"
    by (rule state_at_inv(2) [OF n _ _ c(2)]) (use ij in auto)
  then show ?thesis using c(1) d g by (auto simp: settled_def entries_def config_proper_def)
qed

lemma same_generation:
  assumes "1 + length evs < 2 ^ 64" "ech_run lib pv evs ech_state_new = (st, outs)" "i < length evs" "j < length evs"
    and "outs ! i = OutClient inner alpn k" "outs ! j = OutClient inner' alpn' k'" "ek_generation k' = ek_generation k"
  shows "inner' = inner \<and> cl_ech (ek_config k') = cl_ech (ek_config k)"
proof (cases "i \<le> j")
  case True
  show ?thesis by (rule same_generation_later [OF assms(1,2) True assms(4-7)])
next
  case False
  then have "j \<le> i" by simp
  show ?thesis
    using same_generation_later [OF assms(1,2) \<open>j \<le> i\<close> assms(3,6,5) assms(7) [symmetric]] by simp
qed

text \<open>What is evicted is not in the cache any more, so it is neither handed out nor evicted again.\<close>

lemma evicted_for_good:
  assumes n: "1 + length evs < 2 ^ 64" and run: "ech_run lib pv evs ech_state_new = (st, outs)"
    and ij: "i < j" "j < length evs" "outs ! i = OutEvicted g"
  shows "outs ! j \<noteq> OutEvicted g" and "outs ! j = OutClient inner alpn k \<Longrightarrow> ek_generation k \<noteq> g"
proof -
  note inv = state_at_inv(1) [OF n] and step = state_at_step [OF run]
  have il: "i < length evs" using ij(1,2) by simp
  have "settled g (\<lambda>_ _. False) (state_at lib pv evs (Suc i))"
    using ech_step_evicted [OF inv step [OF il, unfolded ij(3)]] il by simp
  then have gone: "settled g (\<lambda>_ _. False) (state_at lib pv evs j)" "settled g (\<lambda>_ _. False) (state_at lib pv evs (Suc j))"
    using state_at_inv(2) [OF n, of j "Suc i"] state_at_inv(2) [OF n, of "Suc j" "Suc i"] ij(1,2) by simp_all
  show "outs ! j \<noteq> OutEvicted g"
  proof
    assume e: "outs ! j = OutEvicted g"
    have "\<exists>inner c. xs_cache (state_at lib pv evs j) inner = Some c \<and> cg_generation c = g"
      using ech_step_evicted [OF inv step [OF ij(2), unfolded e]] ij(2) by simp
    then show False using gone(1) by (auto simp: settled_def entries_def)
  qed
  show "ek_generation k \<noteq> g" if k: "outs ! j = OutClient inner alpn k"
  proof -
    obtain c where c: "xs_cache (state_at lib pv evs (Suc j)) inner = Some c" "cg_generation c = ek_generation k"
      and "config_proper pv (cg_mode c) alpn (ek_config k)"
      and "settled (ek_generation k) (\<lambda>n m. n = inner \<and> m = cg_mode c) (state_at lib pv evs (Suc j))"
      by (rule client_entry [OF n run ij(2) k])
    show ?thesis using c gone(2) by (auto simp: settled_def entries_def)
  qed
qed

section \<open>Properties\<close>

text \<open>C4. However the tasks sharing a provider interleave (fewer than \<open>2 ^ 64 - 1\<close> critical
  sections, so that the generation counter does not come round), every configuration handed out
  offers exactly the requested ALPN list under the route's SNI choice and verifier, and carries a
  real ECHConfig whenever the route requires ECH. A generation stands for one inner name and one
  ECH mode. It is evicted at most once: of all the connections that report its rejection one is
  told to refresh, a late report never removes a newer generation, and an evicted generation is
  never handed out again. A name that was resolved once keeps being served while its refresh fails,
  as long as rustls accepts the configuration.
\<close>

theorem ech_generations:
  assumes "1 + length evs < 2 ^ 64" and "ech_run lib pv evs ech_state_new = (st, outs)"
  shows "(\<forall>i inner alpn k. i < length outs \<and> outs ! i = OutClient inner alpn k \<longrightarrow>
            (\<exists>mode. config_proper pv mode alpn (ek_config k)
              \<and> (\<forall>j inner' alpn' k'. j < length outs \<and> outs ! j = OutClient inner' alpn' k'
                   \<and> ek_generation k' = ek_generation k \<longrightarrow> inner' = inner \<and> cl_ech (ek_config k') = Some mode)))
    \<and> (\<forall>i j g. i < j \<and> j < length outs \<and> outs ! i = OutEvicted g \<longrightarrow>
            outs ! j \<noteq> OutEvicted g
            \<and> (\<forall>inner alpn k. outs ! j = OutClient inner alpn k \<longrightarrow> ek_generation k \<noteq> g))
    \<and> (\<forall>inner alpn w. (\<forall>m. xl_with_ech lib m) \<and> xs_cache st inner \<noteq> None \<longrightarrow>
            is_ok (snd (client_slow lib pv inner alpn w st)))"
proof -
  have len: "length outs = length evs"
    using assms(2) ech_run_length [of lib pv evs ech_state_new] by simp
  have "\<exists>mode. config_proper pv mode alpn (ek_config k)
      \<and> (\<forall>j inner' alpn' k'. j < length outs \<and> outs ! j = OutClient inner' alpn' k'
           \<and> ek_generation k' = ek_generation k \<longrightarrow> inner' = inner \<and> cl_ech (ek_config k') = Some mode)"
    if i: "i < length outs" "outs ! i = OutClient inner alpn k" for i inner alpn k
  proof -
    have il: "i < length evs" using i(1) len by simp
    obtain c where "xs_cache (state_at lib pv evs (Suc i)) inner = Some c" "cg_generation c = ek_generation k"
      and c: "config_proper pv (cg_mode c) alpn (ek_config k)"
      and "settled (ek_generation k) (\<lambda>n m. n = inner \<and> m = cg_mode c) (state_at lib pv evs (Suc i))"
      by (rule client_entry [OF assms il i(2)])
    then have "cl_ech (ek_config k) = Some (cg_mode c)" by (simp add: config_proper_def)
    then have "inner' = inner \<and> cl_ech (ek_config k') = Some (cg_mode c)"
      if "j < length outs" "outs ! j = OutClient inner' alpn' k'" "ek_generation k' = ek_generation k" for j inner' alpn' k'
      using same_generation [OF assms il _ i(2) that(2,3)] that(1) len by simp
    then show ?thesis using c by blast
  qed
  moreover have "is_ok (snd (client_slow lib pv inner alpn w st))"
    if "\<forall>m. xl_with_ech lib m" "xs_cache st inner \<noteq> None" for inner alpn w
    using entry_serves that by blast
  moreover have "outs ! j \<noteq> OutEvicted g
      \<and> (\<forall>inner alpn k. outs ! j = OutClient inner alpn k \<longrightarrow> ek_generation k \<noteq> g)"
    if "i < j" "j < length outs" "outs ! i = OutEvicted g" for i j g
    using evicted_for_good [OF assms that(1) _ that(3)] that(2) len by simp
  ultimately show ?thesis by blast
qed

definition sample_ech_lib :: ech_lib where
  "sample_ech_lib = \<lparr>xl_base64 = Some, xl_compatible = (\<lambda>b. b \<noteq> []), xl_with_ech = (\<lambda>_. True), xl_versions = True\<rparr>"

definition sample_ech_provider :: "string ech_provider" where
  "sample_ech_provider =
     \<lparr>pv_settings = \<lparr>ee_mode = EchDoh, ee_config = None, ee_ech_domain = None, ee_max_retries = 1\<rparr>,
      pv_port = 443, pv_require = True, pv_sni = True,
      pv_verify = \<lparr>uv_verifier = \<lparr>cv_roots = None, cv_name = NameSkip, cv_pins = []\<rparr>, uv_is_default = False,
        uv_name = None, uv_label = ''none''\<rparr>,
      pv_bound = 60000\<rparr>"

definition sample_world :: "string \<Rightarrow> ech_world" where
  "sample_world b = \<lparr>xw_lookup = (\<lambda>_. Inr [\<lparr>dr_ttl = 60, dr_data = RdHttps [OtherParam, EchParam b]\<rparr>]),
     xw_grease_key = None, xw_now = 10, xw_then = 20\<rparr>"

text \<open>Two connections share generation 1, both are rejected, and one refresh follows.\<close>

definition sample_ech_events :: "ech_event list" where
  "sample_ech_events =
     [EchFetch ''a'' [''h2''] (sample_world ''old''), EchLook ''a'' [''h2''] 30, EchReject ''a'' 1, EchReject ''a'' 1,
      EchFetch ''a'' [] (sample_world ''new''), EchReject ''a'' 1]"

lemma ech_generations_witness:
  "\<exists>st outs k k' k''. ech_run sample_ech_lib sample_ech_provider sample_ech_events ech_state_new = (st, outs)
     \<and> outs ! 0 = OutClient ''a'' [''h2''] k \<and> outs ! 1 = OutClient ''a'' [''h2''] k' \<and> outs ! 2 = OutEvicted 1
     \<and> outs ! 3 \<noteq> OutEvicted 1 \<and> outs ! 4 = OutClient ''a'' [] k''
     \<and> cl_ech (ek_config k) = cl_ech (ek_config k') \<and> ek_generation k'' \<noteq> 1 \<and> cl_alpn (ek_config k'') = []"
proof -
  obtain st outs where run: "ech_run sample_ech_lib sample_ech_provider sample_ech_events ech_state_new = (st, outs)"
    by fastforce
  have "map (\<lambda>out. case out of OutClient n a k \<Rightarrow> (1::nat, n, a, ek_generation k) | OutEvicted g \<Rightarrow> (2, [], [], g) | _ \<Rightarrow> (0, [], [], 0))
      (snd (ech_run sample_ech_lib sample_ech_provider sample_ech_events ech_state_new))
    = [(1, ''a'', [''h2''], 1), (1, ''a'', [''h2''], 1), (2, [], [], 1), (0, [], [], 0), (1, ''a'', [], 2), (0, [], [], 0)]"
    by (simp add: sample_ech_events_def ech_state_new_def client_slow_def client_fast_def ech_build_def
        acquire_config_list_def lookup_doh_def build_real_ech_mode_def serve_entry_def config_for_def
        assemble_client_config_def invalidate_after_rejection_def sample_world_def sample_ech_lib_def
        sample_ech_provider_def Let_def)
  note o = this [unfolded run snd_conv]
  have len: "length outs = 6" using arg_cong [OF o, of length] by simp
  have at: "(case outs ! i of OutClient n a k \<Rightarrow> (1::nat, n, a, ek_generation k) | OutEvicted g \<Rightarrow> (2, [], [], g) | _ \<Rightarrow> (0, [], [], 0))
      = [(1, ''a'', [''h2''], 1), (1, ''a'', [''h2''], 1), (2, [], [], 1), (0, [], [], 0), (1, ''a'', [], 2), (0, [], [], 0)] ! i" if "i < 6" for i
    using arg_cong [OF o, of "\<lambda>l. l ! i"] len that by simp
  obtain k where k: "outs ! 0 = OutClient ''a'' [''h2''] k" "ek_generation k = 1" using at [of 0] by (auto split: ech_out.splits)
  obtain k' where k': "outs ! 1 = OutClient ''a'' [''h2''] k'" "ek_generation k' = 1" using at [of 1] by (auto split: ech_out.splits)
  have e: "outs ! 2 = OutEvicted 1" using at [of 2] by (auto split: ech_out.splits)
  obtain k'' where k'': "outs ! 4 = OutClient ''a'' [] k''" using at [of 4] by (auto split: ech_out.splits)
  have "1 + length sample_ech_events < 2 ^ 64" by (simp add: sample_ech_events_def)
  note spec = ech_generations [OF this run]
  have "cl_ech (ek_config k) = cl_ech (ek_config k')"
  proof -
    obtain mode where m: "config_proper sample_ech_provider mode [''h2''] (ek_config k)"
        "\<forall>j inner' alpn' k'. j < length outs \<and> outs ! j = OutClient inner' alpn' k'
           \<and> ek_generation k' = ek_generation k \<longrightarrow> inner' = ''a'' \<and> cl_ech (ek_config k') = Some mode"
      using spec [THEN conjunct1, rule_format, of 0 "''a''" "[''h2'']" k] k(1) len by auto
    have "cl_ech (ek_config k') = Some mode"
      using m(2) [rule_format, of 1 "''a''" "[''h2'']" k'] k k' len by simp
    then show ?thesis using m(1) by (simp add: config_proper_def)
  qed
  moreover have "ek_generation k'' \<noteq> 1" "outs ! 3 \<noteq> OutEvicted 1"
    using spec [THEN conjunct2, THEN conjunct1, rule_format, of 2 4 1]
      spec [THEN conjunct2, THEN conjunct1, rule_format, of 2 3 1] e k'' len by simp_all
  moreover have "cl_alpn (ek_config k'') = []"
    using spec [THEN conjunct1, rule_format, of 4 "''a''" "[]" k''] k'' len by (auto simp: config_proper_def)
  ultimately show ?thesis using k k' k'' e run by blast
qed

end
