(* ===== verification/Dnsresolver.thy ===== *)
theory Dnsresolver
  imports Ech
begin

text \<open>
  Named resolvers (\<open>src/src/dns_resolvers.rs\<close>): building a live resolver from its plan, the handle
  that is swapped when it is rebuilt, and the retry around a query whose endpoint rejected ECH.

  Other resolvers take part in a build only through the answers they give, which are the fields of
  \<open>build_world\<close>. A panic of the source is the error \<open>BuildPanic\<close>.
\<close>

section \<open>Plans\<close>

record ech_plan =
  el_settings :: effective_ech
  el_require :: bool
  el_refresh :: nat
  el_retries :: nat

record 'r resolver_plan =
  rp_label :: string
  rp_endpoint :: endpoint
  rp_dial_host :: string
  rp_dial_port :: nat
  rp_server_name :: "string option"
  rp_enable_sni :: bool
  rp_verify :: "'r upstream_verify"
  rp_family :: address_family
  rp_nat64 :: "nat64_prefix option"
  rp_timeout :: nat
  rp_ech :: "ech_plan option"

type_synonym 'r live_resolver = "'r client_config tokio_resolver"

record 'r build_world =
  bw_bootstrap :: "string \<Rightarrow> nat \<Rightarrow> address_family \<Rightarrow> nat64_prefix option \<Rightarrow> (anyhow, resolved_addrs) result"
  bw_bootstrap_label :: string
  bw_https :: "string \<Rightarrow> (anyhow, dns_record list) result"
  bw_grease_key :: "string option"
  bw_accept :: "'r live_resolver \<Rightarrow> (anyhow, unit) result"
  bw_show :: "ech_error \<Rightarrow> anyhow"

definition ech_lookup_name :: "'r resolver_plan \<Rightarrow> effective_ech \<Rightarrow> string option" where
  "ech_lookup_name plan settings =
     map_option (\<lambda>base. https_lookup_name base (rp_dial_port plan))
       (first_some [ee_ech_domain settings, rp_server_name plan])"

definition plan_max_retries :: "'r resolver_plan \<Rightarrow> nat" where
  "plan_max_retries plan = (case rp_ech plan of None \<Rightarrow> 0 | Some e \<Rightarrow> el_retries e)"

section \<open>Building\<close>

datatype build_error = BuildErr anyhow | BuildPanic

record 'r built =
  bt_resolver :: "'r live_resolver"
  bt_ech_bytes :: "string option"

definition scope_label :: "'r resolver_plan \<Rightarrow> string" where
  "scope_label plan = ''[resolvers.'' @ rp_label plan @ '']''"

definition bootstrap_ips :: "'r build_world \<Rightarrow> 'r resolver_plan \<Rightarrow> string \<Rightarrow> string
    \<Rightarrow> (build_error, ip_addr list) result" where
  "bootstrap_ips w plan host what =
     (case with_context (scope_label plan @ '': resolving '' @ what @ '' '' @ host @ '' through bootstrap '' @ bw_bootstrap_label w)
             (bw_bootstrap w host (rp_dial_port plan) (rp_family plan) (rp_nat64 plan)) of
        Inl e \<Rightarrow> Inl (BuildErr e)
      | Inr addrs \<Rightarrow> Inr (map sock_ip (ra_primary addrs # (case ra_fallback addrs of None \<Rightarrow> [] | Some f \<Rightarrow> [f]))))"

definition dial_ips :: "'r build_world \<Rightarrow> 'r resolver_plan \<Rightarrow> (build_error, ip_addr list) result" where
  "dial_ips w plan =
     (case rp_endpoint plan of
        EpSystem \<Rightarrow> Inr []
      | EpPlain target port \<Rightarrow>
          (case parse_ip target of
             Some ip \<Rightarrow> Inr [ip]
           | None \<Rightarrow>
               if rp_dial_host plan = [] then bootstrap_ips w plan target ''plain endpoint target''
               else bootstrap_ips w plan (rp_dial_host plan) ''dial host'')
      | _ \<Rightarrow> bootstrap_ips w plan (rp_dial_host plan) ''dial host'')"

fun acquire_causes :: "'r build_world \<Rightarrow> acquire_error \<Rightarrow> anyhow" where
  "acquire_causes w AcquireNoConfig = anyhow ''ECH mode needs a config''"
| "acquire_causes w (AcquireDecode e) = bw_show w e"
| "acquire_causes w (AcquireLookup e) = e"

definition plan_ech_bytes :: "ech_lib \<Rightarrow> 'r build_world \<Rightarrow> 'r resolver_plan \<Rightarrow> (build_error, string option) result" where
  "plan_ech_bytes lib w plan =
     (case rp_ech plan of None \<Rightarrow> Inr None
      | Some ep \<Rightarrow>
        (case ech_lookup_name plan (el_settings ep) of
           None \<Rightarrow> Inl (BuildErr (anyhow (scope_label plan @ '': no name to look up an ECHConfig for'')))
         | Some name \<Rightarrow>
           (case acquire_resolver_ech lib (el_settings ep) (bw_https w name) of
              Inl e \<Rightarrow> Inl (BuildErr (LinkText (scope_label plan @ '': acquiring ECHConfig'') # acquire_causes w e))
            | Inr bytes \<Rightarrow>
                if bytes = None \<and> el_require ep
                then Inl (BuildErr (anyhow (scope_label plan @ '': require_ech is set but no ECHConfig is published for '' @ name)))
                else Inr bytes)))"

text \<open>One name server per dial address, all on \<open>port\<close>; the source asserts that there is one.\<close>

definition name_servers :: "ip_addr list \<Rightarrow> nat \<Rightarrow> (ip_addr \<Rightarrow> name_server) \<Rightarrow> (build_error, name_server list) result" where
  "name_servers ips port mk = (if ips = [] then Inl BuildPanic else Inr (map (\<lambda>ip. ns_set_port port (mk ip)) ips))"

definition plan_servers :: "'r resolver_plan \<Rightarrow> ip_addr list \<Rightarrow> (build_error, name_server list) result" where
  "plan_servers plan ips =
     (case rp_endpoint plan of
        EpSystem \<Rightarrow> Inr system_resolver_config
      | EpDoh host port path \<Rightarrow>
          (case rp_server_name plan of None \<Rightarrow> Inl BuildPanic
           | Some name \<Rightarrow> name_servers ips (rp_dial_port plan) (\<lambda>ip. NsHttps ip name path None))
      | EpDot host port \<Rightarrow>
          (case rp_server_name plan of None \<Rightarrow> Inl BuildPanic
           | Some name \<Rightarrow> name_servers ips (rp_dial_port plan) (\<lambda>ip. NsTls ip name None))
      | EpPlain target port \<Rightarrow> name_servers ips (rp_dial_port plan) (\<lambda>ip. NsPlain ip None))"

definition plan_tls :: "ech_lib \<Rightarrow> 'r build_world \<Rightarrow> 'r resolver_plan \<Rightarrow> string option
    \<Rightarrow> (build_error, 'r client_config option) result" where
  "plan_tls lib w plan ech_bytes =
     (if ep_is_tls (rp_endpoint plan)
         \<and> (rp_ech plan \<noteq> None \<or> \<not> rp_enable_sni plan \<or> \<not> uv_is_default (rp_verify plan)) then
        (let mode = (case (rp_ech plan, ech_bytes) of
             (Some _, Some b) \<Rightarrow> ResEchConfig b
           | (Some _, None) \<Rightarrow> ResEchGrease
           | (None, _) \<Rightarrow> ResEchDisabled) in
         case resolver_client_config lib (bw_grease_key w) mode (rp_enable_sni plan) (rp_verify plan) of
           Inl e \<Rightarrow> Inl (BuildErr (LinkText (scope_label plan @ '': building the TLS config'') # bw_show w e))
         | Inr tls \<Rightarrow> Inr (Some tls))
      else Inr None)"

definition resolver_build :: "ech_lib \<Rightarrow> 'r build_world \<Rightarrow> 'r resolver_plan \<Rightarrow> (build_error, 'r built) result" where
  "resolver_build lib w plan =
     res_bind (dial_ips w plan) (\<lambda>ips.
     res_bind (plan_ech_bytes lib w plan) (\<lambda>ech_bytes.
     res_bind (plan_servers plan ips) (\<lambda>servers.
     res_bind (plan_tls lib w plan ech_bytes) (\<lambda>tls.
       let r = \<lparr>tk_servers = servers, tk_strategy = strategy_for (rp_family plan),
                tk_hosts = (rp_endpoint plan = EpSystem), tk_timeout = Some (rp_timeout plan), tk_tls = tls\<rparr> in
       case with_context (scope_label plan @ '': building the resolver'') (bw_accept w r) of
         Inl e \<Rightarrow> Inl (BuildErr e)
       | Inr _ \<Rightarrow> Inr \<lparr>bt_resolver = r, bt_ech_bytes = ech_bytes\<rparr>))))"

section \<open>The live handle\<close>

record 'r dns_handle =
  dh_inner :: "'r live_resolver"
  dh_ech_bytes :: "string option"
  dh_generation :: nat

definition handle_new :: "'r built \<Rightarrow> 'r dns_handle" where
  "handle_new b = \<lparr>dh_inner = bt_resolver b, dh_ech_bytes = bt_ech_bytes b, dh_generation = 0\<rparr>"

definition handle_swap :: "'r live_resolver \<Rightarrow> string option \<Rightarrow> 'r dns_handle \<Rightarrow> 'r dns_handle" where
  "handle_swap resolver ech h =
     h\<lparr>dh_inner := resolver, dh_ech_bytes := ech, dh_generation := (dh_generation h + 1) mod 2 ^ 64\<rparr>"

datatype rebuild_cause = CauseRejected | CauseRotation

text \<open>
  A rebuild, from taking the lock \<open>rebuilding\<close> to releasing it. A panic of the build aborts the task
  and leaves the handle as it is.
\<close>

definition rebuild :: "ech_lib \<Rightarrow> 'r resolver_plan option \<Rightarrow> 'r build_world \<Rightarrow> nat \<Rightarrow> rebuild_cause
    \<Rightarrow> 'r dns_handle \<Rightarrow> 'r dns_handle" where
  "rebuild lib plan w seen cause h =
     (case plan of None \<Rightarrow> h
      | Some plan \<Rightarrow>
          if dh_generation h \<noteq> seen then h
          else (case resolver_build lib w plan of
              Inl e \<Rightarrow> h
            | Inr b \<Rightarrow>
                if cause = CauseRotation \<and> bt_ech_bytes b = dh_ech_bytes h then h
                else handle_swap (bt_resolver b) (bt_ech_bytes b) h))"

section \<open>Queries with retry\<close>

text \<open>
  One attempt as the query meets it: what other tasks do to the handle between reading the generation
  and the resolver, the query itself, what others do until the rebuild lock is held, and the world of
  the rebuild.
\<close>

record ('r, 'a) turn =
  tn_gap :: "'r dns_handle \<Rightarrow> 'r dns_handle"
  tn_query :: "'r live_resolver \<Rightarrow> (anyhow, 'a) result"
  tn_wait :: "'r dns_handle \<Rightarrow> 'r dns_handle"
  tn_world :: "'r build_world"

function with_ech_retry :: "ech_lib \<Rightarrow> 'r resolver_plan option \<Rightarrow> (nat \<Rightarrow> ('r, 'a) turn) \<Rightarrow> nat
    \<Rightarrow> 'r dns_handle \<Rightarrow> 'r dns_handle \<times> nat \<times> (anyhow, 'a) result" where
  "with_ech_retry lib plan turns attempt h =
     (let max_retries = (case plan of None \<Rightarrow> 0 | Some p \<Rightarrow> plan_max_retries p);
          t = turns attempt;
          seen = dh_generation h;
          h1 = tn_gap t h;
          r = tn_query t (dh_inner h1) in
      case r of
        Inr x \<Rightarrow> (h1, attempt, Inr x)
      | Inl e \<Rightarrow>
          if attempt < max_retries \<and> is_ech_reject_chain e
          then with_ech_retry lib plan turns (attempt + 1)
                 (rebuild lib plan (tn_world t) seen CauseRejected (tn_wait t h1))
          else (h1, attempt, Inl e))"
  by pat_completeness auto

termination with_ech_retry
  by (relation "measure (\<lambda>(lib, plan, turns, attempt, h). (case plan of None \<Rightarrow> 0 | Some p \<Rightarrow> plan_max_retries p) - attempt)")
    auto

declare with_ech_retry.simps [simp del]

text \<open>\<open>lookup_addr\<close>, \<open>resolve_all\<close> and \<open>lookup\<close> as the query of one attempt.\<close>

definition query_addr :: "(anyhow \<Rightarrow> string) \<Rightarrow> ('r live_resolver \<Rightarrow> lookup_fn) \<Rightarrow> string \<Rightarrow> nat \<Rightarrow> address_family
    \<Rightarrow> nat64_prefix option \<Rightarrow> 'r live_resolver \<Rightarrow> (anyhow, resolved_addrs) result" where
  "query_addr render hickory host port family nat64 resolver =
     resolve_upstream render (hickory resolver) host port family nat64"

definition query_all :: "('r live_resolver \<Rightarrow> lookup_fn) \<Rightarrow> string \<Rightarrow> address_family
    \<Rightarrow> 'r live_resolver \<Rightarrow> (anyhow, ip_addr list) result" where
  "query_all hickory host family resolver = resolve_all_ips (hickory resolver) host family"

definition query_records :: "('r live_resolver \<Rightarrow> lookup_fn) \<Rightarrow> (record_type \<Rightarrow> string) \<Rightarrow> string \<Rightarrow> record_type
    \<Rightarrow> 'r live_resolver \<Rightarrow> (anyhow, dns_record list) result" where
  "query_records hickory show_type name rtype resolver =
     with_context (show_type rtype @ '' lookup for '' @ name) (hickory resolver name rtype)"

section \<open>Facts\<close>

text \<open>A TLS endpoint has a name to present: what the startup path puts into every plan.\<close>

definition plan_wf :: "'r resolver_plan \<Rightarrow> bool" where
  "plan_wf plan \<longleftrightarrow> (ep_is_tls (rp_endpoint plan) \<longrightarrow> rp_server_name plan \<noteq> None)"

lemma dial_ips_ok:
  assumes "dial_ips w plan = Inr ips" "rp_endpoint plan \<noteq> EpSystem"
  shows "ips \<noteq> []"
  using assms by (auto simp: dial_ips_def bootstrap_ips_def split: endpoint.splits option.splits sum.splits if_splits)

lemma dial_ips_no_panic: "dial_ips w plan \<noteq> Inl BuildPanic"
  by (auto simp: dial_ips_def bootstrap_ips_def split: endpoint.splits option.splits sum.splits)

lemma plan_ech_bytes_no_panic: "plan_ech_bytes lib w plan \<noteq> Inl BuildPanic"
  by (auto simp: plan_ech_bytes_def split: option.splits sum.splits)

lemma plan_tls_no_panic: "plan_tls lib w plan b \<noteq> Inl BuildPanic"
  by (auto simp: plan_tls_def Let_def split: option.splits sum.splits)

lemma plan_servers_no_panic:
  assumes "plan_wf plan" "rp_endpoint plan \<noteq> EpSystem \<Longrightarrow> ips \<noteq> []"
  shows "is_ok (plan_servers plan ips)"
  using assms by (auto simp: plan_servers_def name_servers_def plan_wf_def split: endpoint.splits option.splits)

lemma res_bind_err: "res_bind r f = Inl e \<longleftrightarrow> r = Inl e \<or> (\<exists>x. r = Inr x \<and> f x = Inl e)"
  by (cases r) auto

lemma accept_ok:
  "(case with_context m r of Inl e \<Rightarrow> Inl (BuildErr e) | Inr _ \<Rightarrow> Inr x) = Inr y \<longleftrightarrow> is_ok r \<and> y = x"
  by (cases r) (auto simp: with_context_def)

lemma accept_err: "(case with_context m r of Inl e \<Rightarrow> Inl (BuildErr e) | Inr _ \<Rightarrow> Inr x) \<noteq> Inl BuildPanic"
  by (cases r) (auto simp: with_context_def)

lemma resolver_build_no_panic:
  assumes "plan_wf plan"
  shows "resolver_build lib w plan \<noteq> Inl BuildPanic"
proof
  assume p: "resolver_build lib w plan = Inl BuildPanic"
  have "is_ok (plan_servers plan ips)" if "dial_ips w plan = Inr ips" for ips
    using plan_servers_no_panic [OF assms] dial_ips_ok [OF that] by blast
  then show False
    using p by (auto simp: resolver_build_def res_bind_err Let_def accept_err dial_ips_no_panic plan_ech_bytes_no_panic
        plan_tls_no_panic)
qed

text \<open>
  What a resolver built from a plan is: it dials the plan's port only, honours the hosts file only for
  \<open>system\<close>, and its handshake follows the plan's SNI choice, verification and ECH, \<open>bytes\<close> being the
  list it was built from.
\<close>

definition resolver_ok :: "'r resolver_plan \<Rightarrow> 'r live_resolver \<Rightarrow> string option \<Rightarrow> bool" where
  "resolver_ok plan r bytes \<longleftrightarrow>
     tk_servers r \<noteq> []
     \<and> (rp_endpoint plan \<noteq> EpSystem \<longrightarrow> (\<forall>ns\<in>set (tk_servers r). snd (ns_dials ns) = rp_dial_port plan))
     \<and> (tk_hosts r \<longleftrightarrow> rp_endpoint plan = EpSystem)
     \<and> (tk_tls r = None \<longrightarrow> ep_is_tls (rp_endpoint plan) \<longrightarrow>
          rp_ech plan = None \<and> rp_enable_sni plan \<and> uv_is_default (rp_verify plan))
     \<and> (\<forall>cfg. tk_tls r = Some cfg \<longrightarrow>
          cl_verifier cfg = uv_verifier (rp_verify plan) \<and> cl_sni cfg = rp_enable_sni plan \<and> cl_alpn cfg = []
          \<and> (case rp_ech plan of
               None \<Rightarrow> cl_ech cfg = None
             | Some ep \<Rightarrow>
                 (case bytes of Some b \<Rightarrow> cl_ech cfg = Some (RealEch b)
                  | None \<Rightarrow> \<not> el_require ep \<and> (\<exists>k. cl_ech cfg = Some (GreaseEch k)))))"

lemma ns_set_port_dials [simp]: "snd (ns_dials (ns_set_port p ns)) = p"
  by (cases ns) (simp_all add: unwrap_or_def)

lemma plan_servers_ok:
  assumes "plan_servers plan ips = Inr servers"
  shows "servers \<noteq> [] \<and> (rp_endpoint plan \<noteq> EpSystem \<longrightarrow> (\<forall>ns\<in>set servers. snd (ns_dials ns) = rp_dial_port plan))"
  using assms by (auto simp: plan_servers_def name_servers_def system_resolver_config_def unwrap_or_def
      split: endpoint.splits option.splits if_splits)

lemma plan_ech_bytes_required:
  assumes "plan_ech_bytes lib w plan = Inr b" "rp_ech plan = Some ep" "el_require ep"
  shows "b \<noteq> None"
  using assms by (auto simp: plan_ech_bytes_def split: option.splits sum.splits if_splits)

lemma resolver_client_config_ok:
  assumes "resolver_client_config lib key mode sni v = Inr cfg"
  shows "cl_verifier cfg = uv_verifier v \<and> cl_sni cfg = sni \<and> cl_alpn cfg = []
    \<and> (case mode of ResEchConfig b \<Rightarrow> cl_ech cfg = Some (RealEch b)
       | ResEchGrease \<Rightarrow> (\<exists>k. cl_ech cfg = Some (GreaseEch k)) | ResEchDisabled \<Rightarrow> cl_ech cfg = None)"
  using assms by (cases mode)
    (auto simp: resolver_client_config_def build_real_ech_mode_def grease_mode_def split: if_splits option.splits)

lemma plan_tls_ok:
  assumes t: "plan_tls lib w plan b = Inr tls" and req: "\<And>ep. rp_ech plan = Some ep \<Longrightarrow> el_require ep \<Longrightarrow> b \<noteq> None"
  shows "(tls = None \<longrightarrow> ep_is_tls (rp_endpoint plan) \<longrightarrow>
          rp_ech plan = None \<and> rp_enable_sni plan \<and> uv_is_default (rp_verify plan))
     \<and> (\<forall>cfg. tls = Some cfg \<longrightarrow>
          cl_verifier cfg = uv_verifier (rp_verify plan) \<and> cl_sni cfg = rp_enable_sni plan \<and> cl_alpn cfg = []
          \<and> (case rp_ech plan of
               None \<Rightarrow> cl_ech cfg = None
             | Some ep \<Rightarrow>
                 (case b of Some b \<Rightarrow> cl_ech cfg = Some (RealEch b)
                  | None \<Rightarrow> \<not> el_require ep \<and> (\<exists>k. cl_ech cfg = Some (GreaseEch k)))))"
proof (cases tls)
  case None
  then show ?thesis using t by (auto simp: plan_tls_def Let_def split: if_splits sum.splits)
next
  case (Some cfg)
  define mode where "mode = (case (rp_ech plan, b) of
       (Some _, Some b) \<Rightarrow> ResEchConfig b | (Some _, None) \<Rightarrow> ResEchGrease | (None, _) \<Rightarrow> ResEchDisabled)"
  have "resolver_client_config lib (bw_grease_key w) mode (rp_enable_sni plan) (rp_verify plan) = Inr cfg"
    using t Some unfolding mode_def by (simp add: plan_tls_def Let_def split: if_splits sum.splits)
  note c = resolver_client_config_ok [OF this]
  show ?thesis using c Some req by (cases "rp_ech plan"; cases b) (auto simp: mode_def)
qed

lemma resolver_build_ok:
  assumes "resolver_build lib w plan = Inr b"
  shows "resolver_ok plan (bt_resolver b) (bt_ech_bytes b)"
proof -
  obtain ips eb servers tls where
      p: "plan_ech_bytes lib w plan = Inr eb" "plan_servers plan ips = Inr servers" "plan_tls lib w plan eb = Inr tls"
    and b: "tk_servers (bt_resolver b) = servers" "tk_hosts (bt_resolver b) \<longleftrightarrow> rp_endpoint plan = EpSystem"
      "tk_tls (bt_resolver b) = tls" "bt_ech_bytes b = eb"
    using assms by (auto simp: resolver_build_def Let_def accept_ok)
  have "resolver_ok plan (bt_resolver b) eb \<longleftrightarrow> resolver_ok plan
      \<lparr>tk_servers = servers, tk_strategy = Ipv6ThenIpv4, tk_hosts = (rp_endpoint plan = EpSystem), tk_timeout = None, tk_tls = tls\<rparr> eb"
    using b by (simp add: resolver_ok_def)
  moreover have "\<dots>"
    using plan_servers_ok [OF p(2)] plan_tls_ok [OF p(3) plan_ech_bytes_required [OF p(1)]]
    by (simp add: resolver_ok_def)
  ultimately show ?thesis using b(4) by simp
qed

definition handle_ok :: "ech_lib \<Rightarrow> 'r resolver_plan \<Rightarrow> 'r dns_handle \<Rightarrow> bool" where
  "handle_ok lib plan h \<longleftrightarrow>
     (\<exists>w b. resolver_build lib w plan = Inr b \<and> dh_inner h = bt_resolver b \<and> dh_ech_bytes h = bt_ech_bytes b)"

lemma handle_ok_new [inv_intros]: "resolver_build lib w plan = Inr b \<Longrightarrow> handle_ok lib plan (handle_new b)"
  by (auto simp: handle_ok_def handle_new_def)

lemma rebuild_handle_ok [inv_intros]:
  "handle_ok lib plan h \<Longrightarrow> handle_ok lib plan (rebuild lib (Some plan) w seen cause h)"
  by (auto simp: rebuild_def handle_ok_def handle_swap_def split: sum.splits)

lemma handle_ok_resolver: "handle_ok lib plan h \<Longrightarrow> resolver_ok plan (dh_inner h) (dh_ech_bytes h)"
  by (auto simp: handle_ok_def resolver_build_ok)

text \<open>The rebuilds of all tasks, in the order in which they get the lock.\<close>

fun rebuild_all :: "ech_lib \<Rightarrow> 'r resolver_plan \<Rightarrow> ('r build_world \<times> nat \<times> rebuild_cause) list
    \<Rightarrow> 'r dns_handle \<Rightarrow> 'r dns_handle" where
  "rebuild_all lib plan [] h = h"
| "rebuild_all lib plan ((w, seen, cause) # evs) h = rebuild_all lib plan evs (rebuild lib (Some plan) w seen cause h)"

lemma rebuild_generation:
  assumes "dh_generation h + 1 < 2 ^ 64"
  shows "dh_generation (rebuild lib plan w seen cause h) \<in> {dh_generation h} \<union> (if seen = dh_generation h then {dh_generation h + 1} else {})"
  using assms by (auto simp: rebuild_def handle_swap_def split: sum.splits option.splits)

lemma rebuild_all_generation:
  assumes "dh_generation h + length evs < 2 ^ 64"
  shows "dh_generation h \<le> dh_generation (rebuild_all lib plan evs h)
    \<and> {dh_generation h..<dh_generation (rebuild_all lib plan evs h)} \<subseteq> (\<lambda>(w, seen, cause). seen) ` set evs"
  using assms
proof (induction evs arbitrary: h)
  case (Cons ev evs)
  obtain w seen cause where ev: "ev = (w, seen, cause)" by (cases ev)
  define h1 where "h1 = rebuild lib (Some plan) w seen cause h"
  have g: "dh_generation h1 = dh_generation h \<or> (dh_generation h1 = dh_generation h + 1 \<and> seen = dh_generation h)"
    using rebuild_generation [of h lib "Some plan" w seen cause] Cons.prems by (auto simp: h1_def split: if_splits)
  then have "dh_generation h1 + length evs < 2 ^ 64" using Cons.prems by auto
  note ih = Cons.IH [OF this]
  have "{dh_generation h..<dh_generation (rebuild_all lib plan evs h1)}
      \<subseteq> {dh_generation h1..<dh_generation (rebuild_all lib plan evs h1)} \<union> {x. x = seen \<and> dh_generation h1 = dh_generation h + 1}"
    using g by auto
  then show ?case using ih g ev h1_def by (auto simp del: atLeastLessThan_iff)
qed simp

lemma rebuild_all_ok [inv_intros]: "handle_ok lib plan h \<Longrightarrow> handle_ok lib plan (rebuild_all lib plan evs h)"
  by (induction lib plan evs h rule: rebuild_all.induct) (auto intro: rebuild_handle_ok)

text \<open>A query with retry, seen from outside: the attempt it ended with, and the resolver that one used.\<close>

lemma with_ech_retry_result:
  assumes plan: "handle_ok lib plan h"
    and others: "\<And>k h. handle_ok lib plan h \<Longrightarrow> handle_ok lib plan (tn_gap (turns k) h) \<and> handle_ok lib plan (tn_wait (turns k) h)"
    and le: "attempt \<le> plan_max_retries plan"
    and r: "with_ech_retry lib (Some plan) turns attempt h = (h', n, res)"
  shows "n \<le> plan_max_retries plan \<and> handle_ok lib plan h' \<and> res = tn_query (turns n) (dh_inner h')
    \<and> (\<forall>e. res = Inl e \<and> is_ech_reject_chain e \<longrightarrow> n = plan_max_retries plan)"
  using assms
proof (induction lib "Some plan" turns attempt h rule: with_ech_retry.induct)
  case (1 lib turns attempt h)
  define t where "t = turns attempt"
  define h1 where "h1 = tn_gap t h"
  have h1: "handle_ok lib plan h1" using 1(2,3) by (simp add: h1_def t_def)
  note unfolded = 1(5) [unfolded with_ech_retry.simps [of lib "Some plan" turns attempt h] Let_def, folded t_def, folded h1_def]
  show ?case
  proof (cases "tn_query t (dh_inner h1)")
    case (Inr x)
    then show ?thesis using unfolded h1 1(4) by (auto simp: t_def)
  next
    case (Inl e)
    show ?thesis
    proof (cases "attempt < plan_max_retries plan \<and> is_ech_reject_chain e")
      case True
      define h2 where "h2 = rebuild lib (Some plan) (tn_world t) (dh_generation h) CauseRejected (tn_wait t h1)"
      have h2: "handle_ok lib plan h2" using 1(3) [OF h1] by (simp add: h2_def t_def rebuild_handle_ok)
      have "with_ech_retry lib (Some plan) turns (attempt + 1) h2 = (h', n, res)"
        using unfolded Inl True by (simp add: h2_def)
      then show ?thesis
        using 1(1) [OF refl refl refl refl refl Inl [unfolded h1_def t_def]] h2 1(3) True
        by (simp add: h2_def h1_def t_def)
    next
      case False
      then show ?thesis using unfolded Inl h1 1(4) by (auto simp: t_def)
    qed
  qed
qed

section \<open>Properties\<close>

text \<open>C7. Whatever tasks rebuild a named resolver and in whatever order they get its lock,
  the live resolver is one that its plan built, together with the ECHConfigList it was built from: it
  dials the plan's port, presents the plan's SNI and verification, and where the plan has ECH its
  handshake carries that list, or GREASE only when nothing is published and ECH is not required.
  The resolver is replaced at most once per generation that a task reported, so any number of tasks
  that saw one rotation cause one replacement; a failed build and an unchanged rotation replace
  nothing, and no build panics. A query ends after at most \<open>max_retries + 1\<close> attempts with the
  answer of its last attempt, made on such a resolver, and gives up on an ECH rejection only when
  the retries are used up.
\<close>

theorem resolver_rotation:
  assumes wf: "plan_wf plan" and built: "resolver_build lib w0 plan = Inr b0"
    and few: "length evs < 2 ^ 64" and h: "h = rebuild_all lib plan evs (handle_new b0)"
    and others: "\<And>k h. handle_ok lib plan h \<Longrightarrow> handle_ok lib plan (tn_gap (turns k) h) \<and> handle_ok lib plan (tn_wait (turns k) h)"
    and query: "with_ech_retry lib (Some plan) turns 0 h = (h', n, res)"
  shows "resolver_ok plan (dh_inner h) (dh_ech_bytes h)
    \<and> dh_generation h \<le> card ((\<lambda>(w, seen, cause). seen) ` set evs)
    \<and> (\<forall>w seen. rebuild lib (Some plan) w seen CauseRotation h \<noteq> h \<longrightarrow>
         (\<exists>b. resolver_build lib w plan = Inr b \<and> bt_ech_bytes b \<noteq> dh_ech_bytes h \<and> seen = dh_generation h))
    \<and> (\<forall>w. resolver_build lib w plan \<noteq> Inl BuildPanic)
    \<and> n \<le> plan_max_retries plan \<and> res = tn_query (turns n) (dh_inner h')
    \<and> resolver_ok plan (dh_inner h') (dh_ech_bytes h')
    \<and> (\<forall>e. res = Inl e \<and> is_ech_reject_chain e \<longrightarrow> n = plan_max_retries plan)"
proof -
  have ok: "handle_ok lib plan h" unfolding h by (intro rebuild_all_ok handle_ok_new [OF built])
  have g: "{0..<dh_generation h} \<subseteq> (\<lambda>(w, seen, cause). seen) ` set evs"
    using rebuild_all_generation [of "handle_new b0" evs lib plan] few unfolding h by (simp add: handle_new_def)
  have "dh_generation h \<le> card ((\<lambda>(w, seen, cause). seen) ` set evs)"
    using card_mono [OF _ g] by simp
  moreover have "\<exists>b. resolver_build lib w plan = Inr b \<and> bt_ech_bytes b \<noteq> dh_ech_bytes h \<and> seen = dh_generation h"
    if "rebuild lib (Some plan) w seen CauseRotation h \<noteq> h" for w seen
    using that by (auto simp: rebuild_def split: if_splits sum.splits)
  ultimately show ?thesis
    using with_ech_retry_result [OF ok others _ query] handle_ok_resolver [OF ok] resolver_build_no_panic [OF wf]
      handle_ok_resolver [of lib plan h'] by auto
qed

definition sample_plan :: "string resolver_plan" where
  "sample_plan = \<lparr>rp_label = ''d'', rp_endpoint = EpDot ''d'' 853, rp_dial_host = ''d'', rp_dial_port = 8853,
     rp_server_name = Some ''d'', rp_enable_sni = True, rp_verify = pv_verify sample_ech_provider,
     rp_family = Dual, rp_nat64 = None, rp_timeout = 1000,
     rp_ech = Some \<lparr>el_settings = \<lparr>ee_mode = EchDoh, ee_config = None, ee_ech_domain = None, ee_max_retries = 1\<rparr>,
       el_require = True, el_refresh = 60000, el_retries = 1\<rparr>\<rparr>"

definition sample_build_world :: "string \<Rightarrow> string build_world" where
  "sample_build_world b = \<lparr>bw_bootstrap = (\<lambda>_ p _ _. Inr (ra_single (SockV4 1 p))), bw_bootstrap_label = ''system'',
     bw_https = (\<lambda>_. Inr [\<lparr>dr_ttl = 60, dr_data = RdHttps [EchParam b]\<rparr>]), bw_grease_key = None,
     bw_accept = (\<lambda>_. Inr ()), bw_show = (\<lambda>_. [])\<rparr>"

definition sample_turns :: "nat \<Rightarrow> (string, unit) turn" where
  "sample_turns k = \<lparr>tn_gap = (\<lambda>h. h),
     tn_query = (\<lambda>r. if k = 0 then Inl [LinkText ''lookup'', LinkRustls ServerRejectedEch] else Inr ()),
     tn_wait = (\<lambda>h. h), tn_world = sample_build_world ''new''\<rparr>"

text \<open>Two tasks report generation 0; a query is rejected once more and then answered.\<close>

lemma resolver_rotation_witness:
  "\<exists>b0 h h' n res. resolver_build sample_ech_lib (sample_build_world ''old'') sample_plan = Inr b0
     \<and> h = rebuild_all sample_ech_lib sample_plan
         [(sample_build_world ''new'', 0, CauseRejected), (sample_build_world ''newer'', 0, CauseRejected)] (handle_new b0)
     \<and> with_ech_retry sample_ech_lib (Some sample_plan) sample_turns 0 h = (h', n, res)
     \<and> dh_generation h \<le> 1 \<and> n = 1 \<and> res = Inr () \<and> resolver_ok sample_plan (dh_inner h') (dh_ech_bytes h')"
proof -
  have wf: "plan_wf sample_plan" by (simp add: plan_wf_def sample_plan_def)
  have "is_ok (resolver_build sample_ech_lib (sample_build_world ''old'') sample_plan)"
    by (simp add: resolver_build_def dial_ips_def bootstrap_ips_def plan_ech_bytes_def ech_lookup_name_def
        acquire_resolver_ech_def extract_ech_from_lookup_def plan_servers_def name_servers_def plan_tls_def
        resolver_client_config_def build_real_ech_mode_def sample_plan_def sample_build_world_def sample_ech_lib_def
        with_context_def ra_single_def Let_def)
  then obtain b0 where b: "resolver_build sample_ech_lib (sample_build_world ''old'') sample_plan = Inr b0"
    by (auto simp: is_ok_iff)
  define evs where "evs = [(sample_build_world ''new'', 0::nat, CauseRejected), (sample_build_world ''newer'', 0, CauseRejected)]"
  define h where "h = rebuild_all sample_ech_lib sample_plan evs (handle_new b0)"
  obtain h' n res where q: "with_ech_retry sample_ech_lib (Some sample_plan) sample_turns 0 h = (h', n, res)"
    by (cases "with_ech_retry sample_ech_lib (Some sample_plan) sample_turns 0 h") auto
  have few: "length evs < 2 ^ 64" by (simp add: evs_def)
  have others: "handle_ok sample_ech_lib sample_plan (tn_gap (sample_turns k) h)
      \<and> handle_ok sample_ech_lib sample_plan (tn_wait (sample_turns k) h)"
    if "handle_ok sample_ech_lib sample_plan h" for k h
    using that by (simp add: sample_turns_def)
  note spec = resolver_rotation [OF wf b few h_def others q]
  have seen: "(\<lambda>(w, seen, cause). seen) ` set evs = {0::nat}" by (auto simp: evs_def)
  have one: "plan_max_retries sample_plan = 1" by (simp add: plan_max_retries_def sample_plan_def)
  have ends: "dh_generation h \<le> card ((\<lambda>(w, seen, cause). seen) ` set evs)" "res = tn_query (sample_turns n) (dh_inner h')"
      "n \<le> plan_max_retries sample_plan" "resolver_ok sample_plan (dh_inner h') (dh_ech_bytes h')"
      "\<forall>e. res = Inl e \<and> is_ech_reject_chain e \<longrightarrow> n = plan_max_retries sample_plan"
    using spec by blast+
  have "n \<noteq> 0"
  proof
    assume "n = 0"
    then have "res = Inl [LinkText ''lookup'', LinkRustls ServerRejectedEch]" using ends(2) by (simp add: sample_turns_def)
    then have "n = plan_max_retries sample_plan" using ends(5) by (simp add: is_ech_reject_chain_def)
    then show False using one \<open>n = 0\<close> by simp
  qed
  then have n: "n = 1" using ends(3) one by simp
  have res: "res = Inr ()" using ends(2) n by (simp add: sample_turns_def)
  have gen: "dh_generation h \<le> 1" using ends(1) seen by simp
  show ?thesis using b h_def q gen n res ends(4) unfolding evs_def by blast
qed

end
