(* ===== verification/Dial.thy ===== *)
theory Dial
  imports Dnsresolver
begin

text \<open>
  Reaching an upstream (\<open>src/src/proxy.rs\<close>, its dialling half): the race of two address families, the
  TLS configurations of a route, and the TLS and ECH handshakes with their retry.

  The network is a parameter: when a connection attempt to an address ends, and how a handshake ends.
  Times are milliseconds from the moment the operation started.
\<close>

section \<open>Dialling\<close>

datatype attempt = Connects nat | Refuses nat | Hangs

datatype side = PrimarySide | FallbackSide

datatype race = RaceWon side nat | RaceLost nat | RacePending

definition attempt_delay :: nat where
  "attempt_delay = 250"

fun attempt_events :: "side \<Rightarrow> nat \<Rightarrow> attempt \<Rightarrow> (nat \<times> side \<times> bool) list" where
  "attempt_events s start (Connects t) = [(start + t, s, True)]"
| "attempt_events s start (Refuses t) = [(start + t, s, False)]"
| "attempt_events s start Hangs = []"

text \<open>Both attempts ready in the same poll: the biased select takes the primary.\<close>

definition merge_events :: "(nat \<times> side \<times> bool) list \<Rightarrow> (nat \<times> side \<times> bool) list \<Rightarrow> (nat \<times> side \<times> bool) list" where
  "merge_events ps fs =
     (case (ps, fs) of
        ([p], [f]) \<Rightarrow> if fst p \<le> fst f then [p, f] else [f, p]
      | _ \<Rightarrow> ps @ fs)"

text \<open>The select loop, with the errors recorded so far and the time of the last one.\<close>

fun race_loop :: "nat \<Rightarrow> bool \<Rightarrow> bool \<Rightarrow> (nat \<times> side \<times> bool) list \<Rightarrow> race" where
  "race_loop now primary_err fallback_err evs =
     (if primary_err \<and> fallback_err then RaceLost now
      else case evs of [] \<Rightarrow> RacePending
        | (t, s, won) # rest \<Rightarrow>
            if won then RaceWon s t
            else race_loop t (primary_err \<or> s = PrimarySide) (fallback_err \<or> s = FallbackSide) rest)"


declare race_loop.simps [simp del]

definition race_families :: "attempt \<Rightarrow> attempt \<Rightarrow> race" where
  "race_families primary fallback =
     (case primary of
        Connects t \<Rightarrow>
          if t \<le> attempt_delay then RaceWon PrimarySide t
          else race_loop attempt_delay False False
            (merge_events (attempt_events PrimarySide 0 primary) (attempt_events FallbackSide attempt_delay fallback))
      | Refuses t \<Rightarrow>
          if t \<le> attempt_delay then race_loop t True False (attempt_events FallbackSide t fallback)
          else race_loop attempt_delay False False
            (merge_events (attempt_events PrimarySide 0 primary) (attempt_events FallbackSide attempt_delay fallback))
      | Hangs \<Rightarrow> race_loop attempt_delay False False (attempt_events FallbackSide attempt_delay fallback))"

datatype dial_error = DialTimedOut | DialRefused

definition dial :: "(socket_addr \<Rightarrow> attempt) \<Rightarrow> resolved_addrs \<Rightarrow> nat \<Rightarrow> (dial_error, socket_addr) result" where
  "dial net addrs connect_timeout =
     (case ra_fallback addrs of
        None \<Rightarrow>
          (case net (ra_primary addrs) of
             Connects t \<Rightarrow> if t \<le> connect_timeout then Inr (ra_primary addrs) else Inl DialTimedOut
           | Refuses t \<Rightarrow> Inl (if t \<le> connect_timeout then DialRefused else DialTimedOut)
           | Hangs \<Rightarrow> Inl DialTimedOut)
      | Some fallback \<Rightarrow>
          (case race_families (net (ra_primary addrs)) (net fallback) of
             RaceWon s t \<Rightarrow>
               if t \<le> connect_timeout then Inr (case s of PrimarySide \<Rightarrow> ra_primary addrs | FallbackSide \<Rightarrow> fallback)
               else Inl DialTimedOut
           | RaceLost t \<Rightarrow> Inl (if t \<le> connect_timeout then DialRefused else DialTimedOut)
           | RacePending \<Rightarrow> Inl DialTimedOut))"

section \<open>TLS configurations of a route\<close>

definition alpn_h2 :: string where
  "alpn_h2 = ''h2''"

definition alpn_h1 :: string where
  "alpn_h1 = ''http/1.1''"

definition supported_alpn :: "string list" where
  "supported_alpn = [alpn_h2, alpn_h1]"

record 'r client_configs =
  cf_none :: "'r client_config"
  cf_h1 :: "'r client_config"
  cf_h2 :: "'r client_config"
  cf_h2h1 :: "'r client_config"

definition plain_config :: "'r upstream_verify \<Rightarrow> bool \<Rightarrow> string list \<Rightarrow> 'r client_config" where
  "plain_config verify enable_sni alpn =
     \<lparr>cl_ech = None, cl_verifier = uv_verifier verify, cl_sni = enable_sni, cl_alpn = alpn\<rparr>"

definition client_configs_new :: "'r upstream_verify \<Rightarrow> bool \<Rightarrow> 'r client_configs" where
  "client_configs_new verify enable_sni =
     \<lparr>cf_none = plain_config verify enable_sni [], cf_h1 = plain_config verify enable_sni [alpn_h1],
      cf_h2 = plain_config verify enable_sni [alpn_h2],
      cf_h2h1 = plain_config verify enable_sni [alpn_h2, alpn_h1]\<rparr>"

definition select_config :: "'r client_configs \<Rightarrow> string list \<Rightarrow> 'r client_config" where
  "select_config cfs offer =
     (case (alpn_h2 \<in> set offer, alpn_h1 \<in> set offer) of
        (True, True) \<Rightarrow> cf_h2h1 cfs | (True, False) \<Rightarrow> cf_h2 cfs | (False, True) \<Rightarrow> cf_h1 cfs
      | (False, False) \<Rightarrow> cf_none cfs)"

definition negotiable_alpn :: "string list option \<Rightarrow> string list" where
  "negotiable_alpn client_offer =
     (case client_offer of None \<Rightarrow> []
      | Some offered \<Rightarrow> filter (\<lambda>ours. ours \<in> set offered) supported_alpn)"

section \<open>Routes\<close>

datatype proxy_upstream = UpDirect "string option" address_family "nat64_prefix option" | UpPool

record 'r route_runtime =
  rr_name :: string
  rr_type :: route_type
  rr_upstream :: proxy_upstream
  rr_port :: nat
  rr_sni_policy :: sni_policy
  rr_http2 :: bool
  rr_require_ech :: bool
  rr_max_retries :: nat
  rr_connect_timeout :: nat
  rr_idle_timeout :: nat
  rr_fail :: fail_policy
  rr_ech :: "'r ech_provider option"
  rr_verify :: "'r upstream_verify option"
  rr_tls :: "'r client_configs option"

datatype proxy_error =
    ErrNoHost
  | ErrResolve anyhow
  | ErrPool
  | ErrNoVerificationName
  | ErrNoInnerName
  | ErrMissingConfigs
  | ErrMissingProvider
  | ErrServerName string
  | ErrDial dial_error
  | ErrHandshake error_link
  | ErrHandshakeTimeout
  | ErrEchClient ech_error
  | ErrEchStatus
  | ErrInboundHello
  | ErrInboundHandshake
  | ErrSplice
  | ErrNoKeyForOutbound
  | ErrOutbound
  | ErrUnreachable

definition silent_name_override :: "'r route_runtime \<Rightarrow> string option" where
  "silent_name_override rt =
     (if rr_sni_policy rt \<noteq> SniOmit then None else Option.bind (rr_verify rt) uv_name)"

definition tls_verification_name :: "'r route_runtime \<Rightarrow> string option \<Rightarrow> string option \<Rightarrow> (proxy_error, string) result" where
  "tls_verification_name rt sni dial_host = ok_or ErrNoVerificationName (first_some [sni, dial_host, silent_name_override rt])"

definition ech_inner_name :: "'r route_runtime \<Rightarrow> string option \<Rightarrow> (proxy_error, string) result" where
  "ech_inner_name rt sni = ok_or ErrNoInnerName (first_some [sni, silent_name_override rt])"

section \<open>Handshakes\<close>

datatype ech_status = EchNotOffered | EchGreased | EchOffered | EchAccepted | EchRejected

record session =
  se_alpn :: "string option"
  se_ech :: ech_status
  se_chain :: "string list option"
  se_peer :: "socket_addr"

datatype handshake = HsOk session | HsErr error_link | HsTimeout

text \<open>
  One attempt of an ECH dial: the clock of the look into the cache, what other connections do to the
  provider before the slow path and before a rejection is reported, and the world of a refresh.
\<close>

record 'r ech_turn =
  et_now :: nat
  et_mid :: "'r ech_state \<Rightarrow> 'r ech_state"
  et_world :: ech_world
  et_after :: "'r ech_state \<Rightarrow> 'r ech_state"

record 'r upstream_net =
  un_connect :: "nat \<Rightarrow> socket_addr \<Rightarrow> attempt"
  un_server_name :: "string \<Rightarrow> bool"
  un_handshake :: "nat \<Rightarrow> 'r client_config \<Rightarrow> string \<Rightarrow> socket_addr \<Rightarrow> handshake"
  un_ech :: "nat \<Rightarrow> 'r ech_turn"

definition dial_tls :: "'r upstream_net \<Rightarrow> resolved_addrs \<Rightarrow> string \<Rightarrow> 'r route_runtime \<Rightarrow> string list
    \<Rightarrow> (proxy_error, session) result" where
  "dial_tls net addrs server_name rt alpn =
     (case rr_tls rt of None \<Rightarrow> Inl ErrMissingConfigs
      | Some configs \<Rightarrow>
          if \<not> un_server_name net server_name then Inl (ErrServerName server_name)
          else (case dial (un_connect net 0) addrs (rr_connect_timeout rt) of
              Inl e \<Rightarrow> Inl (ErrDial e)
            | Inr tcp \<Rightarrow>
                (case un_handshake net 0 (select_config configs alpn) server_name tcp of
                   HsOk s \<Rightarrow> Inr s
                 | HsErr e \<Rightarrow> Inl (ErrHandshake e)
                 | HsTimeout \<Rightarrow> Inl ErrHandshakeTimeout)))"

text \<open>\<open>EchProvider::client\<close> as a connection runs it: the fast path, else the slow one after others.\<close>

definition ech_client_for :: "ech_lib \<Rightarrow> 'r ech_provider \<Rightarrow> 'r ech_turn \<Rightarrow> string \<Rightarrow> string list
    \<Rightarrow> 'r ech_state \<Rightarrow> 'r ech_state \<times> (ech_error, 'r ech_client) result" where
  "ech_client_for lib pv turn inner alpn st =
     (case client_fast inner alpn (et_now turn) st of
        Some k \<Rightarrow> (st, Inr k)
      | None \<Rightarrow> client_slow lib pv inner alpn (et_world turn) (et_mid turn st))"

function dial_ech_loop :: "ech_lib \<Rightarrow> 'r ech_provider \<Rightarrow> 'r upstream_net \<Rightarrow> resolved_addrs \<Rightarrow> string
    \<Rightarrow> 'r route_runtime \<Rightarrow> string list \<Rightarrow> nat \<Rightarrow> 'r ech_state
    \<Rightarrow> 'r ech_state \<times> nat \<times> (proxy_error, session) result" where
  "dial_ech_loop lib pv net addrs inner rt alpn attempt st =
     (case ech_client_for lib pv (un_ech net attempt) inner alpn st of
        (st1, Inl e) \<Rightarrow> (st1, attempt, Inl (ErrEchClient e))
      | (st1, Inr client) \<Rightarrow>
          (case dial (un_connect net attempt) addrs (rr_connect_timeout rt) of
             Inl e \<Rightarrow> (st1, attempt, Inl (ErrDial e))
           | Inr tcp \<Rightarrow>
               (case un_handshake net attempt (ek_config client) inner tcp of
                  HsOk s \<Rightarrow>
                    (st1, attempt, if rr_require_ech rt \<and> se_ech s \<noteq> EchAccepted then Inl ErrEchStatus else Inr s)
                | HsErr e \<Rightarrow>
                    if is_ech_reject_io e \<and> attempt < rr_max_retries rt
                    then dial_ech_loop lib pv net addrs inner rt alpn (attempt + 1)
                           (fst (invalidate_after_rejection pv inner (ek_generation client) (et_after (un_ech net attempt) st1)))
                    else (st1, attempt, Inl (ErrHandshake e))
                | HsTimeout \<Rightarrow> (st1, attempt, Inl ErrHandshakeTimeout))))"
  by pat_completeness auto

termination dial_ech_loop
  by (relation "measure (\<lambda>(lib, pv, net, addrs, inner, rt, alpn, attempt, st). rr_max_retries rt - attempt)") auto

declare dial_ech_loop.simps [simp del]

definition dial_ech :: "ech_lib \<Rightarrow> 'r upstream_net \<Rightarrow> resolved_addrs \<Rightarrow> string \<Rightarrow> 'r route_runtime \<Rightarrow> string list
    \<Rightarrow> 'r ech_state \<Rightarrow> 'r ech_state \<times> (proxy_error, session) result" where
  "dial_ech lib net addrs inner rt alpn st =
     (case rr_ech rt of None \<Rightarrow> (st, Inl ErrMissingProvider)
      | Some pv \<Rightarrow>
          if \<not> un_server_name net inner then (st, Inl (ErrServerName inner))
          else (case dial_ech_loop lib pv net addrs inner rt alpn 0 st of (st', n, r) \<Rightarrow> (st', r)))"

section \<open>Facts\<close>

text \<open>What the race is: the attempt that connects first, the fallback having started late.\<close>

definition fallback_start :: "attempt \<Rightarrow> nat" where
  "fallback_start primary =
     (case primary of Refuses t \<Rightarrow> min t attempt_delay | _ \<Rightarrow> attempt_delay)"

fun connect_time :: "nat \<Rightarrow> attempt \<Rightarrow> nat option" where
  "connect_time start (Connects t) = Some (start + t)"
| "connect_time start _ = None"

definition race_reference :: "attempt \<Rightarrow> attempt \<Rightarrow> race" where
  "race_reference primary fallback =
     (let start = fallback_start primary in
      case (connect_time 0 primary, connect_time start fallback) of
        (Some a, Some b) \<Rightarrow> if a \<le> b then RaceWon PrimarySide a else RaceWon FallbackSide b
      | (Some a, None) \<Rightarrow> RaceWon PrimarySide a
      | (None, Some b) \<Rightarrow> RaceWon FallbackSide b
      | (None, None) \<Rightarrow>
          (case (primary, fallback) of
             (Refuses a, Refuses b) \<Rightarrow> RaceLost (max a (start + b))
           | _ \<Rightarrow> RacePending))"

lemma race_loop_simps [simp]:
  "race_loop now True True evs = RaceLost now"
  "\<not> (pe \<and> fe) \<Longrightarrow> race_loop now pe fe [] = RacePending"
  "\<not> (pe \<and> fe) \<Longrightarrow> race_loop now pe fe ((t, s, True) # rest) = RaceWon s t"
  "\<not> (pe \<and> fe) \<Longrightarrow> race_loop now pe fe ((t, s, False) # rest)
     = race_loop t (pe \<or> s = PrimarySide) (fe \<or> s = FallbackSide) rest"
  by (subst race_loop.simps; auto)+

lemma race_families_reference: "race_families primary fallback = race_reference primary fallback"
  by (cases primary; cases fallback)
    (auto simp: race_families_def race_reference_def fallback_start_def merge_events_def attempt_delay_def Let_def)

text \<open>When an upstream is reached, and over which address.\<close>

definition reach_time :: "(socket_addr \<Rightarrow> attempt) \<Rightarrow> resolved_addrs \<Rightarrow> socket_addr \<Rightarrow> nat option" where
  "reach_time net addrs a =
     (if a = ra_primary addrs then connect_time 0 (net a)
      else if ra_fallback addrs = Some a then connect_time (fallback_start (net (ra_primary addrs))) (net a)
      else None)"

lemma dial_sound:
  assumes d: "dial net addrs T = Inr a"
  shows "(a = ra_primary addrs \<or> ra_fallback addrs = Some a) \<and> (\<exists>t start. net a = Connects t \<and> start \<le> attempt_delay \<and> start + t \<le> T)"
proof (cases "ra_fallback addrs")
  case None
  then show ?thesis using d by (auto simp: dial_def split: attempt.splits if_splits intro: exI [of _ 0])
next
  case (Some f)
  have late: "fallback_start p \<le> attempt_delay" for p by (cases p) (simp_all add: fallback_start_def)
  have e0: "\<exists>start t. net x = Connects t \<and> start \<le> attempt_delay \<and> start + t \<le> T"
    if "connect_time start (net x) = Some u" "u \<le> T" "start \<le> attempt_delay" for x u start
    using that by (cases "net x") auto
  show ?thesis
    using d Some e0 [of 0 "ra_primary addrs"] e0 [of "fallback_start (net (ra_primary addrs))" f] late
    by (auto simp: dial_def race_families_reference race_reference_def Let_def
        split: option.splits if_splits attempt.splits race.splits side.splits)
qed

lemma dial_complete:
  assumes "ra_fallback addrs = Some f" "net (ra_primary addrs) = Connects t \<and> t \<le> T
    \<or> net f = Connects t \<and> attempt_delay + t \<le> T"
  shows "is_ok (dial net addrs T)"
  using assms by (cases "net (ra_primary addrs)"; cases "net f")
    (auto simp: dial_def race_families_reference race_reference_def fallback_start_def Let_def)

lemma dial_prefers_primary:
  assumes "net (ra_primary addrs) = Connects t" "t \<le> attempt_delay" "t \<le> T"
  shows "dial net addrs T = Inr (ra_primary addrs)"
  using assms by (simp add: dial_def race_families_def split: option.splits)

text \<open>ALPN.\<close>

lemma negotiable_cases:
  "negotiable_alpn offer \<in> {[], [alpn_h1], [alpn_h2], [alpn_h2, alpn_h1]}"
  by (auto simp: negotiable_alpn_def supported_alpn_def split: option.splits)

lemma negotiable_subset: "negotiable_alpn (Some offered) = filter (\<lambda>p. p \<in> set offered) [alpn_h2, alpn_h1]"
  by (simp add: negotiable_alpn_def supported_alpn_def)

lemma select_config_offer:
  assumes "cfs = client_configs_new verify sni" "offer \<in> {[], [alpn_h1], [alpn_h2], [alpn_h2, alpn_h1]}"
  shows "select_config cfs offer = plain_config verify sni offer"
  using assms by (auto simp: select_config_def client_configs_new_def alpn_h1_def alpn_h2_def)

text \<open>The provider's entries stay proper, whoever runs.\<close>

definition provider_ok :: "'r ech_provider \<Rightarrow> 'r ech_state \<Rightarrow> bool" where
  "provider_ok pv st \<longleftrightarrow> entries (\<lambda>_. entry_ok pv) st"

lemma client_slow_provider_ok:
  assumes "provider_ok pv st" "client_slow lib pv inner alpn w st = (st', r)"
  shows "provider_ok pv st' \<and> (\<forall>k. r = Inr k \<longrightarrow> (\<exists>mode. config_proper pv mode alpn (ek_config k)))"
  using assms(1) [unfolded provider_ok_def] assms(2)
proof (cases rule: client_slow_cases)
  case (kept c c')
  then show ?thesis using assms(1) by (fastforce simp: provider_ok_def entries_def)
next
  case (fresh c')
  then show ?thesis using assms(1) by (fastforce simp: provider_ok_def entries_def)
next
  case (failed e)
  then show ?thesis using assms(1) by (simp add: provider_ok_def entries_def)
qed

lemma invalidate_provider_ok:
  assumes "provider_ok pv st"
  shows "provider_ok pv (fst (invalidate_after_rejection pv inner g st))"
proof -
  obtain st' granted cleared where i: "invalidate_after_rejection pv inner g st = (st', granted, cleared)"
    by (cases "invalidate_after_rejection pv inner g st") auto
  then have "provider_ok pv st'"
    using assms by (cases rule: invalidate_cases) (auto simp: provider_ok_def entries_def split: if_splits)
  then show ?thesis by (simp add: i)
qed

lemma ech_client_for_ok:
  assumes ok: "provider_ok pv st" and others: "\<And>st. provider_ok pv st \<Longrightarrow> provider_ok pv (et_mid turn st)"
    and c: "ech_client_for lib pv turn inner alpn st = (st', r)"
  shows "provider_ok pv st' \<and> (\<forall>k. r = Inr k \<longrightarrow> (\<exists>mode. config_proper pv mode alpn (ek_config k)))"
proof (cases "client_fast inner alpn (et_now turn) st")
  case None
  then show ?thesis using c client_slow_provider_ok [OF others [OF ok]] by (simp add: ech_client_for_def)
next
  case (Some k)
  obtain e where e: "xs_cache st inner = Some e" "cg_configs e alpn = Some (ek_config k)"
    using Some by (auto simp: client_fast_def split: option.splits if_splits)
  then have "config_proper pv (cg_mode e) alpn (ek_config k)" using ok by (auto simp: provider_ok_def entries_def entry_ok_def)
  then show ?thesis using c Some ok by (auto simp: ech_client_for_def)
qed

text \<open>
  An ECH dial: it ends within the retry budget, and a session it returns came out of a handshake with
  a configuration of the provider, accepted where the route requires it.
\<close>

lemma dial_ech_loop_result:
  assumes "provider_ok pv st" "attempt \<le> rr_max_retries rt"
    and "\<And>k st. provider_ok pv st \<Longrightarrow> provider_ok pv (et_mid (un_ech net k) st) \<and> provider_ok pv (et_after (un_ech net k) st)"
    and "dial_ech_loop lib pv net addrs inner rt alpn attempt st = (st', n, r)"
  shows "provider_ok pv st' \<and> n \<le> rr_max_retries rt
    \<and> (\<forall>s. r = Inr s \<longrightarrow> (rr_require_ech rt \<longrightarrow> se_ech s = EchAccepted)
        \<and> (\<exists>cfg mode tcp. config_proper pv mode alpn cfg \<and> un_handshake net n cfg inner tcp = HsOk s
             \<and> dial (un_connect net n) addrs (rr_connect_timeout rt) = Inr tcp))"
  using assms
proof (induction lib pv net addrs inner rt alpn attempt st rule: dial_ech_loop.induct)
  case (1 lib pv net addrs inner rt alpn attempt st)
  obtain st1 c where c: "ech_client_for lib pv (un_ech net attempt) inner alpn st = (st1, c)" by fastforce
  have ok: "provider_ok pv st1" and proper: "\<And>k. c = Inr k \<Longrightarrow> \<exists>mode. config_proper pv mode alpn (ek_config k)"
    using ech_client_for_ok [OF 1(2) _ c] 1(4) by blast+
  note unfolded = 1(5) [unfolded dial_ech_loop.simps [of lib pv net addrs inner rt alpn attempt st] c prod.case]
  show ?case
  proof (cases c)
    case (Inl e)
    then show ?thesis using unfolded ok 1(3) by auto
  next
    case client: (Inr client)
    show ?thesis
    proof (cases "dial (un_connect net attempt) addrs (rr_connect_timeout rt)")
      case (Inl e)
      then show ?thesis using unfolded client ok 1(3) by auto
    next
      case tcp: (Inr tcp)
      show ?thesis
      proof (cases "un_handshake net attempt (ek_config client) inner tcp")
        case (HsOk s)
        then show ?thesis using unfolded client tcp ok 1(3) proper by (auto split: if_splits)
      next
        case HsTimeout
        then show ?thesis using unfolded client tcp ok 1(3) by auto
      next
        case err: (HsErr e)
        show ?thesis
        proof (cases "is_ech_reject_io e \<and> attempt < rr_max_retries rt")
          case False
          then show ?thesis using unfolded client tcp err ok 1(3) by auto
        next
          case True
          have "provider_ok pv (fst (invalidate_after_rejection pv inner (ek_generation client) (et_after (un_ech net attempt) st1)))"
            using invalidate_provider_ok 1(4) ok by blast
          moreover have "dial_ech_loop lib pv net addrs inner rt alpn (attempt + 1)
              (fst (invalidate_after_rejection pv inner (ek_generation client) (et_after (un_ech net attempt) st1))) = (st', n, r)"
            using unfolded client tcp err True by simp
          ultimately show ?thesis
            using 1(1) [OF c [symmetric] client tcp err True] True 1(4) by simp
        qed
      qed
    qed
  qed
qed

end
