(* ===== verification/Peek.thy ===== *)
theory Peek
  imports Prelude
begin

text \<open>
  Classification of an inbound connection from peeked bytes (\<open>src/src/peek.rs\<close>): the ClientHello
  and HTTP head parsers and the loop that peeks a growing window. A byte buffer is a list of
  characters. Every indexing and slicing of the ClientHello parser is checked: an access out of
  range is the value \<open>Inl OutOfBounds\<close>, Rust's panic. What the socket does is a list of
  \<open>peek_event\<close>s; the sleeps between peeks only take time and are left out.
\<close>

section \<open>Bytes\<close>

datatype panic = OutOfBounds

definition at :: "string \<Rightarrow> nat \<Rightarrow> (panic, nat) result" where
  "at b i = (if i < length b then Inr (byte (b ! i)) else Inl OutOfBounds)"

definition u16_at :: "string \<Rightarrow> nat \<Rightarrow> (panic, nat) result" where
  "u16_at b i = res_bind (at b i) (\<lambda>hi. res_bind (at b (i + 1)) (\<lambda>lo. Inr (hi * 256 + lo)))"

definition u24_at :: "string \<Rightarrow> nat \<Rightarrow> (panic, nat) result" where
  "u24_at b i = res_bind (at b i) (\<lambda>hi. res_bind (u16_at b (i + 1)) (\<lambda>lo. Inr (hi * 65536 + lo)))"

definition slice :: "string \<Rightarrow> nat \<Rightarrow> nat \<Rightarrow> (panic, string) result" where
  "slice b lo hi = (if lo \<le> hi \<and> hi \<le> length b then Inr (take (hi - lo) (drop lo b)) else Inl OutOfBounds)"

text \<open>\<open>str::from_utf8\<close>: the well-formed byte sequences of the Unicode standard.\<close>

definition is_cont :: "char \<Rightarrow> bool" where
  "is_cont c \<longleftrightarrow> 128 \<le> byte c \<and> byte c \<le> 191"

definition second_byte_ok :: "nat \<Rightarrow> char \<Rightarrow> bool" where
  "second_byte_ok a c \<longleftrightarrow> is_cont c
     \<and> (a = 224 \<longrightarrow> 160 \<le> byte c) \<and> (a = 237 \<longrightarrow> byte c \<le> 159)
     \<and> (a = 240 \<longrightarrow> 144 \<le> byte c) \<and> (a = 244 \<longrightarrow> byte c \<le> 143)"

fun utf8_ok :: "string \<Rightarrow> bool" where
  "utf8_ok [] = True"
| "utf8_ok (a # s) =
     (if byte a < 128 then utf8_ok s
      else (case s of [] \<Rightarrow> False
        | b # s1 \<Rightarrow>
            if 194 \<le> byte a \<and> byte a \<le> 223 then is_cont b \<and> utf8_ok s1
            else (case s1 of [] \<Rightarrow> False
              | c # s2 \<Rightarrow>
                  if 224 \<le> byte a \<and> byte a \<le> 239 then second_byte_ok (byte a) b \<and> is_cont c \<and> utf8_ok s2
                  else (case s2 of [] \<Rightarrow> False
                    | d # s3 \<Rightarrow> 240 \<le> byte a \<and> byte a \<le> 244 \<and> second_byte_ok (byte a) b
                        \<and> is_cont c \<and> is_cont d \<and> utf8_ok s3))))"

section \<open>The TLS ClientHello\<close>

datatype tls_parse = Sni string | NoSni | NeedMore | NotClientHello

text \<open>The body of a server\_name extension.\<close>

function sni_entries :: "string \<Rightarrow> nat \<Rightarrow> nat \<Rightarrow> (panic, tls_parse) result" where
  "sni_entries b final p =
     (if p + 3 \<le> final then
        (case at b p of Inl e \<Rightarrow> Inl e
         | Inr name_type \<Rightarrow>
        (case u16_at b (p + 1) of Inl e \<Rightarrow> Inl e
         | Inr name_len \<Rightarrow>
             if length b < p + 3 + name_len then Inr NeedMore
             else if name_type = 0 then
               res_bind (slice b (p + 3) (p + 3 + name_len)) (\<lambda>s.
                 Inr (if utf8_ok s \<and> s \<noteq> [] then Sni s else NoSni))
             else sni_entries b final (p + 3 + name_len)))
      else Inr NoSni)"
  by pat_completeness auto
termination
  by (relation "measure (\<lambda>(b, final, p). final - p)") auto

definition parse_sni_extension :: "string \<Rightarrow> (panic, tls_parse) result" where
  "parse_sni_extension b =
     (if length b < 2 then Inr NeedMore
      else res_bind (u16_at b 0) (\<lambda>list_len. sni_entries b (min (2 + list_len) (length b)) 2))"

text \<open>The loop over the extensions.\<close>

function ext_walk :: "string \<Rightarrow> nat \<Rightarrow> nat \<Rightarrow> (panic, tls_parse) result" where
  "ext_walk b ext_end p =
     (if p + 4 \<le> ext_end then
        (case u16_at b p of Inl e \<Rightarrow> Inl e
         | Inr ext_type \<Rightarrow>
        (case u16_at b (p + 2) of Inl e \<Rightarrow> Inl e
         | Inr ext_len \<Rightarrow>
             if length b < p + 4 + ext_len then Inr NeedMore
             else if ext_type = 0 then res_bind (slice b (p + 4) (p + 4 + ext_len)) parse_sni_extension
             else ext_walk b ext_end (p + 4 + ext_len)))
      else Inr (if ext_end < p then NeedMore else NoSni))"
  by pat_completeness auto
termination
  by (relation "measure (\<lambda>(b, ext_end, p). ext_end - p)") auto

declare sni_entries.simps [simp del] ext_walk.simps [simp del]

text \<open>From the extensions' length field, at \<open>p\<close>, on.\<close>

definition parse_extensions :: "string \<Rightarrow> nat \<Rightarrow> nat \<Rightarrow> (panic, tls_parse) result" where
  "parse_extensions b hs_end p =
     (if hs_end < p + 2 then Inr (if p \<le> hs_end then NoSni else NeedMore)
      else res_bind (u16_at b p) (\<lambda>ext_total. ext_walk b (min (p + 2 + ext_total) hs_end) (p + 2)))"

text \<open>From the session id, at \<open>p\<close>, on.\<close>

definition parse_hello_body :: "string \<Rightarrow> nat \<Rightarrow> nat \<Rightarrow> (panic, tls_parse) result" where
  "parse_hello_body b hs_end p =
     (if length b \<le> p then Inr NeedMore
      else res_bind (at b p) (\<lambda>sid_len.
        let p = p + 1 + sid_len in
        if hs_end < p + 2 then Inr NeedMore
        else res_bind (u16_at b p) (\<lambda>cs_len.
          let p = p + 2 + cs_len in
          if hs_end < p + 1 then Inr NeedMore
          else res_bind (at b p) (\<lambda>comp_len. parse_extensions b hs_end (p + 1 + comp_len)))))"

definition parse_tls_sni :: "string \<Rightarrow> (panic, tls_parse) result" where
  "parse_tls_sni b =
     (if length b < 5 then Inr NeedMore
      else res_bind (at b 0) (\<lambda>content_type.
        if content_type \<noteq> 22 then Inr NotClientHello
        else res_bind (u16_at b 3) (\<lambda>rec_len.
          if min (5 + rec_len) (length b) < 9 then Inr NeedMore
          else res_bind (at b 5) (\<lambda>msg_type.
            if msg_type \<noteq> 1 then Inr NotClientHello
            else res_bind (u24_at b 6) (\<lambda>hs_len.
              let hs_end = min (9 + hs_len) (length b) in
              if hs_end < 43 then Inr NeedMore
              else parse_hello_body b hs_end 43)))))"

section \<open>The HTTP head\<close>

datatype http_parse = Host string | NoHost | HttpNeedMore | NotHttp

fun header_block_end :: "string \<Rightarrow> nat option" where
  "header_block_end [] = None"
| "header_block_end (c # s) =
     (if c = CHR 0x0A \<and> starts_with [CHR 0x0A] s then Some 2
      else if c = CHR 0x0A \<and> starts_with [CHR 0x0D, CHR 0x0A] s then Some 3
      else map_option Suc (header_block_end s))"

text \<open>\<open>trim_ascii\<close>: space, tab, line feed, form feed and carriage return.\<close>

definition is_ascii_space :: "char \<Rightarrow> bool" where
  "is_ascii_space c \<longleftrightarrow> byte c \<in> {32, 9, 10, 12, 13}"

definition trim_ascii :: "string \<Rightarrow> string" where
  "trim_ascii s = rev (dropWhile is_ascii_space (rev (dropWhile is_ascii_space s)))"

definition strip_cr :: "string \<Rightarrow> string" where
  "strip_cr line = (case strip_suffix [CHR 0x0D] line of Some l \<Rightarrow> l | None \<Rightarrow> line)"

fun host_line :: "string list \<Rightarrow> http_parse option" where
  "host_line [] = None"
| "host_line (raw # rest) =
     (let line = strip_cr raw in
      if line = [] then None
      else (case split_once CHR '':'' line of None \<Rightarrow> host_line rest
        | Some (name, v) \<Rightarrow>
            if \<not> eq_nocase (trim_ascii name) ''host'' then host_line rest
            else (let value = trim_ascii v in
              Some (if utf8_ok value \<and> value \<noteq> [] then Host value else NoHost))))"

definition http_methods :: "string list" where
  "http_methods = [''GET '', ''POST '', ''PUT '', ''HEAD '', ''DELE'', ''OPTI'', ''PATC'', ''TRAC'', ''CONN'']"

definition looks_like_http :: "string \<Rightarrow> bool" where
  "looks_like_http b \<longleftrightarrow> list_ex (\<lambda>m. starts_with m b) http_methods"

definition parse_http_host :: "string \<Rightarrow> http_parse" where
  "parse_http_host b =
     (if \<not> looks_like_http b then NotHttp
      else (let head_end = header_block_end b;
                head = (case head_end of Some n \<Rightarrow> take n b | None \<Rightarrow> b) in
        case host_line (split_char CHR 0x0A head) of
          Some answer \<Rightarrow> answer
        | None \<Rightarrow> if head_end \<noteq> None then NoHost else HttpNeedMore))"

section \<open>Peeking a growing window\<close>

text \<open>What a socket peek comes back with: the number of bytes buffered (zero at end of file) or an
  error; and the expiry of the overall timeout, with the outcome of the one peek that follows it.\<close>

datatype peek_event = Peeked nat | PeekFailed | Elapsed "nat option"

definition max_peek :: nat where
  "max_peek = 8192"

text \<open>The buffer holds \<open>cap\<close> bytes at most. The outer \<open>None\<close> means that the call is still waiting
  when the listed events are over.\<close>

fun peek_at_least :: "nat \<Rightarrow> nat \<Rightarrow> peek_event list \<Rightarrow> (nat option \<times> peek_event list) option" where
  "peek_at_least cap want [] = None"
| "peek_at_least cap want (Peeked n # evs) =
     (if min n cap = 0 then Some (None, evs)
      else if want \<le> min n cap then Some (Some (min n cap), evs)
      else peek_at_least cap want evs)"
| "peek_at_least cap want (PeekFailed # evs) = Some (None, evs)"
| "peek_at_least cap want (Elapsed outcome # evs) =
     Some (case outcome of None \<Rightarrow> None | Some n \<Rightarrow> if min n cap = 0 then None else Some (min n cap), evs)"

datatype inbound = InTls "string option" | InHttp "string option" | InUnknown

fun inbound_key :: "inbound \<Rightarrow> string option" where
  "inbound_key (InTls sni) = sni"
| "inbound_key (InHttp host) = host"
| "inbound_key InUnknown = None"

fun inbound_is_tls :: "inbound \<Rightarrow> bool" where
  "inbound_is_tls (InTls _) = True"
| "inbound_is_tls _ = False"

text \<open>One look at the window of \<open>have\<close> bytes: an answer, or \<open>None\<close> for another peek. A panic of the
  parser is kept apart.\<close>

definition look :: "bool \<Rightarrow> string \<Rightarrow> nat \<Rightarrow> (panic, inbound option) result" where
  "look is_tls input have =
     (if is_tls then
        map_sum id (\<lambda>r. case r of
            Sni name \<Rightarrow> Some (InTls (Some name))
          | NoSni \<Rightarrow> Some (InTls None)
          | NeedMore \<Rightarrow> if have < max_peek then None else Some (InTls None)
          | NotClientHello \<Rightarrow> Some (InTls None)) (parse_tls_sni (take have input))
      else Inr (case parse_http_host (take have input) of
            Host h \<Rightarrow> Some (InHttp (Some h))
          | NoHost \<Rightarrow> Some (InHttp None)
          | HttpNeedMore \<Rightarrow> if have < max_peek then None else Some (InHttp None)
          | NotHttp \<Rightarrow> Some InUnknown))"

lemma peek_shorter: "peek_at_least cap want evs = Some (r, evs') \<Longrightarrow> length evs' < length evs"
  by (induction cap want evs rule: peek_at_least.induct) (auto split: if_splits)

text \<open>\<open>input\<close> is what the peer sends; the bytes the parsers see are a prefix of it. The outer
  \<open>None\<close> again means that the call is still waiting.\<close>

function classify_loop :: "bool \<Rightarrow> string \<Rightarrow> nat \<Rightarrow> peek_event list \<Rightarrow> (panic, inbound) result option" where
  "classify_loop is_tls input have evs =
     (case look is_tls input have of
        Inl e \<Rightarrow> Some (Inl e)
      | Inr (Some answer) \<Rightarrow> Some (Inr answer)
      | Inr None \<Rightarrow>
          (case peek_at_least (min max_peek (length input)) (min (have + 1) max_peek) evs of
             None \<Rightarrow> None
           | Some (r, evs') \<Rightarrow>
               (case r of
                  Some n \<Rightarrow> if have < n then classify_loop is_tls input n evs'
                            else Some (Inr (if is_tls then InTls None else InHttp None))
                | None \<Rightarrow> Some (Inr (if is_tls then InTls None else InHttp None)))))"
  by pat_completeness auto
termination
  by (relation "measure (\<lambda>(is_tls, input, have, evs). length evs)") (auto dest: peek_shorter)

declare classify_loop.simps [simp del]

definition classify :: "string \<Rightarrow> peek_event list \<Rightarrow> (panic, inbound) result option" where
  "classify input evs =
     (case peek_at_least (min max_peek (length input)) 1 evs of
        None \<Rightarrow> None
      | Some (None, _) \<Rightarrow> Some (Inr InUnknown)
      | Some (Some have, evs') \<Rightarrow> classify_loop (byte (input ! 0) = 22) input have evs')"

section \<open>The ClientHello parser never panics\<close>

text \<open>Offsets stay sums of numerals.\<close>

declare One_nat_def [simp del] add_2_eq_Suc [simp del] add_2_eq_Suc' [simp del]

definition tls_sound :: "string \<Rightarrow> (panic, tls_parse) result \<Rightarrow> bool" where
  "tls_sound b r \<longleftrightarrow> (\<exists>t. r = Inr t \<and> (\<forall>name. t = Sni name \<longrightarrow> name \<noteq> [] \<and> utf8_ok name \<and> sublist name b))"

lemma at_ok: "i < length b \<Longrightarrow> at b i = Inr (byte (b ! i))"
  by (simp add: at_def)

lemma u16_ok: "i + 1 < length b \<Longrightarrow> u16_at b i = Inr (byte (b ! i) * 256 + byte (b ! (i + 1)))"
  by (simp add: u16_at_def at_def)

lemma slice_ok: "lo \<le> hi \<Longrightarrow> hi \<le> length b \<Longrightarrow> slice b lo hi = Inr (take (hi - lo) (drop lo b))"
  by (simp add: slice_def)

lemmas access_ok = at_ok u16_ok slice_ok

lemma sublist_slice: "sublist (take n (drop m b)) b"
  using sublist_order.order.trans [OF sublist_take sublist_drop] .

lemma tls_sound_answer [simp]:
  "tls_sound b (Inr NoSni)" "tls_sound b (Inr NeedMore)" "tls_sound b (Inr NotClientHello)"
  by (simp_all add: tls_sound_def)

lemma sni_entries_sound: "final \<le> length b \<Longrightarrow> tls_sound b (sni_entries b final p)"
proof (induction b final p rule: sni_entries.induct)
  case (1 b final p)
  show ?case
  proof (cases "p + 3 \<le> final")
    case True
    let ?len = "byte (b ! (p + 1)) * 256 + byte (b ! (p + 2))"
    have a: "at b p = Inr (byte (b ! p))" "u16_at b (p + 1) = Inr ?len"
      using True 1(2) by (auto simp: access_ok add.assoc)
    show ?thesis
      using "1.IH" [OF True a] 1(2) True
      by (subst sni_entries.simps) (auto simp: a slice_ok tls_sound_def sublist_slice)
  qed (simp add: sni_entries.simps [of b final p])
qed

lemma parse_sni_extension_sound: "tls_sound b (parse_sni_extension b)"
  by (auto simp: parse_sni_extension_def u16_ok sni_entries_sound)

lemma tls_sound_sublist: "tls_sound s r \<Longrightarrow> sublist s b \<Longrightarrow> tls_sound b r"
  unfolding tls_sound_def by (metis sublist_order.order.trans)

lemma ext_walk_sound: "ext_end \<le> length b \<Longrightarrow> tls_sound b (ext_walk b ext_end p)"
proof (induction b ext_end p rule: ext_walk.induct)
  case (1 b ext_end p)
  show ?case
  proof (cases "p + 4 \<le> ext_end")
    case True
    have a: "u16_at b p = Inr (byte (b ! p) * 256 + byte (b ! (p + 1)))"
      "u16_at b (p + 2) = Inr (byte (b ! (p + 2)) * 256 + byte (b ! (p + 3)))"
      using True 1(2) by (auto simp: u16_ok numeral_3_eq_3)
    show ?thesis
      using "1.IH" [OF True a] 1(2) True
      by (subst ext_walk.simps)
        (auto simp: a slice_ok intro: tls_sound_sublist [OF parse_sni_extension_sound sublist_slice])
  qed (simp add: ext_walk.simps [of b ext_end p])
qed

lemma parse_extensions_sound: "hs_end \<le> length b \<Longrightarrow> tls_sound b (parse_extensions b hs_end p)"
  by (auto simp: parse_extensions_def u16_ok ext_walk_sound)

lemma parse_hello_body_sound: "hs_end \<le> length b \<Longrightarrow> tls_sound b (parse_hello_body b hs_end p)"
  by (auto simp: parse_hello_body_def Let_def access_ok parse_extensions_sound)

lemma parse_tls_sni_sound: "tls_sound b (parse_tls_sni b)"
proof -
  have "u24_at b 6 = Inr (byte (b ! 6) * 65536 + (byte (b ! 7) * 256 + byte (b ! 8)))" if "9 \<le> length b"
    using that by (simp add: u24_at_def access_ok)
  moreover have "at b 0 = Inr (byte (b ! 0))" "u16_at b 3 = Inr (byte (b ! 3) * 256 + byte (b ! 4))" if "\<not> length b < 5"
    using that by (auto simp: at_def u16_at_def)
  ultimately show ?thesis
    by (auto simp: parse_tls_sni_def Let_def access_ok parse_hello_body_sound)
qed

section \<open>A name once found stays\<close>

lemma at_append: "at b i = Inr x \<Longrightarrow> at (b @ r) i = Inr x"
  by (auto simp: at_def nth_append split: if_splits)

lemma u16_append: "u16_at b i = Inr x \<Longrightarrow> u16_at (b @ r) i = Inr x"
  by (auto simp: u16_at_def dest: at_append)

lemma u24_append: "u24_at b i = Inr x \<Longrightarrow> u24_at (b @ r) i = Inr x"
  by (auto simp: u24_at_def dest: at_append u16_append)

lemma slice_append: "slice b lo hi = Inr x \<Longrightarrow> slice (b @ r) lo hi = Inr x"
  by (auto simp: slice_def split: if_splits)

lemmas access_append = at_append u16_append u24_append slice_append

lemma ext_walk_stable:
  "ext_walk b ext_end p = Inr (Sni name) \<Longrightarrow> ext_end \<le> final \<Longrightarrow> ext_walk (b @ r) final p = Inr (Sni name)"
proof (induction b ext_end p rule: ext_walk.induct)
  case (1 b ext_end p)
  have p: "p + 4 \<le> ext_end" "p + 4 \<le> final"
    using 1(2,3) by (auto simp: ext_walk.simps [of b ext_end p] split: if_splits)
  obtain t l where a: "u16_at b p = Inr t" "u16_at b (p + 2) = Inr l"
    using 1(2) p by (auto simp: ext_walk.simps [of b ext_end p] split: sum.splits)
  have fits: "\<not> length b < p + 4 + l"
    using 1(2) p a by (auto simp: ext_walk.simps [of b ext_end p] split: if_splits)
  note w = ext_walk.simps [of "b @ r" final p] u16_append [OF a(1), of r] u16_append [OF a(2), of r]
  show ?case
  proof (cases "t = 0")
    case True
    then obtain s where "slice b (p + 4) (p + 4 + l) = Inr s" "parse_sni_extension s = Inr (Sni name)"
      using 1(2) p a fits by (auto simp: ext_walk.simps [of b ext_end p])
    then show ?thesis
      using p fits True by (simp add: w slice_append)
  next
    case False
    then have "ext_walk b ext_end (p + 4 + l) = Inr (Sni name)"
      using 1(2) p a fits by (simp add: ext_walk.simps [of b ext_end p])
    then show ?thesis
      using "1.IH" [OF p(1) a fits False _ 1(3)] p fits False by (simp add: w)
  qed
qed

lemma parse_extensions_stable:
  assumes "parse_extensions b hs_end p = Inr (Sni name)" "hs_end \<le> hs_end'"
  shows "parse_extensions (b @ r) hs_end' p = Inr (Sni name)"
proof -
  obtain t where t: "u16_at b p = Inr t" "\<not> hs_end < p + 2" "ext_walk b (min (p + 2 + t) hs_end) (p + 2) = Inr (Sni name)"
    using assms(1) by (auto simp: parse_extensions_def split: if_splits)
  then show ?thesis
    using assms(2) ext_walk_stable [OF t(3), of "min (p + 2 + t) hs_end'" r]
    by (simp add: parse_extensions_def u16_append)
qed

lemma parse_hello_body_stable:
  assumes "parse_hello_body b hs_end p = Inr (Sni name)" "hs_end \<le> hs_end'"
  shows "parse_hello_body (b @ r) hs_end' p = Inr (Sni name)"
proof -
  obtain sid cs comp where a: "at b p = Inr sid" "u16_at b (p + 1 + sid) = Inr cs"
      "at b (p + 1 + sid + 2 + cs) = Inr comp"
    and l: "\<not> length b \<le> p" "\<not> hs_end < p + 1 + sid + 2" "\<not> hs_end < p + 1 + sid + 2 + cs + 1"
    and e: "parse_extensions b hs_end (p + 1 + sid + 2 + cs + 1 + comp) = Inr (Sni name)"
    using assms(1) by (auto simp: parse_hello_body_def Let_def split: if_splits)
  show ?thesis
    using a(1,3) [THEN at_append] u16_append [OF a(2)] l assms(2)
      parse_extensions_stable [OF e assms(2)]
    by (simp add: parse_hello_body_def Let_def)
qed

lemma parse_tls_sni_stable:
  assumes "parse_tls_sni b = Inr (Sni name)"
  shows "parse_tls_sni (b @ r) = Inr (Sni name)"
proof -
  obtain rec hs where a: "at b 0 = Inr 22" "u16_at b 3 = Inr rec" "at b 5 = Inr 1" "u24_at b 6 = Inr hs"
    and l: "\<not> length b < 5" "\<not> min (5 + rec) (length b) < 9" "\<not> min (9 + hs) (length b) < 43"
    and e: "parse_hello_body b (min (9 + hs) (length b)) 43 = Inr (Sni name)"
    using assms by (auto simp: parse_tls_sni_def Let_def split: if_splits)
  have "parse_hello_body (b @ r) (min (9 + hs) (length (b @ r))) 43 = Inr (Sni name)"
    by (rule parse_hello_body_stable [OF e]) auto
  then show ?thesis
    using a(1,3) [THEN at_append] u16_append [OF a(2)] u24_append [OF a(4)] l
    by (auto simp: parse_tls_sni_def Let_def min_less_iff_disj)
qed

section \<open>A ClientHello on the wire\<close>

definition u16_bytes :: "nat \<Rightarrow> string" where
  "u16_bytes n = [char_of (n div 256), char_of (n mod 256)]"

definition u24_bytes :: "nat \<Rightarrow> string" where
  "u24_bytes n = char_of (n div 65536) # u16_bytes (n mod 65536)"

fun ext_bytes :: "(nat \<times> string) list \<Rightarrow> string" where
  "ext_bytes [] = []"
| "ext_bytes ((t, body) # exts) = u16_bytes t @ u16_bytes (length body) @ body @ ext_bytes exts"

text \<open>A server\_name extension that names one host.\<close>

definition server_name :: "string \<Rightarrow> string" where
  "server_name h = u16_bytes (length h + 3) @ CHR 0x00 # u16_bytes (length h) @ h"

record client_hello =
  ch_record_version :: string
  ch_fixed :: string
  ch_session :: string
  ch_ciphers :: string
  ch_compression :: string
  ch_extensions :: "(nat \<times> string) list"

definition hello_ok :: "client_hello \<Rightarrow> bool" where
  "hello_ok ch \<longleftrightarrow> length (ch_record_version ch) = 2 \<and> length (ch_fixed ch) = 34 \<and> length (ch_session ch) < 256
     \<and> length (ch_ciphers ch) < 65536 \<and> length (ch_compression ch) < 256
     \<and> length (ext_bytes (ch_extensions ch)) < 65536
     \<and> (\<forall>(t, body)\<in>set (ch_extensions ch). t < 65536 \<and> length body < 65536)"

text \<open>The fields between the fixed part and the extensions.\<close>

definition hello_middle :: "client_hello \<Rightarrow> string" where
  "hello_middle ch = char_of (length (ch_session ch)) # ch_session ch
     @ u16_bytes (length (ch_ciphers ch)) @ ch_ciphers ch
     @ char_of (length (ch_compression ch)) # ch_compression ch"

definition hello_body :: "client_hello \<Rightarrow> string" where
  "hello_body ch = ch_fixed ch @ hello_middle ch
     @ u16_bytes (length (ext_bytes (ch_extensions ch))) @ ext_bytes (ch_extensions ch)"

definition hello_header :: "client_hello \<Rightarrow> string" where
  "hello_header ch = CHR 0x16 # ch_record_version ch @ u16_bytes ((4 + length (hello_body ch)) mod 65536)
     @ CHR 0x01 # u24_bytes (length (hello_body ch))"

definition hello_bytes :: "client_hello \<Rightarrow> string" where
  "hello_bytes ch = hello_header ch @ hello_body ch"

lemma length_u16_bytes [simp]: "length (u16_bytes n) = 2"
  by (simp add: u16_bytes_def)

lemma at_shift: "at (pre @ b) (length pre + i) = at b i"
  by (simp add: at_def)

lemma u16_shift: "u16_at (pre @ b) (length pre + i) = u16_at b i"
  using at_shift [of pre b i] at_shift [of pre b "i + 1"] by (simp add: u16_at_def add.assoc)

lemma u16_bytes_at: "n < 65536 \<Longrightarrow> u16_at (u16_bytes n @ b) 0 = Inr n"
  by (simp add: u16_at_def at_def u16_bytes_def)

lemma at_first: "n < 256 \<Longrightarrow> at (char_of n # b) 0 = Inr n"
  by (simp add: at_def)

lemmas u16_read = u16_shift [where i = 0, simplified]

lemma ext_walk_bytes:
  assumes "\<forall>(t, body)\<in>set exts. t < 65536 \<and> length body < 65536"
  shows "ext_walk (pre @ ext_bytes exts @ post) (length pre + length (ext_bytes exts)) (length pre)
    = (case map_of exts 0 of None \<Rightarrow> Inr NoSni | Some body \<Rightarrow> parse_sni_extension body)"
  using assms
proof (induction exts arbitrary: pre)
  case Nil
  then show ?case by (simp add: ext_walk.simps)
next
  case (Cons e exts)
  obtain t body where e: "e = (t, body)" by (cases e)
  let ?rest = "body @ ext_bytes exts @ post"
  define b where "b = pre @ u16_bytes t @ u16_bytes (length body) @ ?rest"
  let ?pre = "pre @ u16_bytes t @ u16_bytes (length body) @ body"
  have r: "u16_at b (length pre) = Inr t" "u16_at b (length pre + 2) = Inr (length body)"
    using Cons.prems u16_read [of pre "u16_bytes t @ u16_bytes (length body) @ ?rest"]
      u16_read [of "pre @ u16_bytes t" "u16_bytes (length body) @ ?rest"]
    by (auto simp: e b_def u16_bytes_at)
  have s: "slice b (length pre + 4) (length pre + 4 + length body) = Inr body"
    by (simp add: b_def slice_def)
  have lb: "\<not> length b < length pre + 4 + length body"
    by (simp add: b_def)
  have ih: "ext_walk b (length pre + 4 + length body + length (ext_bytes exts)) (length pre + 4 + length body)
      = (case map_of exts 0 of None \<Rightarrow> Inr NoSni | Some body \<Rightarrow> parse_sni_extension body)"
    using Cons.IH [of ?pre] Cons.prems by (simp add: b_def add.assoc)
  have "ext_walk b (length pre + length (ext_bytes (e # exts))) (length pre)
      = (if t = 0 then parse_sni_extension body
         else ext_walk b (length pre + 4 + length body + length (ext_bytes exts)) (length pre + 4 + length body))"
    using s lb by (subst ext_walk.simps) (simp add: e r add.assoc)
  then show ?case
    using ih by (simp add: e b_def)
qed

lemma parse_server_name:
  assumes "h \<noteq> []" "utf8_ok h" "length h + 3 < 65536"
  shows "parse_sni_extension (server_name h) = Inr (Sni h)"
proof -
  let ?b = "server_name h"
  have b: "u16_at ?b 0 = Inr (length h + 3)" "at ?b 2 = Inr 0" "u16_at ?b 3 = Inr (length h)"
    "slice ?b 5 (5 + length h) = Inr h" "length ?b = 5 + length h"
    using assms(3) u16_bytes_at [of "length h + 3"] u16_bytes_at [of "length h" h]
      u16_read [of "u16_bytes (length h + 3) @ [CHR 0x00]" "u16_bytes (length h) @ h"]
    by (simp_all add: server_name_def slice_def at_def nth_append)
  show ?thesis
    using assms(1,2) b by (simp add: parse_sni_extension_def sni_entries.simps [of _ _ 2])
qed

lemma parse_extensions_bytes:
  assumes "\<forall>(t, body)\<in>set exts. t < 65536 \<and> length body < 65536"
    and "length (ext_bytes exts) \<le> n" "n < 65536" "hs_end = length pre + 2 + length (ext_bytes exts)"
  shows "parse_extensions (pre @ u16_bytes n @ ext_bytes exts @ post) hs_end (length pre)
    = (case map_of exts 0 of None \<Rightarrow> Inr NoSni | Some body \<Rightarrow> parse_sni_extension body)"
proof -
  let ?b = "pre @ u16_bytes n @ ext_bytes exts @ post"
  have "u16_at ?b (length pre) = Inr n"
    using u16_read [of pre] u16_bytes_at [OF assms(3)] by simp
  moreover have "min (length pre + 2 + n) hs_end = hs_end"
    using assms(2,4) by simp
  ultimately show ?thesis
    using ext_walk_bytes [OF assms(1), of "pre @ u16_bytes n" post] assms(4)
    by (simp add: parse_extensions_def)
qed

lemma parse_hello_body_bytes:
  assumes "hello_ok ch" "length (pre @ hello_middle ch) \<le> hs_end"
  shows "parse_hello_body (pre @ hello_middle ch @ post) hs_end (length pre)
    = parse_extensions (pre @ hello_middle ch @ post) hs_end (length (pre @ hello_middle ch))"
proof -
  let ?s = "ch_session ch" and ?c = "ch_ciphers ch" and ?m = "ch_compression ch"
  let ?b = "pre @ hello_middle ch @ post"
  have l: "length ?s < 256" "length ?c < 65536" "length ?m < 256"
    using assms(1) by (auto simp: hello_ok_def)
  have s: "at ?b (length pre) = Inr (length ?s)"
    using l(1) by (simp add: at_def hello_middle_def)
  have c: "u16_at ?b (length pre + 1 + length ?s) = Inr (length ?c)"
    using u16_read [of "pre @ char_of (length ?s) # ?s"] u16_bytes_at [OF l(2)]
    by (simp add: hello_middle_def Suc_eq_plus1 add_ac)
  have m: "at ?b (length pre + 1 + length ?s + 2 + length ?c) = Inr (length ?m)"
    using at_shift [of "pre @ char_of (length ?s) # ?s @ u16_bytes (length ?c) @ ?c" _ 0] at_first [OF l(3)]
    by (simp add: hello_middle_def Suc_eq_plus1 add_ac)
  have "length (pre @ hello_middle ch) = length pre + 1 + length ?s + 2 + length ?c + 1 + length ?m"
    by (simp add: hello_middle_def)
  then show ?thesis
    using s c m assms(2) by (simp add: parse_hello_body_def Let_def add_ac)
qed

lemma u24_bytes_at: "n < 16777216 \<Longrightarrow> u24_at (u24_bytes n @ b) 0 = Inr n"
  by (simp add: u24_at_def u16_at_def at_def u24_bytes_def u16_bytes_def)

lemma hello_header_reads:
  assumes "hello_ok ch" "length (hello_body ch) < 16777216"
  shows "at (hello_header ch @ b) 0 = Inr 22"
    "u16_at (hello_header ch @ b) 3 = Inr ((4 + length (hello_body ch)) mod 65536)"
    "at (hello_header ch @ b) 5 = Inr 1" "u24_at (hello_header ch @ b) 6 = Inr (length (hello_body ch))"
    "length (hello_header ch) = 9"
proof -
  let ?n = "length (hello_body ch)"
  obtain v w where v: "ch_record_version ch = [v, w]"
    using assms(1) by (auto simp: hello_ok_def length_Suc_conv numeral_2_eq_2)
  have u24: "u24_at (pre @ u24_bytes ?n @ b) (length pre) = Inr ?n" for pre b
    using u24_bytes_at [OF assms(2), of b] at_shift [of pre _ 0]
      u16_shift [of pre "u24_bytes ?n @ b" 1] by (simp add: u24_at_def)
  show "at (hello_header ch @ b) 0 = Inr 22" "length (hello_header ch) = 9"
    by (simp_all add: hello_header_def at_def v u24_bytes_def)
  show "u16_at (hello_header ch @ b) 3 = Inr ((4 + ?n) mod 65536)"
    using u16_shift [of "[CHR 0x16, v, w]" _ 0] u16_bytes_at [of "(4 + ?n) mod 65536"]
    by (simp add: hello_header_def v numeral_3_eq_3)
  show "at (hello_header ch @ b) 5 = Inr 1"
    by (simp add: hello_header_def v at_def nth_append)
  show "u24_at (hello_header ch @ b) 6 = Inr ?n"
    using u24 [of "CHR 0x16 # [v, w] @ u16_bytes ((4 + ?n) mod 65536) @ [CHR 0x01]"]
    by (simp add: hello_header_def v)
qed

lemma parse_hello_prefix:
  assumes "hello_ok ch" "length (hello_body ch) < 65532"
    and "take (43 + length (hello_middle ch)) (hello_bytes ch) @ post = b"
    and "43 + length (hello_middle ch) \<le> min (9 + length (hello_body ch)) (length b)"
  shows "parse_tls_sni b = parse_extensions b (min (9 + length (hello_body ch)) (length b)) (43 + length (hello_middle ch))"
proof -
  have f: "length (ch_fixed ch) = 34" using assms(1) by (simp add: hello_ok_def)
  note h = hello_header_reads [OF assms(1)]
  have l: "length (hello_body ch) < 16777216" using assms(2) by simp
  have "take (43 + length (hello_middle ch)) (hello_bytes ch) = hello_header ch @ ch_fixed ch @ hello_middle ch"
    using h(5) [OF l] f by (simp add: hello_bytes_def hello_body_def)
  then have b: "b = hello_header ch @ ch_fixed ch @ hello_middle ch @ post"
    using assms(3) by simp
  have "43 \<le> length b" using b h(5) [OF l] f by simp
  then show ?thesis
    using h(1-4) [OF l, of "ch_fixed ch @ hello_middle ch @ post"] h(5) [OF l] f assms(2,4)
      parse_hello_body_bytes [OF assms(1), of "hello_header ch @ ch_fixed ch" _ post]
    by (simp add: parse_tls_sni_def Let_def b min_less_iff_disj)
qed

definition hello_answer :: "(nat \<times> string) list \<Rightarrow> (panic, tls_parse) result" where
  "hello_answer exts = (case map_of exts 0 of None \<Rightarrow> Inr NoSni | Some body \<Rightarrow> parse_sni_extension body)"

lemma parse_hello_bytes:
  assumes "hello_ok ch" "length (hello_body ch) < 65532"
  shows "parse_tls_sni (hello_bytes ch @ rest) = hello_answer (ch_extensions ch)"
proof -
  let ?x = "ext_bytes (ch_extensions ch)" and ?m = "43 + length (hello_middle ch)"
  have f: "length (ch_fixed ch) = 34" using assms(1) by (simp add: hello_ok_def)
  have h: "length (hello_header ch) = 9" using hello_header_reads(5) [OF assms(1)] assms(2) by simp
  let ?pre = "hello_header ch @ ch_fixed ch @ hello_middle ch"
  have b: "hello_bytes ch = ?pre @ u16_bytes (length ?x) @ ?x"
    by (simp add: hello_bytes_def hello_body_def)
  have n: "9 + length (hello_body ch) = ?m + 2 + length ?x"
    using f by (simp add: hello_body_def)
  have "parse_tls_sni (hello_bytes ch @ rest) = parse_extensions (hello_bytes ch @ rest) (?m + 2 + length ?x) ?m"
    using parse_hello_prefix [OF assms, of "u16_bytes (length ?x) @ ?x @ rest" "hello_bytes ch @ rest"] n h f
    by (simp add: b)
  also have "\<dots> = hello_answer (ch_extensions ch)"
    using parse_extensions_bytes [of "ch_extensions ch" "length ?x" "?m + 2 + length ?x" ?pre rest] assms(1) h f
    by (simp add: b hello_answer_def hello_ok_def)
  finally show ?thesis .
qed

text \<open>Cut after some of the extensions.\<close>

lemma parse_hello_cut:
  assumes "hello_ok ch" "length (hello_body ch) < 65532" and "ch_extensions ch = es @ es'"
  shows "parse_tls_sni (take (45 + length (hello_middle ch) + length (ext_bytes es)) (hello_bytes ch)) = hello_answer es"
proof -
  let ?x = "ext_bytes (ch_extensions ch)" and ?m = "43 + length (hello_middle ch)"
  have app: "ext_bytes (xs @ ys) = ext_bytes xs @ ext_bytes ys" for xs ys
    by (induction xs rule: ext_bytes.induct) simp_all
  have f: "length (ch_fixed ch) = 34" using assms(1) by (simp add: hello_ok_def)
  have h: "length (hello_header ch) = 9" using hello_header_reads(5) [OF assms(1)] assms(2) by simp
  let ?pre = "hello_header ch @ ch_fixed ch @ hello_middle ch"
  define b where "b = ?pre @ u16_bytes (length ?x) @ ext_bytes es"
  have t: "take (45 + length (hello_middle ch) + length (ext_bytes es)) (hello_bytes ch) = b"
    using h f by (simp add: hello_bytes_def hello_body_def b_def assms(3) app)
  have n: "9 + length (hello_body ch) = ?m + 2 + length ?x" and lb: "length b = ?m + 2 + length (ext_bytes es)"
    using f h by (simp_all add: hello_body_def b_def)
  have le: "length (ext_bytes es) \<le> length ?x" by (simp add: assms(3) app)
  have "parse_tls_sni b = parse_extensions b (?m + 2 + length (ext_bytes es)) ?m"
    using parse_hello_prefix [OF assms(1,2), of "u16_bytes (length ?x) @ ext_bytes es" b] n lb le h f
    by (simp add: b_def hello_bytes_def hello_body_def add_ac)
  also have "\<dots> = hello_answer es"
    using parse_extensions_bytes [of es "length ?x" "?m + 2 + length (ext_bytes es)" ?pre "[]"] assms(1) h f le
    by (simp add: b_def hello_answer_def hello_ok_def assms(3) app)
  finally show ?thesis using t by simp
qed

section \<open>Header lines\<close>

abbreviation newline :: char where
  "newline \<equiv> CHR 0x0A"

definition unlines :: "string list \<Rightarrow> string" where
  "unlines ls = concat (List.map (\<lambda>l. l @ [newline]) ls)"

text \<open>A nonempty line that is not a Host header.\<close>

definition other_line :: "string \<Rightarrow> bool" where
  "other_line l \<longleftrightarrow> newline \<notin> set l \<and> strip_cr l \<noteq> []
     \<and> (case split_once CHR '':'' (strip_cr l) of None \<Rightarrow> True
        | Some (name, _) \<Rightarrow> \<not> eq_nocase (trim_ascii name) ''host'')"

definition host_answer :: "string \<Rightarrow> http_parse" where
  "host_answer v = (if utf8_ok (trim_ascii v) \<and> trim_ascii v \<noteq> [] then Host (trim_ascii v) else NoHost)"

lemma strip_cr_nonempty: "strip_cr l \<noteq> [] \<longleftrightarrow> l \<noteq> [] \<and> l \<noteq> [CHR 0x0D]"
proof (cases "strip_suffix [CHR 0x0D] l")
  case None
  then show ?thesis using strip_suffix_append [of "[CHR 0x0D]" "[]"] by (auto simp: strip_cr_def)
qed (auto simp: strip_cr_def str_simps)

lemma header_block_end_line:
  assumes "newline \<notin> set l"
  shows "header_block_end (l @ newline # s) =
    (if starts_with [newline] s then Some (length l + 2)
     else if starts_with [CHR 0x0D, newline] s then Some (length l + 3)
     else map_option (\<lambda>n. n + length l + 1) (header_block_end s))"
  using assms by (induction l) (auto simp: option.map_comp comp_def One_nat_def)

lemma header_block_end_none: "newline \<notin> set l \<Longrightarrow> header_block_end l = None"
  by (induction l) auto

lemma not_blank_line:
  assumes "newline \<notin> set w" "strip_cr w \<noteq> []"
  shows "\<not> starts_with [newline] (w @ newline # x)" "\<not> starts_with [CHR 0x0D, newline] (w @ newline # x)"
    "\<not> starts_with [newline] w" "\<not> starts_with [CHR 0x0D, newline] w"
  using assms by (auto simp: str_simps strip_cr_nonempty append_eq_Cons_conv)

text \<open>No terminator lies before the end of the last of some nonempty lines.\<close>

lemma header_block_end_unlines:
  assumes "\<forall>l\<in>set ls. newline \<notin> set l \<and> strip_cr l \<noteq> []" and "newline \<notin> set raw" "strip_cr raw \<noteq> []"
    and "rest = [] \<or> hd rest = newline"
  shows "case header_block_end (unlines ls @ raw @ rest) of None \<Rightarrow> True
    | Some n \<Rightarrow> length (unlines ls @ raw) < n \<and> rest \<noteq> []"
  using assms(1)
proof (induction ls)
  case Nil
  then show ?case
  proof (cases rest)
    case (Cons c r)
    then show ?thesis
      using assms(2,4) header_block_end_line [of raw r]
      by (auto simp: unlines_def split: option.splits)
  qed (use assms(2) in \<open>simp add: header_block_end_none unlines_def\<close>)
next
  case (Cons l ls)
  let ?s = "unlines ls @ raw @ rest"
  have "\<not> starts_with [newline] ?s" "\<not> starts_with [CHR 0x0D, newline] ?s"
    using assms(2-4) Cons.prems not_blank_line
    by (cases ls; cases rest; force simp: unlines_def)+
  then show ?case
    using Cons header_block_end_line [of l ?s]
    by (auto simp: unlines_def split: option.splits)
qed

lemma host_line_skip: "other_line l \<Longrightarrow> host_line (l # rest) = host_line rest"
  by (auto simp: other_line_def Let_def split: option.splits)

lemma host_line_here:
  assumes "strip_cr raw = name @ CHR '':'' # v" "CHR '':'' \<notin> set name" "eq_nocase (trim_ascii name) ''host''"
  shows "host_line (raw # rest) = Some (host_answer v)"
  using assms by (simp add: Let_def host_answer_def)

lemma host_line_unlines:
  assumes "\<forall>l\<in>set ls. other_line l"
  shows "host_line (split_char newline (unlines ls @ s)) = host_line (split_char newline s)"
  using assms
proof (induction ls)
  case (Cons l ls)
  then have "split_char newline (unlines (l # ls) @ s) = l # split_char newline (unlines ls @ s)"
    by (simp add: unlines_def other_line_def split_char_app)
  then show ?case using Cons host_line_skip by simp
qed (simp add: unlines_def)

lemma parse_http_host_line:
  assumes "looks_like_http (unlines ls @ raw @ rest)" "\<forall>l\<in>set ls. other_line l"
    and "newline \<notin> set raw" "strip_cr raw = name @ CHR '':'' # v" "CHR '':'' \<notin> set name"
    and "eq_nocase (trim_ascii name) ''host''" "rest = [] \<or> hd rest = newline"
  shows "parse_http_host (unlines ls @ raw @ rest) = host_answer v"
proof -
  let ?b = "unlines ls @ raw @ rest"
  have e: "case header_block_end ?b of None \<Rightarrow> True | Some n \<Rightarrow> length (unlines ls @ raw) < n \<and> rest \<noteq> []"
    by (rule header_block_end_unlines) (use assms in \<open>auto simp: other_line_def\<close>)
  obtain rest' where h: "(case header_block_end ?b of None \<Rightarrow> ?b | Some n \<Rightarrow> take n ?b) = unlines ls @ raw @ rest'"
    and r: "rest' = [] \<or> hd rest' = newline"
  proof (cases "header_block_end ?b")
    case None
    then show ?thesis using that [of rest] assms(7) by simp
  next
    case (Some n)
    then show ?thesis
      using e assms(7) that [of "take (n - length (unlines ls @ raw)) rest"]
      by (auto simp: take_Cons' hd_conv_nth)
  qed
  have "host_line (split_char newline (unlines ls @ raw @ rest')) = host_line (split_char newline (raw @ rest'))"
    by (rule host_line_unlines [OF assms(2)])
  also have "\<dots> = Some (host_answer v)"
  proof (cases rest')
    case Nil
    then show ?thesis
      using split_char_nodelim [OF assms(3)] host_line_here [OF assms(4-6)] by simp
  next
    case (Cons c r)
    then show ?thesis
      using split_char_app [OF assms(3), of r] host_line_here [OF assms(4-6)] r by simp
  qed
  finally show ?thesis
    using assms(1) h by (simp add: parse_http_host_def Let_def)
qed

section \<open>The loop\<close>

lemma peek_at_least_bound: "peek_at_least cap want evs = Some (Some n, evs') \<Longrightarrow> n \<le> cap \<and> 0 < n"
  by (induction cap want evs rule: peek_at_least.induct) (auto split: if_splits option.splits)

definition is_elapsed :: "peek_event \<Rightarrow> bool" where
  "is_elapsed e \<longleftrightarrow> (\<exists>outcome. e = Elapsed outcome)"

lemma peek_at_least_returns:
  "filter is_elapsed evs \<noteq> [] \<Longrightarrow> \<exists>r evs'. peek_at_least cap want evs = Some (r, evs')
     \<and> length (filter is_elapsed evs) \<le> Suc (length (filter is_elapsed evs'))"
  by (induction cap want evs rule: peek_at_least.induct) (auto simp: is_elapsed_def)

lemma look_window: "max_peek \<le> have \<Longrightarrow> look is_tls input have \<noteq> Inr None"
  by (auto simp: look_def split: tls_parse.splits http_parse.splits sum.splits if_splits)
    (auto simp: map_sum_def split: sum.splits tls_parse.splits)

lemma look_no_panic: "look is_tls input have \<noteq> Inl e"
  using parse_tls_sni_sound [of "take have input"] by (auto simp: look_def tls_sound_def)

lemma classify_loop_returns:
  assumes "max_peek - have < length (filter is_elapsed evs)"
  shows "classify_loop is_tls input have evs \<noteq> None"
  using assms
proof (induction is_tls input "have" evs rule: classify_loop.induct)
  case (1 is_tls input hv evs)
  show ?case
  proof (cases "look is_tls input hv = Inr None")
    case look: True
    then have lt: "hv < max_peek" using look_window leI by blast
    obtain r evs' where p: "peek_at_least (min max_peek (length input)) (min (hv + 1) max_peek) evs = Some (r, evs')"
      and l: "length (filter is_elapsed evs) \<le> Suc (length (filter is_elapsed evs'))"
      using peek_at_least_returns [of evs] 1(2) by (metis length_0_conv not_less_zero)
    show ?thesis
    proof (cases "\<exists>n. r = Some n \<and> hv < n")
      case True
      then obtain n where n: "r = Some n" "hv < n" by blast
      have "classify_loop is_tls input n evs' \<noteq> None"
        by (rule "1.IH" [OF look refl p refl n]) (use 1(2) l n(2) lt in linarith)
      then show ?thesis
        using look p n by (simp add: classify_loop.simps [of _ _ hv])
    next
      case False
      then show ?thesis
        using look p by (auto simp: classify_loop.simps [of _ _ hv] split: option.splits)
    qed
  next
    case False
    then show ?thesis
      by (cases "look is_tls input hv") (auto simp: classify_loop.simps [of is_tls _ hv] split: option.splits)
  qed
qed

lemma classify_loop_name:
  assumes "classify_loop is_tls input hv evs = Some (Inr (InTls (Some name)))" "hv \<le> max_peek"
  shows "parse_tls_sni (take max_peek input) = Inr (Sni name)"
  using assms
proof (induction is_tls input hv evs rule: classify_loop.induct)
  case (1 is_tls input hv evs)
  consider (settled) "look is_tls input hv = Inr (Some (InTls (Some name)))" | (more) "look is_tls input hv = Inr None"
    using 1(2) look_no_panic [of is_tls input hv]
    by (subst (asm) classify_loop.simps) (auto split: sum.splits option.splits)
  then show ?case
  proof cases
    case settled
    then have "parse_tls_sni (take hv input) = Inr (Sni name)"
      by (auto simp: look_def split: if_splits http_parse.splits)
        (auto simp: map_sum_def split: sum.splits tls_parse.splits if_splits)
    moreover have "take max_peek input = take hv input @ drop hv (take max_peek input)"
      using 1(3) append_take_drop_id [of hv "take max_peek input"] by (simp add: min_absorb1)
    ultimately show ?thesis using parse_tls_sni_stable by metis
  next
    case more
    then obtain n evs' where p: "peek_at_least (min max_peek (length input)) (min (hv + 1) max_peek) evs = Some (Some n, evs')"
      and n: "hv < n" and r: "classify_loop is_tls input n evs' = Some (Inr (InTls (Some name)))"
      using 1(2) by (subst (asm) (2) classify_loop.simps) (auto split: option.splits if_splits)
    have "n \<le> max_peek" using peek_at_least_bound [OF p] by simp
    then show ?thesis using "1.IH" [OF more refl p refl refl n r] by simp
  qed
qed

lemma classify_loop_no_panic: "classify_loop is_tls input hv evs = Some r \<Longrightarrow> \<exists>a. r = Inr a"
proof (induction is_tls input hv evs rule: classify_loop.induct)
  case (1 is_tls input hv evs)
  show ?case
  proof (cases "look is_tls input hv = Inr None")
    case True
    then show ?thesis
      using 1 by (subst (asm) (2) classify_loop.simps) (fastforce split: option.splits if_splits)
  next
    case False
    then show ?thesis
      using 1(2) look_no_panic [of is_tls input hv]
      by (subst (asm) classify_loop.simps) (auto split: sum.splits option.splits)
  qed
qed

section \<open>Properties\<close>

definition sample_hello :: client_hello where
  "sample_hello = \<lparr>ch_record_version = [CHR 0x03, CHR 0x01], ch_fixed = replicate 34 CHR 0x07, ch_session = [],
     ch_ciphers = [CHR 0x13, CHR 0x01], ch_compression = [CHR 0x00],
     ch_extensions = [(10, [CHR 0x00, CHR 0x02, CHR 0x00, CHR 0x17]), (0, server_name ''a.co'')]\<rparr>"

lemma sample_hello_ok: "hello_ok sample_hello" "length (hello_body sample_hello) < 65532"
  "length (hello_bytes sample_hello) \<le> max_peek"
  by (simp_all add: hello_ok_def sample_hello_def server_name_def u16_bytes_def hello_bytes_def hello_header_def
      hello_body_def hello_middle_def u24_bytes_def max_peek_def)

text \<open>C26. Name extraction: whatever bytes follow it, a well-formed ClientHello parses to the name its
  first server\_name extension carries, wherever that extension stands, and to no name when there is
  no such extension.\<close>

theorem hello_name_found:
  assumes "hello_ok ch" and "length (hello_body ch) < 65532"
  shows "(map_of (ch_extensions ch) 0 = None \<longrightarrow> parse_tls_sni (hello_bytes ch @ rest) = Inr NoSni)
    \<and> (map_of (ch_extensions ch) 0 = Some (server_name h) \<and> h \<noteq> [] \<and> utf8_ok h
        \<longrightarrow> parse_tls_sni (hello_bytes ch @ rest) = Inr (Sni h))"
proof -
  have "length h + 3 < 65536" if "map_of (ch_extensions ch) 0 = Some (server_name h)"
    using map_of_SomeD [OF that] assms(1) by (auto simp: hello_ok_def server_name_def)
  then show ?thesis
    using parse_hello_bytes [OF assms] parse_server_name by (simp add: hello_answer_def)
qed

lemma hello_name_found_witness:
  "parse_tls_sni (hello_bytes sample_hello @ ''xy'') = Inr (Sni ''a.co'')"
  using hello_name_found [OF sample_hello_ok(1,2), of "''xy''" "''a.co''"]
  by (simp add: sample_hello_def)

text \<open>C9. No wrong or unsafe name: classification never panics on any bytes, and a TLS name it
  reports, however the bytes trickled in, is nonempty valid UTF-8 copied from the input and is the
  name the whole peek window carries; if the client sent a well-formed ClientHello that fits the
  window, it is the name the client asked for.\<close>

theorem classify_name_sound:
  assumes "classify input evs = Some r"
  shows "\<exists>a. r = Inr a \<and> (\<forall>name. a = InTls (Some name) \<longrightarrow>
      parse_tls_sni (take max_peek input) = Inr (Sni name) \<and> name \<noteq> [] \<and> utf8_ok name \<and> sublist name input
      \<and> (\<forall>ch rest h. hello_ok ch \<and> length (hello_body ch) < 65532 \<and> input = hello_bytes ch @ rest
          \<and> length (hello_bytes ch) \<le> max_peek \<and> map_of (ch_extensions ch) 0 = Some (server_name h)
          \<and> h \<noteq> [] \<and> utf8_ok h \<longrightarrow> name = h))"
proof -
  obtain a where a: "r = Inr a"
    using assms classify_loop_no_panic by (fastforce simp: classify_def split: option.splits)
  have "parse_tls_sni (take max_peek input) = Inr (Sni name)" if n: "a = InTls (Some name)" for name
  proof -
    obtain hv evs' where p: "peek_at_least (min max_peek (length input)) 1 evs = Some (Some hv, evs')"
      and l: "classify_loop (byte (input ! 0) = 22) input hv evs' = Some (Inr (InTls (Some name)))"
      using assms a n by (auto simp: classify_def split: option.splits)
    show ?thesis
      using peek_at_least_bound [OF p] by (intro classify_loop_name [OF l]) simp
  qed
  moreover have "name \<noteq> [] \<and> utf8_ok name \<and> sublist name input"
    if "parse_tls_sni (take max_peek input) = Inr (Sni name)" for name
    using parse_tls_sni_sound [of "take max_peek input"] that
    by (auto simp: tls_sound_def intro: sublist_order.order.trans [OF _ sublist_take])
  moreover have "name = h"
    if "parse_tls_sni (take max_peek input) = Inr (Sni name)" "hello_ok ch" "length (hello_body ch) < 65532"
      "input = hello_bytes ch @ rest" "length (hello_bytes ch) \<le> max_peek"
      "map_of (ch_extensions ch) 0 = Some (server_name h)" "h \<noteq> []" "utf8_ok h" for name ch rest h
  proof -
    have "length h + 3 < 65536"
      using map_of_SomeD [OF that(6)] that(2) by (auto simp: hello_ok_def server_name_def)
    then show ?thesis
      using that parse_hello_bytes [OF that(2,3)] parse_server_name [OF that(7,8)]
      by (simp add: hello_answer_def)
  qed
  ultimately show ?thesis
    by (intro exI [of _ a] conjI a allI impI) blast+
qed

lemma classify_name_sound_witness:
  "\<exists>a. (Inr (InTls (Some ''a.co'')) :: (panic, inbound) result) = Inr a \<and> (\<forall>name. a = InTls (Some name) \<longrightarrow>
      parse_tls_sni (take max_peek (hello_bytes sample_hello)) = Inr (Sni name) \<and> name \<noteq> [] \<and> utf8_ok name
      \<and> sublist name (hello_bytes sample_hello)
      \<and> (\<forall>ch rest h. hello_ok ch \<and> length (hello_body ch) < 65532 \<and> hello_bytes sample_hello = hello_bytes ch @ rest
          \<and> length (hello_bytes ch) \<le> max_peek \<and> map_of (ch_extensions ch) 0 = Some (server_name h)
          \<and> h \<noteq> [] \<and> utf8_ok h \<longrightarrow> name = h))"
proof (rule classify_name_sound)
  let ?n = "length (hello_bytes sample_hello)"
  have p: "parse_tls_sni (hello_bytes sample_hello @ []) = Inr (Sni ''a.co'')"
    using parse_hello_bytes [OF sample_hello_ok(1,2), of "[]"] parse_server_name [of "''a.co''"]
    by (simp add: hello_answer_def sample_hello_def)
  have h: "byte (hello_bytes sample_hello ! 0) = 22" "0 < ?n" "1 \<le> ?n"
    by (simp_all add: hello_bytes_def hello_header_def)
  show "classify (hello_bytes sample_hello) [Peeked ?n] = Some (Inr (InTls (Some ''a.co'')))"
    using p h sample_hello_ok(3)
    by (simp add: classify_def classify_loop.simps [of True] look_def min_absorb2)
qed

lemma header_block_end_done:
  assumes "ls \<noteq> []" "\<forall>l\<in>set ls. newline \<notin> set l \<and> strip_cr l \<noteq> []" "blank \<in> {[newline], [CHR 0x0D, newline]}"
  shows "header_block_end (unlines ls @ blank @ body) = Some (length (unlines ls @ blank))"
  using assms(1,2)
proof (induction ls)
  case (Cons l ls)
  show ?case
  proof (cases ls)
    case Nil
    then show ?thesis
      using Cons.prems assms(3) header_block_end_line [of l "blank @ body"]
      by (auto simp: unlines_def str_simps)
  next
    case (Cons l' ls')
    have "\<not> starts_with [newline] (unlines ls @ blank @ body)"
      "\<not> starts_with [CHR 0x0D, newline] (unlines ls @ blank @ body)"
      using Cons.prems not_blank_line by (force simp: Cons unlines_def)+
    then show ?thesis
      using Cons.IH Cons.prems Cons header_block_end_line [of l "unlines ls @ blank @ body"]
      by (simp add: unlines_def)
  qed
qed simp

lemma parse_http_no_host:
  assumes "ls \<noteq> []" "\<forall>l\<in>set ls. other_line l" "looks_like_http (unlines ls @ blank @ body)"
    and "blank \<in> {[newline], [CHR 0x0D, newline]}"
  shows "parse_http_host (unlines ls @ blank @ body) = NoHost"
proof -
  have "header_block_end (unlines ls @ blank @ body) = Some (length (unlines ls @ blank))"
    by (rule header_block_end_done) (use assms in \<open>auto simp: other_line_def\<close>)
  moreover have "host_line (split_char newline (unlines ls @ blank)) = None"
    using assms(4) host_line_unlines [OF assms(2), of blank]
    by (auto simp: strip_cr_def strip_suffix_def)
  ultimately show ?thesis
    using assms(3) by (simp add: parse_http_host_def Let_def)
qed

text \<open>C28. Host extraction: the value of the first Host header, trimmed, is the routing key, whatever
  lines precede it and whatever bytes follow its line, a binary body included; it is refused only
  when it is blank or not UTF-8; and a finished head without a Host header has no key.\<close>

theorem http_host_found:
  assumes "\<forall>l\<in>set ls. other_line l"
    and "newline \<notin> set raw" and "strip_cr raw = name @ CHR '':'' # v" and "CHR '':'' \<notin> set name"
    and "eq_nocase (trim_ascii name) ''host''" and "looks_like_http (unlines ls @ raw @ newline # rest)"
    and "ls \<noteq> []" and "blank \<in> {[newline], [CHR 0x0D, newline]}" and "looks_like_http (unlines ls @ blank @ body)"
  shows "parse_http_host (unlines ls @ raw @ newline # rest)
      = (if utf8_ok (trim_ascii v) \<and> trim_ascii v \<noteq> [] then Host (trim_ascii v) else NoHost)
    \<and> parse_http_host (unlines ls @ blank @ body) = NoHost"
  using parse_http_host_line [OF assms(6,1-5)] parse_http_no_host [OF assms(7,1,9,8)]
  by (simp add: host_answer_def)

lemma http_host_found_witness:
  "parse_http_host (unlines [''GET / HTTP/1.1'', ''Accept: */*''] @ ''HOST:  a.com '' @ newline # [CHR 0xFF])
      = (if utf8_ok (trim_ascii ''  a.com '') \<and> trim_ascii ''  a.com '' \<noteq> [] then Host (trim_ascii ''  a.com '') else NoHost)
    \<and> parse_http_host (unlines [''GET / HTTP/1.1'', ''Accept: */*''] @ [newline] @ ''x'') = NoHost"
  by (rule http_host_found [where name = "''HOST''"]) code_simp+

text \<open>C27. A head cut by a segment boundary is answered too early. When the bytes seen so far end just
  after some extension that precedes the server name, the connection is classified as TLS without a
  name; and when they end inside a Host value, the part of the value seen so far is taken as the
  routing key.\<close>

theorem cut_head_answers:
  assumes "hello_ok ch" and "length (hello_body ch) < 65532" and "ch_extensions ch = es @ es'"
    and "map_of es 0 = None" and "n = 45 + length (hello_middle ch) + length (ext_bytes es)" and "n \<le> max_peek"
    and "\<forall>l\<in>set ls. other_line l" and "head = unlines ls @ name @ CHR '':'' # v" and "length head \<le> max_peek"
    and "newline \<notin> set name \<union> set v" and "CHR 0x0D \<notin> set v" and "CHR '':'' \<notin> set name"
    and "eq_nocase (trim_ascii name) ''host''" and "looks_like_http head"
    and "utf8_ok (trim_ascii v)" and "trim_ascii v \<noteq> []"
  shows "classify (hello_bytes ch @ rest) (Peeked n # evs) = Some (Inr (InTls None))
    \<and> classify (head @ rest') (Peeked (length head) # evs) = Some (Inr (InHttp (Some (trim_ascii v))))"
proof
  have "length (ext_bytes es) \<le> length (ext_bytes (es @ es'))" for es es'
    by (induction es rule: ext_bytes.induct) auto
  then have n: "n \<le> length (hello_bytes ch)" "0 < n"
    using hello_header_reads(5) [OF assms(1)] assms(1-3) unfolding assms(5)
    by (auto simp: hello_bytes_def hello_body_def hello_ok_def)
  have t: "take n (hello_bytes ch @ rest) = take n (hello_bytes ch)" using n by simp
  have "parse_tls_sni (take n (hello_bytes ch @ rest)) = Inr NoSni"
    unfolding t using parse_hello_cut [OF assms(1-3)] assms(4,5) by (simp add: hello_answer_def)
  moreover have "byte ((hello_bytes ch @ rest) ! 0) = 22"
    by (simp add: hello_bytes_def hello_header_def)
  ultimately show "classify (hello_bytes ch @ rest) (Peeked n # evs) = Some (Inr (InTls None))"
    using n assms(6) by (simp add: classify_def classify_loop.simps [of True] look_def min_absorb1)
next
  have cr: "strip_cr (name @ CHR '':'' # v) = name @ CHR '':'' # v"
    using assms(11) by (cases v rule: rev_cases) (auto simp: strip_cr_def str_simps split: option.splits)
  have "parse_http_host (unlines ls @ (name @ CHR '':'' # v) @ []) = host_answer v"
    by (rule parse_http_host_line [OF _ assms(7) _ cr assms(12,13)]) (use assms(8,10,14) in auto)
  then have p: "parse_http_host head = Host (trim_ascii v)"
    using assms(8,15,16) by (simp add: host_answer_def)
  have "head \<noteq> []" "hd head \<noteq> CHR 0x16"
    using assms(14) by (auto simp: looks_like_http_def http_methods_def str_simps)
  then obtain c t where c: "head = c # t" "c \<noteq> CHR 0x16" by (cases head) auto
  have "byte c \<noteq> byte (CHR 0x16)" using c(2) by (simp only: of_char_eq_iff not_False_eq_True)
  then have h: "(byte ((head @ rest') ! 0) = 22) = False" "0 < length head" "1 \<le> length head"
    using c(1) by simp_all
  have "look False (head @ rest') (length head) = Inr (Some (InHttp (Some (trim_ascii v))))"
    using p by (simp add: look_def)
  then have "classify_loop False (head @ rest') (length head) evs = Some (Inr (InHttp (Some (trim_ascii v))))"
    by (subst classify_loop.simps) simp
  moreover have "min (length head) (min max_peek (length (head @ rest'))) = length head"
    using assms(9) by simp
  ultimately show "classify (head @ rest') (Peeked (length head) # evs) = Some (Inr (InHttp (Some (trim_ascii v))))"
    using h by (simp add: classify_def)
qed

lemma cut_head_answers_witness:
  "classify (hello_bytes sample_hello @ ''x'') [Peeked 60] = Some (Inr (InTls None))
   \<and> classify ((unlines [''GET / HTTP/1.1''] @ ''Host'' @ CHR '':'' # '' a.co'') @ ''m'')
       [Peeked (length (unlines [''GET / HTTP/1.1''] @ ''Host'' @ CHR '':'' # '' a.co''))]
     = Some (Inr (InHttp (Some (trim_ascii '' a.co''))))"
proof (rule cut_head_answers [OF sample_hello_ok(1,2), where es = "[(10, [CHR 0x00, CHR 0x02, CHR 0x00, CHR 0x17])]"
      and es' = "[(0, server_name ''a.co'')]" and ls = "[''GET / HTTP/1.1'']" and name = "''Host''" and v = "'' a.co''"])
  show "60 = 45 + length (hello_middle sample_hello) + length (ext_bytes [(10, [CHR 0x00, CHR 0x02, CHR 0x00, CHR 0x17])])"
    by (simp add: hello_middle_def sample_hello_def)
  show "(60 :: nat) \<le> max_peek" "length (unlines [''GET / HTTP/1.1''] @ ''Host'' @ CHR '':'' # '' a.co'') \<le> max_peek"
    by (simp_all add: max_peek_def unlines_def)
qed (simp add: sample_hello_def | code_simp)+

text \<open>C29. Classification always comes to an answer: every peek call returns at the latest when its
  timeout fires, every further round sees more bytes than the one before, and the window is
  bounded, so after that many expiries at most there is an answer, and it is no panic.\<close>

theorem classify_answers:
  assumes "max_peek < length (filter is_elapsed evs)"
  shows "\<exists>a. classify input evs = Some (Inr a)"
proof -
  obtain r evs' where p: "peek_at_least (min max_peek (length input)) 1 evs = Some (r, evs')"
    and l: "length (filter is_elapsed evs) \<le> Suc (length (filter is_elapsed evs'))"
    using peek_at_least_returns [of evs] assms by (metis length_0_conv not_less_zero)
  show ?thesis
  proof (cases r)
    case (Some n)
    then have "max_peek - n < length (filter is_elapsed evs')"
      using peek_at_least_bound p assms l by fastforce
    then show ?thesis
      using p Some classify_loop_returns classify_loop_no_panic by (fastforce simp: classify_def)
  qed (simp add: classify_def p)
qed

lemma classify_answers_witness: "\<exists>a. classify ''GET'' (replicate 8193 (Elapsed (Some 2))) = Some (Inr a)"
  by (rule classify_answers) (simp add: max_peek_def is_elapsed_def)

end
