(* ===== verification/Proxy.thy ===== *)
theory Proxy
  imports Dial Peek
begin

text \<open>
  One connection of a listener (\<open>src/src/proxy.rs\<close>): routing by the peeked key, the order in which the two
  handshakes run, which ALPN each of them offers, what happens when something fails, and the byte pump.

  A connection's run is the list of its externally visible actions, in order, and its result. The
  client's side, the DNS and pool answers and the splice are the fields of \<open>conn_world\<close>; the upstream's
  side is the network of the theory \<open>Dial\<close>.
\<close>

section \<open>Names\<close>

definition strip_port :: "string \<Rightarrow> string" where
  "strip_port host =
     (case strip_prefix ''['' host of
        Some rest \<Rightarrow> (case split_once CHR '']'' rest of Some (inner, tail) \<Rightarrow> inner | None \<Rightarrow> rest)
      | None \<Rightarrow>
          if 1 < count_list host CHR '':'' then host
          else (case split_char CHR '':'' host of [] \<Rightarrow> host | h # _ \<Rightarrow> h))"

definition upstream_dial_host :: "proxy_upstream \<Rightarrow> string option \<Rightarrow> string option" where
  "upstream_dial_host up key =
     (case up of
        UpDirect (Some fixed) family nat64 \<Rightarrow> Some fixed
      | UpDirect None family nat64 \<Rightarrow> map_option strip_port key
      | UpPool \<Rightarrow> None)"

section \<open>The world of a connection\<close>

record 'r conn_world =
  cw_lib :: ech_lib
  cw_net :: "'r upstream_net"
  cw_lookup :: "string \<Rightarrow> nat \<Rightarrow> address_family \<Rightarrow> nat64_prefix option \<Rightarrow> (anyhow, resolved_addrs) result"
  cw_pick :: "nat \<Rightarrow> socket_addr option"
  cw_observes :: bool
  cw_peer :: "socket_addr \<Rightarrow> socket_addr option"
  cw_hello :: "string list option option"
  cw_accept :: "string list \<Rightarrow> bool"
  cw_system :: "string \<Rightarrow> nat \<Rightarrow> socket_addr option"
  cw_splice :: bool
  cw_upload :: nat
  cw_download :: nat
  cw_elapsed :: nat

datatype action =
    InboundTls "string list"
  | UpstreamTls string session
  | Coverage string "string list"
  | Spliced socket_addr
  | Observed ip_addr nat nat
  | Closed

type_synonym 'r outcome = "'r ech_state \<times> action list \<times> (proxy_error, unit) result"

definition upstream_resolve :: "'r conn_world \<Rightarrow> proxy_upstream \<Rightarrow> nat \<Rightarrow> string option
    \<Rightarrow> (proxy_error, resolved_addrs) result" where
  "upstream_resolve w up port dial_host =
     (case up of
        UpDirect fixed family nat64 \<Rightarrow>
          (case dial_host of None \<Rightarrow> Inl ErrNoHost
           | Some host \<Rightarrow> map_sum ErrResolve (\<lambda>a. a) (cw_lookup w host port family nat64))
      | UpPool \<Rightarrow> (case cw_pick w port of None \<Rightarrow> Inl ErrPool | Some a \<Rightarrow> Inr (ra_single a)))"

section \<open>Server configurations\<close>

text \<open>The listener's four server configurations differ in the ALPN list they advertise, and only in it.\<close>

record server_configs =
  sv_none :: "string list"
  sv_h1 :: "string list"
  sv_h2 :: "string list"
  sv_h2h1 :: "string list"

definition listener_configs :: server_configs where
  "listener_configs = \<lparr>sv_none = [], sv_h1 = [alpn_h1], sv_h2 = [alpn_h2], sv_h2h1 = [alpn_h2, alpn_h1]\<rparr>"

definition mirror_choice :: "server_configs \<Rightarrow> string option \<Rightarrow> bool \<Rightarrow> string list" where
  "mirror_choice configs upstream_selected client_offered_any =
     (if upstream_selected = Some alpn_h2 then sv_h2 configs
      else if upstream_selected = Some alpn_h1 then sv_h1 configs
      else if \<not> client_offered_any then sv_none configs
      else sv_h1 configs)"

section \<open>Splicing\<close>

definition transfer_observer :: "'r conn_world \<Rightarrow> 'r route_runtime \<Rightarrow> socket_addr option \<Rightarrow> ip_addr option" where
  "transfer_observer w rt addr =
     (case rr_upstream rt of
        UpDirect _ _ _ \<Rightarrow> None
      | UpPool \<Rightarrow> if \<not> cw_observes w then None else map_option sock_ip addr)"

text \<open>\<open>Report::drop\<close>, in nanoseconds: nothing is reported for a transfer of no bytes.\<close>

definition report_drop :: "ip_addr option \<Rightarrow> nat \<Rightarrow> nat \<Rightarrow> nat \<Rightarrow> action list" where
  "report_drop observer upload download elapsed =
     (case observer of None \<Rightarrow> []
      | Some addr \<Rightarrow>
          (let bytes = min (upload + download) (2 ^ 64 - 1) in
           if bytes = 0 then [] else [Observed addr bytes (max elapsed 1)]))"

definition splice :: "'r conn_world \<Rightarrow> socket_addr \<Rightarrow> ip_addr option \<Rightarrow> action list \<times> (proxy_error, unit) result" where
  "splice w up observer =
     (Spliced up # report_drop observer (cw_upload w) (cw_download w) (cw_elapsed w),
      if cw_splice w then Inr () else Inl ErrSplice)"

section \<open>Serving\<close>

definition record_upstream_coverage :: "'r route_runtime \<Rightarrow> string option \<Rightarrow> session \<Rightarrow> action list" where
  "record_upstream_coverage rt sni s =
     (if rr_sni_policy rt \<noteq> SniReflect then []
      else case sni of None \<Rightarrow> []
        | Some name \<Rightarrow> (case se_chain s of None \<Rightarrow> [] | Some chain \<Rightarrow> [Coverage name chain]))"

text \<open>Dialling the TLS side of a \<open>tls\<close> or \<open>ech\<close> route: the name it is opened with, and the session.\<close>

definition dial_route :: "'r conn_world \<Rightarrow> 'r route_runtime \<Rightarrow> resolved_addrs \<Rightarrow> string option \<Rightarrow> string option
    \<Rightarrow> string list \<Rightarrow> 'r ech_state \<Rightarrow> 'r ech_state \<times> (proxy_error, string \<times> session) result" where
  "dial_route w rt addrs sni dial_host offer st =
     (if rr_type rt = RtTls then
        (st, res_bind (tls_verification_name rt sni dial_host) (\<lambda>name.
             res_bind (dial_tls (cw_net w) addrs name rt offer) (\<lambda>s. Inr (name, s))))
      else
        (case ech_inner_name rt sni of Inl e \<Rightarrow> (st, Inl e)
         | Inr inner \<Rightarrow>
            (case dial_ech (cw_lib w) (cw_net w) addrs inner rt offer st of
               (st', Inl e) \<Rightarrow> (st', Inl e)
             | (st', Inr s) \<Rightarrow> (st', Inr (inner, s)))))"

definition forward :: "'r conn_world \<Rightarrow> 'r route_runtime \<Rightarrow> string option \<Rightarrow> string option \<Rightarrow> 'r ech_state \<Rightarrow> 'r outcome" where
  "forward w rt sni dial_host st =
     (case upstream_resolve w (rr_upstream rt) (rr_port rt) dial_host of Inl e \<Rightarrow> (st, [], Inl e)
      | Inr addrs \<Rightarrow>
        (case rr_type rt of
           RtHttp \<Rightarrow>
             (case dial (un_connect (cw_net w) 0) addrs (rr_connect_timeout rt) of
                Inl e \<Rightarrow> (st, [], Inl (ErrDial e))
              | Inr up \<Rightarrow> (st, splice w up (transfer_observer w rt (cw_peer w up))))
         | RtRaw \<Rightarrow> (st, [], Inl ErrUnreachable)
         | _ \<Rightarrow>
             (case dial_route w rt addrs sni dial_host [] st of
                (st', Inl e) \<Rightarrow> (st', [], Inl e)
              | (st', Inr (name, s)) \<Rightarrow>
                  (case splice w (se_peer s) (transfer_observer w rt (cw_peer w (se_peer s))) of
                     (acts, r) \<Rightarrow> (st', UpstreamTls name s # record_upstream_coverage rt sni s @ acts, r)))))"

definition serve_terminated :: "'r conn_world \<Rightarrow> 'r route_runtime \<Rightarrow> string option \<Rightarrow> string option \<Rightarrow> 'r ech_state
    \<Rightarrow> 'r outcome" where
  "serve_terminated w rt sni dial_host st =
     (let config = (if rr_http2 rt \<and> rr_type rt = RtHttp then sv_h2h1 listener_configs else sv_h1 listener_configs) in
      if cw_hello w = None then (st, [], Inl ErrInboundHello)
      else if \<not> cw_accept w config then (st, [], Inl ErrInboundHandshake)
      else case forward w rt sni dial_host st of (st', acts, r) \<Rightarrow> (st', InboundTls config # acts, r))"

definition serve_mirrored :: "'r conn_world \<Rightarrow> 'r route_runtime \<Rightarrow> string option \<Rightarrow> string option \<Rightarrow> 'r ech_state
    \<Rightarrow> 'r outcome" where
  "serve_mirrored w rt sni dial_host st =
     (case cw_hello w of None \<Rightarrow> (st, [], Inl ErrInboundHello)
      | Some alpn \<Rightarrow>
        (let client_offer = negotiable_alpn alpn in
         case upstream_resolve w (rr_upstream rt) (rr_port rt) dial_host of Inl e \<Rightarrow> (st, [], Inl e)
         | Inr addrs \<Rightarrow>
            (if rr_type rt \<noteq> RtTls \<and> rr_type rt \<noteq> RtEch then (st, [], Inl ErrUnreachable)
             else case dial_route w rt addrs sni dial_host client_offer st of
                (st', Inl e) \<Rightarrow> (st', [], Inl e)
              | (st', Inr (name, s)) \<Rightarrow>
                  (let before = UpstreamTls name s # record_upstream_coverage rt sni s;
                       config = mirror_choice listener_configs (se_alpn s) (client_offer \<noteq> []) in
                   if \<not> cw_accept w config then (st', before, Inl ErrInboundHandshake)
                   else case splice w (se_peer s) (transfer_observer w rt (cw_peer w (se_peer s))) of
                     (acts, r) \<Rightarrow> (st', before @ InboundTls config # acts, r)))))"

section \<open>Failures\<close>

definition apply_fail :: "'r conn_world \<Rightarrow> inbound \<Rightarrow> fail_policy \<Rightarrow> action list \<times> (proxy_error, unit) result" where
  "apply_fail w inb policy =
     (case policy of
        FailClose \<Rightarrow> ([Closed], Inr ())
      | FailPassthrough addr \<Rightarrow>
          (case dial (un_connect (cw_net w) 0) (ra_single addr) 10000 of
             Inl e \<Rightarrow> ([], Inl (ErrDial e))
           | Inr up \<Rightarrow> splice w up None)
      | FailSystemOutbound \<Rightarrow>
          (case inbound_key inb of None \<Rightarrow> ([], Inl ErrNoKeyForOutbound)
           | Some host \<Rightarrow>
              (case cw_system w (strip_port host) (if inbound_is_tls inb then 443 else 80) of
                 None \<Rightarrow> ([], Inl ErrOutbound)
               | Some up \<Rightarrow> splice w up None)))"

definition raw_passthrough :: "'r conn_world \<Rightarrow> 'r route_runtime \<Rightarrow> inbound \<Rightarrow> string option
    \<Rightarrow> action list \<times> (proxy_error, unit) result" where
  "raw_passthrough w rt inb dial_host =
     (case res_bind (upstream_resolve w (rr_upstream rt) (rr_port rt) dial_host) (\<lambda>addrs.
             map_sum ErrDial (\<lambda>a. a) (dial (un_connect (cw_net w) 0) addrs (rr_connect_timeout rt))) of
        Inr up \<Rightarrow> splice w up (transfer_observer w rt (cw_peer w up))
      | Inl e \<Rightarrow> apply_fail w inb (rr_fail rt))"

section \<open>Dispatch\<close>

record ('re, 'r) listener_state =
  ls_router :: "'re router"
  ls_routes :: "'r route_runtime list"
  ls_unmatched :: fail_policy

definition effective_sni :: "'r route_runtime \<Rightarrow> string option \<Rightarrow> string option" where
  "effective_sni rt key =
     (case rr_sni_policy rt of SniFixed fixed \<Rightarrow> Some fixed | _ \<Rightarrow> map_option strip_port key)"

definition dispatch :: "('re \<Rightarrow> string \<Rightarrow> bool) \<Rightarrow> 'r conn_world \<Rightarrow> ('re, 'r) listener_state \<Rightarrow> inbound
    \<Rightarrow> 'r ech_state \<Rightarrow> 'r outcome" where
  "dispatch rxm w ls inb st =
     (let key = inbound_key inb in
      case match_host rxm (ls_router ls) (unwrap_or [] key) of
        None \<Rightarrow> (st, apply_fail w inb (ls_unmatched ls))
      | Some i \<Rightarrow>
        (if length (ls_routes ls) \<le> i then (st, [], Inl ErrUnreachable)
         else
           (let rt = ls_routes ls ! i;
                sni = effective_sni rt key;
                dial_host = upstream_dial_host (rr_upstream rt) key in
            if rr_type rt = RtRaw then (st, raw_passthrough w rt inb dial_host)
            else if inbound_is_tls inb then
              (if rr_http2 rt \<and> rr_type rt \<in> {RtTls, RtEch} then serve_mirrored w rt sni dial_host st
               else serve_terminated w rt sni dial_host st)
            else forward w rt sni dial_host st)))"

section \<open>The byte pump\<close>

text \<open>
  One direction of a splice: the outcomes of the reads, and of the writes that follow each of them
  (a write takes at most what is left of the buffer). \<open>None\<close> is a pump still waiting. The state is
  what has been written and the counter of a tracked transfer.
\<close>

datatype read_event = ReadBytes char string | ReadEof bool | ReadError

datatype write_event = Wrote nat | WriteError

datatype pump_end = PumpDone | PumpFailed | PumpBlocked

definition saturating_add :: "nat \<Rightarrow> nat \<Rightarrow> nat" where
  "saturating_add a b = min (a + b) (2 ^ 64 - 1)"

fun write_all :: "bool \<Rightarrow> string \<Rightarrow> write_event list \<Rightarrow> string \<Rightarrow> nat \<Rightarrow> string \<times> nat \<times> write_event list \<times> pump_end option" where
  "write_all tracked [] ws out bytes = (out, bytes, ws, None)"
| "write_all tracked (b # bs) [] out bytes = (out, bytes, [], Some PumpBlocked)"
| "write_all tracked (b # bs) (WriteError # ws) out bytes = (out, bytes, ws, Some PumpFailed)"
| "write_all tracked (b # bs) (Wrote k # ws) out bytes =
     (if k = 0 then (out, bytes, ws, Some PumpFailed)
      else write_all tracked (drop k (b # bs)) ws (out @ take k (b # bs))
        (if tracked then saturating_add bytes (length (take k (b # bs))) else bytes))"

text \<open>\<open>ReadEof ok\<close> is the end of input, \<open>ok\<close> whether the writer then shuts down without error.\<close>

fun pump :: "bool \<Rightarrow> read_event list \<Rightarrow> write_event list \<Rightarrow> string \<Rightarrow> nat \<Rightarrow> string \<times> nat \<times> pump_end" where
  "pump tracked [] ws out bytes = (out, bytes, PumpBlocked)"
| "pump tracked (ReadError # rs) ws out bytes = (out, bytes, PumpFailed)"
| "pump tracked (ReadEof ok # rs) ws out bytes = (out, bytes, if ok then PumpDone else PumpFailed)"
| "pump tracked (ReadBytes b bs # rs) ws out bytes =
     (case write_all tracked (b # bs) ws out bytes of
        (out', bytes', ws', None) \<Rightarrow> pump tracked rs ws' out' bytes'
      | (out', bytes', ws', Some e) \<Rightarrow> (out', bytes', e))"

section \<open>Facts\<close>

text \<open>What the startup path puts into a runtime, by its type.\<close>

definition runtime_ok :: "'r route_runtime \<Rightarrow> bool" where
  "runtime_ok rt \<longleftrightarrow>
     (rr_type rt = RtTls \<longrightarrow> (\<exists>v. rr_verify rt = Some v
        \<and> rr_tls rt = Some (client_configs_new v (rr_sni_policy rt \<noteq> SniOmit))))
     \<and> (rr_type rt = RtEch \<longrightarrow> (\<exists>pv. rr_ech rt = Some pv \<and> rr_verify rt = Some (pv_verify pv)
        \<and> pv_require pv = rr_require_ech rt \<and> pv_sni pv = (rr_sni_policy rt \<noteq> SniOmit)))"

text \<open>A client never completes a handshake with a protocol it did not offer (RFC 7301; rustls refuses it).\<close>

definition net_ok :: "'r upstream_net \<Rightarrow> bool" where
  "net_ok net \<longleftrightarrow> (\<forall>k cfg name a s p. un_handshake net k cfg name a = HsOk s \<and> se_alpn s = Some p \<longrightarrow> p \<in> set (cl_alpn cfg))"

text \<open>The provider of an ECH route is sound and other connections keep it so.\<close>

definition ech_env_ok :: "'r conn_world \<Rightarrow> 'r route_runtime \<Rightarrow> 'r ech_state \<Rightarrow> bool" where
  "ech_env_ok w rt st \<longleftrightarrow> (\<forall>pv. rr_ech rt = Some pv \<longrightarrow> provider_ok pv st
     \<and> (\<forall>k st. provider_ok pv st \<longrightarrow> provider_ok pv (et_mid (un_ech (cw_net w) k) st)
          \<and> provider_ok pv (et_after (un_ech (cw_net w) k) st)))"

definition name_source :: "'r route_runtime \<Rightarrow> string option \<Rightarrow> string option \<Rightarrow> string \<Rightarrow> bool" where
  "name_source rt sni dial_host name \<longleftrightarrow>
     sni = Some name
     \<or> sni = None \<and> (rr_type rt = RtTls \<and> dial_host = Some name
          \<or> rr_sni_policy rt = SniOmit \<and> (\<exists>v. rr_verify rt = Some v \<and> uv_name v = Some name))"

lemma tls_verification_name_source:
  "tls_verification_name rt sni dh = Inr name \<Longrightarrow> rr_type rt = RtTls \<Longrightarrow> name_source rt sni dh name"
  by (cases sni; cases dh; cases "silent_name_override rt")
    (auto simp: tls_verification_name_def name_source_def silent_name_override_def bind_eq_Some_conv split: if_splits)

lemma ech_inner_name_source: "ech_inner_name rt sni = Inr name \<Longrightarrow> name_source rt sni dh name"
  by (cases sni; cases "silent_name_override rt")
    (auto simp: ech_inner_name_def name_source_def silent_name_override_def bind_eq_Some_conv split: if_splits)

text \<open>The session a \<open>tls\<close> or \<open>ech\<close> route dials with an offer that some client could have made.\<close>

definition session_ok :: "'r route_runtime \<Rightarrow> string option \<Rightarrow> string option \<Rightarrow> string list \<Rightarrow> string \<Rightarrow> session \<Rightarrow> bool" where
  "session_ok rt sni dh offer name s \<longleftrightarrow> name_source rt sni dh name
     \<and> (rr_type rt = RtEch \<and> rr_require_ech rt \<longrightarrow> se_ech s = EchAccepted)
     \<and> (\<forall>p. se_alpn s = Some p \<longrightarrow> p \<in> set offer)"

lemma dial_tls_session:
  assumes "dial_tls net addrs name rt offer = Inr s" and "runtime_ok rt" "rr_type rt = RtTls" "net_ok net"
    and offer: "offer \<in> {[], [alpn_h1], [alpn_h2], [alpn_h2, alpn_h1]}"
  shows "\<forall>p. se_alpn s = Some p \<longrightarrow> p \<in> set offer"
proof -
  obtain v where v: "rr_tls rt = Some (client_configs_new v (rr_sni_policy rt \<noteq> SniOmit))"
    using assms(2,3) by (auto simp: runtime_ok_def)
  define cfg where "cfg = select_config (client_configs_new v (rr_sni_policy rt \<noteq> SniOmit)) offer"
  have "cl_alpn cfg = offer" unfolding cfg_def select_config_offer [OF refl offer] by (simp add: plain_config_def)
  moreover obtain tcp where "un_handshake net 0 cfg name tcp = HsOk s"
    using assms(1) v by (auto simp: dial_tls_def cfg_def split: if_splits sum.splits handshake.splits)
  ultimately show ?thesis using assms(4) unfolding net_ok_def by metis
qed

lemma dial_ech_session:
  assumes d: "dial_ech lib (cw_net w) addrs inner rt offer st = (st', Inr s)" and ok: "ech_env_ok w rt st" "net_ok (cw_net w)"
  shows "(rr_require_ech rt \<longrightarrow> se_ech s = EchAccepted) \<and> (\<forall>p. se_alpn s = Some p \<longrightarrow> p \<in> set offer)"
proof -
  obtain pv where pv: "rr_ech rt = Some pv" using d by (auto simp: dial_ech_def split: option.splits)
  obtain n where l: "dial_ech_loop lib pv (cw_net w) addrs inner rt offer 0 st = (st', n, Inr s)"
    using d pv by (auto simp: dial_ech_def split: if_splits prod.splits)
  have pok: "provider_ok pv st" and others: "\<And>k st. provider_ok pv st \<Longrightarrow>
      provider_ok pv (et_mid (un_ech (cw_net w) k) st) \<and> provider_ok pv (et_after (un_ech (cw_net w) k) st)"
    using ok(1) pv by (auto simp: ech_env_ok_def)
  obtain cfg mode tcp where c: "config_proper pv mode offer cfg" "un_handshake (cw_net w) n cfg inner tcp = HsOk s"
      "rr_require_ech rt \<longrightarrow> se_ech s = EchAccepted"
    using dial_ech_loop_result [OF pok _ others l] by auto
  have "cl_alpn cfg = offer" using c(1) by (simp add: config_proper_def)
  then show ?thesis using c(2,3) ok(2) unfolding net_ok_def by metis
qed

lemma dial_route_session:
  assumes d: "dial_route w rt addrs sni dh offer st = (st', Inr (name, s))"
    and ok: "runtime_ok rt" "net_ok (cw_net w)" "ech_env_ok w rt st" and ty: "rr_type rt = RtTls \<or> rr_type rt = RtEch"
    and offer: "offer \<in> {[], [alpn_h1], [alpn_h2], [alpn_h2, alpn_h1]}"
  shows "session_ok rt sni dh offer name s"
proof (cases "rr_type rt = RtTls")
  case True
  then have "tls_verification_name rt sni dh = Inr name" "dial_tls (cw_net w) addrs name rt offer = Inr s"
    using d by (auto simp: dial_route_def)
  then show ?thesis
    using tls_verification_name_source [of rt sni dh name] dial_tls_session [OF _ ok(1) True ok(2) offer] True
    by (simp add: session_ok_def)
next
  case False
  then have "ech_inner_name rt sni = Inr name" "dial_ech (cw_lib w) (cw_net w) addrs name rt offer st = (st', Inr s)"
    using d by (auto simp: dial_route_def split: sum.splits prod.splits)
  then show ?thesis
    using ech_inner_name_source [of rt sni name dh] dial_ech_session [OF _ ok(3,2)] by (simp add: session_ok_def)
qed

text \<open>Every splice happens on the connection of the upstream session that is open at that point.\<close>

fun protected :: "session option \<Rightarrow> action list \<Rightarrow> bool" where
  "protected cur [] = True"
| "protected cur (UpstreamTls n s # acts) = protected (Some s) acts"
| "protected cur (Spliced p # acts) = ((case cur of None \<Rightarrow> False | Some s \<Rightarrow> p = se_peer s) \<and> protected cur acts)"
| "protected cur (a # acts) = protected cur acts"

definition report_only :: "action list \<Rightarrow> bool" where
  "report_only acts \<longleftrightarrow> (acts = [] \<or> (\<exists>ip n t. acts = [Observed ip n t]))"

lemma splice_shape: "\<exists>rep. fst (splice w up obs) = Spliced up # rep \<and> report_only rep"
  by (auto simp: splice_def report_drop_def report_only_def Let_def split: option.splits)

lemma coverage_shape:
  "record_upstream_coverage rt sni s = [] \<or>
     (\<exists>name chain. rr_sni_policy rt = SniReflect \<and> sni = Some name \<and> se_chain s = Some chain
        \<and> record_upstream_coverage rt sni s = [Coverage name chain])"
  by (cases sni; cases "se_chain s") (auto simp: record_upstream_coverage_def)

text \<open>The runs of a terminating TLS or ECH route, \<open>offer\<close> being what the client offered that can be carried.\<close>

definition tls_run :: "'r route_runtime \<Rightarrow> string option \<Rightarrow> string option \<Rightarrow> string list \<Rightarrow> action list \<Rightarrow> bool" where
  "tls_run rt sni dh offer acts \<longleftrightarrow>
     acts = [] \<or> acts = [InboundTls [alpn_h1]]
     \<or> (\<exists>pre name s rep. pre \<in> {[], [InboundTls [alpn_h1]]} \<and> session_ok rt sni dh [] name s \<and> report_only rep
          \<and> acts = pre @ UpstreamTls name s # record_upstream_coverage rt sni s @ Spliced (se_peer s) # rep)
     \<or> (\<exists>name s rep config. rr_http2 rt \<and> session_ok rt sni dh offer name s \<and> report_only rep
          \<and> config = mirror_choice listener_configs (se_alpn s) (offer \<noteq> [])
          \<and> acts \<in> {UpstreamTls name s # record_upstream_coverage rt sni s,
                    UpstreamTls name s # record_upstream_coverage rt sni s @ InboundTls config # Spliced (se_peer s) # rep})"

lemma dial_ech_loop_reachable:
  "dial_ech_loop lib pv net addrs inner rt alpn attempt st = (st', n, Inl e) \<Longrightarrow> e \<noteq> ErrUnreachable"
proof (induction lib pv net addrs inner rt alpn attempt st rule: dial_ech_loop.induct)
  case (1 lib pv net addrs inner rt alpn attempt st)
  show ?case
    using 1(2) by (subst (asm) dial_ech_loop.simps)
      (auto split: prod.splits sum.splits handshake.splits if_splits dest!: 1(1) [OF sym])
qed

lemma dial_route_reachable:
  assumes "dial_route w rt addrs sni dh offer st = (st', Inl e)"
  shows "e \<noteq> ErrUnreachable"
proof (cases "rr_type rt = RtTls")
  case True
  then show ?thesis
    using assms by (cases "first_some [sni, dh, silent_name_override rt]")
      (auto simp: dial_route_def tls_verification_name_def dial_tls_def
        split: sum.splits option.splits if_splits handshake.splits)
next
  case False
  have "e \<noteq> ErrUnreachable" if "dial_ech (cw_lib w) (cw_net w) addrs inner rt offer st = (st', Inl e)" for inner
    using that dial_ech_loop_reachable by (fastforce simp: dial_ech_def split: option.splits if_splits prod.splits)
  then show ?thesis
    using assms False by (cases "first_some [sni, silent_name_override rt]")
      (auto simp: dial_route_def ech_inner_name_def split: sum.splits prod.splits)
qed

lemma resolve_reachable: "upstream_resolve w up port dh = Inl e \<Longrightarrow> e \<noteq> ErrUnreachable"
  by (auto simp: upstream_resolve_def map_sum_def split: proxy_upstream.splits option.splits sum.splits)

lemma splice_cases: "splice w up obs = (acts, r) \<Longrightarrow> (\<exists>rep. acts = Spliced up # rep \<and> report_only rep) \<and> r \<noteq> Inl ErrUnreachable"
  using splice_shape [of w up obs] by (auto simp: splice_def split: if_splits)

lemma forward_run:
  assumes f: "forward w rt sni dh st = (st', acts, r)" and ty: "rr_type rt = RtTls \<or> rr_type rt = RtEch"
    and ok: "runtime_ok rt" "net_ok (cw_net w)" "ech_env_ok w rt st"
  shows "r \<noteq> Inl ErrUnreachable \<and> (acts = [] \<or> (\<exists>name s rep. session_ok rt sni dh [] name s \<and> report_only rep
          \<and> acts = UpstreamTls name s # record_upstream_coverage rt sni s @ Spliced (se_peer s) # rep))"
proof (cases "upstream_resolve w (rr_upstream rt) (rr_port rt) dh")
  case (Inl e)
  then show ?thesis using f resolve_reachable [OF Inl] by (auto simp: forward_def)
next
  case (Inr addrs)
  obtain st1 d where d: "dial_route w rt addrs sni dh [] st = (st1, d)" by fastforce
  have fwd: "forward w rt sni dh st = (case d of Inl e \<Rightarrow> (st1, [], Inl e)
      | Inr (name, s) \<Rightarrow> (case splice w (se_peer s) (transfer_observer w rt (cw_peer w (se_peer s))) of
           (acts, r) \<Rightarrow> (st1, UpstreamTls name s # record_upstream_coverage rt sni s @ acts, r)))"
    using ty Inr by (auto simp: forward_def d split: sum.splits)
  show ?thesis
  proof (cases d)
    case (Inl e)
    then show ?thesis using f fwd dial_route_reachable [OF d [unfolded Inl]] by auto
  next
    case d2: (Inr ns)
    obtain name s where ns: "ns = (name, s)" by fastforce
    obtain acts1 r1 where sp: "splice w (se_peer s) (transfer_observer w rt (cw_peer w (se_peer s))) = (acts1, r1)" by fastforce
    show ?thesis
      using f fwd splice_cases [OF sp] dial_route_session [OF d [unfolded d2 ns] ok ty] by (auto simp: d2 ns sp)
  qed
qed

lemma mirrored_run:
  assumes f: "serve_mirrored w rt sni dh st = (st', acts, r)" and ty: "rr_type rt = RtTls \<or> rr_type rt = RtEch"
    and ok: "runtime_ok rt" "net_ok (cw_net w)" "ech_env_ok w rt st" and h2: "rr_http2 rt"
    and offer: "offer = (case cw_hello w of None \<Rightarrow> [] | Some alpn \<Rightarrow> negotiable_alpn alpn)"
  shows "r \<noteq> Inl ErrUnreachable \<and> tls_run rt sni dh offer acts"
proof (cases "cw_hello w")
  case None
  then show ?thesis using f by (auto simp: serve_mirrored_def tls_run_def)
next
  case hello: (Some alpn)
  have o: "offer \<in> {[], [alpn_h1], [alpn_h2], [alpn_h2, alpn_h1]}" using offer hello negotiable_cases by auto
  show ?thesis
  proof (cases "upstream_resolve w (rr_upstream rt) (rr_port rt) dh")
    case (Inl e)
    then show ?thesis using f hello resolve_reachable [OF Inl] by (auto simp: serve_mirrored_def tls_run_def Let_def)
  next
    case (Inr addrs)
    obtain st1 d where d: "dial_route w rt addrs sni dh offer st = (st1, d)" by fastforce
    show ?thesis
    proof (cases d)
      case (Inl e)
      then show ?thesis
        using f hello Inr d ty offer dial_route_reachable [OF d [unfolded Inl]]
        by (auto simp: serve_mirrored_def tls_run_def Let_def)
    next
      case d2: (Inr ns)
      obtain name s where ns: "ns = (name, s)" by fastforce
      obtain acts1 r1 where sp: "splice w (se_peer s) (transfer_observer w rt (cw_peer w (se_peer s))) = (acts1, r1)" by fastforce
      define config where "config = mirror_choice listener_configs (se_alpn s) (offer \<noteq> [])"
      have m: "serve_mirrored w rt sni dh st =
          (if \<not> cw_accept w config then (st1, UpstreamTls name s # record_upstream_coverage rt sni s, Inl ErrInboundHandshake)
           else (st1, UpstreamTls name s # record_upstream_coverage rt sni s @ InboundTls config # acts1, r1))"
        using hello Inr d d2 ns sp ty offer by (auto simp: serve_mirrored_def Let_def config_def)
      have s: "session_ok rt sni dh offer name s" using dial_route_session [OF d [unfolded d2 ns] ok ty o] .
      obtain rep where rep: "acts1 = Spliced (se_peer s) # rep" "report_only rep" "r1 \<noteq> Inl ErrUnreachable"
        using splice_cases [OF sp] by blast
      have "acts \<in> {UpstreamTls name s # record_upstream_coverage rt sni s,
           UpstreamTls name s # record_upstream_coverage rt sni s @ InboundTls config # Spliced (se_peer s) # rep}"
        and r: "r \<noteq> Inl ErrUnreachable"
        using f m rep by (auto split: if_splits)
      then have "tls_run rt sni dh offer acts" unfolding tls_run_def using s rep(2) h2 config_def by blast
      then show ?thesis using r by blast
    qed
  qed
qed

text \<open>What every such run satisfies.\<close>

definition tls_safe :: "'r route_runtime \<Rightarrow> string option \<Rightarrow> string option \<Rightarrow> action list \<Rightarrow> bool" where
  "tls_safe rt sni dh acts \<longleftrightarrow> protected None acts \<and> Closed \<notin> set acts
     \<and> (\<forall>name s. UpstreamTls name s \<in> set acts \<longrightarrow> name_source rt sni dh name
          \<and> (rr_type rt = RtEch \<and> rr_require_ech rt \<longrightarrow> se_ech s = EchAccepted)
          \<and> (\<forall>offered. InboundTls offered \<in> set acts \<longrightarrow>
               (\<forall>p. se_alpn s = Some p \<longrightarrow> offered = [p])
               \<and> (alpn_h2 \<in> set offered \<longrightarrow> se_alpn s = Some alpn_h2 \<and> rr_http2 rt)))
     \<and> (\<forall>h chain. Coverage h chain \<in> set acts \<longrightarrow> rr_sni_policy rt = SniReflect \<and> sni = Some h
          \<and> (\<exists>s. UpstreamTls h s \<in> set acts \<and> se_chain s = Some chain))"

lemma report_only_simps: "report_only rep \<Longrightarrow> protected cur rep"
  "report_only rep \<Longrightarrow> Closed \<notin> set rep \<and> UpstreamTls n s \<notin> set rep \<and> InboundTls c \<notin> set rep \<and> Coverage h ch \<notin> set rep"
  by (auto simp: report_only_def)

lemma mirror_choice_cases:
  assumes "p \<in> {alpn_h2, alpn_h1}"
  shows "mirror_choice listener_configs (Some p) any = [p]"
  using assms by (auto simp: mirror_choice_def listener_configs_def alpn_h1_def alpn_h2_def)

lemma mirror_choice_h2:
  "alpn_h2 \<in> set (mirror_choice listener_configs selected any) \<longleftrightarrow> selected = Some alpn_h2"
  by (auto simp: mirror_choice_def listener_configs_def alpn_h1_def alpn_h2_def)

lemma tls_safe_base: "tls_safe rt sni dh []" "tls_safe rt sni dh [InboundTls [alpn_h1]]"
  by (simp_all add: tls_safe_def)

lemma tls_safe_plain:
  assumes pre: "pre \<in> {[], [InboundTls [alpn_h1]]}" and s: "session_ok rt sni dh [] name s" and rep: "report_only rep"
  shows "tls_safe rt sni dh (pre @ UpstreamTls name s # record_upstream_coverage rt sni s @ Spliced (se_peer s) # rep)"
proof -
  have src: "name_source rt sni dh name" "se_alpn s = None"
      "rr_type rt = RtEch \<and> rr_require_ech rt \<longrightarrow> se_ech s = EchAccepted"
    using s by (auto simp: session_ok_def)
  have reflect: "sni = Some h \<Longrightarrow> name = h" for h using src(1) by (simp add: name_source_def)
  have h: "alpn_h2 \<noteq> alpn_h1" by (simp add: alpn_h1_def alpn_h2_def)
  show ?thesis
    using pre src reflect h report_only_simps [OF rep] coverage_shape [of rt sni s]
    by (auto simp: tls_safe_def)
qed

lemma tls_safe_mirrored:
  assumes s: "session_ok rt sni dh offer name s" and rep: "report_only rep" and h2: "rr_http2 rt"
    and offer: "set offer \<subseteq> {alpn_h2, alpn_h1}"
    and config: "config = mirror_choice listener_configs (se_alpn s) (offer \<noteq> [])"
    and acts: "acts \<in> {UpstreamTls name s # record_upstream_coverage rt sni s,
       UpstreamTls name s # record_upstream_coverage rt sni s @ InboundTls config # Spliced (se_peer s) # rep}"
  shows "tls_safe rt sni dh acts"
proof -
  have src: "name_source rt sni dh name"
      "rr_type rt = RtEch \<and> rr_require_ech rt \<longrightarrow> se_ech s = EchAccepted"
    using s by (auto simp: session_ok_def)
  have reflect: "sni = Some h \<Longrightarrow> name = h" for h using src(1) by (simp add: name_source_def)
  have sel: "config = [p]" if "se_alpn s = Some p" for p
    using s that offer mirror_choice_cases [of p] config by (auto simp: session_ok_def)
  have c2: "alpn_h2 \<in> set config \<Longrightarrow> se_alpn s = Some alpn_h2" using config mirror_choice_h2 by blast
  show ?thesis
    using acts src reflect sel c2 h2 report_only_simps [OF rep] coverage_shape [of rt sni s]
    by (auto simp: tls_safe_def)
qed

lemma tls_run_safe:
  assumes "tls_run rt sni dh offer acts" and "set offer \<subseteq> {alpn_h2, alpn_h1}"
  shows "tls_safe rt sni dh acts"
  using assms tls_safe_base tls_safe_plain tls_safe_mirrored unfolding tls_run_def by metis

text \<open>An untouched stream: nothing is decrypted and no certificate is involved.\<close>

definition untouched :: "action list \<Rightarrow> bool" where
  "untouched acts \<longleftrightarrow> (\<forall>a\<in>set acts. a = Closed \<or> (\<exists>p. a = Spliced p) \<or> (\<exists>ip n t. a = Observed ip n t))"

lemma splice_untouched: "splice w up obs = (acts, r) \<Longrightarrow> untouched acts \<and> Closed \<notin> set acts \<and> r \<noteq> Inl ErrUnreachable"
  using splice_cases [of w up obs acts r] by (auto simp: untouched_def report_only_def)

lemma apply_fail_untouched:
  assumes "apply_fail w inb policy = (acts, r)"
  shows "untouched acts \<and> r \<noteq> Inl ErrUnreachable"
proof (cases policy)
  case FailClose
  then show ?thesis using assms by (auto simp: apply_fail_def untouched_def)
next
  case (FailPassthrough addr)
  then show ?thesis using assms by (cases "dial (un_connect (cw_net w) 0) (ra_single addr) 10000")
    (auto simp: apply_fail_def untouched_def [of "[]"] dest!: splice_untouched)
next
  case FailSystemOutbound
  then show ?thesis using assms by (auto simp: apply_fail_def untouched_def [of "[]"] dest!: splice_untouched split: option.splits)
qed

lemma raw_passthrough_untouched:
  assumes "raw_passthrough w rt inb dh = (acts, r)"
  shows "untouched acts \<and> r \<noteq> Inl ErrUnreachable"
  using assms by (auto simp: raw_passthrough_def dest: splice_untouched apply_fail_untouched split: sum.splits)

lemma forward_http:
  assumes "forward w rt sni dh st = (st', acts, r)" and "rr_type rt = RtHttp"
  shows "st' = st \<and> untouched acts \<and> Closed \<notin> set acts \<and> r \<noteq> Inl ErrUnreachable"
proof (cases "upstream_resolve w (rr_upstream rt) (rr_port rt) dh")
  case (Inl e)
  then show ?thesis using assms resolve_reachable [OF Inl] by (auto simp: forward_def untouched_def)
next
  case (Inr addrs)
  show ?thesis
  proof (cases "dial (un_connect (cw_net w) 0) addrs (rr_connect_timeout rt)")
    case (Inl e)
    then show ?thesis using assms Inr by (auto simp: forward_def untouched_def)
  next
    case (Inr up)
    then have "splice w up (transfer_observer w rt (cw_peer w up)) = (acts, r) \<and> st' = st"
      using assms \<open>upstream_resolve _ _ _ _ = Inr addrs\<close> by (simp add: forward_def)
    then show ?thesis using splice_untouched by blast
  qed
qed

lemma serve_terminated_cases:
  assumes s: "serve_terminated w rt sni dh st = (st', acts, r)"
  obtains (refused) "acts = []" "r \<noteq> Inl ErrUnreachable" "st' = st"
    | (served) config acts1 where "forward w rt sni dh st = (st', acts1, r)" "acts = InboundTls config # acts1"
      "config = (if rr_http2 rt \<and> rr_type rt = RtHttp then [alpn_h2, alpn_h1] else [alpn_h1])"
proof -
  obtain st1 acts1 r1 where f: "forward w rt sni dh st = (st1, acts1, r1)"
    by (cases "forward w rt sni dh st") auto
  show ?thesis
    using s refused served f
    by (auto simp: serve_terminated_def Let_def listener_configs_def split: if_splits)
qed

lemma unmatched_untouched:
  assumes "match_host rxm (ls_router ls) (unwrap_or [] (inbound_key inb)) = None" "dispatch rxm w ls inb st = (st', acts, r)"
  shows "st' = st \<and> untouched acts \<and> (ls_unmatched ls = FailClose \<longrightarrow> acts = [Closed])"
  using assms apply_fail_untouched [of w inb "ls_unmatched ls"]
  by (auto simp: dispatch_def Let_def apply_fail_def)

section \<open>Properties\<close>

text \<open>A connection routed to a runtime that the startup path built. On a \<open>raw\<close> route nothing is
  decrypted, no certificate is issued and the provider is not asked. On a \<open>tls\<close> or \<open>ech\<close> route bytes
  are only spliced over an upstream session that is open at that moment, and one whose ECH was accepted
  when the route requires it; the session was opened under the route's fixed name, the client's own
  name, or a stand-in the policy allows; the client is told exactly the protocol the upstream selected,
  and HTTP/2 only when the upstream speaks it on a route that allows it; upstream coverage is reported
  only on a reflecting route, for the client's own name and from the session opened under it; and no
  fail policy touches the decrypted stream. The arms the source marks unreachable are never reached.\<close>

lemma connection_protected:
  assumes route: "match_host rxm (ls_router ls) (unwrap_or [] (inbound_key inb)) = Some i" "i < length (ls_routes ls)"
      "rt = ls_routes ls ! i"
    and ok: "runtime_ok rt" "net_ok (cw_net w)" "ech_env_ok w rt st"
    and d: "dispatch rxm w ls inb st = (st', acts, r)"
  shows "(rr_type rt \<in> {RtTls, RtEch} \<longrightarrow>
        tls_safe rt (effective_sni rt (inbound_key inb)) (upstream_dial_host (rr_upstream rt) (inbound_key inb)) acts)
    \<and> (rr_type rt = RtRaw \<longrightarrow> st' = st \<and> untouched acts)
    \<and> (rr_type rt = RtHttp \<longrightarrow> st' = st \<and> (\<forall>a\<in>set acts. (\<exists>c. a = InboundTls c) \<or> untouched [a] \<and> a \<noteq> Closed))
    \<and> r \<noteq> Inl ErrUnreachable"
proof -
  define sni where "sni = effective_sni rt (inbound_key inb)"
  define dh where "dh = upstream_dial_host (rr_upstream rt) (inbound_key inb)"
  have inside: "(length (ls_routes ls) \<le> i) = False" using route(2) by simp
  have step: "(if rr_type rt = RtRaw then (st, raw_passthrough w rt inb dh)
       else if inbound_is_tls inb then
         (if rr_http2 rt \<and> rr_type rt \<in> {RtTls, RtEch} then serve_mirrored w rt sni dh st
          else serve_terminated w rt sni dh st)
       else forward w rt sni dh st) = (st', acts, r)"
    using d unfolding dispatch_def Let_def route(1) option.case inside if_False route(3) [symmetric] sni_def dh_def .
  have tls: "tls_safe rt sni dh acts \<and> r \<noteq> Inl ErrUnreachable" if ty: "rr_type rt = RtTls \<or> rr_type rt = RtEch"
  proof -
    define offer where "offer = (case cw_hello w of None \<Rightarrow> [] | Some alpn \<Rightarrow> negotiable_alpn alpn)"
    have o: "set offer \<subseteq> {alpn_h2, alpn_h1}"
      using negotiable_cases by (auto simp: offer_def negotiable_alpn_def supported_alpn_def split: option.splits)
    have "tls_run rt sni dh offer acts \<and> r \<noteq> Inl ErrUnreachable"
    proof (cases "inbound_is_tls inb \<and> rr_http2 rt")
      case True
      then have "serve_mirrored w rt sni dh st = (st', acts, r)" using step ty by (auto split: if_splits)
      then show ?thesis using mirrored_run [OF _ ty ok _ offer_def] True by blast
    next
      case False
      have plain: "tls_run rt sni dh offer (pre @ acts1) \<and> r1 \<noteq> Inl ErrUnreachable"
        if "forward w rt sni dh st = (st1, acts1, r1)" "pre \<in> {[], [InboundTls [alpn_h1]]}" for st1 acts1 r1 pre
        using forward_run [OF that(1) ty ok] that(2) unfolding tls_run_def by fastforce
      show ?thesis
      proof (cases "inbound_is_tls inb")
        case True
        then have "serve_terminated w rt sni dh st = (st', acts, r)" using step ty False by (auto split: if_splits)
        then show ?thesis
        proof (cases rule: serve_terminated_cases)
          case refused
          then show ?thesis by (simp add: tls_run_def)
        next
          case (served config acts1)
          then show ?thesis using plain [OF served(1), of "[InboundTls [alpn_h1]]"] ty by auto
        qed
      next
        case False
        then have "forward w rt sni dh st = (st', acts, r)" using step ty by (auto split: if_splits)
        then show ?thesis using plain [of st' acts r "[]"] by simp
      qed
    qed
    then show ?thesis using tls_run_safe [OF _ o] by blast
  qed
  show ?thesis
  proof (cases "rr_type rt")
    case RtRaw
    then show ?thesis using step raw_passthrough_untouched [of w rt inb dh] by auto
  next
    case RtHttp
    have "st' = st \<and> (\<forall>a\<in>set acts. (\<exists>c. a = InboundTls c) \<or> untouched [a] \<and> a \<noteq> Closed) \<and> r \<noteq> Inl ErrUnreachable"
    proof (cases "inbound_is_tls inb")
      case True
      then have s: "serve_terminated w rt sni dh st = (st', acts, r)" using step RtHttp by simp
      then show ?thesis
      proof (cases rule: serve_terminated_cases)
        case refused
        then show ?thesis by simp
      next
        case (served config acts1)
        then show ?thesis using forward_http [OF served(1) RtHttp] by (auto simp: untouched_def)
      qed
    next
      case False
      then have "forward w rt sni dh st = (st', acts, r)" using step RtHttp by simp
      then show ?thesis using forward_http [OF _ RtHttp] by (fastforce simp: untouched_def)
    qed
    then show ?thesis using RtHttp by simp
  next
    case RtEch
    then show ?thesis using tls by (simp add: sni_def dh_def)
  next
    case RtTls
    then show ?thesis using tls by (simp add: sni_def dh_def)
  qed
qed

definition sample_upstream :: socket_addr where
  "sample_upstream = SockV4 7 443"

definition sample_runtime :: "string route_runtime" where
  "sample_runtime = \<lparr>rr_name = ''web'', rr_type = RtTls, rr_upstream = UpDirect None Dual None, rr_port = 443,
     rr_sni_policy = SniReflect, rr_http2 = True, rr_require_ech = False, rr_max_retries = 0,
     rr_connect_timeout = 5000, rr_idle_timeout = 0, rr_fail = FailClose, rr_ech = None,
     rr_verify = Some (pv_verify sample_ech_provider),
     rr_tls = Some (client_configs_new (pv_verify sample_ech_provider) True)\<rparr>"

definition sample_net :: "string upstream_net" where
  "sample_net = \<lparr>un_connect = (\<lambda>_ _. Connects 20), un_server_name = (\<lambda>_. True),
     un_handshake = (\<lambda>_ cfg _ a. HsOk \<lparr>se_alpn = (if alpn_h2 \<in> set (cl_alpn cfg) then Some alpn_h2 else None),
        se_ech = EchNotOffered, se_chain = Some [''leaf''], se_peer = a\<rparr>),
     un_ech = (\<lambda>_. \<lparr>et_now = 0, et_mid = (\<lambda>st. st), et_world = sample_world ''k'', et_after = (\<lambda>st. st)\<rparr>)\<rparr>"

definition sample_conn :: "string conn_world" where
  "sample_conn = \<lparr>cw_lib = sample_ech_lib, cw_net = sample_net,
     cw_lookup = (\<lambda>_ _ _ _. Inr (ra_single sample_upstream)), cw_pick = (\<lambda>_. None), cw_observes = False,
     cw_peer = Some, cw_hello = Some (Some [alpn_h1, alpn_h2]), cw_accept = (\<lambda>_. True), cw_system = (\<lambda>_ _. None),
     cw_splice = True, cw_upload = 0, cw_download = 0, cw_elapsed = 0\<rparr>"

definition sample_table :: "unit router" where
  "sample_table = \<lparr>r_exact = [], r_wildcard = [], r_suffix = [], r_regex = [], r_default = Some 0\<rparr>"

definition sample_listener_state :: "(unit, string) listener_state" where
  "sample_listener_state = \<lparr>ls_router = sample_table,
     ls_routes = [sample_runtime], ls_unmatched = FailClose\<rparr>"

lemma sample_connection_safe:
  "\<exists>acts r. dispatch (\<lambda>_ _. False) sample_conn sample_listener_state (InTls (Some ''a.b'')) ech_state_new = (ech_state_new, acts, r)
     \<and> tls_safe sample_runtime (Some ''a.b'') (Some ''a.b'') acts
     \<and> InboundTls [alpn_h2] \<in> set acts \<and> Coverage ''a.b'' [''leaf''] \<in> set acts"
proof -
  have table: "ls_router sample_listener_state = sample_table" by (simp add: sample_listener_state_def)
  have "match_host (\<lambda>_ _. False) sample_table ''a.b'' = Some 0" by code_simp
  then have route: "match_host (\<lambda>_ _. False) (ls_router sample_listener_state)
      (unwrap_or [] (inbound_key (InTls (Some ''a.b'')))) = Some 0"
    unfolding table by (simp add: unwrap_or_def)
  have rt: "sample_runtime = ls_routes sample_listener_state ! 0" "0 < length (ls_routes sample_listener_state)"
    by (simp_all add: sample_listener_state_def)
  have ok: "runtime_ok sample_runtime" "ech_env_ok sample_conn sample_runtime ech_state_new"
    by (simp_all add: runtime_ok_def sample_runtime_def ech_env_ok_def)
  have net: "net_ok (cw_net sample_conn)" by (auto simp: net_ok_def sample_conn_def sample_net_def)
  have port: "strip_port ''a.b'' = ''a.b''" by code_simp
  have sni: "effective_sni sample_runtime (Some ''a.b'') = Some ''a.b''"
      "upstream_dial_host (rr_upstream sample_runtime) (Some ''a.b'') = Some ''a.b''"
    by (simp_all add: effective_sni_def upstream_dial_host_def sample_runtime_def port)
  obtain st' acts r where d: "dispatch (\<lambda>_ _. False) sample_conn sample_listener_state (InTls (Some ''a.b'')) ech_state_new = (st', acts, r)"
    by (cases "dispatch (\<lambda>_ _. False) sample_conn sample_listener_state (InTls (Some ''a.b'')) ech_state_new") auto
  have safe: "tls_safe sample_runtime (Some ''a.b'') (Some ''a.b'') acts"
    using connection_protected [OF route rt(2,1) ok(1) net ok(2) d] sni by (simp add: sample_runtime_def)
  have fields: "rr_type sample_runtime = RtTls" "rr_http2 sample_runtime" "rr_sni_policy sample_runtime = SniReflect"
      "rr_upstream sample_runtime = UpDirect None Dual None" "rr_connect_timeout sample_runtime = 5000"
      "rr_port sample_runtime = 443"
      "rr_tls sample_runtime = Some (client_configs_new (pv_verify sample_ech_provider) True)"
    by (simp_all add: sample_runtime_def)
  have world: "cw_hello sample_conn = Some (Some [alpn_h1, alpn_h2])" "cw_net sample_conn = sample_net"
      "cw_lookup sample_conn = (\<lambda>_ _ _ _. Inr (ra_single sample_upstream))" "cw_accept sample_conn = (\<lambda>_. True)"
      "cw_splice sample_conn"
    by (simp_all add: sample_conn_def)
  have inside: "(length (ls_routes sample_listener_state) \<le> 0) = False" using rt(2) by simp
  have offer: "negotiable_alpn (Some [alpn_h1, alpn_h2]) = [alpn_h2, alpn_h1]" by code_simp
  have pick: "cl_alpn (select_config (client_configs_new (pv_verify sample_ech_provider) True) [alpn_h2, alpn_h1]) = [alpn_h2, alpn_h1]"
    by (simp add: select_config_def client_configs_new_def plain_config_def)
  have dialled: "dial_tls sample_net (ra_single sample_upstream) ''a.b'' sample_runtime [alpn_h2, alpn_h1]
      = Inr \<lparr>se_alpn = Some alpn_h2, se_ech = EchNotOffered, se_chain = Some [''leaf''], se_peer = sample_upstream\<rparr>"
    by (simp add: dial_tls_def fields pick sample_net_def dial_def ra_single_def)
  have "dispatch (\<lambda>_ _. False) sample_conn sample_listener_state (InTls (Some ''a.b'')) ech_state_new
      = serve_mirrored sample_conn sample_runtime (Some ''a.b'') (Some ''a.b'') ech_state_new"
    unfolding dispatch_def Let_def route option.case inside if_False rt(1) [symmetric]
    unfolding inbound_key.simps sni by (simp add: fields)
  also have "\<dots> = (ech_state_new, [UpstreamTls ''a.b'' \<lparr>se_alpn = Some alpn_h2, se_ech = EchNotOffered, se_chain = Some [''leaf''],
       se_peer = sample_upstream\<rparr>, Coverage ''a.b'' [''leaf''], InboundTls [alpn_h2], Spliced sample_upstream], Inr ())"
    by (simp add: serve_mirrored_def world offer upstream_resolve_def fields dial_route_def tls_verification_name_def
        dialled record_upstream_coverage_def mirror_choice_def listener_configs_def splice_def transfer_observer_def
        report_drop_def)
  finally show ?thesis using safe d by auto
qed

text \<open>
  The pump: what is written is a prefix of what was read, in order, and all of it once the input has
  ended; the counter of a tracked transfer is the number of bytes written.
\<close>

fun read_bytes :: "read_event list \<Rightarrow> string" where
  "read_bytes (ReadBytes b bs # rs) = b # bs @ read_bytes rs"
| "read_bytes _ = []"

lemma saturating_add_assoc: "saturating_add (saturating_add a b) c = saturating_add a (b + c)"
  by (simp add: saturating_add_def)

lemma write_all_prefix:
  assumes "write_all tracked buf ws out n = (out', n', ws', e)" "n < 2 ^ 64"
  shows "\<exists>sent rest. buf = sent @ rest \<and> out' = out @ sent \<and> (e = None \<longrightarrow> rest = []) \<and> e \<noteq> Some PumpDone
    \<and> n' = (if tracked then saturating_add n (length sent) else n) \<and> n' < 2 ^ 64"
  using assms
proof (induction tracked buf ws out n rule: write_all.induct)
  case (4 tracked b bs k ws out bytes)
  show ?case
  proof (cases "k = 0")
    case True
    then show ?thesis using "4.prems" by (auto simp: saturating_add_def)
  next
    case False
    define chunk where "chunk = take k (b # bs)"
    define n1 where "n1 = (if tracked then saturating_add bytes (length chunk) else bytes)"
    let ?go = "write_all tracked (drop k (b # bs)) ws (out @ chunk) n1"
    have "n1 < 2 ^ 64" using "4.prems"(2) by (cases tracked) (simp_all add: n1_def saturating_add_def min_def)
    moreover have "write_all tracked (b # bs) (Wrote k # ws) out bytes = ?go"
      using False unfolding n1_def chunk_def by (simp only: write_all.simps if_False)
    then have "?go = (out', n', ws', e)" using "4.prems"(1) by simp
    ultimately have "n1 < 2 ^ 64" "?go = (out', n', ws', e)" by blast+
    then obtain sent rest where s: "drop k (b # bs) = sent @ rest" "out' = (out @ chunk) @ sent" "e = None \<longrightarrow> rest = []"
        "e \<noteq> Some PumpDone" "n' = (if tracked then saturating_add n1 (length sent) else n1)" "n' < 2 ^ 64"
      using "4.IH" [OF False] unfolding n1_def chunk_def by blast
    have "b # bs = (chunk @ sent) @ rest" unfolding chunk_def by (metis append_assoc append_take_drop_id s(1))
    moreover have "n' = (if tracked then saturating_add bytes (length (chunk @ sent)) else bytes)"
      using s(5) by (simp add: n1_def saturating_add_assoc)
    ultimately show ?thesis using s by (intro exI [of _ "chunk @ sent"] exI [of _ rest]) simp
  qed
qed (auto simp: saturating_add_def)

lemma pump_forwards:
  assumes "pump tracked rs ws out n = (out', n', e)" "n < 2 ^ 64"
  shows "\<exists>sent rest. read_bytes rs = sent @ rest \<and> out' = out @ sent \<and> (e = PumpDone \<longrightarrow> rest = [])
    \<and> n' = (if tracked then saturating_add n (length sent) else n)"
  using assms
proof (induction tracked rs ws out n rule: pump.induct)
  case (4 tracked b bs rs ws out bytes)
  obtain out1 n1 ws1 e1 where w: "write_all tracked (b # bs) ws out bytes = (out1, n1, ws1, e1)"
    by (cases "write_all tracked (b # bs) ws out bytes") auto
  obtain sent rest where s: "b # bs = sent @ rest" "out1 = out @ sent" "e1 = None \<longrightarrow> rest = []" "e1 \<noteq> Some PumpDone"
      "n1 = (if tracked then saturating_add bytes (length sent) else bytes)" "n1 < 2 ^ 64"
    using write_all_prefix [OF w "4.prems"(2)] by blast
  have r: "read_bytes (ReadBytes b bs # rs) = (b # bs) @ read_bytes rs" by simp
  show ?case
  proof (cases e1)
    case None
    have "pump tracked rs ws1 out1 n1 = (out', n', e)" using "4.prems"(1) w None by simp
    then obtain sent2 rest2 where t: "read_bytes rs = sent2 @ rest2" "out' = out1 @ sent2" "e = PumpDone \<longrightarrow> rest2 = []"
        "n' = (if tracked then saturating_add n1 (length sent2) else n1)"
      using "4.IH" [OF w [symmetric] refl refl None] s(6) by blast
    show ?thesis
      using s t r None by (intro exI [of _ "sent @ sent2"] exI [of _ rest2]) (simp add: saturating_add_assoc)
  next
    case (Some x)
    then have "out' = out1 \<and> n' = n1 \<and> e = x" using "4.prems"(1) w by simp
    then show ?thesis using s r Some by (intro exI [of _ sent] exI [of _ "rest @ read_bytes rs"]) auto
  qed
qed (auto simp: saturating_add_def)

end
