(* ===== verification/Scoring.thy ===== *)
theory Scoring
  imports ConfigTypes
begin

text \<open>
  The statistical state of one pool endpoint (\<open>src/src/scoring.rs\<close>) and its health
  (\<open>Health\<close> of \<open>src/src/pool.rs\<close>). An \<open>f64\<close> is a value of the type \<open>'f\<close>; the machine's
  arithmetic is the record \<open>arith\<close> of its primitive operations, so every formula is the source's
  and only the rounding of each operation is left open. A clock reading is a natural number in the
  unit of a \<open>Duration\<close>.
\<close>

section \<open>Machine arithmetic\<close>

record 'f arith =
  f_add :: "'f \<Rightarrow> 'f \<Rightarrow> 'f"
  f_sub :: "'f \<Rightarrow> 'f \<Rightarrow> 'f"
  f_mul :: "'f \<Rightarrow> 'f \<Rightarrow> 'f"
  f_div :: "'f \<Rightarrow> 'f \<Rightarrow> 'f"
  f_lt :: "'f \<Rightarrow> 'f \<Rightarrow> bool"
  f_max :: "'f \<Rightarrow> 'f \<Rightarrow> 'f"
  f_min :: "'f \<Rightarrow> 'f \<Rightarrow> 'f"
  f_exp :: "'f \<Rightarrow> 'f"
  f_ln :: "'f \<Rightarrow> 'f"
  f_sqrt :: "'f \<Rightarrow> 'f"
  f_const :: "rat \<Rightarrow> 'f"
  f_is_finite :: "'f \<Rightarrow> bool"
  f_largest :: 'f
  f_infinity :: 'f
  f_secs :: "nat \<Rightarrow> 'f"
  f_try_duration :: "'f \<Rightarrow> nat option"
  f_longest :: nat

text \<open>\<open>f64::clamp\<close>.\<close>

definition f_clamp :: "'f arith \<Rightarrow> 'f \<Rightarrow> 'f \<Rightarrow> 'f \<Rightarrow> 'f" where
  "f_clamp a lo hi x = (if f_lt a x lo then lo else if f_lt a hi x then hi else x)"

section \<open>The round-trip filter\<close>

record 'f kalman =
  k_mean_ms :: 'f
  k_variance :: 'f
  k_q :: 'f
  k_r :: 'f
  k_cusum :: 'f
  k_initialized :: bool

definition wide_p :: "'f arith \<Rightarrow> 'f" where
  "wide_p a = f_const a 1000"

definition cusum_delta_ms :: "'f arith \<Rightarrow> 'f" where
  "cusum_delta_ms a = f_const a 50"

definition cusum_h :: "'f arith \<Rightarrow> 'f" where
  "cusum_h a = f_const a 200"

definition kalman_new :: "'f arith \<Rightarrow> 'f \<Rightarrow> 'f \<Rightarrow> 'f kalman" where
  "kalman_new a q r = \<lparr>k_mean_ms = f_const a 0, k_variance = wide_p a, k_q = q, k_r = r,
     k_cusum = f_const a 0, k_initialized = False\<rparr>"

definition kalman_update :: "'f arith \<Rightarrow> nat \<Rightarrow> 'f kalman \<Rightarrow> 'f kalman \<times> bool" where
  "kalman_update a obs k =
     (let obs_ms = f_mul a (f_secs a obs) (f_const a 1000) in
      if \<not> k_initialized k
      then (k\<lparr>k_mean_ms := obs_ms, k_variance := k_r k, k_initialized := True\<rparr>, False)
      else
        (let innovation = f_sub a obs_ms (k_mean_ms k);
             cusum = f_max a (f_sub a (f_add a (k_cusum k) innovation)
               (f_div a (cusum_delta_ms a) (f_const a 2))) (f_const a 0);
             alarm = f_lt a (cusum_h a) cusum;
             variance = (if alarm then f_max a (k_variance k) (wide_p a) else k_variance k);
             predicted = f_min a (f_add a variance (k_q k)) (f_largest a);
             gain = (if f_lt a (k_r k) predicted
               then f_div a (f_const a 1) (f_add a (f_const a 1) (f_div a (k_r k) predicted))
               else (let ratio = f_div a predicted (k_r k) in f_div a ratio (f_add a (f_const a 1) ratio)))
         in (k\<lparr>k_mean_ms := f_add a (k_mean_ms k) (f_mul a gain innovation),
               k_variance := f_mul a (k_r k) gain,
               k_cusum := (if alarm then f_const a 0 else cusum)\<rparr>, alarm)))"

definition kalman_estimate :: "'f arith \<Rightarrow> 'f kalman \<Rightarrow> nat" where
  "kalman_estimate a k =
     (case f_try_duration a (f_div a (k_mean_ms k) (f_const a 1000)) of Some d \<Rightarrow> d | None \<Rightarrow> f_longest a)"

section \<open>The throughput posterior\<close>

record 'f nig =
  n_mu :: 'f
  n_kappa :: 'f
  n_alpha :: 'f
  n_beta :: 'f
  n_kappa0 :: 'f
  n_alpha0 :: 'f
  n_beta0 :: 'f

definition min_throughput_bps :: "'f arith \<Rightarrow> 'f" where
  "min_throughput_bps a = f_const a (1 / 10 ^ 20)"

definition max_throughput_bps :: "'f arith \<Rightarrow> 'f" where
  "max_throughput_bps a = f_const a (10 ^ 30)"

definition nig_new :: "'f \<Rightarrow> 'f \<Rightarrow> 'f \<Rightarrow> 'f \<Rightarrow> 'f nig" where
  "nig_new mu kappa alpha beta = \<lparr>n_mu = mu, n_kappa = kappa, n_alpha = alpha, n_beta = beta,
     n_kappa0 = kappa, n_alpha0 = alpha, n_beta0 = beta\<rparr>"

definition default_nig_prior :: "'f arith \<Rightarrow> 'f nig" where
  "default_nig_prior a = nig_new (f_ln a (f_mul a (f_const a 256) (f_const a 1024)))
     (f_const a (1 / 2)) (f_const a (3 / 2)) (f_const a 1)"

definition nig_observe :: "'f arith \<Rightarrow> 'f \<Rightarrow> 'f \<Rightarrow> 'f nig \<Rightarrow> 'f nig" where
  "nig_observe a bps gamma n =
     (if \<not> f_is_finite a bps \<or> \<not> f_lt a (f_const a 0) bps then n
      else
        (let x = f_ln a (f_clamp a (min_throughput_bps a) (max_throughput_bps a) bps);
             kappa = f_max a (f_mul a (n_kappa n) gamma) (n_kappa0 n);
             alpha = f_max a (f_mul a (n_alpha n) gamma) (n_alpha0 n);
             beta = f_max a (f_mul a (n_beta n) gamma) (n_beta0 n);
             kn = f_add a kappa (f_const a 1);
             diff = f_sub a x (n_mu n)
         in n\<lparr>n_mu := f_add a (n_mu n) (f_div a diff kn),
              n_alpha := f_add a alpha (f_const a (1 / 2)),
              n_beta := f_add a beta (f_div a (f_mul a (f_mul a (f_div a kappa kn) diff) diff) (f_const a 2)),
              n_kappa := kn\<rparr>))"

text \<open>\<open>sample\<close>: the Student-t law with a given number of degrees of freedom exists only for a
  positive number (the \<open>expect\<close>); \<open>draw\<close> is what the distribution returns.\<close>

definition nig_sample :: "'f arith \<Rightarrow> ('f \<Rightarrow> 'f) \<Rightarrow> 'f nig \<Rightarrow> 'f option" where
  "nig_sample a draw n =
     (let freedom = f_mul a (f_const a 2) (n_alpha n) in
      if \<not> f_lt a (f_const a 0) freedom then None
      else
        (let scale = f_sqrt a (f_div a (f_div a (n_beta n) (n_alpha n)) (n_kappa n));
             log_bps = f_add a (n_mu n) (f_mul a scale (draw freedom))
         in Some (f_exp a (f_clamp a (f_ln a (min_throughput_bps a)) (f_ln a (max_throughput_bps a)) log_bps))))"

definition typical_bps :: "'f arith \<Rightarrow> 'f nig \<Rightarrow> 'f" where
  "typical_bps a n = f_exp a (n_mu n)"

definition score :: "'f arith \<Rightarrow> ('f \<Rightarrow> 'f) \<Rightarrow> nat \<Rightarrow> 'f nig \<Rightarrow> nat \<Rightarrow> 'f option" where
  "score a draw rtt n payload_bytes =
     (if payload_bytes = 0 then Some (f_secs a rtt)
      else map_option (\<lambda>bps. f_add a (f_secs a rtt) (f_div a (f_const a (of_nat payload_bytes)) bps))
        (nig_sample a draw n))"

section \<open>Subnets\<close>

datatype subnet_key = SubnetV4 "nat list" | SubnetV6 "nat list"

definition octets6 :: "ipv6 \<Rightarrow> nat list" where
  "octets6 w = List.map (\<lambda>i. unat (drop_bit (8 * (15 - i)) w) mod 256) [0..<16]"

definition subnet_key_of :: "ip_addr \<Rightarrow> subnet_key" where
  "subnet_key_of addr = (case addr of V4 v \<Rightarrow> SubnetV4 (take 3 (octets4 v)) | V6 v \<Rightarrow> SubnetV6 (take 6 (octets6 v)))"

section \<open>Health of an endpoint\<close>

record 'f health =
  h_kalman :: "'f kalman"
  h_nig :: "'f nig"
  h_failures :: nat
  h_degraded :: bool
  h_next_probe :: nat
  h_backoff :: nat

definition health_new :: "'f arith \<Rightarrow> nat \<Rightarrow> nat \<Rightarrow> 'f \<Rightarrow> 'f \<Rightarrow> 'f health" where
  "health_new a due backoff q r = \<lparr>h_kalman = kalman_new a q r, h_nig = default_nig_prior a, h_failures = 0,
     h_degraded = False, h_next_probe = due, h_backoff = backoff\<rparr>"

definition health_rtt :: "'f arith \<Rightarrow> 'f health \<Rightarrow> nat option" where
  "health_rtt a h = (if k_initialized (h_kalman h) then Some (kalman_estimate a (h_kalman h)) else None)"

definition record_success :: "'f arith \<Rightarrow> nat \<Rightarrow> nat \<Rightarrow> nat \<Rightarrow> nat \<Rightarrow> 'f health \<Rightarrow> 'f health" where
  "record_success a now sample interval base_backoff h =
     h\<lparr>h_kalman := fst (kalman_update a sample (h_kalman h)), h_failures := 0, h_degraded := False,
       h_backoff := base_backoff, h_next_probe := now + interval\<rparr>"

definition u32_max :: nat where
  "u32_max = 4294967295"

definition record_failure :: "nat \<Rightarrow> nat \<Rightarrow> nat \<Rightarrow> nat \<Rightarrow> 'f health \<Rightarrow> 'f health" where
  "record_failure now threshold interval base_backoff h =
     (let failures = min u32_max (h_failures h + 1);
          newly_degraded = (\<not> h_degraded h \<and> threshold \<le> failures);
          degraded = (h_degraded h \<or> newly_degraded);
          backoff = (if newly_degraded then base_backoff
                     else if h_degraded h then min (h_backoff h * 2) interval else h_backoff h);
          delay = (if degraded then backoff else base_backoff)
      in h\<lparr>h_failures := failures, h_degraded := degraded, h_backoff := backoff, h_next_probe := now + delay\<rparr>)"

definition observe_throughput :: "'f arith \<Rightarrow> nat \<Rightarrow> nat \<Rightarrow> 'f \<Rightarrow> 'f health \<Rightarrow> 'f health" where
  "observe_throughput a bytes elapsed discount h =
     (if elapsed = 0 \<or> bytes = 0 then h
      else h\<lparr>h_nig := nig_observe a (f_div a (f_const a (of_nat bytes)) (f_secs a elapsed)) discount (h_nig h)\<rparr>)"

section \<open>Laws of the arithmetic\<close>

text \<open>What the standard guarantees of IEEE 754 doubles, as far as the proofs need it: the order is
  strict, adding a positive margin never decreases, and positive operands of the operations below
  have a positive result.\<close>

definition positive :: "'f arith \<Rightarrow> 'f \<Rightarrow> bool" where
  "positive a x \<longleftrightarrow> f_lt a (f_const a 0) x"

definition arith_ok :: "'f arith \<Rightarrow> bool" where
  "arith_ok a \<longleftrightarrow> (\<forall>x. \<not> f_lt a x x) \<and> (\<forall>x y z. f_lt a x y \<longrightarrow> f_lt a y z \<longrightarrow> f_lt a x z)
     \<and> (\<forall>x m y. positive a m \<longrightarrow> f_lt a (f_add a x m) y \<longrightarrow> f_lt a x y)
     \<and> (\<forall>x y. positive a y \<longrightarrow> positive a (f_max a x y))
     \<and> (\<forall>x y. positive a x \<longrightarrow> positive a y \<longrightarrow> positive a (f_add a x y))
     \<and> (\<forall>x. positive a x \<longrightarrow> positive a (f_mul a (f_const a 2) x))
     \<and> (\<forall>q. 1 / 10 ^ 20 \<le> q \<longrightarrow> q \<le> 10 ^ 30 \<longrightarrow> positive a (f_const a q))
     \<and> (\<forall>n. 0 < n \<longrightarrow> positive a (f_secs a n))"

text \<open>A posterior whose shape is positive can be sampled.\<close>

definition nig_ok :: "'f arith \<Rightarrow> 'f nig \<Rightarrow> bool" where
  "nig_ok a n \<longleftrightarrow> positive a (n_alpha n) \<and> positive a (n_alpha0 n)"

lemma arith_irrefl: "arith_ok a \<Longrightarrow> \<not> f_lt a x x"
  by (simp add: arith_ok_def)

lemma arith_trans: "arith_ok a \<Longrightarrow> f_lt a x y \<Longrightarrow> f_lt a y z \<Longrightarrow> f_lt a x z"
  unfolding arith_ok_def by meson

lemma arith_margin: "arith_ok a \<Longrightarrow> positive a m \<Longrightarrow> f_lt a (f_add a x m) y \<Longrightarrow> f_lt a x y"
  unfolding arith_ok_def by meson

lemma arith_positive:
  assumes "arith_ok a"
  shows arith_max: "positive a y \<Longrightarrow> positive a (f_max a x y)"
    and arith_add: "positive a x \<Longrightarrow> positive a y \<Longrightarrow> positive a (f_add a x y)"
    and arith_twice: "positive a x \<Longrightarrow> positive a (f_mul a (f_const a 2) x)"
    and arith_const: "1 / 10 ^ 20 \<le> q \<Longrightarrow> q \<le> 10 ^ 30 \<Longrightarrow> positive a (f_const a q)"
    and arith_secs: "0 < d \<Longrightarrow> positive a (f_secs a d)"
  using assms by (simp_all add: arith_ok_def)

lemma nig_prior_ok: "arith_ok a \<Longrightarrow> nig_ok a (default_nig_prior a)"
  by (simp add: nig_ok_def default_nig_prior_def nig_new_def arith_const)

lemma nig_observe_ok: "arith_ok a \<Longrightarrow> nig_ok a n \<Longrightarrow> nig_ok a (nig_observe a bps gamma n)"
  by (simp add: nig_ok_def nig_observe_def arith_add arith_max arith_const Let_def)

lemma nig_sample_ok:
  assumes "arith_ok a" "nig_ok a n"
  shows "nig_sample a draw n \<noteq> None"
  using arith_twice [OF assms(1)] assms(2) by (simp add: nig_ok_def nig_sample_def positive_def Let_def)

lemma score_ok: "arith_ok a \<Longrightarrow> nig_ok a n \<Longrightarrow> score a draw rtt n payload \<noteq> None"
  using nig_sample_ok [of a n draw] by (auto simp: score_def)

lemma health_nig_ok [inv_intros]:
  "nig_ok a (h_nig h) \<Longrightarrow> nig_ok a (h_nig (record_success a now s interval base h))"
  "nig_ok a (h_nig h) \<Longrightarrow> nig_ok a (h_nig (record_failure now threshold interval base h))"
  "arith_ok a \<Longrightarrow> nig_ok a (h_nig h) \<Longrightarrow> nig_ok a (h_nig (observe_throughput a bytes elapsed discount h))"
  "arith_ok a \<Longrightarrow> nig_ok a (h_nig (health_new a due backoff q r))"
  by (simp_all add: record_success_def record_failure_def observe_throughput_def health_new_def Let_def
      nig_observe_ok nig_prior_ok)

section \<open>Failure runs\<close>

lemma kalman_update_initialized: "k_initialized (fst (kalman_update a obs k))"
  by (simp add: kalman_update_def Let_def)

lemma record_failure_kalman [simp]:
  "h_kalman (record_failure now threshold interval base h) = h_kalman h"
  by (simp add: record_failure_def Let_def)

lemma failures_step:
  assumes "h_failures h = n" "h_degraded h \<longleftrightarrow> threshold \<le> n"
    and "h_backoff h = (if n \<le> threshold then base else min (base * 2 ^ (n - threshold)) interval)"
    and "0 < threshold" "n < u32_max"
  shows "h_failures (record_failure now threshold interval base h) = Suc n
    \<and> h_degraded (record_failure now threshold interval base h) = (threshold \<le> Suc n)
    \<and> h_backoff (record_failure now threshold interval base h)
      = (if Suc n \<le> threshold then base else min (base * 2 ^ (Suc n - threshold)) interval)
    \<and> h_next_probe (record_failure now threshold interval base h)
      = now + (if Suc n < threshold then base else h_backoff (record_failure now threshold interval base h))"
proof -
  have "min (base * 2 ^ (n - threshold)) interval * 2 = min (2 * (base * 2 ^ (n - threshold))) (2 * interval)"
    by (simp add: min_def)
  then have "min (min (base * 2 ^ (n - threshold)) interval * 2) interval = min (base * 2 ^ (Suc n - threshold)) interval"
    if "threshold \<le> n"
    using that by (simp add: Suc_diff_le mult.left_commute)
  then show ?thesis
    using assms by (cases "n = threshold") (auto simp: record_failure_def Let_def Suc_diff_le mult.commute)
qed

text \<open>C38. The backoff schedule, exactly: after a success, a run of failures degrades the endpoint
  at the threshold and not before, retries at the base delay until then, and afterwards doubles the
  delay per failure up to the healthy interval, so a dead endpoint is never probed less often than a
  healthy one; the measured round trip is never forgotten.\<close>

theorem backoff_schedule:
  assumes "0 < threshold" and "length fails \<le> u32_max"
    and "h = fold (\<lambda>now. record_failure now threshold interval base) fails (record_success a t s interval base h0)"
  shows "h_failures h = length fails \<and> (h_degraded h \<longleftrightarrow> threshold \<le> length fails)
    \<and> h_backoff h = (if length fails \<le> threshold then base else min (base * 2 ^ (length fails - threshold)) interval)
    \<and> h_next_probe h = (if fails = [] then t + interval
         else last fails + (if length fails < threshold then base else h_backoff h))
    \<and> (base \<le> interval \<and> fails \<noteq> [] \<longrightarrow> h_next_probe h \<le> last fails + interval)
    \<and> health_rtt a h \<noteq> None"
proof -
  let ?f = "\<lambda>now. record_failure now threshold interval base"
  have kal: "h_kalman (fold ?f ts g) = h_kalman g" for ts g
    by (induction ts arbitrary: g) simp_all
  have "h_failures h = length fails \<and> (h_degraded h \<longleftrightarrow> threshold \<le> length fails)
    \<and> h_backoff h = (if length fails \<le> threshold then base else min (base * 2 ^ (length fails - threshold)) interval)
    \<and> h_next_probe h = (if fails = [] then t + interval
         else last fails + (if length fails < threshold then base else h_backoff h))"
    using assms(2,3)
  proof (induction fails arbitrary: h rule: rev_induct)
    case Nil
    then show ?case using assms(1) by (simp add: record_success_def)
  next
    case (snoc now fails)
    define g where "g = fold ?f fails (record_success a t s interval base h0)"
    have lt: "length fails < u32_max" and h: "h = record_failure now threshold interval base g"
      using snoc.prems by (simp_all add: g_def)
    have ih: "h_failures g = length fails" "h_degraded g \<longleftrightarrow> threshold \<le> length fails"
      "h_backoff g = (if length fails \<le> threshold then base else min (base * 2 ^ (length fails - threshold)) interval)"
      using snoc.IH [OF _ g_def] lt by auto
    show ?case
      using failures_step [OF ih assms(1) lt, of now] unfolding h by simp
  qed
  moreover have "health_rtt a h \<noteq> None"
    by (simp add: assms(3) kal record_success_def kalman_update_initialized health_rtt_def)
  moreover have "h_next_probe h \<le> last fails + interval" if "base \<le> interval" "fails \<noteq> []"
    using that calculation(1) by (auto split: if_splits)
  ultimately show ?thesis
    by blast
qed

definition exact_arith :: "rat arith" where
  "exact_arith = \<lparr>f_add = (+), f_sub = (-), f_mul = (*), f_div = (/), f_lt = (<), f_max = max, f_min = min,
     f_exp = (\<lambda>x. x), f_ln = (\<lambda>x. x), f_sqrt = (\<lambda>x. x), f_const = (\<lambda>q. q), f_is_finite = (\<lambda>_. True),
     f_largest = 1000000, f_infinity = 1000000, f_secs = (\<lambda>n. of_nat n / 1000), f_try_duration = (\<lambda>x. Some (nat \<lfloor>x * 1000\<rfloor>)),
     f_longest = 1000000\<rparr>"

lemma exact_arith_ok: "arith_ok exact_arith"
proof -
  have "0 < q" if "1 / 10 ^ 20 \<le> q" for q :: rat
    using that by (rule less_le_trans [rotated]) simp
  then show ?thesis
    by (auto simp: arith_ok_def exact_arith_def positive_def)
qed

lemma backoff_schedule_witness:
  "h_backoff (fold (\<lambda>now. record_failure now 2 300 30) [10, 40, 70, 130]
     (record_success exact_arith 0 20 300 30 (health_new exact_arith 0 30 0 1))) = 120"
  using backoff_schedule [of 2 "[10, 40, 70, 130]" _ 300 30 exact_arith 0 20 "health_new exact_arith 0 30 0 1"]
  by (simp add: u32_max_def)

end
