(* ===== verification/Sampling.thy ===== *)
theory Sampling
  imports Endpoint
begin

text \<open>
  Sampling a CIDR target (\<open>src/src/pool.rs\<close>). A network is its address, host bits cleared, and
  its prefix length; the random generator is a parameter: the offsets it draws, in turn. The host
  enumeration of the \<open>ipnet\<close> crate is the parameter \<open>hosts\<close>.
\<close>

definition offset_into :: "ip_addr \<Rightarrow> nat \<Rightarrow> ip_addr" where
  "offset_into net offset = (case net of V4 base \<Rightarrow> V4 (base + of_nat offset) | V6 base \<Rightarrow> V6 (base + of_nat offset))"

text \<open>The drawing loop, with the attempts that are left; \<open>draws\<close> is indexed by them.\<close>

fun sample_loop :: "ip_addr \<Rightarrow> nat \<Rightarrow> (nat \<Rightarrow> nat) \<Rightarrow> nat \<Rightarrow> ip_addr list \<Rightarrow> ip_addr list" where
  "sample_loop net want draws 0 out = out"
| "sample_loop net want draws (Suc left) out =
     (if length out < want then
        (let addr = offset_into net (draws left) in
         sample_loop net want draws left (if addr \<in> set out then out else out @ [addr]))
      else out)"

definition draw_sample :: "ip_addr list \<Rightarrow> (nat \<Rightarrow> nat) \<Rightarrow> ip_addr \<Rightarrow> nat \<Rightarrow> nat option \<Rightarrow> ip_addr list" where
  "draw_sample hosts draws net prefix_len sample =
     (case sample of None \<Rightarrow> take max_cidr_expansion hosts
      | Some n \<Rightarrow>
          (let want = min n (network_size net prefix_len) in
           sample_loop net want draws (max (min (want * 8) (2 ^ 64 - 1)) 16) []))"

definition draw_fresh_sample :: "nat \<Rightarrow> ip_addr \<Rightarrow> nat \<Rightarrow> ip_addr list \<Rightarrow> ip_addr option" where
  "draw_fresh_sample start net prefix_len reserved =
     (let space = network_size net prefix_len in
      if space = 0 then None
      else (let attempts = min (length reserved + 1) space in
        List.find (\<lambda>addr. addr \<notin> set reserved)
          (List.map (\<lambda>step. offset_into net (((start + step) mod 2 ^ 128) mod space)) [0..<attempts])))"

section \<open>Addresses of a network\<close>

fun ip_num :: "ip_addr \<Rightarrow> nat" where
  "ip_num (V4 w) = unat w"
| "ip_num (V6 w) = unat w"

definition host_bits :: "ip_addr \<Rightarrow> nat \<Rightarrow> nat" where
  "host_bits net prefix_len = max_prefix_len net - prefix_len"

definition network_ok :: "ip_addr \<Rightarrow> nat \<Rightarrow> bool" where
  "network_ok net prefix_len \<longleftrightarrow> prefix_len \<le> max_prefix_len net \<and> host_bits net prefix_len < 128
     \<and> 2 ^ host_bits net prefix_len dvd ip_num net"

definition same_family :: "ip_addr \<Rightarrow> ip_addr \<Rightarrow> bool" where
  "same_family a b \<longleftrightarrow> (case (a, b) of (V4 _, V4 _) \<Rightarrow> True | (V6 _, V6 _) \<Rightarrow> True | _ \<Rightarrow> False)"

definition in_network :: "ip_addr \<Rightarrow> nat \<Rightarrow> ip_addr \<Rightarrow> bool" where
  "in_network net prefix_len a \<longleftrightarrow> same_family net a
     \<and> ip_num a div 2 ^ host_bits net prefix_len = ip_num net div 2 ^ host_bits net prefix_len"

lemma network_size_eq: "network_ok net p \<Longrightarrow> network_size net p = 2 ^ host_bits net p"
  by (simp add: network_ok_def network_size_def host_bits_def Let_def)

lemma ip_num_bound: "ip_num net < 2 ^ max_prefix_len net"
proof (cases net)
  case (V4 w)
  then show ?thesis using unsigned_less [of w] by (simp add: max_prefix_len_def)
next
  case (V6 w)
  then show ?thesis using unsigned_less [of w] by (simp add: max_prefix_len_def)
qed

lemma ip_num_offset:
  assumes "network_ok net p" "n < network_size net p"
  shows "ip_num (offset_into net n) = ip_num net + n"
proof -
  let ?k = "host_bits net p"
  obtain q where q: "ip_num net = 2 ^ ?k * q" using assms(1) by (auto simp: network_ok_def)
  have n: "n < 2 ^ ?k" using assms network_size_eq by simp
  have m: "max_prefix_len net = ?k + p" using assms(1) by (auto simp: network_ok_def host_bits_def)
  have "2 ^ ?k * q < 2 ^ ?k * 2 ^ p"
    using ip_num_bound [of net] by (simp add: q m power_add)
  then have "q + 1 \<le> 2 ^ p" by simp
  then have "2 ^ ?k * (q + 1) \<le> 2 ^ ?k * 2 ^ p" by (rule mult_le_mono2)
  then have "ip_num net + n < 2 ^ max_prefix_len net"
    using n by (simp add: q m power_add)
  then show ?thesis
    by (cases net) (auto simp: offset_into_def max_prefix_len_def unat_add_lem [symmetric] unat_word_ariths unat_of_nat)
qed

lemma same_family_offset: "same_family net (offset_into net n)"
  by (cases net) (simp_all add: same_family_def offset_into_def)

lemma offset_in_network:
  assumes "network_ok net p" "n < network_size net p"
  shows "in_network net p (offset_into net n)"
proof -
  let ?k = "host_bits net p"
  obtain q where q: "ip_num net = 2 ^ ?k * q" using assms(1) by (auto simp: network_ok_def)
  have "n < 2 ^ ?k" using assms network_size_eq by simp
  then show ?thesis
    by (simp add: in_network_def same_family_offset ip_num_offset [OF assms] q)
qed

lemma offset_inject:
  assumes "network_ok net p" "n < network_size net p" "m < network_size net p"
    and "offset_into net n = offset_into net m"
  shows "n = m"
  using ip_num_offset [OF assms(1,2)] ip_num_offset [OF assms(1,3)] unfolding assms(4) by linarith

lemma in_network_offset:
  assumes "network_ok net p" "in_network net p a"
  shows "\<exists>n < network_size net p. a = offset_into net n"
proof -
  let ?k = "host_bits net p"
  define n where "n = ip_num a mod 2 ^ ?k"
  obtain q where q: "ip_num net = 2 ^ ?k * q" using assms(1) by (auto simp: network_ok_def)
  have n: "n < network_size net p" using network_size_eq [OF assms(1)] by (simp add: n_def)
  have "ip_num a = 2 ^ ?k * q + n"
    using assms(2) div_mult_mod_eq [of "ip_num a" "2 ^ ?k"] by (simp add: in_network_def q n_def mult.commute)
  then have "ip_num a = ip_num (offset_into net n)"
    by (simp add: ip_num_offset [OF assms(1) n] q)
  moreover have "same_family a (offset_into net n)"
    using assms(2) same_family_offset [of net n]
    by (auto simp: in_network_def same_family_def split: ip_addr.splits)
  ultimately have "a = offset_into net n"
    by (cases a; cases "offset_into net n") (auto simp: same_family_def word_unat_eq_iff)
  then show ?thesis using n by blast
qed

section \<open>Sampling\<close>

lemma sample_loop_inv:
  assumes "network_ok net p" "\<forall>i. draws i < network_size net p" "distinct out" "\<forall>a\<in>set out. in_network net p a"
    "length out \<le> want"
  shows "distinct (sample_loop net want draws left out) \<and> (\<forall>a\<in>set (sample_loop net want draws left out). in_network net p a)
    \<and> length (sample_loop net want draws left out) \<le> want"
  using assms(3-)
proof (induction left arbitrary: out)
  case (Suc left)
  have new: "in_network net p (offset_into net (draws left))"
    using offset_in_network [OF assms(1)] assms(2) by blast
  show ?case
  proof (cases "length out < want")
    case True
    define out' where "out' = (if offset_into net (draws left) \<in> set out then out else out @ [offset_into net (draws left)])"
    have "sample_loop net want draws (Suc left) out = sample_loop net want draws left out'"
      using True by (simp add: out'_def Let_def)
    moreover have "distinct out'" "\<forall>a\<in>set out'. in_network net p a" "length out' \<le> want"
      using True new Suc.prems by (auto simp: out'_def)
    ultimately show ?thesis using Suc.IH by presburger
  next
    case False
    then show ?thesis using Suc.prems by simp
  qed
qed simp

lemma draw_fresh_cases:
  assumes net: "network_ok net p" and start: "start < network_size net p" and "distinct reserved"
  defines "space \<equiv> network_size net p" and "attempts \<equiv> min (length reserved + 1) (network_size net p)"
  shows "(draw_fresh_sample start net p reserved = Some a \<longrightarrow> in_network net p a \<and> a \<notin> set reserved)
    \<and> (draw_fresh_sample start net p reserved = None \<longrightarrow> (\<forall>a. in_network net p a \<longrightarrow> a \<in> set reserved))"
proof -
  define pos where "pos = (\<lambda>step. offset_into net (((start + step) mod 2 ^ 128) mod space))"
  have space: "space = 2 ^ host_bits net p" "0 < space" using network_size_eq [OF net] by (simp_all add: space_def)
  have "host_bits net p \<le> 127" using net by (simp add: network_ok_def)
  then have "space \<le> 2 ^ 127" unfolding space by (rule power_increasing) simp
  then have wrap: "(start + step) mod 2 ^ 128 = start + step" if "step < attempts" for step
    using that start by (simp add: attempts_def space_def)
  have pos: "pos step = offset_into net ((start + step) mod space)" if "step < attempts" for step
    unfolding pos_def wrap [OF that] ..
  have d: "draw_fresh_sample start net p reserved = List.find (\<lambda>addr. addr \<notin> set reserved) (List.map pos [0..<attempts])"
    using space(2) by (simp add: draw_fresh_sample_def Let_def space_def attempts_def pos_def)
  have step: "i = j" if "i < attempts" "j < attempts" "(start + i) mod space = (start + j) mod space" for i j
  proof -
    have "i \<le> j \<Longrightarrow> (start + j) mod space = (start + i) mod space \<Longrightarrow> j < attempts \<Longrightarrow> i = j" for i j
    proof (rule ccontr)
      assume le: "i \<le> j" "i \<noteq> j" and eq: "(start + j) mod space = (start + i) mod space" "j < attempts"
      then have "space dvd j - i" using mod_eq_dvd_iff_nat [of "start + i" "start + j" space] by simp
      then show False using le eq(2) by (auto simp: attempts_def space_def dest: dvd_imp_le)
    qed
    then show ?thesis using that by (metis nat_le_linear)
  qed
  have inj: "inj_on pos {0..<attempts}"
    using step pos offset_inject [OF net] space(2) by (intro inj_onI) (auto simp: space_def)
  have some: "in_network net p a \<and> a \<notin> set reserved" if s: "draw_fresh_sample start net p reserved = Some a"
  proof -
    obtain i where i: "i < attempts" "pos i \<notin> set reserved" "a = pos i"
      using s unfolding d find_Some_iff by fastforce
    have "(start + i) mod space < network_size net p" using space(2) by (simp add: space_def)
    then show ?thesis using i pos offset_in_network [OF net] by simp
  qed
  have none: "a \<in> set reserved" if n: "draw_fresh_sample start net p reserved = None" and a: "in_network net p a" for a
  proof -
    have sub: "pos ` {0..<attempts} \<subseteq> set reserved"
      using n by (auto simp: d find_None_iff)
    then have "attempts \<le> length reserved"
      using card_mono [OF finite_set sub] inj assms(3) by (simp add: card_image distinct_card)
    then have full: "attempts = space" by (simp add: attempts_def space_def)
    have "inj_on (\<lambda>step. (start + step) mod space) {0..<space}"
    proof (rule inj_onI)
      fix x y assume "x \<in> {0..<space}" "y \<in> {0..<space}" "(start + x) mod space = (start + y) mod space"
      then show "x = y" using step [of x y] full by simp
    qed
    then have "(\<lambda>step. (start + step) mod space) ` {0..<space} = {0..<space}"
      by (intro card_subset_eq) (use space(2) in \<open>auto simp: card_image\<close>)
    moreover obtain n where "n < space" "a = offset_into net n"
      using in_network_offset [OF net a] by (auto simp: space_def)
    ultimately have "n \<in> (\<lambda>step. (start + step) mod space) ` {0..<space}" by simp
    then obtain i where i: "i < space" "n = (start + i) mod space" by auto
    then have "a = pos i" "i \<in> {0..<attempts}" using full \<open>a = offset_into net n\<close> by (simp_all add: pos)
    then show ?thesis using sub by blast
  qed
  show ?thesis using some none by blast
qed

text \<open>C37. Sampling stays in the network and never runs dry early: a drawn sample consists of distinct
  addresses of the network, no more than asked for; and a replacement is an address of the network
  that is not reserved, found whenever there is one, although only one more address than are
  reserved is tried.\<close>

theorem sampling_sound:
  assumes "network_ok net p" and "distinct reserved" and "start < network_size net p"
    and "\<forall>i. draws i < network_size net p"
  shows "(\<exists>a. draw_fresh_sample start net p reserved = Some a) = (\<exists>a. in_network net p a \<and> a \<notin> set reserved)
    \<and> (\<forall>a. draw_fresh_sample start net p reserved = Some a \<longrightarrow> in_network net p a \<and> a \<notin> set reserved)
    \<and> distinct (draw_sample hosts draws net p (Some n)) \<and> length (draw_sample hosts draws net p (Some n)) \<le> n
    \<and> (\<forall>a\<in>set (draw_sample hosts draws net p (Some n)). in_network net p a)"
proof -
  have "distinct (draw_sample hosts draws net p (Some n)) \<and> length (draw_sample hosts draws net p (Some n)) \<le> n
    \<and> (\<forall>a\<in>set (draw_sample hosts draws net p (Some n)). in_network net p a)"
    using sample_loop_inv [OF assms(1,4), of "[]" "min n (network_size net p)"]
    by (fastforce simp: draw_sample_def Let_def)
  then show ?thesis
    using draw_fresh_cases [OF assms(1,3,2)] by (metis not_None_eq)
qed

lemma sampling_sound_witness:
  "(\<exists>a. draw_fresh_sample 3 (V4 0x0A000000) 30 [V4 0x0A000003, V4 0x0A000000] = Some a)
    = (\<exists>a. in_network (V4 0x0A000000) 30 a \<and> a \<notin> set [V4 0x0A000003, V4 0x0A000000])"
proof -
  have "network_ok (V4 0x0A000000) 30"
    by (simp add: network_ok_def host_bits_def max_prefix_len_def)
  moreover have "network_size (V4 0x0A000000) 30 = 4"
    by (simp add: network_size_def max_prefix_len_def)
  ultimately show ?thesis
    using sampling_sound [of "V4 0x0A000000" 30 "[V4 0x0A000003, V4 0x0A000000]" 3 "\<lambda>_. 0" "[]" 0] by simp
qed

end
