(* ===== verification/Ranking.thy ===== *)
theory Ranking
  imports Scoring Sampling "HOL-Library.Multiset"
begin

text \<open>
  Ranking the endpoints of a pool and choosing one (\<open>src/src/pool.rs\<close>): the candidates and the
  views' selectors, the preference order with hysteresis, the published answer of each view, and
  the choice made per connection. A \<open>HashMap\<close> keyed by address is an association list with distinct
  keys. The Student-t draws of a choice are the parameter \<open>draws\<close>, one per scored model.
\<close>

section \<open>Candidates and views\<close>

record candidate =
  cd_addr :: ip_addr
  cd_target :: nat
  cd_tags :: "string list"

definition candidate_matches :: "selector list \<Rightarrow> candidate \<Rightarrow> bool" where
  "candidate_matches sel c \<longleftrightarrow> sel = []
     \<or> list_ex (\<lambda>s. case s of SelIndex i \<Rightarrow> i = cd_target c | SelTag t \<Rightarrow> t \<in> set (cd_tags c)) sel"

fun position :: "('a \<Rightarrow> bool) \<Rightarrow> 'a list \<Rightarrow> nat option" where
  "position P [] = None"
| "position P (x # xs) = (if P x then Some 0 else map_option Suc (position P xs))"

definition view_for :: "selector list list \<Rightarrow> selector list option \<Rightarrow> nat option" where
  "view_for views selectors = position (\<lambda>v. v = (case selectors of None \<Rightarrow> [] | Some s \<Rightarrow> s)) views"

definition register_view :: "selector list option \<Rightarrow> selector list list \<Rightarrow> nat \<times> selector list list" where
  "register_view selectors views =
     (let sel = (case selectors of None \<Rightarrow> [] | Some s \<Rightarrow> s) in
      case position (\<lambda>v. v = sel) views of
        Some existing \<Rightarrow> (existing, views)
      | None \<Rightarrow> (length views, views @ [sel]))"

section \<open>The preference order\<close>

definition hysteresis_fraction :: "'f arith \<Rightarrow> 'f" where
  "hysteresis_fraction a = f_const a (1 / 5)"

definition hysteresis_floor :: nat where
  "hysteresis_floor = 5"

definition beats :: "'f arith \<Rightarrow> 'f \<Rightarrow> 'f \<Rightarrow> bool" where
  "beats a challenger incumbent =
     (let margin = f_max a (f_mul a incumbent (hysteresis_fraction a)) (f_secs a hysteresis_floor) in
      f_lt a (f_add a challenger margin) incumbent)"

type_synonym 'f health_map = "(ip_addr \<times> 'f health) list"

definition healthy_score :: "'f arith \<Rightarrow> nat \<Rightarrow> 'f health_map \<Rightarrow> ip_addr \<Rightarrow> 'f option" where
  "healthy_score a payload hm addr =
     (case map_of hm addr of None \<Rightarrow> None
      | Some h \<Rightarrow>
          if h_degraded h \<or> \<not> k_initialized (h_kalman h) then None
          else Some (f_add a (f_secs a (kalman_estimate a (h_kalman h)))
            (f_div a (f_const a (of_nat payload)) (typical_bps a (h_nig h)))))"

text \<open>\<open>known.insert(addr)\<close> as a filter: the first occurrence of every address not known yet.\<close>

fun newcomers :: "ip_addr list \<Rightarrow> ip_addr list \<Rightarrow> ip_addr list" where
  "newcomers known [] = []"
| "newcomers known (x # xs) = (if x \<in> set known then newcomers known xs else x # newcomers (x # known) xs)"

text \<open>The stable sort.\<close>

fun insert_stable :: "'f arith \<Rightarrow> ip_addr \<times> 'f \<Rightarrow> (ip_addr \<times> 'f) list \<Rightarrow> (ip_addr \<times> 'f) list" where
  "insert_stable a x [] = [x]"
| "insert_stable a x (y # ys) = (if f_lt a (snd y) (snd x) then y # insert_stable a x ys else x # y # ys)"

definition sort_scores :: "'f arith \<Rightarrow> (ip_addr \<times> 'f) list \<Rightarrow> (ip_addr \<times> 'f) list" where
  "sort_scores a xs = foldr (insert_stable a) xs []"

text \<open>\<open>order.swap(j, j - 1)\<close> and the inner loop that moves the entry at \<open>j\<close> forward.\<close>

definition swap_back :: "nat \<Rightarrow> ip_addr list \<Rightarrow> ip_addr list" where
  "swap_back j order = order[j := order ! (j - 1), j - 1 := order ! j]"

fun sift :: "'f arith \<Rightarrow> (ip_addr \<Rightarrow> 'f option) \<Rightarrow> nat \<Rightarrow> ip_addr list \<Rightarrow> ip_addr list" where
  "sift a sc 0 order = order"
| "sift a sc (Suc j) order =
     (case sc (order ! Suc j) of None \<Rightarrow> order
      | Some cur \<Rightarrow>
          (case sc (order ! j) of None \<Rightarrow> order
           | Some ahead \<Rightarrow> if beats a cur ahead then sift a sc j (swap_back (Suc j) order) else order))"

definition insertion_pass :: "'f arith \<Rightarrow> (ip_addr \<Rightarrow> 'f option) \<Rightarrow> ip_addr list \<Rightarrow> ip_addr list" where
  "insertion_pass a sc order = fold (sift a sc) [1..<length order] order"

definition reorder_with_hysteresis ::
    "'f arith \<Rightarrow> nat \<Rightarrow> 'f health_map \<Rightarrow> candidate list \<Rightarrow> ip_addr list \<Rightarrow> ip_addr list" where
  "reorder_with_hysteresis a payload hm cands prev =
     (let sc = healthy_score a payload hm;
          live = List.map cd_addr cands;
          kept = filter (\<lambda>addr. addr \<in> set live \<and> sc addr \<noteq> None) prev;
          fresh = List.map_filter (\<lambda>addr. map_option (Pair addr) (sc addr)) (newcomers kept live)
      in insertion_pass a sc (kept @ List.map fst (sort_scores a fresh)))"

section \<open>The published answer\<close>

record 'f selection_model =
  sm_addr :: ip_addr
  sm_rtt :: nat
  sm_throughput :: "'f nig"

record 'f view_ranking =
  vr_ordered :: "'f selection_model list"
  vr_incumbent :: nat
  vr_fallback :: "ip_addr option"

definition empty_ranking :: "nat \<Rightarrow> 'f view_ranking list" where
  "empty_ranking views = replicate views \<lparr>vr_ordered = [], vr_incumbent = 0, vr_fallback = None\<rparr>"

definition selection_model_of :: "'f arith \<Rightarrow> 'f health_map \<Rightarrow> ip_addr \<Rightarrow> 'f selection_model option" where
  "selection_model_of a hm addr =
     (case map_of hm addr of None \<Rightarrow> None
      | Some h \<Rightarrow> if h_degraded h then None
          else map_option (\<lambda>rtt. \<lparr>sm_addr = addr, sm_rtt = rtt, sm_throughput = h_nig h\<rparr>) (health_rtt a h))"

definition nth_opt :: "'a list \<Rightarrow> nat \<Rightarrow> 'a option" where
  "nth_opt xs i = (if i < length xs then Some (xs ! i) else None)"

definition publish_view ::
    "'f arith \<Rightarrow> 'f health_map \<Rightarrow> candidate list \<Rightarrow> ip_addr list \<Rightarrow> nat option \<Rightarrow> 'f view_ranking option
     \<Rightarrow> selector list \<Rightarrow> 'f view_ranking" where
  "publish_view a hm cands order fallback old sel =
     (let eligible = List.map cd_addr (filter (candidate_matches sel) cands);
          ordered = List.map_filter (selection_model_of a hm) (filter (\<lambda>addr. addr \<in> set eligible) order);
          previous = Option.bind old (\<lambda>v. map_option sm_addr (nth_opt (vr_ordered v) (vr_incumbent v)));
          incumbent = (case Option.bind previous (\<lambda>addr. position (\<lambda>m. sm_addr m = addr) ordered) of
             Some i \<Rightarrow> i | None \<Rightarrow> 0);
          safety = Option.bind fallback (\<lambda>t.
             map_option cd_addr (List.find (\<lambda>c. cd_target c = t \<and> candidate_matches sel c) cands))
      in \<lparr>vr_ordered = ordered, vr_incumbent = incumbent, vr_fallback = safety\<rparr>)"

definition publish ::
    "'f arith \<Rightarrow> 'f health_map \<Rightarrow> candidate list \<Rightarrow> ip_addr list \<Rightarrow> nat option \<Rightarrow> selector list list
     \<Rightarrow> 'f view_ranking list \<Rightarrow> 'f view_ranking list" where
  "publish a hm cands order fallback views old =
     List.map (\<lambda>(index, sel). publish_view a hm cands order fallback (nth_opt old index) sel) (List.enumerate 0 views)"

section \<open>The choice\<close>

text \<open>The scan: the position so far, the score of the incumbent, and the best position and score.\<close>

fun choose_scan :: "'f arith \<Rightarrow> nat \<Rightarrow> nat \<Rightarrow> 'f list \<Rightarrow> 'f \<times> nat \<times> 'f \<Rightarrow> 'f \<times> nat \<times> 'f" where
  "choose_scan a previous index [] acc = acc"
| "choose_scan a previous index (v # vs) (inc, best, best_score) =
     choose_scan a previous (Suc index) vs
       (if index = previous then v else inc,
        if f_lt a v best_score then index else best,
        if f_lt a v best_score then v else best_score)"

text \<open>The chosen position, which is also stored as the next incumbent.\<close>

definition choose_with :: "'f arith \<Rightarrow> nat \<Rightarrow> 'f list \<Rightarrow> nat option" where
  "choose_with a incumbent vals =
     (if vals = [] then None
      else (let previous = min incumbent (length vals - 1);
                (inc, best, best_score) = choose_scan a previous 0 vals (f_const a 0, 0, f_infinity a)
            in Some (if best = previous \<or> beats a best_score inc then best else previous)))"

datatype pick_error = UnregisteredView nat | NoCandidate | ShapeNotPositive

definition choose_candidate ::
    "'f arith \<Rightarrow> (nat \<Rightarrow> 'f \<Rightarrow> 'f) \<Rightarrow> nat \<Rightarrow> 'f view_ranking \<Rightarrow> (pick_error, ip_addr option \<times> nat) result" where
  "choose_candidate a draws payload vr =
     (if payload = 0 then Inr (map_option sm_addr (nth_opt (vr_ordered vr) 0), vr_incumbent vr)
      else
        res_bind (map_res (\<lambda>(i, m). ok_or ShapeNotPositive (score a (draws i) (sm_rtt m) (sm_throughput m) payload))
            (List.enumerate 0 (vr_ordered vr))) (\<lambda>vals.
          Inr (case choose_with a (vr_incumbent vr) vals of
                 None \<Rightarrow> (None, vr_incumbent vr)
               | Some i \<Rightarrow> (Some (sm_addr (vr_ordered vr ! i)), i))))"

text \<open>\<open>SocketAddr::new\<close>.\<close>

definition sock_new :: "ip_addr \<Rightarrow> nat \<Rightarrow> socket_addr" where
  "sock_new ip port = (case ip of V4 w \<Rightarrow> SockV4 w port | V6 w \<Rightarrow> SockV6 w 0 port)"

text \<open>The address to dial, with the published ranking after the incumbent has been stored.\<close>

definition pick ::
    "'f arith \<Rightarrow> (nat \<Rightarrow> 'f \<Rightarrow> 'f) \<Rightarrow> nat \<Rightarrow> 'f view_ranking list \<Rightarrow> nat \<Rightarrow> nat
     \<Rightarrow> (pick_error, socket_addr) result \<times> 'f view_ranking list" where
  "pick a draws payload ranking view port =
     (case nth_opt ranking view of None \<Rightarrow> (Inl (UnregisteredView view), ranking)
      | Some vr \<Rightarrow>
          (case choose_candidate a draws payload vr of
             Inl e \<Rightarrow> (Inl e, ranking)
           | Inr (choice, incumbent) \<Rightarrow>
               (case choice of
                  Some ip \<Rightarrow> (Inr (sock_new ip port), ranking[view := vr\<lparr>vr_incumbent := incumbent\<rparr>])
                | None \<Rightarrow>
                    (case vr_fallback vr of
                       Some ip \<Rightarrow> (Inr (sock_new ip port), ranking)
                     | None \<Rightarrow> (Inl NoCandidate, ranking)))))"

section \<open>The order\<close>

lemma beats_lt:
  assumes "arith_ok a" "beats a x y"
  shows "f_lt a x y"
proof -
  have "positive a (f_max a (f_mul a y (hysteresis_fraction a)) (f_secs a hysteresis_floor))"
    using assms(1) by (intro arith_max arith_secs) (simp_all add: hysteresis_floor_def)
  then show ?thesis
    using arith_margin [OF assms(1)] assms(2) by (simp add: beats_def Let_def)
qed

lemma beats_asym: "arith_ok a \<Longrightarrow> beats a x y \<Longrightarrow> \<not> beats a y x"
  using beats_lt arith_trans arith_irrefl by metis

definition overtakes :: "'f arith \<Rightarrow> (ip_addr \<Rightarrow> 'f option) \<Rightarrow> ip_addr \<Rightarrow> ip_addr \<Rightarrow> bool" where
  "overtakes a sc x y \<longleftrightarrow> (\<exists>cur ahead. sc x = Some cur \<and> sc y = Some ahead \<and> beats a cur ahead)"

lemma overtakes_asym: "arith_ok a \<Longrightarrow> overtakes a sc x y \<Longrightarrow> \<not> overtakes a sc y x"
  using beats_asym by (fastforce simp: overtakes_def)

lemma sift_step:
  "sift a sc (Suc j) order = (if overtakes a sc (order ! Suc j) (order ! j) then sift a sc j (swap_back (Suc j) order) else order)"
  by (auto simp: overtakes_def split: option.splits)

declare sift.simps(2) [simp del]

text \<open>No entry before position \<open>n\<close> overtakes the one ahead of it.\<close>

definition settled :: "'f arith \<Rightarrow> (ip_addr \<Rightarrow> 'f option) \<Rightarrow> nat \<Rightarrow> ip_addr list \<Rightarrow> bool" where
  "settled a sc n order \<longleftrightarrow> (\<forall>k. Suc k < n \<longrightarrow> \<not> overtakes a sc (order ! Suc k) (order ! k))"

lemma swap_back_mset:
  assumes "Suc j < length order"
  shows "mset (swap_back (Suc j) order) = mset order" "length (swap_back (Suc j) order) = length order"
  using assms mset_swap [of "Suc j" order j] by (simp_all add: swap_back_def list_update_swap)

lemma sift_mset:
  "j < length order \<Longrightarrow> mset (sift a sc j order) = mset order \<and> length (sift a sc j order) = length order"
  by (induction j arbitrary: order) (simp_all add: sift_step swap_back_mset)

lemma sift_settled:
  assumes "arith_ok a" "j < n" "n \<le> length order"
    and "\<forall>k. Suc k < n \<longrightarrow> Suc k \<noteq> j \<longrightarrow> \<not> overtakes a sc (order ! Suc k) (order ! k)"
    and "0 < j \<longrightarrow> Suc j < n \<longrightarrow> \<not> overtakes a sc (order ! Suc j) (order ! (j - 1))"
  shows "settled a sc n (sift a sc j order)"
  using assms(2-)
proof (induction j arbitrary: order)
  case 0
  then show ?case by (simp add: settled_def)
next
  case (Suc j)
  show ?case
  proof (cases "overtakes a sc (order ! Suc j) (order ! j)")
    case False
    then show ?thesis using Suc.prems by (auto simp: sift_step settled_def)
  next
    case True
    define o' where "o' = swap_back (Suc j) order"
    have nth: "o' ! k = (if k = j then order ! Suc j else if k = Suc j then order ! j else order ! k)" if "k < length order" for k
      using that Suc.prems(1,2) by (auto simp: o'_def swap_back_def nth_list_update)
    have l: "length o' = length order" using Suc.prems by (simp add: o'_def swap_back_def)
    have "settled a sc n (sift a sc j o')"
    proof (rule Suc.IH)
      show "\<forall>k. Suc k < n \<longrightarrow> Suc k \<noteq> j \<longrightarrow> \<not> overtakes a sc (o' ! Suc k) (o' ! k)"
      proof (intro allI impI)
        fix k assume k: "Suc k < n" "Suc k \<noteq> j"
        consider "k = j" | "k = Suc j" | "k \<noteq> j" "k \<noteq> Suc j" by blast
        then show "\<not> overtakes a sc (o' ! Suc k) (o' ! k)"
        proof cases
          case 1
          then show ?thesis using nth Suc.prems k overtakes_asym [OF assms(1) True] by simp
        next
          case 2
          then show ?thesis using nth Suc.prems k by simp
        next
          case 3
          then show ?thesis using nth Suc.prems k by simp
        qed
      qed
      show "0 < j \<longrightarrow> Suc j < n \<longrightarrow> \<not> overtakes a sc (o' ! Suc j) (o' ! (j - 1))"
        using nth Suc.prems by (cases j) auto
    qed (use Suc.prems l in auto)
    then show ?thesis using True by (simp add: sift_step o'_def)
  qed
qed

lemma insertion_pass_settled:
  assumes "arith_ok a"
  shows "settled a sc (length order) (insertion_pass a sc order) \<and> mset (insertion_pass a sc order) = mset order"
proof -
  have "n \<le> length order \<Longrightarrow> settled a sc n (fold (sift a sc) [1..<n] order)
      \<and> mset (fold (sift a sc) [1..<n] order) = mset order" for n
  proof (induction n)
    case 0
    then show ?case by (simp add: settled_def)
  next
    case (Suc n)
    let ?o = "fold (sift a sc) [1..<n] order"
    have ih: "settled a sc n ?o" "mset ?o = mset order" using Suc by auto
    then have l: "length ?o = length order" by (metis size_mset)
    show ?case
    proof (cases n)
      case 0
      then show ?thesis by (simp add: settled_def)
    next
      case (Suc m)
      then have f: "fold (sift a sc) [1..<Suc n] order = sift a sc n ?o" by simp
      have "settled a sc (Suc n) (sift a sc n ?o)"
        by (rule sift_settled [OF assms]) (use ih(1) l Suc.prems \<open>Suc n \<le> length order\<close> in \<open>auto simp: settled_def\<close>)
      moreover have "mset (sift a sc n ?o) = mset order"
        using sift_mset [of n ?o a sc] ih(2) l \<open>Suc n \<le> length order\<close> by simp
      ultimately show ?thesis unfolding f by blast
    qed
  qed
  then show ?thesis by (simp add: insertion_pass_def)
qed

lemma sift_id: "settled a sc n order \<Longrightarrow> j < n \<Longrightarrow> sift a sc j order = order"
  by (cases j) (auto simp: sift_step settled_def)

lemma insertion_pass_id:
  assumes "settled a sc (length order) order"
  shows "insertion_pass a sc order = order"
proof -
  have "\<forall>j\<in>set js. j < length order \<Longrightarrow> fold (sift a sc) js order = order" for js
    using sift_id [OF assms] by (induction js) auto
  then show ?thesis by (simp add: insertion_pass_def)
qed

lemma insert_stable_mset: "mset (insert_stable a x xs) = add_mset x (mset xs)"
  by (induction xs) auto

lemma sort_scores_mset: "mset (sort_scores a xs) = mset xs"
  by (induction xs) (simp_all add: sort_scores_def insert_stable_mset)

lemma set_newcomers: "set (newcomers known xs) = set xs - set known"
  by (induction known xs rule: newcomers.induct) auto

lemma distinct_newcomers: "distinct (newcomers known xs)"
  by (induction known xs rule: newcomers.induct) (auto simp: set_newcomers)

lemma map_fst_scored: "List.map fst (List.map_filter (\<lambda>addr. map_option (Pair addr) (sc addr)) xs) = filter (\<lambda>addr. sc addr \<noteq> None) xs"
  by (induction xs) (auto simp: List.map_filter_def)

text \<open>The order a pass starts from: the old one without the addresses that are gone, then the newcomers.\<close>

lemma reorder_shape:
  assumes "distinct prev" and "r = reorder_with_hysteresis a payload hm cands prev"
  obtains ord rest where "r = insertion_pass a (healthy_score a payload hm) ord"
    "ord = filter (\<lambda>addr. addr \<in> cd_addr ` set cands \<and> healthy_score a payload hm addr \<noteq> None) prev @ rest"
    "distinct ord" "set ord = {addr \<in> cd_addr ` set cands. healthy_score a payload hm addr \<noteq> None}"
proof -
  let ?sc = "healthy_score a payload hm"
  define kept where "kept = filter (\<lambda>addr. addr \<in> cd_addr ` set cands \<and> ?sc addr \<noteq> None) prev"
  define new where "new = newcomers kept (List.map cd_addr cands)"
  define fresh where "fresh = List.map_filter (\<lambda>addr. map_option (Pair addr) (?sc addr)) new"
  define ord where "ord = kept @ List.map fst (sort_scores a fresh)"
  have r: "r = insertion_pass a ?sc ord"
    by (simp add: assms(2) reorder_with_hysteresis_def Let_def ord_def fresh_def new_def kept_def)
  have "mset (List.map fst (sort_scores a fresh)) = mset (filter (\<lambda>addr. ?sc addr \<noteq> None) new)"
    unfolding fresh_def map_fst_scored [symmetric] by (simp add: sort_scores_mset)
  then have m: "mset ord = mset kept + mset (filter (\<lambda>addr. ?sc addr \<noteq> None) new)"
    by (simp add: ord_def)
  have "distinct (kept @ filter (\<lambda>addr. ?sc addr \<noteq> None) new)"
    using assms(1) distinct_newcomers set_newcomers by (auto simp: kept_def new_def)
  then have d: "distinct ord" using m mset_eq_imp_distinct_iff by (metis mset_append)
  have "set ord = {addr \<in> cd_addr ` set cands. ?sc addr \<noteq> None}"
    using mset_eq_setD [of ord "kept @ filter (\<lambda>addr. ?sc addr \<noteq> None) new"] m
    by (auto simp: kept_def new_def set_newcomers)
  then show thesis using that [OF r ord_def [unfolded kept_def] d] by blast
qed

lemma reorder_members:
  assumes "arith_ok a" "distinct prev" "r = reorder_with_hysteresis a payload hm cands prev"
  shows "distinct r" and "set r = {addr \<in> cd_addr ` set cands. healthy_score a payload hm addr \<noteq> None}"
proof -
  obtain ord rest where o: "r = insertion_pass a (healthy_score a payload hm) ord"
    "ord = filter (\<lambda>addr. addr \<in> cd_addr ` set cands \<and> healthy_score a payload hm addr \<noteq> None) prev @ rest"
    "distinct ord" "set ord = {addr \<in> cd_addr ` set cands. healthy_score a payload hm addr \<noteq> None}"
    by (rule reorder_shape [OF assms(2,3)])
  have m: "mset r = mset ord"
    using insertion_pass_settled [OF assms(1), of "healthy_score a payload hm" ord] o(1) by blast
  show "distinct r" using m o(3) mset_eq_imp_distinct_iff by blast
  show "set r = {addr \<in> cd_addr ` set cands. healthy_score a payload hm addr \<noteq> None}"
    using mset_eq_setD [OF m] o(4) by simp
qed

text \<open>C22. The preference order: it holds every live healthy address exactly once and nothing else; no
  entry beats the one ahead of it by the margin; and an order in which no entry does stays exactly
  as it is while the same endpoints are healthy, so noise below the margin never moves traffic.\<close>

theorem order_settled:
  assumes "arith_ok a" and "distinct prev" and "r = reorder_with_hysteresis a payload hm cands prev"
  shows "distinct r \<and> set r = {addr \<in> cd_addr ` set cands. healthy_score a payload hm addr \<noteq> None}
    \<and> settled a (healthy_score a payload hm) (length r) r
    \<and> (set prev = set r \<and> settled a (healthy_score a payload hm) (length prev) prev \<longrightarrow> r = prev)"
proof -
  let ?sc = "healthy_score a payload hm"
  obtain ord rest where o: "r = insertion_pass a ?sc ord"
    "ord = filter (\<lambda>addr. addr \<in> cd_addr ` set cands \<and> ?sc addr \<noteq> None) prev @ rest"
    "distinct ord" "set ord = {addr \<in> cd_addr ` set cands. ?sc addr \<noteq> None}"
    by (rule reorder_shape [OF assms(2,3)])
  note p = insertion_pass_settled [OF assms(1), of ?sc ord] and members = reorder_members [OF assms]
  have "r = prev" if prev: "set prev = set r" "settled a ?sc (length prev) prev"
  proof -
    have app: "ord = prev @ rest"
      unfolding o(2) using prev(1) members(2) by (auto simp: filter_id_conv)
    have "set ord = set prev" using prev(1) members(2) o(4) by simp
    then have "set rest \<subseteq> set prev" by (simp add: app Un_absorb2 le_iff_sup Un_commute)
    moreover have "set prev \<inter> set rest = {}" using o(3) by (simp add: app)
    ultimately have "rest = []" by (cases rest) auto
    then have "ord = prev" using app by simp
    then show ?thesis using insertion_pass_id [OF prev(2)] o(1) by simp
  qed
  moreover have "length r = length ord" using p o(1) by (metis size_mset)
  ultimately show ?thesis using p o(1) members by metis
qed

lemma order_settled_witness:
  "reorder_with_hysteresis exact_arith 0 [(V4 1, record_success exact_arith 0 40 300 30 (health_new exact_arith 0 30 0 1)),
      (V4 2, record_success exact_arith 0 37 300 30 (health_new exact_arith 0 30 0 1))]
      [\<lparr>cd_addr = V4 2, cd_target = 0, cd_tags = []\<rparr>, \<lparr>cd_addr = V4 1, cd_target = 0, cd_tags = []\<rparr>] [V4 1, V4 2]
    = [V4 1, V4 2]"
proof -
  define hm where "hm = [(V4 1, record_success exact_arith 0 40 300 30 (health_new exact_arith 0 30 0 1)),
      (V4 2, record_success exact_arith 0 37 300 30 (health_new exact_arith 0 30 0 1))]"
  let ?c = "[\<lparr>cd_addr = V4 2, cd_target = 0, cd_tags = []\<rparr>, \<lparr>cd_addr = V4 1, cd_target = 0, cd_tags = []\<rparr>]"
  have sc: "healthy_score exact_arith 0 hm (V4 1) = Some (1 / 25)" "healthy_score exact_arith 0 hm (V4 2) = Some (37 / 1000)"
    by (simp_all add: hm_def healthy_score_def record_success_def health_new_def kalman_new_def kalman_update_def
        kalman_estimate_def exact_arith_def Let_def)
  have "\<not> beats exact_arith (37 / 1000) (1 / 25)"
    by (simp add: beats_def exact_arith_def hysteresis_floor_def hysteresis_fraction_def Let_def)
  then have "\<not> overtakes exact_arith (healthy_score exact_arith 0 hm) (V4 2) (V4 1)"
    unfolding overtakes_def sc option.inject by blast
  then have "settled exact_arith (healthy_score exact_arith 0 hm) (length [V4 1, V4 2]) [V4 1, V4 2]"
    by (simp add: settled_def less_Suc_eq)
  moreover have "{addr \<in> cd_addr ` set ?c. healthy_score exact_arith 0 hm addr \<noteq> None} = {V4 1, V4 2}"
    using sc by auto
  ultimately show ?thesis
    using order_settled [OF exact_arith_ok, of "[V4 1, V4 2]" _ 0 hm ?c] unfolding hm_def [symmetric] by auto
qed

section \<open>Views and choices\<close>

lemma position_Some: "position P xs = Some i \<Longrightarrow> i < length xs \<and> P (xs ! i)"
  by (induction xs arbitrary: i) (auto split: if_splits)

lemma position_None: "position P xs = None \<longleftrightarrow> (\<forall>x\<in>set xs. \<not> P x)"
  by (induction xs) auto

lemma position_append: "position P xs = Some i \<Longrightarrow> position P (xs @ ys) = Some i"
  by (induction xs arbitrary: i) (auto split: if_splits)

text \<open>A registered filter keeps the position it was given, whatever is registered after it.\<close>

lemma register_view_for:
  assumes "register_view selectors views = (i, views')"
  shows "view_for (views' @ later) selectors = Some i"
proof (cases "position (\<lambda>v. v = (case selectors of None \<Rightarrow> [] | Some s \<Rightarrow> s)) views")
  case None
  have "position P (xs @ [x]) = Some (length xs)" if "\<forall>y\<in>set xs. \<not> P y" "P x" for P xs and x :: "selector list"
    using that by (induction xs) auto
  moreover have "i = length views" "views' = views @ [case selectors of None \<Rightarrow> [] | Some s \<Rightarrow> s]"
    using None assms by (simp_all add: register_view_def Let_def)
  ultimately show ?thesis
    using None unfolding view_for_def position_None by (intro position_append) simp
next
  case (Some j)
  then show ?thesis
    using assms by (auto simp: register_view_def view_for_def Let_def intro!: position_append)
qed

lemma model_iff_score: "selection_model_of a hm addr \<noteq> None \<longleftrightarrow> healthy_score a payload hm addr \<noteq> None"
  by (auto simp: selection_model_of_def healthy_score_def health_rtt_def split: option.splits)

lemma model_addr: "selection_model_of a hm addr = Some m \<Longrightarrow> sm_addr m = addr"
  by (auto simp: selection_model_of_def split: option.splits if_splits)

lemma model_nig:
  assumes "selection_model_of a hm addr = Some m" "\<forall>(x, h)\<in>set hm. nig_ok a (h_nig h)"
  shows "nig_ok a (sm_throughput m)"
  using assms by (auto simp: selection_model_of_def split: option.splits if_splits dest!: map_of_SomeD)

lemma set_map_filter_Some: "set (List.map_filter f xs) = {y. \<exists>x\<in>set xs. f x = Some y}"
  by (force simp: List.map_filter_def)

lemma choose_scan_best:
  "choose_scan a previous i vs (inc, b, s) = (inc', b', s') \<Longrightarrow> b' = b \<or> i \<le> b' \<and> b' < i + length vs"
  by (induction a previous i vs "(inc, b, s)" arbitrary: inc b s rule: choose_scan.induct) (fastforce split: if_splits)+

lemma choose_with_bound: "vals \<noteq> [] \<Longrightarrow> \<exists>i < length vals. choose_with a incumbent vals = Some i"
  by (auto simp: choose_with_def Let_def split: prod.splits dest!: choose_scan_best)

lemma choose_candidate_ok:
  assumes "arith_ok a" "\<forall>m\<in>set (vr_ordered vr). nig_ok a (sm_throughput m)"
  shows "\<exists>choice i. choose_candidate a draws payload vr = Inr (choice, i)
    \<and> (choice = None \<longleftrightarrow> vr_ordered vr = []) \<and> (\<forall>ip. choice = Some ip \<longrightarrow> ip \<in> sm_addr ` set (vr_ordered vr))"
proof (cases "payload = 0")
  case True
  then show ?thesis by (auto simp: choose_candidate_def nth_opt_def)
next
  case False
  let ?f = "\<lambda>(i, m). ok_or ShapeNotPositive (score a (draws i) (sm_rtt m) (sm_throughput m) payload)"
  have ok: "\<forall>x\<in>set (List.enumerate 0 (vr_ordered vr)). \<exists>v. ?f x = Inr v"
    using assms score_ok by (fastforce simp: in_set_enumerate_eq)
  then obtain vals where v: "map_res ?f (List.enumerate 0 (vr_ordered vr)) = Inr vals"
  proof -
    have "\<forall>x\<in>set xs. \<exists>v. f x = Inr v \<Longrightarrow> \<exists>vs. map_res f xs = Inr vs" for f :: "nat \<times> 'a selection_model \<Rightarrow> (pick_error, 'a) result" and xs
      by (induction xs) (auto split: sum.splits)
    then show ?thesis using that ok by blast
  qed
  then have l: "length vals = length (vr_ordered vr)" by (simp add: map_res_ok)
  show ?thesis
  proof (cases "vals = []")
    case True
    then show ?thesis using v l False by (simp add: choose_candidate_def choose_with_def)
  next
    case nonempty: False
    obtain i where "i < length vals" "choose_with a (vr_incumbent vr) vals = Some i"
      using choose_with_bound [OF nonempty] by blast
    then show ?thesis using v l False nonempty by (auto simp: choose_candidate_def)
  qed
qed

text \<open>Two rankings that differ only in the stored incumbents.\<close>

definition same_answers :: "'f view_ranking list \<Rightarrow> 'f view_ranking list \<Rightarrow> bool" where
  "same_answers = list_all2 (\<lambda>v w. vr_ordered v = vr_ordered w \<and> vr_fallback v = vr_fallback w)"

lemma same_answers_refl: "same_answers r r"
  by (simp add: same_answers_def list_all2_refl)

text \<open>An endpoint a view may serve.\<close>

definition usable :: "'f arith \<Rightarrow> nat \<Rightarrow> 'f health_map \<Rightarrow> candidate list \<Rightarrow> selector list \<Rightarrow> ip_addr \<Rightarrow> bool" where
  "usable a payload hm cands sel addr \<longleftrightarrow>
     (\<exists>c\<in>set cands. candidate_matches sel c \<and> cd_addr c = addr) \<and> healthy_score a payload hm addr \<noteq> None"

definition is_fallback :: "candidate list \<Rightarrow> selector list \<Rightarrow> nat option \<Rightarrow> ip_addr \<Rightarrow> bool" where
  "is_fallback cands sel fallback addr \<longleftrightarrow>
     (\<exists>c\<in>set cands. fallback = Some (cd_target c) \<and> candidate_matches sel c \<and> cd_addr c = addr)"

lemma publish_view_ordered:
  assumes "arith_ok a" "distinct prev" "order = reorder_with_hysteresis a payload hm cands prev"
  shows "sm_addr ` set (vr_ordered (publish_view a hm cands order fallback old sel)) = {addr. usable a payload hm cands sel addr}"
proof -
  have "set order = {addr \<in> cd_addr ` set cands. healthy_score a payload hm addr \<noteq> None}"
    by (rule reorder_members(2) [OF assms])
  moreover have "healthy_score a payload hm addr \<noteq> None \<Longrightarrow> \<exists>m. selection_model_of a hm addr = Some m \<and> sm_addr m = addr" for addr
    using model_iff_score [of a hm addr payload] model_addr by blast
  ultimately show ?thesis
    using model_addr model_iff_score [of a hm _ payload]
    by (fastforce simp: publish_view_def Let_def set_map_filter_Some usable_def image_iff)
qed

lemma publish_view_fallback:
  "(\<forall>ip. vr_fallback (publish_view a hm cands order fallback old sel) = Some ip \<longrightarrow> is_fallback cands sel fallback ip)
   \<and> (vr_fallback (publish_view a hm cands order fallback old sel) = None \<longrightarrow> (\<nexists>ip. is_fallback cands sel fallback ip))"
proof (cases fallback)
  case (Some t)
  have found: "c \<in> set xs \<and> P c" if "List.find P xs = Some c" for P c and xs :: "candidate list"
    using that by (induction xs) (auto split: if_splits)
  then show ?thesis
    using Some by (cases "List.find (\<lambda>c. cd_target c = t \<and> candidate_matches sel c) cands")
      (auto simp: publish_view_def Let_def is_fallback_def find_None_iff)
qed (simp add: publish_view_def Let_def is_fallback_def)

text \<open>What a view that shows the published answers holds, and what a pick makes of it.\<close>

lemma published_view:
  assumes "arith_ok a" "\<forall>(x, h)\<in>set hm. nig_ok a (h_nig h)" "distinct prev"
    and "order = reorder_with_hysteresis a payload hm cands prev"
    and "same_answers ranking (publish a hm cands order fallback views old)" "view < length views"
  shows "view < length ranking"
    and "sm_addr ` set (vr_ordered (ranking ! view)) = {addr. usable a payload hm cands (views ! view) addr}"
    and "\<forall>m\<in>set (vr_ordered (ranking ! view)). nig_ok a (sm_throughput m)"
    and "vr_fallback (ranking ! view) = Some ip \<Longrightarrow> is_fallback cands (views ! view) fallback ip"
    and "vr_fallback (ranking ! view) = None \<Longrightarrow> \<not> Ex (is_fallback cands (views ! view) fallback)"
proof -
  define w where "w = publish_view a hm cands order fallback (nth_opt old view) (views ! view)"
  have "length (publish a hm cands order fallback views old) = length views"
    "publish a hm cands order fallback views old ! view = w"
    using assms(6) by (simp_all add: publish_def w_def nth_enumerate_eq)
  then have l: "view < length ranking"
    and vr: "vr_ordered (ranking ! view) = vr_ordered w" "vr_fallback (ranking ! view) = vr_fallback w"
    using assms(5,6) by (auto simp: same_answers_def list_all2_conv_all_nth)
  show "view < length ranking" by (rule l)
  show "sm_addr ` set (vr_ordered (ranking ! view)) = {addr. usable a payload hm cands (views ! view) addr}"
    unfolding vr w_def by (rule publish_view_ordered [OF assms(1,3,4)])
  show "\<forall>m\<in>set (vr_ordered (ranking ! view)). nig_ok a (sm_throughput m)"
    unfolding vr w_def using model_nig [OF _ assms(2)]
    by (auto simp: publish_view_def Let_def set_map_filter_Some)
  show "vr_fallback (ranking ! view) = Some ip \<Longrightarrow> is_fallback cands (views ! view) fallback ip"
    "vr_fallback (ranking ! view) = None \<Longrightarrow> \<not> Ex (is_fallback cands (views ! view) fallback)"
    unfolding vr w_def using publish_view_fallback by blast+
qed

lemma sock_new_simps [simp]: "sock_port (sock_new ip port) = port" "sock_ip (sock_new ip port) = ip"
  by (cases ip; simp add: sock_new_def)+

lemma same_answers_incumbent:
  assumes "same_answers ranking r" "view < length ranking"
  shows "same_answers (ranking[view := (ranking ! view)\<lparr>vr_incumbent := i\<rparr>]) r"
  using assms by (auto simp: same_answers_def list_all2_conv_all_nth nth_list_update)

lemma pick_cases:
  assumes "arith_ok a" "view < length ranking" "\<forall>m\<in>set (vr_ordered (ranking ! view)). nig_ok a (sm_throughput m)"
    and "pick a draws payload ranking view port = (outcome, ranking')"
  obtains (Choice) ip i where "ip \<in> sm_addr ` set (vr_ordered (ranking ! view))" "outcome = Inr (sock_new ip port)"
      "ranking' = ranking[view := (ranking ! view)\<lparr>vr_incumbent := i\<rparr>]"
  | (Fallback) ip where "vr_ordered (ranking ! view) = []" "vr_fallback (ranking ! view) = Some ip"
      "outcome = Inr (sock_new ip port)" "ranking' = ranking"
  | (Empty) "vr_ordered (ranking ! view) = []" "vr_fallback (ranking ! view) = None" "outcome = Inl NoCandidate" "ranking' = ranking"
proof -
  obtain choice i where c: "choose_candidate a draws payload (ranking ! view) = Inr (choice, i)"
    "choice = None \<longleftrightarrow> vr_ordered (ranking ! view) = []"
    "\<And>ip. choice = Some ip \<Longrightarrow> ip \<in> sm_addr ` set (vr_ordered (ranking ! view))"
    using choose_candidate_ok [OF assms(1,3)] by blast
  have "nth_opt ranking view = Some (ranking ! view)" using assms(2) by (simp add: nth_opt_def)
  then have run: "(outcome, ranking') = (case choice of
      Some ip \<Rightarrow> (Inr (sock_new ip port), ranking[view := (ranking ! view)\<lparr>vr_incumbent := i\<rparr>])
    | None \<Rightarrow> (case vr_fallback (ranking ! view) of
        Some ip \<Rightarrow> (Inr (sock_new ip port), ranking) | None \<Rightarrow> (Inl NoCandidate, ranking)))"
    using assms(4) c(1) by (simp add: pick_def)
  show thesis
  proof (cases choice)
    case (Some ip)
    then show thesis using run by (intro Choice [OF c(3) [OF Some]]) simp_all
  next
    case None
    then show thesis
      using run c(2) by (cases "vr_fallback (ranking ! view)") (simp_all add: Fallback Empty)
  qed
qed


definition sample_health :: "rat health_map" where
  "sample_health = [(V4 1, record_success exact_arith 0 40 300 30 (health_new exact_arith 0 30 0 1))]"

definition sample_candidate :: candidate where
  "sample_candidate = \<lparr>cd_addr = V4 1, cd_target = 0, cd_tags = [''ipv4'']\<rparr>"


end
