(* ===== verification/Poolstate.thy ===== *)
theory Poolstate
  imports Ranking Nat64 "HOL-Library.AList"
begin

text \<open>
  The state a pool's probe task owns and the steps it takes (\<open>src/src/pool.rs\<close>): expanding the
  targets into candidates, carrying health across candidate changes, folding probe outcomes and
  passive observations into it, and replacing dead samples. A \<open>HashMap\<close> is an association list
  with distinct keys, in the order it happens to be iterated. Clock readings, DNS answers, probe
  outcomes (in the order the probes complete) and random offsets are arguments of the step.
\<close>

section \<open>State\<close>

record target =
  tg_spec :: target_spec
  tg_tags :: "string list"
  tg_sampled :: "ip_addr list"

record nat64_projection =
  np_prefixes :: "nat64_prefix list"
  np_from :: "nat list option"
  np_timeout :: nat

record 'f timing =
  ti_interval :: nat
  ti_degraded_interval :: nat
  ti_fail_threshold :: nat
  ti_max_concurrent :: nat
  ti_payload :: nat
  ti_discount :: 'f
  ti_kalman_q :: 'f
  ti_kalman_r :: 'f

record 'f pool_cfg =
  pl_targets :: "target list"
  pl_timing :: "'f timing"
  pl_nat64 :: "nat64_projection option"
  pl_fallback :: "nat option"
  pl_views :: "selector list list"

record 'f subnet_prior =
  sp_model :: "'f nig"
  sp_last_used :: nat

record 'f pool_state =
  ps_health :: "'f health_map"
  ps_order :: "ip_addr list"
  ps_parked :: "(ip_addr \<times> 'f health \<times> nat) list"
  ps_priors :: "(subnet_key \<times> 'f subnet_prior) list"
  ps_resampled :: "ip_addr list"
  ps_replacements :: "(nat \<times> ip_addr list) list"
  ps_resolved :: "(nat \<times> ip_addr list) list"
  ps_resolved_at :: "nat option"

definition max_parked_candidates :: nat where
  "max_parked_candidates = 4096"

definition max_idle_subnet_priors :: nat where
  "max_idle_subnet_priors = 1024"

definition park_duration :: nat where
  "park_duration = 600000"

definition pool_state_new :: "'f pool_state" where
  "pool_state_new = \<lparr>ps_health = [], ps_order = [], ps_parked = [], ps_priors = [], ps_resampled = [],
     ps_replacements = [], ps_resolved = [], ps_resolved_at = None\<rparr>"

section \<open>Candidates\<close>

definition tag_ipv4 :: string where "tag_ipv4 = ''ipv4''"
definition tag_ipv6 :: string where "tag_ipv6 = ''ipv6''"
definition tag_nat64 :: string where "tag_nat64 = ''nat64''"

definition push_candidate :: "nat \<Rightarrow> target \<Rightarrow> ip_addr \<Rightarrow> candidate" where
  "push_candidate index t addr = \<lparr>cd_addr = addr, cd_target = index,
     cd_tags = (case addr of V4 _ \<Rightarrow> tag_ipv4 | V6 _ \<Rightarrow> tag_ipv6) # tg_tags t\<rparr>"

definition lookup_list :: "(nat \<times> 'a list) list \<Rightarrow> nat \<Rightarrow> 'a list" where
  "lookup_list m i = (case map_of m i of None \<Rightarrow> [] | Some xs \<Rightarrow> xs)"

definition target_addrs :: "'f pool_state \<Rightarrow> nat \<Rightarrow> target \<Rightarrow> ip_addr list" where
  "target_addrs st index t = (case tg_spec t of
     TsIp ip \<Rightarrow> [ip]
   | TsCidr _ _ _ \<Rightarrow> filter (\<lambda>ip. ip \<notin> set (ps_resampled st)) (tg_sampled t) @ lookup_list (ps_replacements st) index
   | TsDomain _ \<Rightarrow> lookup_list (ps_resolved st) index)"

definition project_nat64 :: "target list \<Rightarrow> nat64_projection \<Rightarrow> candidate \<Rightarrow> candidate list" where
  "project_nat64 targets n c = (case cd_addr c of
     V6 _ \<Rightarrow> []
   | V4 v4 \<Rightarrow>
       if (case np_from n of None \<Rightarrow> True | Some is \<Rightarrow> cd_target c \<in> set is) then
         List.map (\<lambda>prefix. \<lparr>cd_addr = V6 (synthesize prefix v4), cd_target = cd_target c,
           cd_tags = tag_nat64 # tag_ipv6 # tg_tags (targets ! cd_target c)\<rparr>) (np_prefixes n)
       else [])"

definition expand_targets :: "'f pool_cfg \<Rightarrow> 'f pool_state \<Rightarrow> candidate list" where
  "expand_targets p st =
     (let native = concat (List.map (\<lambda>(i, t). List.map (push_candidate i t) (target_addrs st i t))
            (List.enumerate 0 (pl_targets p)))
      in native @ (case pl_nat64 p of None \<Rightarrow> [] | Some n \<Rightarrow> concat (List.map (project_nat64 (pl_targets p) n) native)))"

section \<open>History\<close>

text \<open>The \<open>excess\<close> entries with the smallest key, in a sort of the iteration order.\<close>

definition oldest :: "('a \<times> nat) list \<Rightarrow> nat \<Rightarrow> 'a list" where
  "oldest xs excess = List.map fst (take excess (sort_key snd xs))"

definition prune_parked :: "nat \<Rightarrow> (ip_addr \<times> 'f health \<times> nat) list \<Rightarrow> (ip_addr \<times> 'f health \<times> nat) list" where
  "prune_parked now parked =
     (let live = filter (\<lambda>(_, _, expires). now < expires) parked in
      if max_parked_candidates < length live then
        (let old = oldest (List.map (\<lambda>(addr, _, expires). (addr, expires)) live) (length live - max_parked_candidates)
         in filter (\<lambda>e. fst e \<notin> set old) live)
      else live)"

definition prune_priors ::
    "nat \<Rightarrow> subnet_key list \<Rightarrow> (subnet_key \<times> 'f subnet_prior) list \<Rightarrow> (subnet_key \<times> 'f subnet_prior) list" where
  "prune_priors now retained priors =
     (let kept = filter (\<lambda>(key, pr). key \<in> set retained \<or> now - sp_last_used pr < park_duration) priors;
          idle = List.map (\<lambda>(key, pr). (key, sp_last_used pr)) (filter (\<lambda>(key, _). key \<notin> set retained) kept)
      in if max_idle_subnet_priors < length idle then
           (let old = oldest idle (length idle - max_idle_subnet_priors) in filter (\<lambda>e. fst e \<notin> set old) kept)
         else kept)"

definition retained_subnets :: "'f health_map \<Rightarrow> (ip_addr \<times> 'f health \<times> nat) list \<Rightarrow> subnet_key list" where
  "retained_subnets hm parked = List.map subnet_key_of (List.map fst hm @ List.map fst parked)"

definition prune_history :: "nat \<Rightarrow> 'f pool_state \<Rightarrow> 'f pool_state" where
  "prune_history now st =
     (let parked = prune_parked now (ps_parked st) in
      st\<lparr>ps_parked := parked,
         ps_priors := prune_priors now (retained_subnets (ps_health st) parked) (ps_priors st)\<rparr>)"

text \<open>Departing endpoints are parked; then every candidate without health gets some.\<close>

definition park_departing :: "nat \<Rightarrow> ip_addr list \<Rightarrow> 'f pool_state \<Rightarrow> 'f pool_state" where
  "park_departing now live st =
     (let departing = filter (\<lambda>(addr, _). addr \<notin> set live) (ps_health st) in
      st\<lparr>ps_health := filter (\<lambda>(addr, _). addr \<in> set live) (ps_health st),
         ps_parked := fold (\<lambda>(addr, h). AList.update addr (h, now + park_duration)) departing (ps_parked st)\<rparr>)"

definition admit :: "'f arith \<Rightarrow> 'f timing \<Rightarrow> nat \<Rightarrow> candidate \<Rightarrow> 'f pool_state \<Rightarrow> 'f pool_state" where
  "admit a ti now c st =
     (if map_of (ps_health st) (cd_addr c) \<noteq> None then st
      else (case map_of (ps_parked st) (cd_addr c) of
        Some (h, _) \<Rightarrow> st\<lparr>ps_parked := AList.delete (cd_addr c) (ps_parked st),
            ps_health := AList.update (cd_addr c) h (ps_health st)\<rparr>
      | None \<Rightarrow>
          (let h = health_new a now (ti_degraded_interval ti) (ti_kalman_q ti) (ti_kalman_r ti);
               h' = (case map_of (ps_priors st) (subnet_key_of (cd_addr c)) of
                 Some subnet \<Rightarrow> h\<lparr>h_nig := sp_model subnet\<rparr> | None \<Rightarrow> h)
           in st\<lparr>ps_health := AList.update (cd_addr c) h' (ps_health st)\<rparr>)))"

definition build_candidates :: "'f arith \<Rightarrow> 'f pool_cfg \<Rightarrow> nat \<Rightarrow> 'f pool_state \<Rightarrow> candidate list \<times> 'f pool_state" where
  "build_candidates a p now st =
     (let out = expand_targets p st;
          st1 = prune_history now st;
          st2 = park_departing now (List.map cd_addr out) st1;
          st3 = fold (admit a (pl_timing p) now) out st2
      in (out, prune_history now st3))"

section \<open>Passive observations\<close>

definition adjust :: "'k \<Rightarrow> ('v \<Rightarrow> 'v) \<Rightarrow> ('k \<times> 'v) list \<Rightarrow> ('k \<times> 'v) list" where
  "adjust k f m = List.map (\<lambda>(k', v). (k', if k' = k then f v else v)) m"

definition observe_prior :: "'f arith \<Rightarrow> 'f \<Rightarrow> 'f \<Rightarrow> nat \<Rightarrow> subnet_key \<Rightarrow> 'f pool_state \<Rightarrow> 'f pool_state" where
  "observe_prior a bps discount now key st =
     (let model = (case map_of (ps_priors st) key of Some pr \<Rightarrow> sp_model pr | None \<Rightarrow> default_nig_prior a) in
      st\<lparr>ps_priors := AList.update key \<lparr>sp_model = nig_observe a bps discount model, sp_last_used = now\<rparr> (ps_priors st)\<rparr>)"

definition observe ::
    "'f arith \<Rightarrow> 'f \<Rightarrow> nat \<Rightarrow> ip_addr \<Rightarrow> nat \<Rightarrow> nat \<Rightarrow> 'f pool_state \<Rightarrow> bool \<times> 'f pool_state" where
  "observe a discount now addr bytes elapsed st =
     (if bytes = 0 \<or> elapsed = 0 then (False, st)
      else
        (let active = (map_of (ps_health st) addr \<noteq> None);
             parked = (case map_of (ps_parked st) addr of Some (_, expires) \<Rightarrow> now < expires | None \<Rightarrow> False);
             bps = f_div a (f_const a (of_nat bytes)) (f_secs a elapsed);
             key = subnet_key_of addr
         in if active then
              (True, observe_prior a bps discount now key
                (st\<lparr>ps_health := adjust addr (observe_throughput a bytes elapsed discount) (ps_health st)\<rparr>))
            else if parked then
              (False, observe_prior a bps discount now key
                (st\<lparr>ps_parked := adjust addr (\<lambda>(h, e). (observe_throughput a bytes elapsed discount h, e)) (ps_parked st)\<rparr>))
            else (False, st)))"

section \<open>Domain refresh and deadlines\<close>

fun is_domain :: "target_spec \<Rightarrow> bool" where
  "is_domain (TsDomain _) = True"
| "is_domain _ = False"

definition dns_refresh :: "'f pool_cfg \<Rightarrow> 'f pool_state \<Rightarrow> nat" where
  "dns_refresh p st =
     (if list_ex (\<lambda>(i, t). is_domain (tg_spec t) \<and> map_of (ps_resolved st) i = None) (List.enumerate 0 (pl_targets p))
      then ti_degraded_interval (pl_timing p) else ti_interval (pl_timing p))"

text \<open>\<open>answers\<close> is what a lookup of the target's name comes back with.\<close>

definition refresh_domains ::
    "'f pool_cfg \<Rightarrow> nat \<Rightarrow> (nat \<Rightarrow> ip_addr list option) \<Rightarrow> 'f pool_state \<Rightarrow> 'f pool_state" where
  "refresh_domains p now answers st =
     (if (case ps_resolved_at st of Some t \<Rightarrow> now - t < dns_refresh p st | None \<Rightarrow> False) then st
      else fold (\<lambda>(i, t) s. if is_domain (tg_spec t)
          then (case answers i of Some ips \<Rightarrow> s\<lparr>ps_resolved := AList.update i ips (ps_resolved s)\<rparr> | None \<Rightarrow> s) else s)
        (List.enumerate 0 (pl_targets p)) (st\<lparr>ps_resolved_at := Some now\<rparr>))"

definition min_opt :: "nat list \<Rightarrow> nat option" where
  "min_opt xs = (case xs of [] \<Rightarrow> None | y # ys \<Rightarrow> Some (fold min ys y))"

definition next_due :: "'f pool_cfg \<Rightarrow> nat \<Rightarrow> candidate list \<Rightarrow> 'f pool_state \<Rightarrow> nat" where
  "next_due p now cands st =
     (let soonest = min_opt (List.map (\<lambda>h. h_next_probe h - now)
            (List.map_filter (\<lambda>c. map_of (ps_health st) (cd_addr c)) cands));
          dns_deadline = (case ps_resolved_at st of None \<Rightarrow> 0 | Some t \<Rightarrow> dns_refresh p st - (now - t));
          has_domain = list_ex (\<lambda>t. is_domain (tg_spec t)) (pl_targets p);
          wait = (case soonest of
              Some s \<Rightarrow> if has_domain then min s dns_deadline else s
            | None \<Rightarrow> if has_domain then dns_deadline else ti_interval (pl_timing p))
      in max wait 50)"

section \<open>The probe cycle\<close>

text \<open>The candidates to probe: due, and each address once.\<close>

fun due_candidates :: "'f health_map \<Rightarrow> nat \<Rightarrow> ip_addr list \<Rightarrow> candidate list \<Rightarrow> candidate list" where
  "due_candidates hm now seen [] = []"
| "due_candidates hm now seen (c # cs) =
     (if cd_addr c \<in> set seen then due_candidates hm now seen cs
      else (let rest = due_candidates hm now (cd_addr c # seen) cs in
        case map_of hm (cd_addr c) of
          Some h \<Rightarrow> if h_next_probe h \<le> now then c # rest else rest
        | None \<Rightarrow> c # rest))"

text \<open>One probe's outcome: the round trip, or \<open>None\<close> for a failure, and the clock when it is
  recorded.\<close>

definition apply_outcome ::
    "'f arith \<Rightarrow> 'f timing \<Rightarrow> ip_addr \<times> nat option \<times> nat \<Rightarrow> 'f pool_state \<Rightarrow> 'f pool_state" where
  "apply_outcome a ti ev st =
     (case ev of (addr, outcome, now) \<Rightarrow>
       st\<lparr>ps_health := adjust addr (\<lambda>h. case outcome of
           Some rtt \<Rightarrow> record_success a now rtt (ti_interval ti) (ti_degraded_interval ti) h
         | None \<Rightarrow> record_failure now (ti_fail_threshold ti) (ti_interval ti) (ti_degraded_interval ti) h) (ps_health st)\<rparr>)"

definition replace_recorded_sample ::
    "nat \<Rightarrow> ip_addr \<Rightarrow> ip_addr \<Rightarrow> (nat \<times> ip_addr list) list \<Rightarrow> (nat \<times> ip_addr list) list" where
  "replace_recorded_sample index dead replacement m =
     (let active = filter (\<lambda>addr. addr \<noteq> dead) (lookup_list m index) in
      AList.update index (if replacement \<in> set active then active else active @ [replacement]) m)"

definition never_answered :: "'f arith \<Rightarrow> nat \<Rightarrow> 'f health \<Rightarrow> bool" where
  "never_answered a interval h \<longleftrightarrow> h_degraded h \<and> health_rtt a h = None \<and> interval \<le> h_backoff h"

text \<open>The replacements to make: target, dead address, new address. \<open>starts\<close> are the random
  offsets, one per candidate that is inspected.\<close>

fun plan_replacements ::
    "'f arith \<Rightarrow> 'f pool_cfg \<Rightarrow> 'f health_map \<Rightarrow> (nat \<Rightarrow> nat) \<Rightarrow> nat \<Rightarrow> candidate list \<Rightarrow> ip_addr list
     \<Rightarrow> (nat \<times> ip_addr) list \<Rightarrow> (nat \<times> ip_addr \<times> ip_addr) list" where
  "plan_replacements a p hm starts k [] reserved keys = []"
| "plan_replacements a p hm starts k (c # cs) reserved keys =
     (let skip = plan_replacements a p hm starts (Suc k) cs in
      case map_of hm (cd_addr c) of None \<Rightarrow> skip reserved keys
      | Some h \<Rightarrow>
          if \<not> never_answered a (ti_interval (pl_timing p)) h then skip reserved keys
          else (case tg_spec (pl_targets p ! cd_target c) of
            TsCidr net len (Some _) \<Rightarrow>
              if (cd_target c, cd_addr c) \<in> set keys then skip reserved keys
              else (case draw_fresh_sample (starts k) net len reserved of
                  None \<Rightarrow> skip reserved ((cd_target c, cd_addr c) # keys)
                | Some addr \<Rightarrow> (cd_target c, cd_addr c, addr)
                    # skip (addr # reserved) ((cd_target c, cd_addr c) # keys))
          | _ \<Rightarrow> skip reserved keys))"

definition retire :: "ip_addr list \<Rightarrow> 'f pool_state \<Rightarrow> 'f pool_state" where
  "retire dead st = st\<lparr>ps_resampled := remdups (dead @ ps_resampled st),
     ps_health := filter (\<lambda>(addr, _). addr \<notin> set dead) (ps_health st),
     ps_order := filter (\<lambda>addr. addr \<notin> set dead) (ps_order st)\<rparr>"

definition resample_dead ::
    "'f arith \<Rightarrow> 'f pool_cfg \<Rightarrow> (nat \<Rightarrow> nat) \<Rightarrow> candidate list \<Rightarrow> 'f pool_state \<Rightarrow> 'f pool_state" where
  "resample_dead a p starts cands st =
     (let reserved = remdups (List.map fst (ps_health st) @ ps_resampled st);
          planned = plan_replacements a p (ps_health st) starts 0 cands reserved [];
          st' = st\<lparr>ps_replacements := fold (\<lambda>(i, dead, new). replace_recorded_sample i dead new) planned (ps_replacements st)\<rparr>
      in retire (List.map (\<lambda>(_, dead, _). dead) planned) st')"

text \<open>While probes are in flight the task also takes in observations.\<close>

datatype cycle_item =
    Completed ip_addr "nat option" nat
  | Transfer nat ip_addr nat nat

fun apply_item :: "'f arith \<Rightarrow> 'f timing \<Rightarrow> cycle_item \<Rightarrow> 'f pool_state \<Rightarrow> 'f pool_state" where
  "apply_item a ti (Completed addr outcome now) st = apply_outcome a ti (addr, outcome, now) st"
| "apply_item a ti (Transfer now addr bytes elapsed) st = snd (observe a (ti_discount ti) now addr bytes elapsed st)"

text \<open>\<open>items\<close> lists, in order, the completed probes and the observations; when nothing is due the
  cycle does nothing.\<close>

definition run_cycle ::
    "'f arith \<Rightarrow> 'f pool_cfg \<Rightarrow> nat \<Rightarrow> cycle_item list \<Rightarrow> (nat \<Rightarrow> nat) \<Rightarrow> candidate list
     \<Rightarrow> 'f pool_state \<Rightarrow> 'f pool_state" where
  "run_cycle a p now items starts cands st =
     (if due_candidates (ps_health st) now [] cands = [] then st
      else resample_dead a p starts cands (fold (apply_item a (pl_timing p)) items st))"

definition recompute_order :: "'f arith \<Rightarrow> 'f timing \<Rightarrow> candidate list \<Rightarrow> 'f pool_state \<Rightarrow> 'f pool_state" where
  "recompute_order a ti cands st =
     st\<lparr>ps_order := reorder_with_hysteresis a (ti_payload ti) (ps_health st) cands (ps_order st)\<rparr>"

text \<open>A step of the task: refreshing the domains, rebuilding the candidates, a probe cycle,
  reordering, or an observation between passes.\<close>

datatype pool_event =
    EvRefresh nat "nat \<Rightarrow> ip_addr list option"
  | EvBuild nat
  | EvCycle nat "cycle_item list" "nat \<Rightarrow> nat"
  | EvOrder
  | EvObserve nat ip_addr nat nat

fun pool_step :: "'f arith \<Rightarrow> 'f pool_cfg \<Rightarrow> pool_event \<Rightarrow> candidate list \<times> 'f pool_state \<Rightarrow> candidate list \<times> 'f pool_state" where
  "pool_step a p (EvRefresh now answers) (cands, st) = (cands, refresh_domains p now answers st)"
| "pool_step a p (EvBuild now) (cands, st) = build_candidates a p now st"
| "pool_step a p (EvCycle now items starts) (cands, st) = (cands, run_cycle a p now items starts cands st)"
| "pool_step a p EvOrder (cands, st) = (cands, recompute_order a (pl_timing p) cands st)"
| "pool_step a p (EvObserve now addr bytes elapsed) (cands, st) =
     (cands, snd (observe a (ti_discount (pl_timing p)) now addr bytes elapsed st))"

section \<open>The state stays well formed\<close>

definition pool_inv :: "'f arith \<Rightarrow> 'f pool_state \<Rightarrow> bool" where
  "pool_inv a st \<longleftrightarrow> distinct (List.map fst (ps_health st)) \<and> distinct (List.map fst (ps_parked st))
     \<and> distinct (List.map fst (ps_priors st))
     \<and> fst ` set (ps_health st) \<inter> fst ` set (ps_parked st) = {}
     \<and> (\<forall>(x, h)\<in>set (ps_health st). nig_ok a (h_nig h)) \<and> (\<forall>(x, h, e)\<in>set (ps_parked st). nig_ok a (h_nig h))
     \<and> (\<forall>(k, pr)\<in>set (ps_priors st). nig_ok a (sp_model pr))"

lemma pool_inv_new: "pool_inv a pool_state_new"
  by (simp add: pool_inv_def pool_state_new_def)

lemma pool_inv_other [simp]:
  "pool_inv a (st\<lparr>ps_order := x1\<rparr>) = pool_inv a st" "pool_inv a (st\<lparr>ps_resampled := x2\<rparr>) = pool_inv a st"
  "pool_inv a (st\<lparr>ps_replacements := x3\<rparr>) = pool_inv a st" "pool_inv a (st\<lparr>ps_resolved := x4\<rparr>) = pool_inv a st"
  "pool_inv a (st\<lparr>ps_resolved_at := x5\<rparr>) = pool_inv a st"
  by (simp_all add: pool_inv_def)

lemma filter_keys: "distinct (List.map fst m) \<Longrightarrow> distinct (List.map fst (filter P m))"
  by (induction m) auto

lemma set_update: "distinct (List.map fst m) \<Longrightarrow> set (AList.update k v m) = {(k', v') \<in> set m. k' \<noteq> k} \<union> {(k, v)}"
  by (induction m) force+

lemma keys_update: "fst ` set (AList.update k v m) = insert k (fst ` set m)"
  by (induction m) auto

lemma set_delete: "set (AList.delete k m) = {(k', v') \<in> set m. k' \<noteq> k}"
  by (auto simp: AList.delete_eq)

lemma keys_adjust [simp]: "List.map fst (adjust k f m) = List.map fst m"
  by (simp add: adjust_def case_prod_beta comp_def)

lemma fst_adjust [simp]: "fst ` set (adjust k f m) = fst ` set m"
  by (metis keys_adjust list.set_map)

lemma prune_parked_sub: "set (prune_parked now parked) \<subseteq> set parked"
  by (auto simp: prune_parked_def Let_def)

lemma prune_priors_sub: "set (prune_priors now retained priors) \<subseteq> set priors"
  by (auto simp: prune_priors_def Let_def)

lemma prune_keys:
  "distinct (List.map fst parked) \<Longrightarrow> distinct (List.map fst (prune_parked now parked))"
  "distinct (List.map fst priors) \<Longrightarrow> distinct (List.map fst (prune_priors now retained priors))"
  by (simp_all add: prune_parked_def prune_priors_def Let_def filter_keys)

lemma prune_history_inv [inv_intros]: "pool_inv a st \<Longrightarrow> pool_inv a (prune_history now st)"
  using prune_parked_sub [of now "ps_parked st"]
    prune_priors_sub [of now "retained_subnets (ps_health st) (prune_parked now (ps_parked st))" "ps_priors st"]
  unfolding pool_inv_def prune_history_def Let_def
  by (auto simp: prune_keys)

lemma park_fold:
  fixes t :: nat
  assumes "distinct (List.map fst parked)" "\<forall>(x, h, e)\<in>set parked. P h" "\<forall>(x, h)\<in>set gone. P h"
  defines "parked' \<equiv> fold (\<lambda>(addr, h). AList.update addr (h, t)) gone parked"
  shows "distinct (List.map fst parked') \<and> (\<forall>(x, h, e)\<in>set parked'. P h) \<and> fst ` set parked' = fst ` set parked \<union> fst ` set gone"
  using assms(1-3) unfolding assms(4)
proof (induction gone arbitrary: parked)
  case (Cons g gone)
  obtain addr h where g: "g = (addr, h)" by (cases g)
  have "distinct (List.map fst (AList.update addr (h, t) parked))" using Cons.prems(1) by (rule distinct_update)
  moreover have "\<forall>(x, h, e)\<in>set (AList.update addr (h, t) parked). P h"
    using Cons.prems by (auto simp: set_update g)
  ultimately show ?case using Cons.IH [of "AList.update addr (h, t) parked"] Cons.prems(3)
    by (simp add: g keys_update)
qed simp

lemma park_departing_inv [inv_intros]: "pool_inv a st \<Longrightarrow> pool_inv a (park_departing now live st)"
proof -
  assume inv: "pool_inv a st"
  let ?gone = "filter (\<lambda>(addr, _). addr \<notin> set live) (ps_health st)"
  let ?parked = "fold (\<lambda>(addr, h). AList.update addr (h, now + park_duration)) ?gone (ps_parked st)"
  have p: "distinct (List.map fst ?parked) \<and> (\<forall>(x, h, e)\<in>set ?parked. nig_ok a (h_nig h))
      \<and> fst ` set ?parked = fst ` set (ps_parked st) \<union> fst ` set ?gone"
    by (rule park_fold) (use inv in \<open>auto simp: pool_inv_def\<close>)
  have "fst ` set (filter (\<lambda>(addr, _). addr \<in> set live) (ps_health st)) \<inter> fst ` set ?parked = {}"
    using p inv by (auto simp: pool_inv_def)
  then show ?thesis
    using inv p by (auto simp: pool_inv_def park_departing_def Let_def filter_keys)
qed

lemma park_departing_keys: "fst ` set (ps_health (park_departing now live st)) = fst ` set (ps_health st) \<inter> set live"
  by (force simp: park_departing_def Let_def)

lemma admit_inv [inv_intros]:
  assumes "arith_ok a" "pool_inv a st"
  shows "pool_inv a (admit a ti now c st)"
proof (cases "map_of (ps_health st) (cd_addr c)")
  case None
  then have fresh: "cd_addr c \<notin> fst ` set (ps_health st)" by (simp add: map_of_eq_None_iff)
  show ?thesis
  proof (cases "map_of (ps_parked st) (cd_addr c)")
    case (Some e)
    then obtain h t where e: "e = (h, t)" "(cd_addr c, h, t) \<in> set (ps_parked st)"
      by (cases e) (auto dest: map_of_SomeD)
    then have "nig_ok a (h_nig h)" using assms(2) by (auto simp: pool_inv_def)
    then show ?thesis
      using None Some e fresh assms(2)
      by (auto simp: admit_def pool_inv_def set_update set_delete keys_update distinct_update distinct_delete)
  next
    case parked: None
    let ?h = "health_new a now (ti_degraded_interval ti) (ti_kalman_q ti) (ti_kalman_r ti)"
    define h where "h = (case map_of (ps_priors st) (subnet_key_of (cd_addr c)) of
      Some subnet \<Rightarrow> ?h\<lparr>h_nig := sp_model subnet\<rparr> | None \<Rightarrow> ?h)"
    have "nig_ok a (h_nig h)"
      using assms health_nig_ok(4) [OF assms(1)]
      by (auto simp: h_def pool_inv_def split: option.splits dest: map_of_SomeD)
    moreover have "admit a ti now c st = st\<lparr>ps_health := AList.update (cd_addr c) h (ps_health st)\<rparr>"
      using None parked by (simp add: admit_def h_def Let_def)
    moreover have "cd_addr c \<notin> fst ` set (ps_parked st)" using parked by (simp add: map_of_eq_None_iff)
    ultimately show ?thesis
      using assms(2) by (auto simp: pool_inv_def set_update keys_update distinct_update)
  qed
qed (simp add: admit_def assms(2))

lemma admit_keys: "fst ` set (ps_health (admit a ti now c st)) = insert (cd_addr c) (fst ` set (ps_health st))"
proof (cases "map_of (ps_health st) (cd_addr c)")
  case (Some h)
  then have "cd_addr c \<in> fst ` set (ps_health st)" by (force dest: map_of_SomeD)
  then show ?thesis using Some by (auto simp: admit_def)
qed (auto simp: admit_def Let_def keys_update split: option.splits)

lemma admit_fold:
  assumes "arith_ok a" "pool_inv a st"
  shows "pool_inv a (fold (admit a ti now) cs st)
    \<and> fst ` set (ps_health (fold (admit a ti now) cs st)) = cd_addr ` set cs \<union> fst ` set (ps_health st)"
  using assms(2) by (induction cs arbitrary: st) (auto simp: admit_inv [OF assms(1)] admit_keys)

lemma build_candidates_inv [inv_intros]:
  "arith_ok a \<Longrightarrow> pool_inv a st \<Longrightarrow> pool_inv a (snd (build_candidates a p now st))"
  by (simp add: build_candidates_def Let_def prune_history_inv park_departing_inv admit_fold)

lemma build_candidates_keys:
  assumes "arith_ok a" "pool_inv a st" "build_candidates a p now st = (cands, st')"
  shows "fst ` set (ps_health st') = cd_addr ` set cands" "cands = expand_targets p st"
proof -
  have keep: "ps_health (prune_history now s) = ps_health s" for s :: "'a pool_state"
    by (simp add: prune_history_def Let_def)
  have "pool_inv a (park_departing now (List.map cd_addr cands) (prune_history now st))"
    using assms(2) by (intro inv_intros)
  from admit_fold [OF assms(1) this, of "pl_timing p" now cands]
  have "fst ` set (ps_health (fold (admit a (pl_timing p) now) cands
      (park_departing now (List.map cd_addr cands) (prune_history now st)))) = cd_addr ` set cands"
    unfolding park_departing_keys by auto
  moreover show "cands = expand_targets p st"
    using assms(3) by (simp add: build_candidates_def Let_def)
  moreover have "ps_health st' = ps_health (fold (admit a (pl_timing p) now) cands
      (park_departing now (List.map cd_addr cands) (prune_history now st)))"
    using assms(3) keep by (auto simp: build_candidates_def Let_def)
  ultimately show "fst ` set (ps_health st') = cd_addr ` set cands" by simp
qed

lemma set_adjust: "set (adjust k f m) = (\<lambda>(k', v). (k', if k' = k then f v else v)) ` set m"
  by (simp add: adjust_def)

lemma observe_prior_inv:
  assumes "arith_ok a" "pool_inv a st"
  shows "pool_inv a (observe_prior a bps discount now key st)"
proof -
  have "nig_ok a (case map_of (ps_priors st) key of Some pr \<Rightarrow> sp_model pr | None \<Rightarrow> default_nig_prior a)"
    using assms nig_prior_ok by (auto simp: pool_inv_def split: option.splits dest: map_of_SomeD)
  then show ?thesis
    using assms by (auto simp: observe_prior_def Let_def pool_inv_def set_update distinct_update nig_observe_ok)
qed

lemma pool_inv_health:
  assumes "pool_inv a st" "\<And>h. nig_ok a (h_nig h) \<Longrightarrow> nig_ok a (h_nig (f h))"
  shows "pool_inv a (st\<lparr>ps_health := adjust k f (ps_health st)\<rparr>)"
proof -
  have "\<forall>(x, h)\<in>set (adjust k f (ps_health st)). nig_ok a (h_nig h)"
    using assms by (auto simp: pool_inv_def set_adjust)
  then show ?thesis using assms(1) by (simp add: pool_inv_def)
qed

lemma pool_inv_parked:
  assumes "pool_inv a st" "\<And>h e. nig_ok a (h_nig h) \<Longrightarrow> nig_ok a (h_nig (fst (f (h, e))))"
  shows "pool_inv a (st\<lparr>ps_parked := adjust k f (ps_parked st)\<rparr>)"
proof -
  have "\<forall>(x, h, e)\<in>set (adjust k f (ps_parked st)). nig_ok a (h_nig h)"
  proof -
    have "nig_ok a (h_nig (fst he))" if "(x, he) \<in> set (adjust k f (ps_parked st))" for x he
      using that assms unfolding set_adjust pool_inv_def by (auto split: if_splits)
    then show ?thesis by force
  qed
  then show ?thesis using assms(1) by (simp add: pool_inv_def)
qed

lemma observe_inv [inv_intros]:
  "arith_ok a \<Longrightarrow> pool_inv a st \<Longrightarrow> pool_inv a (snd (observe a discount now addr bytes elapsed st))"
  by (auto simp: observe_def Let_def health_nig_ok intro!: observe_prior_inv pool_inv_health pool_inv_parked)

lemma apply_outcome_inv: "pool_inv a st \<Longrightarrow> pool_inv a (apply_outcome a ti ev st)"
  by (cases ev) (auto simp: apply_outcome_def health_nig_ok intro!: pool_inv_health split: option.splits)

lemma items_inv: "arith_ok a \<Longrightarrow> pool_inv a st \<Longrightarrow> pool_inv a (fold (apply_item a ti) items st)"
proof (induction items arbitrary: st)
  case (Cons x xs)
  then show ?case by (cases x) (simp_all add: apply_outcome_inv observe_inv)
qed simp

lemma retire_inv: "pool_inv a st \<Longrightarrow> pool_inv a (retire dead st)"
  by (auto simp: pool_inv_def retire_def filter_keys)

lemma run_cycle_inv [inv_intros]:
  "arith_ok a \<Longrightarrow> pool_inv a st \<Longrightarrow> pool_inv a (run_cycle a p now items starts cands st)"
  by (simp add: run_cycle_def resample_dead_def Let_def items_inv retire_inv)

lemma refresh_inv [inv_intros]:
  fixes a :: "'a arith"
  assumes "pool_inv a st"
  shows "pool_inv a (refresh_domains p now answers st)"
proof -
  define f where "f = (\<lambda>(i, t :: target) s :: 'a pool_state. if is_domain (tg_spec t)
    then (case answers i of Some ips \<Rightarrow> s\<lparr>ps_resolved := AList.update i ips (ps_resolved s)\<rparr> | None \<Rightarrow> s) else s)"
  have "pool_inv a st \<Longrightarrow> pool_inv a (fold f xs st)" for xs st
    by (induction xs arbitrary: st) (auto simp: f_def split: option.splits)
  then have "pool_inv a (fold f (List.enumerate 0 (pl_targets p)) (st\<lparr>ps_resolved_at := Some now\<rparr>))"
    using assms by simp
  then show ?thesis
    unfolding refresh_domains_def f_def using assms by simp
qed

lemma pool_step_inv:
  assumes "arith_ok a" "pool_inv a (snd s)"
  shows "pool_inv a (snd (pool_step a p ev s))"
  by (cases ev; cases s)
    (use assms in \<open>simp_all add: refresh_inv build_candidates_inv run_cycle_inv recompute_order_def observe_inv\<close>)

lemma pool_run_inv:
  assumes "arith_ok a" "pool_inv a (snd s)"
  shows "pool_inv a (snd (fold (pool_step a p) evs s))"
  using assms(2) by (induction evs arbitrary: s) (simp_all add: pool_step_inv [OF assms(1)])

section \<open>Bounds\<close>

lemma oldest_props:
  assumes "distinct (List.map fst xs)"
  shows "distinct (oldest xs n)" "set (oldest xs n) \<subseteq> fst ` set xs" "length (oldest xs n) = min n (length xs)"
proof -
  have "mset (List.map fst (sort_key snd xs)) = mset (List.map fst xs)" by simp
  then have "distinct (List.map fst (sort_key snd xs))" using assms mset_eq_imp_distinct_iff by blast
  then show "distinct (oldest xs n)" by (simp add: oldest_def take_map [symmetric] distinct_take)
  show "set (oldest xs n) \<subseteq> fst ` set xs"
    using set_take_subset [of n "sort_key snd xs"] by (auto simp: oldest_def)
  show "length (oldest xs n) = min n (length xs)" by (simp add: oldest_def)
qed

lemma length_filter_out:
  assumes "distinct (List.map fst m)" "distinct ks" "set ks \<subseteq> fst ` set m"
  shows "length (filter (\<lambda>e. fst e \<notin> set ks) m) = length m - length ks"
proof -
  have "distinct (List.map fst (filter (\<lambda>e. fst e \<notin> set ks) m))" using assms(1) by (rule filter_keys)
  then have "length (filter (\<lambda>e. fst e \<notin> set ks) m) = card (fst ` set (filter (\<lambda>e. fst e \<notin> set ks) m))"
    by (metis distinct_card length_map set_map)
  also have "fst ` set (filter (\<lambda>e. fst e \<notin> set ks) m) = fst ` set m - set ks" by auto
  also have "card \<dots> = card (fst ` set m) - card (set ks)" using assms(3) by (simp add: card_Diff_subset)
  also have "card (fst ` set m) = length m" using assms(1) by (metis distinct_card length_map set_map)
  finally show ?thesis using assms(2) by (simp add: distinct_card)
qed

lemma prune_parked_bound:
  assumes "distinct (List.map fst parked)"
  shows "length (prune_parked now parked) \<le> max_parked_candidates"
proof -
  let ?live = "filter (\<lambda>(_, _, expires). now < expires) parked"
  let ?aged = "List.map (\<lambda>(addr, _, expires). (addr, expires)) ?live"
  have d: "distinct (List.map fst ?live)" using assms by (rule filter_keys)
  have f: "List.map fst ?aged = List.map fst ?live" by (simp add: case_prod_beta comp_def)
  note o = oldest_props [of ?aged "length ?live - max_parked_candidates", unfolded f, OF d]
  have "set (oldest ?aged (length ?live - max_parked_candidates)) \<subseteq> fst ` set ?live"
    using o(2) by (metis f list.set_map)
  from length_filter_out [OF d o(1) this] show ?thesis
    using o(3) by (simp add: prune_parked_def Let_def)
qed

lemma filter_comm: "filter P (filter Q xs) = filter Q (filter P xs)"
  by (induction xs) auto

lemma prune_priors_bound:
  assumes "distinct (List.map fst priors)"
  shows "length (filter (\<lambda>(key, _). key \<notin> set retained) (prune_priors now retained priors)) \<le> max_idle_subnet_priors"
proof -
  define kept where "kept = filter (\<lambda>(key, pr). key \<in> set retained \<or> now - sp_last_used pr < park_duration) priors"
  define idle where "idle = filter (\<lambda>(key, _). key \<notin> set retained) kept"
  define aged where "aged = List.map (\<lambda>(key, pr). (key, sp_last_used pr)) idle"
  define old where "old = oldest aged (length aged - max_idle_subnet_priors)"
  have d: "distinct (List.map fst idle)" unfolding idle_def kept_def by (intro filter_keys assms)
  have f: "List.map fst aged = List.map fst idle" by (simp add: aged_def case_prod_beta comp_def)
  have "set old \<subseteq> fst ` set idle" using oldest_props(2) [of aged] d f by (metis list.set_map old_def)
  moreover have "distinct old" "length old = min (length aged - max_idle_subnet_priors) (length aged)"
    using oldest_props(1,3) [of aged] d f by (simp_all add: old_def)
  ultimately have "length (filter (\<lambda>e. fst e \<notin> set old) idle) \<le> max_idle_subnet_priors"
    using length_filter_out [OF d, of old] by (simp add: aged_def)
  moreover have "filter (\<lambda>(key, _). key \<notin> set retained) (filter (\<lambda>e. fst e \<notin> set old) kept)
      = filter (\<lambda>e. fst e \<notin> set old) idle"
    unfolding idle_def by (rule filter_comm)
  moreover have "prune_priors now retained priors
      = (if max_idle_subnet_priors < length aged then filter (\<lambda>e. fst e \<notin> set old) kept else kept)"
    by (simp add: prune_priors_def Let_def aged_def idle_def kept_def old_def)
  moreover have "length idle = length aged" by (simp add: aged_def)
  ultimately show ?thesis
    by (simp add: idle_def)
qed

definition idle_priors :: "'f pool_state \<Rightarrow> (subnet_key \<times> 'f subnet_prior) list" where
  "idle_priors st = filter (\<lambda>(key, _). key \<notin> set (retained_subnets (ps_health st) (ps_parked st))) (ps_priors st)"

lemma prune_history_bounds:
  assumes "pool_inv a st"
  shows "length (ps_parked (prune_history now st)) \<le> max_parked_candidates
    \<and> length (idle_priors (prune_history now st)) \<le> max_idle_subnet_priors"
  using assms prune_parked_bound [of "ps_parked st" now]
    prune_priors_bound [of "ps_priors st" "retained_subnets (ps_health st) (prune_parked now (ps_parked st))" now]
  by (simp add: prune_history_def Let_def idle_priors_def pool_inv_def)

section \<open>Provenance of the candidates\<close>

definition native_candidate :: "'f pool_cfg \<Rightarrow> candidate \<Rightarrow> bool" where
  "native_candidate p c \<longleftrightarrow> cd_target c < length (pl_targets p)
     \<and> cd_tags c = (case cd_addr c of V4 _ \<Rightarrow> tag_ipv4 | V6 _ \<Rightarrow> tag_ipv6) # tg_tags (pl_targets p ! cd_target c)"

text \<open>A projection of a native IPv4 candidate of the same, participating target.\<close>

definition projected_candidate :: "'f pool_cfg \<Rightarrow> candidate list \<Rightarrow> candidate \<Rightarrow> bool" where
  "projected_candidate p cands c \<longleftrightarrow>
     (\<exists>n prefix v4. pl_nat64 p = Some n \<and> prefix \<in> set (np_prefixes n)
       \<and> (\<forall>is. np_from n = Some is \<longrightarrow> cd_target c \<in> set is)
       \<and> cd_addr c = V6 (synthesize prefix v4) \<and> cd_target c < length (pl_targets p)
       \<and> cd_tags c = tag_nat64 # tag_ipv6 # tg_tags (pl_targets p ! cd_target c)
       \<and> (\<exists>c'\<in>set cands. native_candidate p c' \<and> cd_addr c' = V4 v4 \<and> cd_target c' = cd_target c))"

lemma expand_targets_provenance:
  assumes "c \<in> set (expand_targets p st)"
  shows "native_candidate p c \<or> projected_candidate p (expand_targets p st) c"
proof -
  define native where "native = concat (List.map (\<lambda>(i, t). List.map (push_candidate i t) (target_addrs st i t))
    (List.enumerate 0 (pl_targets p)))"
  have n: "native_candidate p c" if "c \<in> set native" for c
    using that by (auto simp: native_def native_candidate_def push_candidate_def in_set_enumerate_eq)
  have e: "expand_targets p st = native @ (case pl_nat64 p of None \<Rightarrow> []
      | Some n \<Rightarrow> concat (List.map (project_nat64 (pl_targets p) n) native))"
    unfolding expand_targets_def native_def Let_def ..
  consider "c \<in> set native" | x c' where "pl_nat64 p = Some x" "c' \<in> set native" "c \<in> set (project_nat64 (pl_targets p) x c')"
    using assms unfolding e by (cases "pl_nat64 p") auto
  then show ?thesis
  proof cases
    case 2
    then obtain v4 where v4: "cd_addr c' = V4 v4" by (cases "cd_addr c'") (auto simp: project_nat64_def)
    have n': "native_candidate p c'" "c' \<in> set (expand_targets p st)" using 2(2) n by (simp_all add: e)
    obtain prefix where c: "prefix \<in> set (np_prefixes x)" "\<forall>is. np_from x = Some is \<longrightarrow> cd_target c' \<in> set is"
      "c = \<lparr>cd_addr = V6 (synthesize prefix v4), cd_target = cd_target c',
        cd_tags = tag_nat64 # tag_ipv6 # tg_tags (pl_targets p ! cd_target c')\<rparr>"
      using 2(3) v4 by (auto simp: project_nat64_def split: if_splits option.splits)
    have "projected_candidate p (expand_targets p st) c"
      unfolding projected_candidate_def
      by (intro exI [of _ x] exI [of _ prefix] exI [of _ v4] conjI bexI [of _ c'])
        (use c n' v4 2(1) in \<open>auto simp: native_candidate_def\<close>)
    then show ?thesis ..
  qed (use n in blast)
qed


definition sample_pool :: "rat pool_cfg" where
  "sample_pool = \<lparr>pl_targets = [\<lparr>tg_spec = TsIp (V4 7), tg_tags = [''eu''], tg_sampled = []\<rparr>],
     pl_timing = \<lparr>ti_interval = 300, ti_degraded_interval = 30, ti_fail_threshold = 2, ti_max_concurrent = 16,
       ti_payload = 0, ti_discount = 1, ti_kalman_q = 0, ti_kalman_r = 1\<rparr>,
     pl_nat64 = None, pl_fallback = None, pl_views = [[]]\<rparr>"


end
