(* ===== verification/Probing.thy ===== *)
theory Probing
  imports Dial Peek Poolstate
begin

text \<open>
  The probes: what a pool asks of one endpoint (the probe plan, the TLS and HTTP exchanges of
  \<open>src/src/pool.rs\<close>), and the startup check that the backend of an \<open>http\<close> route speaks HTTP/2
  (\<open>src/src/probe.rs\<close>).

  An exchange is driven by the outcomes of its socket operations; times are milliseconds since the
  attempt began. \<open>None\<close> is an exchange still waiting for the peer, which only the deadline ends.
\<close>

section \<open>Reading a status line\<close>

datatype stream_read = SrBytes nat string | SrError

datatype probe_fail =
    PfTimeout
  | PfServerName string
  | PfConnect
  | PfHandshake error_link
  | PfEchClient ech_error
  | PfEchStatus ech_status
  | PfWrite
  | PfRead
  | PfNoResponse
  | PfNotUtf8
  | PfEmptyLine
  | PfNoStatusLine string
  | PfNoCode string
  | PfBadCode string
  | PfStatus nat

fun has_crlf :: "string \<Rightarrow> bool" where
  "has_crlf (a # b # s) = (byte a = 13 \<and> byte b = 10 \<or> has_crlf (b # s))"
| "has_crlf _ = False"

definition status_line_buf :: nat where
  "status_line_buf = 128"

text \<open>The read loop: the buffer and the time of the first byte. A read of no bytes is the end.\<close>

fun read_status :: "stream_read list \<Rightarrow> string \<Rightarrow> nat option \<Rightarrow> (probe_fail, string \<times> nat option) result option" where
  "read_status reads buf rtt =
     (if status_line_buf \<le> length buf then Some (Inr (buf, rtt))
      else case reads of [] \<Rightarrow> None
        | SrError # rest \<Rightarrow> Some (Inl PfRead)
        | SrBytes t bs # rest \<Rightarrow>
            if bs = [] then Some (Inr (buf, rtt))
            else
              (let got = take (status_line_buf - length buf) bs;
                   rtt' = (case rtt of None \<Rightarrow> Some t | Some _ \<Rightarrow> rtt);
                   seen = buf @ got in
               if has_crlf (drop (length buf - 1) seen) then Some (Inr (seen, rtt'))
               else read_status rest seen rtt'))"

declare read_status.simps [simp del]

definition line_feed :: char where
  "line_feed = CHR 0x0A"

definition carriage_return :: char where
  "carriage_return = CHR 0x0D"

text \<open>\<open>lines().next()\<close>, empty when there is no line.\<close>

definition first_line :: "string \<Rightarrow> string" where
  "first_line text =
     (case split_once line_feed text of
        None \<Rightarrow> text
      | Some (l, _) \<Rightarrow> (case strip_suffix [carriage_return] l of None \<Rightarrow> l | Some l' \<Rightarrow> l'))"

fun take_word :: "string \<Rightarrow> string \<times> string" where
  "take_word [] = ([], [])"
| "take_word (c # s) =
     (if 0 < ws_front (c # s) then ([], c # s) else case take_word s of (w, r) \<Rightarrow> (c # w, r))"

text \<open>\<open>split_whitespace().next()\<close>: the next word and what follows it.\<close>

definition next_word :: "string \<Rightarrow> (string \<times> string) option" where
  "next_word s = (let t = trim_start s in if t = [] then None else Some (take_word t))"

definition parse_status :: "string \<Rightarrow> (probe_fail, nat) result" where
  "parse_status bytes =
     (if \<not> utf8_ok bytes then Inl PfNotUtf8
      else
        (let l = first_line bytes in
         case next_word l of None \<Rightarrow> Inl PfEmptyLine
         | Some (version, rest) \<Rightarrow>
             if \<not> starts_with ''HTTP/'' version then Inl (PfNoStatusLine l)
             else (case next_word rest of None \<Rightarrow> Inl (PfNoCode l)
               | Some (code, _) \<Rightarrow> ok_or (PfBadCode code) (parse_u16 code))))"

definition http_exchange :: "bool \<Rightarrow> stream_read list \<Rightarrow> nat list \<Rightarrow> (probe_fail, nat) result option" where
  "http_exchange written reads expect_status =
     (if \<not> written then Some (Inl PfWrite)
      else case read_status reads [] None of None \<Rightarrow> None
        | Some (Inl e) \<Rightarrow> Some (Inl e)
        | Some (Inr (buf, rtt)) \<Rightarrow>
            Some (res_bind (ok_or PfNoResponse rtt) (\<lambda>rtt.
              res_bind (parse_status buf) (\<lambda>status.
                if status \<in> set expect_status then Inr rtt else Inl (PfStatus status)))))"

section \<open>The probe plan\<close>

datatype 'r tls_source = PlainSource "'r client_config" | EchSource "'r ech_provider" "string list" bool nat

record 'r tls_probe =
  tp_sni :: string
  tp_config :: "'r tls_source"

datatype 'r probe_kind = KindTcp | KindTls "'r tls_probe" | KindHttp string "nat list" "'r tls_probe option"

record 'r probe_plan =
  pp_port :: nat
  pp_timeout :: nat
  pp_kind :: "'r probe_kind"

definition default_probe_port :: nat where
  "default_probe_port = 443"

definition default_handshake_timeout :: nat where
  "default_handshake_timeout = 3000"

definition default_http_timeout :: nat where
  "default_http_timeout = 5000"

definition http_probe_alpn :: "string list" where
  "http_probe_alpn = [alpn_h1]"

definition build_tls_probe :: "string \<Rightarrow> string list \<Rightarrow> nat \<Rightarrow> effective_probe_ech option \<Rightarrow> 'r upstream_verify
    \<Rightarrow> 'r tls_probe" where
  "build_tls_probe sni alpn port ech verify =
     \<lparr>tp_sni = sni,
      tp_config = (case ech of
          Some e \<Rightarrow> EchSource
            \<lparr>pv_settings = ep_settings e, pv_port = port, pv_require = ep_require_ech e, pv_sni = True,
             pv_verify = verify, pv_bound = ep_ech_refresh e\<rparr> alpn (ep_require_ech e) (ee_max_retries (ep_settings e))
        | None \<Rightarrow> PlainSource (plain_config verify True alpn))\<rparr>"

text \<open>The parsed host of a URL: its text, an IPv6 address without the brackets.\<close>

definition tls_name_from_url :: "string \<Rightarrow> string" where
  "tls_name_from_url host =
     (case strip_prefix ''['' host of None \<Rightarrow> host
      | Some rest \<Rightarrow>
          (case strip_suffix '']'' rest of None \<Rightarrow> host
           | Some inner \<Rightarrow> (case parse_ip inner of None \<Rightarrow> inner | Some ip \<Rightarrow> show_ip ip)))"

definition crlf :: string where
  "crlf = [carriage_return, line_feed]"

definition http_request :: "url \<Rightarrow> string \<Rightarrow> string" where
  "http_request u host =
     (let authority = (case url_port u of Some p \<Rightarrow> host @ '':'' @ show_nat p | None \<Rightarrow> host);
          target = (case url_query u of Some q \<Rightarrow> url_path u @ ''?'' @ q | None \<Rightarrow> url_path u) in
      ''GET '' @ target @ '' HTTP/1.1'' @ crlf @ ''Host: '' @ authority @ crlf
      @ ''User-Agent: sni-gate-probe'' @ crlf @ ''Accept: */*'' @ crlf @ ''Connection: close'' @ crlf @ crlf)"

definition url_port_or_default :: "url \<Rightarrow> nat" where
  "url_port_or_default u = unwrap_or (if url_scheme u = ''https'' then 443 else 80) (url_port u)"

fun build_probe_plan :: "probe_spec \<Rightarrow> effective_probe_ech option \<Rightarrow> 'r upstream_verify \<Rightarrow> 'r probe_plan option" where
  "build_probe_plan (ProbeTcp port deadline) ech verify =
     Some \<lparr>pp_port = unwrap_or default_probe_port port, pp_timeout = unwrap_or default_handshake_timeout deadline,
           pp_kind = KindTcp\<rparr>"
| "build_probe_plan (ProbeTls port sni deadline e v) ech verify =
     (let port = unwrap_or default_probe_port port in
      Some \<lparr>pp_port = port, pp_timeout = unwrap_or default_handshake_timeout deadline,
            pp_kind = KindTls (build_tls_probe sni [] port ech verify)\<rparr>)"
| "build_probe_plan (ProbeHttp u expect_status deadline e v) ech verify =
     (case url_host u of None \<Rightarrow> None
      | Some host \<Rightarrow>
          (let port = url_port_or_default u in
           Some \<lparr>pp_port = port, pp_timeout = unwrap_or default_http_timeout deadline,
                 pp_kind = KindHttp (http_request u host) expect_status
                   (if url_scheme u = ''https''
                    then Some (build_tls_probe (tls_name_from_url host) http_probe_alpn port ech verify)
                    else None)\<rparr>))"

section \<open>Probing one address\<close>

datatype probe_handshake = PhOk session nat | PhErr error_link | PhHangs

text \<open>The network of one probe, attempt by attempt. \<open>pn_expired\<close>: the deadline came first.\<close>

record 'r probe_net =
  pn_server_name :: "string \<Rightarrow> bool"
  pn_connect :: "nat \<Rightarrow> attempt"
  pn_handshake :: "nat \<Rightarrow> 'r client_config \<Rightarrow> string \<Rightarrow> probe_handshake"
  pn_ech :: "nat \<Rightarrow> 'r ech_turn"
  pn_written :: bool
  pn_reads :: "nat \<Rightarrow> stream_read list"
  pn_expired :: bool

text \<open>A TLS attempt ends with the attempt's number and the time since it began.\<close>

function tls_connect_loop :: "ech_lib \<Rightarrow> 'r probe_net \<Rightarrow> 'r ech_provider \<Rightarrow> string \<Rightarrow> string list \<Rightarrow> bool \<Rightarrow> nat \<Rightarrow> nat
    \<Rightarrow> 'r ech_state \<Rightarrow> 'r ech_state \<times> (probe_fail, nat \<times> session \<times> nat) result option" where
  "tls_connect_loop lib net pv sni alpn require_ech max_retries attempt st =
     (case ech_client_for lib pv (pn_ech net attempt) sni alpn st of
        (st1, Inl e) \<Rightarrow> (st1, Some (Inl (PfEchClient e)))
      | (st1, Inr client) \<Rightarrow>
          (case pn_connect net attempt of
             Hangs \<Rightarrow> (st1, None)
           | Refuses t \<Rightarrow> (st1, Some (Inl PfConnect))
           | Connects t \<Rightarrow>
               (case pn_handshake net attempt (ek_config client) sni of
                  PhHangs \<Rightarrow> (st1, None)
                | PhOk s d \<Rightarrow>
                    (st1, Some (if require_ech \<and> se_ech s \<noteq> EchAccepted then Inl (PfEchStatus (se_ech s))
                                else Inr (attempt, s, t + d)))
                | PhErr e \<Rightarrow>
                    if is_ech_reject_io e \<and> attempt < max_retries
                    then tls_connect_loop lib net pv sni alpn require_ech max_retries (attempt + 1)
                           (fst (invalidate_after_rejection pv sni (ek_generation client) (et_after (pn_ech net attempt) st1)))
                    else (st1, Some (Inl (PfHandshake e))))))"
  by pat_completeness auto

termination tls_connect_loop
  by (relation "measure (\<lambda>(lib, net, pv, sni, alpn, require_ech, max_retries, attempt, st). max_retries - attempt)") auto

declare tls_connect_loop.simps [simp del]

definition tls_connect :: "ech_lib \<Rightarrow> 'r probe_net \<Rightarrow> 'r tls_probe \<Rightarrow> 'r ech_state
    \<Rightarrow> 'r ech_state \<times> (probe_fail, nat \<times> session \<times> nat) result option" where
  "tls_connect lib net tls st =
     (if \<not> pn_server_name net (tp_sni tls) then (st, Some (Inl (PfServerName (tp_sni tls))))
      else (case tp_config tls of
          PlainSource config \<Rightarrow>
            (st, case pn_connect net 0 of
               Hangs \<Rightarrow> None
             | Refuses t \<Rightarrow> Some (Inl PfConnect)
             | Connects t \<Rightarrow>
                 (case pn_handshake net 0 config (tp_sni tls) of
                    PhHangs \<Rightarrow> None
                  | PhErr e \<Rightarrow> Some (Inl (PfHandshake e))
                  | PhOk s d \<Rightarrow> Some (Inr (0, s, t + d))))
        | EchSource pv alpn require_ech max_retries \<Rightarrow>
            tls_connect_loop lib net pv (tp_sni tls) alpn require_ech max_retries 0 st))"

definition probe_exchange :: "ech_lib \<Rightarrow> 'r probe_net \<Rightarrow> 'r probe_kind \<Rightarrow> 'r ech_state
    \<Rightarrow> 'r ech_state \<times> (probe_fail, nat) result option" where
  "probe_exchange lib net kind st =
     (case kind of
        KindTcp \<Rightarrow>
          (st, case pn_connect net 0 of Hangs \<Rightarrow> None | Refuses t \<Rightarrow> Some (Inl PfConnect) | Connects t \<Rightarrow> Some (Inr t))
      | KindTls tls \<Rightarrow>
          (case tls_connect lib net tls st of
             (st', r) \<Rightarrow> (st', map_option (map_sum (\<lambda>e. e) (\<lambda>(k, s, t). t)) r))
      | KindHttp request expect_status (Some tls) \<Rightarrow>
          (case tls_connect lib net tls st of
             (st', None) \<Rightarrow> (st', None)
           | (st', Some (Inl e)) \<Rightarrow> (st', Some (Inl e))
           | (st', Some (Inr (k, s, t))) \<Rightarrow> (st', http_exchange (pn_written net) (pn_reads net k) expect_status))
      | KindHttp request expect_status None \<Rightarrow>
          (st, case pn_connect net 0 of
             Hangs \<Rightarrow> None
           | Refuses t \<Rightarrow> Some (Inl PfConnect)
           | Connects t \<Rightarrow> http_exchange (pn_written net) (pn_reads net 0) expect_status))"

definition probe_one :: "ech_lib \<Rightarrow> 'r probe_net \<Rightarrow> 'r probe_plan \<Rightarrow> 'r ech_state
    \<Rightarrow> 'r ech_state \<times> (probe_fail, nat) result" where
  "probe_one lib net plan st =
     (case probe_exchange lib net (pp_kind plan) st of
        (st', r) \<Rightarrow> (st', if pn_expired net then Inl PfTimeout else (case r of None \<Rightarrow> Inl PfTimeout | Some x \<Rightarrow> x)))"

section \<open>The startup check for HTTP/2 over cleartext\<close>

datatype h2c_fail =
    HcTimeout
  | HcConnect
  | HcWrite
  | HcRead
  | HcSilent
  | HcHttp1
  | HcShort nat
  | HcFrame nat
  | HcBoth h2c_fail h2c_fail

definition frame_header_len :: nat where
  "frame_header_len = 9"

definition frame_type_settings :: nat where
  "frame_type_settings = 4"

definition empty_settings :: string where
  "empty_settings = List.map char_of [0, 0, 0, 4 :: nat, 0, 0, 0, 0, 0]"

definition preface :: string where
  "preface = ''PRI * HTTP/2.0'' @ crlf @ crlf @ ''SM'' @ crlf @ crlf"

fun read_frame :: "stream_read list \<Rightarrow> string \<Rightarrow> (h2c_fail, string) result option" where
  "read_frame reads buf =
     (if frame_header_len \<le> length buf then Some (Inr buf)
      else case reads of [] \<Rightarrow> None
        | SrError # rest \<Rightarrow> Some (Inl HcRead)
        | SrBytes t bs # rest \<Rightarrow>
            if bs = [] then Some (Inr buf) else read_frame rest (buf @ take (frame_header_len - length buf) bs))"

declare read_frame.simps [simp del]

definition classify_reply :: "string \<Rightarrow> (h2c_fail, unit) result" where
  "classify_reply reply =
     (if reply = [] then Inl HcSilent
      else if starts_with ''HTTP/1.'' reply then Inl HcHttp1
      else if length reply < frame_header_len then Inl (HcShort (length reply))
      else if byte (reply ! 3) \<noteq> frame_type_settings then Inl (HcFrame (byte (reply ! 3)))
      else Inr ())"

record h2c_peer =
  hp_connects :: "bool option"
  hp_written :: bool
  hp_reads :: "stream_read list"
  hp_expired :: bool

definition h2c_exchange :: "h2c_peer \<Rightarrow> (h2c_fail, unit) result option" where
  "h2c_exchange p =
     (case hp_connects p of None \<Rightarrow> None
      | Some False \<Rightarrow> Some (Inl HcConnect)
      | Some True \<Rightarrow>
          if \<not> hp_written p then Some (Inl HcWrite)
          else map_option (\<lambda>r. res_bind r classify_reply) (read_frame (hp_reads p) []))"

definition h2c_attempt :: "h2c_peer \<Rightarrow> (h2c_fail, unit) result" where
  "h2c_attempt p =
     (if hp_expired p then Inl HcTimeout else (case h2c_exchange p of None \<Rightarrow> Inl HcTimeout | Some r \<Rightarrow> r))"

definition probe_h2c :: "(socket_addr \<Rightarrow> h2c_peer) \<Rightarrow> resolved_addrs \<Rightarrow> (h2c_fail, unit) result" where
  "probe_h2c peer addrs =
     (case ra_fallback addrs of
        None \<Rightarrow> h2c_attempt (peer (ra_primary addrs))
      | Some fallback \<Rightarrow>
          (case h2c_attempt (peer (ra_primary addrs)) of
             Inr () \<Rightarrow> Inr ()
           | Inl primary_err \<Rightarrow> map_sum (HcBoth primary_err) (\<lambda>u. u) (h2c_attempt (peer fallback))))"

section \<open>Facts\<close>

text \<open>What a list of reads delivers, and when its first byte arrives.\<close>

fun stream_bytes :: "stream_read list \<Rightarrow> string" where
  "stream_bytes (SrBytes t bs # rest) = bs @ stream_bytes rest"
| "stream_bytes _ = []"

fun first_time :: "stream_read list \<Rightarrow> nat option" where
  "first_time (SrBytes t bs # rest) = Some t"
| "first_time _ = None"

definition chunks :: "stream_read list \<Rightarrow> bool" where
  "chunks reads \<longleftrightarrow> (\<forall>r\<in>set reads. \<exists>t bs. r = SrBytes t bs \<and> bs \<noteq> [])"

definition ascii :: "string \<Rightarrow> bool" where
  "ascii s \<longleftrightarrow> (\<forall>c\<in>set s. byte c < 128)"

lemma ascii_utf8: "ascii s \<Longrightarrow> utf8_ok s"
  by (induction s) (auto simp: ascii_def)

lemma ascii_simps [simp]: "ascii (c # s) \<longleftrightarrow> byte c < 128 \<and> ascii s" "ascii (s @ t) \<longleftrightarrow> ascii s \<and> ascii t" "ascii []"
  by (auto simp: ascii_def)

lemma ascii_take: "ascii s \<Longrightarrow> ascii (take n s)"
  by (auto simp: ascii_def dest: in_set_takeD)

lemma byte_line_feed [simp]: "byte c = 10 \<longleftrightarrow> c = line_feed"
  using of_char_eq_iff [of c line_feed, where ?'a = nat] by (simp add: line_feed_def)

lemma byte_carriage_return [simp]: "byte c = 13 \<longleftrightarrow> c = carriage_return"
  using of_char_eq_iff [of c carriage_return, where ?'a = nat] by (simp add: carriage_return_def)

lemma has_crlf_iff: "has_crlf s \<longleftrightarrow> (\<exists>xs ys. s = xs @ crlf @ ys)"
proof (induction s rule: has_crlf.induct)
  case (1 a b s)
  have "(\<exists>xs ys. a # b # s = xs @ crlf @ ys)
      \<longleftrightarrow> a = carriage_return \<and> b = line_feed \<or> (\<exists>xs ys. b # s = xs @ crlf @ ys)"
  proof
    assume "\<exists>xs ys. a # b # s = xs @ crlf @ ys"
    then obtain xs ys where "a # b # s = xs @ crlf @ ys" by blast
    then show "a = carriage_return \<and> b = line_feed \<or> (\<exists>xs ys. b # s = xs @ crlf @ ys)"
      by (cases xs) (auto simp: crlf_def)
  next
    assume "a = carriage_return \<and> b = line_feed \<or> (\<exists>xs ys. b # s = xs @ crlf @ ys)"
    then show "\<exists>xs ys. a # b # s = xs @ crlf @ ys"
      by (metis append_Cons append_Nil crlf_def)
  qed
  then show ?case using 1 by auto
qed (auto simp: crlf_def Cons_eq_append_conv)

lemma has_crlf_border:
  assumes "has_crlf (buf @ got)" "\<not> has_crlf buf"
  shows "has_crlf (drop (length buf - 1) (buf @ got))"
proof -
  obtain xs ys where s: "buf @ got = xs @ crlf @ ys" using assms(1) by (auto simp: has_crlf_iff)
  have "length buf - 1 \<le> length xs"
  proof (rule ccontr)
    assume "\<not> length buf - 1 \<le> length xs"
    then have "length (xs @ crlf) \<le> length buf" by (simp add: crlf_def)
    then have "buf = xs @ crlf @ take (length buf - length (xs @ crlf)) ys"
      using arg_cong [OF s, of "take (length buf)"] by simp
    then show False using assms(2) by (auto simp: has_crlf_iff)
  qed
  then have "drop (length buf - 1) (buf @ got) = drop (length buf - 1) xs @ crlf @ ys" using s by simp
  then show ?thesis by (auto simp: has_crlf_iff)
qed

lemma has_crlf_drop: "has_crlf (drop n s) \<Longrightarrow> has_crlf s"
  unfolding has_crlf_iff by (metis append.assoc append_take_drop_id)

text \<open>The first line break of a response ends its status line.\<close>

lemma has_crlf_late:
  assumes "full_text = line @ crlf @ rest" "line_feed \<notin> set line" "has_crlf (take n full_text)"
  shows "length line + 2 \<le> n"
proof (rule ccontr)
  assume n: "\<not> length line + 2 \<le> n"
  have "line_feed \<in> set (take n full_text)" using assms(3) by (auto simp: has_crlf_iff crlf_def)
  then obtain i where i: "i < n" "i < length full_text" "full_text ! i = line_feed" by (auto simp: in_set_conv_nth)
  have "full_text ! i \<noteq> line_feed"
  proof (cases "i < length line")
    case True
    then show ?thesis using assms(1,2) by (auto simp: nth_append in_set_conv_nth)
  next
    case False
    then have "i = length line" using i n by simp
    then show ?thesis using assms(1) by (simp add: nth_append crlf_def line_feed_def carriage_return_def)
  qed
  then show False using i by simp
qed

lemma read_status_collects:
  assumes "buf @ stream_bytes reads = line @ crlf @ rest" "line_feed \<notin> set line" "length line + 2 \<le> status_line_buf"
    and "chunks reads" "\<not> has_crlf buf" "length buf < status_line_buf"
  shows "\<exists>n\<ge>length line + 2. n \<le> status_line_buf \<and> read_status reads buf rtt
    = Some (Inr (take n (line @ crlf @ rest), case rtt of None \<Rightarrow> first_time reads | Some t \<Rightarrow> Some t))"
  using assms
proof (induction reads arbitrary: buf rtt)
  case Nil
  then show ?case by (auto simp: has_crlf_iff)
next
  case (Cons r reads)
  obtain t bs where r: "r = SrBytes t bs" "bs \<noteq> []" using Cons.prems(4) by (auto simp: chunks_def)
  let ?total = "line @ crlf @ rest"
  define got where "got = take (status_line_buf - length buf) bs"
  define seen where "seen = buf @ got"
  define rtt' where "rtt' = (case rtt of None \<Rightarrow> Some t | Some _ \<Rightarrow> rtt)"
  have prefix: "seen = take (length seen) ?total"
    using Cons.prems(1) r(1) by (auto simp: seen_def got_def append_eq_conv_conj [symmetric] min_def
        simp flip: Cons.prems(1))
  have len: "length seen \<le> status_line_buf" using Cons.prems(6) by (simp add: seen_def got_def)
  have clock: "(case rtt of None \<Rightarrow> first_time (r # reads) | Some t \<Rightarrow> Some t) = rtt'"
      "(case rtt' of None \<Rightarrow> first_time reads | Some t \<Rightarrow> Some t) = rtt'"
    by (auto simp: rtt'_def r(1) split: option.splits)
  have step: "read_status (r # reads) buf rtt
      = (if has_crlf (drop (length buf - 1) seen) then Some (Inr (seen, rtt')) else read_status reads seen rtt')"
    using Cons.prems(6) r by (subst read_status.simps) (simp add: got_def seen_def rtt'_def Let_def)
  show ?case
  proof (cases "has_crlf (drop (length buf - 1) seen)")
    case True
    then have "has_crlf (take (length seen) ?total)" using prefix has_crlf_drop by metis
    then have "length line + 2 \<le> length seen" using has_crlf_late [OF refl Cons.prems(2)] by blast
    then show ?thesis using step True clock(1) prefix len by (intro exI [of _ "length seen"]) simp
  next
    case False
    then have no: "\<not> has_crlf seen" using has_crlf_border Cons.prems(5) unfolding seen_def by blast
    show ?thesis
    proof (cases "length seen < status_line_buf")
      case True
      then have "got = bs" by (simp add: seen_def got_def)
      then have "seen @ stream_bytes reads = ?total" using Cons.prems(1) r(1) by (simp add: seen_def)
      moreover have "chunks reads" using Cons.prems(4) by (simp add: chunks_def)
      ultimately show ?thesis
        using Cons.IH [of seen rtt'] Cons.prems(2,3) no True step False clock by simp
    next
      case full: False
      then have "read_status reads seen rtt' = Some (Inr (seen, rtt'))" by (subst read_status.simps) simp
      then show ?thesis
        using step False clock(1) prefix len full Cons.prems(3)
        by (intro exI [of _ "length seen"]) (simp del: take_append length_append)
    qed
  qed
qed

lemma next_word_graphic:
  assumes "w \<noteq> []" "\<forall>c\<in>set w. is_graphic c" "r = [] \<or> hd r = CHR '' ''"
  shows "next_word (w @ r) = Some (w, r)" "next_word (CHR '' '' # w @ r) = Some (w, r)"
proof -
  have word: "take_word (w @ r) = (w, r)" if "\<forall>c\<in>set w. is_graphic c"
    using that
  proof (induction w)
    case Nil
    have "0 < ws_front (CHR '' '' # s)" for s by (cases "CHR '' '' # s" rule: ws_front.cases) (auto simp: is_ascii_ws_def)
    then show ?case using assms(3) by (cases r) auto
  next
    case (Cons c w)
    then show ?case using graphic_ws_front [of c "w @ r"] by simp
  qed
  obtain c w' where w: "w = c # w'" using assms(1) by (cases w) auto
  have front: "ws_front (w @ r) = 0" using assms(2) graphic_ws_front w by simp
  have trim: "trim_start (w @ r) = w @ r" using front by (rule trim_start_fix)
  show "next_word (w @ r) = Some (w, r)"
    using word [OF assms(2)] assms(1) by (simp add: next_word_def trim)
  have "ws_front (CHR '' '' # w @ r) = 1"
    by (cases "CHR '' '' # w @ r" rule: ws_front.cases) (auto simp: is_ascii_ws_def)
  then have "trim_start (CHR '' '' # w @ r) = w @ r"
    by (subst trim_start.simps) (simp add: trim)
  then show "next_word (CHR '' '' # w @ r) = Some (w, r)"
    using word [OF assms(2)] assms(1) by (simp add: next_word_def)
qed

lemma first_line_cut:
  assumes "line_feed \<notin> set line" "length line + 2 \<le> n"
  shows "first_line (take n (line @ crlf @ rest)) = line"
proof -
  have "take n (line @ crlf @ rest) = (line @ [carriage_return]) @ line_feed # take (n - length line - 2) rest"
  proof -
    obtain m where "n = length line + 2 + m" using assms(2) le_Suc_ex by blast
    then show ?thesis by (simp add: crlf_def)
  qed
  moreover have "line_feed \<notin> set (line @ [carriage_return])"
    using assms(1) by (simp add: line_feed_def carriage_return_def)
  ultimately have "split_once line_feed (take n (line @ crlf @ rest)) = Some (line @ [carriage_return], take (n - length line - 2) rest)"
    by (metis split_once_app)
  then show ?thesis by (simp add: first_line_def)
qed

lemma first_line_whole: "line_feed \<notin> set line \<Longrightarrow> first_line line = line"
  by (simp add: first_line_def)

lemma parse_status_cut:
  assumes "line_feed \<notin> set line" "length line + 2 \<le> n" "utf8_ok (take n (line @ crlf @ rest))" "utf8_ok line"
  shows "parse_status (take n (line @ crlf @ rest)) = parse_status line"
  using assms first_line_cut [OF assms(1,2)] first_line_whole [OF assms(1)] by (simp add: parse_status_def)

lemma parse_status_line:
  assumes "code \<le> 65535" "reason = [] \<or> hd reason = CHR '' ''" "ascii reason" "line_feed \<notin> set reason"
  shows "parse_status (''HTTP/1.1 '' @ show_nat code @ reason) = Inr code"
proof -
  let ?line = "''HTTP/1.1 '' @ show_nat code @ reason"
  have digits: "\<forall>c\<in>set (show_nat code). is_digit c" "show_nat code \<noteq> []"
    using all_digits_show_nat [of code] by (auto simp: all_digits_def list_all_iff)
  have graphic: "\<forall>c\<in>set (show_nat code). is_graphic c" and low: "\<forall>c\<in>set (show_nat code). byte c < 128"
    using digits(1) by (auto simp: is_digit_def is_graphic_def)
  have "line_feed \<notin> set ?line" using digits(1) assms(4) by (auto simp: line_feed_def is_digit_def)
  then have l: "first_line ?line = ?line" by (rule first_line_whole)
  have "ascii ?line" using low assms(3) by (auto simp: ascii_def)
  then have u: "utf8_ok ?line" by (rule ascii_utf8)
  have w1: "next_word (''HTTP/1.1'' @ CHR '' '' # show_nat code @ reason) = Some (''HTTP/1.1'', CHR '' '' # show_nat code @ reason)"
    by (rule next_word_graphic(1)) (auto simp: is_graphic_def)
  have w2: "next_word (CHR '' '' # show_nat code @ reason) = Some (show_nat code, reason)"
    by (rule next_word_graphic(2)) (use digits(2) graphic assms(2) in auto)
  have "starts_with ''HTTP/'' ''HTTP/1.1''" by code_simp
  then show ?thesis
    using u l w1 w2 parse_uint_show_nat [OF assms(1)] by (simp add: parse_status_def Let_def)
qed

lemma http_exchange_exact:
  assumes "stream_bytes reads = line @ crlf @ rest" "line_feed \<notin> set line" "length line + 2 \<le> status_line_buf"
    and "chunks reads" "ascii (take status_line_buf (line @ crlf @ rest))" "first_time reads = Some t"
  shows "http_exchange True reads codes
    = Some (res_bind (parse_status line) (\<lambda>status. if status \<in> set codes then Inr t else Inl (PfStatus status)))"
proof -
  have "[] @ stream_bytes reads = line @ crlf @ rest" "\<not> has_crlf []" "length ([] :: string) < status_line_buf"
    using assms(1) by (simp_all add: status_line_buf_def)
  from read_status_collects [OF this(1) assms(2-4) this(2,3), of None] assms(6) obtain n where
    n: "length line + 2 \<le> n" "n \<le> status_line_buf"
      "read_status reads [] None = Some (Inr (take n (line @ crlf @ rest), Some t))" by auto
  have a: "ascii (take n (line @ crlf @ rest))"
    using ascii_take [OF assms(5), of n] n(2) by (simp only: take_take min.absorb1)
  moreover have "take n (line @ crlf @ rest) = line @ take (n - length line) (crlf @ rest)" using n(1) by simp
  ultimately have "ascii line" by simp
  then have "parse_status (take n (line @ crlf @ rest)) = parse_status line"
    using parse_status_cut [OF assms(2) n(1) ascii_utf8 [OF a] ascii_utf8] by blast
  then show ?thesis using n(3) by (simp add: http_exchange_def)
qed

lemma http_exchange_sound:
  assumes "http_exchange w reads codes = Some (Inr t)"
  shows "w \<and> (\<exists>buf status. read_status reads [] None = Some (Inr (buf, Some t)) \<and> parse_status buf = Inr status
    \<and> status \<in> set codes)"
proof -
  have w: "w" using assms by (auto simp: http_exchange_def split: if_splits)
  obtain buf rtt where b: "read_status reads [] None = Some (Inr (buf, rtt))"
    using assms by (auto simp: http_exchange_def split: if_splits option.splits sum.splits)
  then obtain status where "parse_status buf = Inr status" "status \<in> set codes" "rtt = Some t"
    using assms w by (cases rtt; cases "parse_status buf") (auto simp: http_exchange_def split: if_splits)
  then show ?thesis using w b by blast
qed

lemma read_status_first:
  "read_status reads buf rtt = Some (Inr (buf', Some t)) \<Longrightarrow> rtt = Some t \<or> rtt = None \<and> first_time reads = Some t"
proof (induction reads buf rtt rule: read_status.induct)
  case (1 reads buf rtt)
  show ?case
  proof (cases "length buf < status_line_buf")
    case False
    then show ?thesis using "1.prems" by (subst (asm) read_status.simps) simp
  next
    case True
    then show ?thesis
    proof (cases reads)
      case Nil
      then show ?thesis using "1.prems" True by (subst (asm) read_status.simps) simp
    next
      case (Cons r rest)
      show ?thesis
      proof (cases r)
        case SrError
        then show ?thesis using "1.prems" True Cons by (subst (asm) read_status.simps) simp
      next
        case (SrBytes t0 bs)
        show ?thesis
        proof (cases "bs = []")
          case True
          then show ?thesis
            using "1.prems" \<open>length buf < status_line_buf\<close> Cons SrBytes by (subst (asm) read_status.simps) simp
        next
          case False
          let ?rtt = "case rtt of None \<Rightarrow> Some t0 | Some _ \<Rightarrow> rtt"
          let ?seen = "buf @ take (status_line_buf - length buf) bs"
          have step: "(if has_crlf (drop (length buf - 1) ?seen) then Some (Inr (?seen, ?rtt))
              else read_status rest ?seen ?rtt) = Some (Inr (buf', Some t))"
            using "1.prems" True Cons SrBytes False by (subst (asm) read_status.simps) (simp add: Let_def)
          have "?rtt = Some t"
          proof (cases "has_crlf (drop (length buf - 1) ?seen)")
            case True
            then show ?thesis using step by simp
          next
            case no: False
            then have "?rtt = Some t \<or> ?rtt = None \<and> first_time rest = Some t"
              using "1.IH" [OF _ Cons SrBytes False refl refl] True step by simp
            then show ?thesis by (auto split: option.splits)
          qed
          then show ?thesis using Cons SrBytes by (cases rtt) auto
        qed
      qed
    qed
  qed
qed

lemma tls_connect_loop_result:
  assumes "provider_ok pv st" "attempt \<le> max_retries"
    and "\<And>k st. provider_ok pv st \<Longrightarrow> provider_ok pv (et_mid (pn_ech net k) st) \<and> provider_ok pv (et_after (pn_ech net k) st)"
    and "tls_connect_loop lib net pv sni alpn require_ech max_retries attempt st = (st', r)"
  shows "provider_ok pv st' \<and> (\<forall>k s u. r = Some (Inr (k, s, u)) \<longrightarrow> k \<le> max_retries
      \<and> (require_ech \<longrightarrow> se_ech s = EchAccepted)
      \<and> (\<exists>cfg mode t d. config_proper pv mode alpn cfg \<and> pn_connect net k = Connects t
           \<and> pn_handshake net k cfg sni = PhOk s d \<and> u = t + d))"
  using assms
proof (induction lib net pv sni alpn require_ech max_retries attempt st rule: tls_connect_loop.induct)
  case (1 lib net pv sni alpn require_ech max_retries attempt st)
  obtain st1 c where c: "ech_client_for lib pv (pn_ech net attempt) sni alpn st = (st1, c)" by fastforce
  have ok: "provider_ok pv st1" and proper: "\<And>k. c = Inr k \<Longrightarrow> \<exists>mode. config_proper pv mode alpn (ek_config k)"
    using ech_client_for_ok [OF 1(2) _ c] 1(4) by blast+
  note unfolded = 1(5) [unfolded tls_connect_loop.simps [of lib net pv sni alpn require_ech max_retries attempt st] c prod.case]
  show ?case
  proof (cases c)
    case (Inl e)
    then show ?thesis using unfolded ok by auto
  next
    case client: (Inr client)
    show ?thesis
    proof (cases "pn_connect net attempt")
      case tcp: (Connects t)
      show ?thesis
      proof (cases "pn_handshake net attempt (ek_config client) sni")
        case (PhOk s d)
        then show ?thesis using unfolded client tcp ok 1(3) proper by (auto split: if_splits)
      next
        case PhHangs
        then show ?thesis using unfolded client tcp ok by auto
      next
        case err: (PhErr e)
        show ?thesis
        proof (cases "is_ech_reject_io e \<and> attempt < max_retries")
          case False
          then show ?thesis using unfolded client tcp err ok by auto
        next
          case True
          have "provider_ok pv (fst (invalidate_after_rejection pv sni (ek_generation client) (et_after (pn_ech net attempt) st1)))"
            using invalidate_provider_ok 1(4) ok by blast
          moreover have "tls_connect_loop lib net pv sni alpn require_ech max_retries (attempt + 1)
              (fst (invalidate_after_rejection pv sni (ek_generation client) (et_after (pn_ech net attempt) st1))) = (st', r)"
            using unfolded client tcp err True by simp
          ultimately show ?thesis
            using 1(1) [OF c [symmetric] client tcp err True] True 1(4) by simp
        qed
      qed
    next
      case (Refuses t)
      then show ?thesis using unfolded client ok by auto
    next
      case Hangs
      then show ?thesis using unfolded client ok by auto
    qed
  qed
qed

text \<open>A TLS session a probe may measure: made by the plan's own configuration, ECH accepted if required.\<close>

definition probe_session :: "'r probe_net \<Rightarrow> string \<Rightarrow> string list \<Rightarrow> effective_probe_ech option \<Rightarrow> 'r upstream_verify
    \<Rightarrow> nat \<Rightarrow> nat \<Rightarrow> bool" where
  "probe_session net name alpn ech verify k u \<longleftrightarrow>
     (\<exists>cfg s t d. cl_verifier cfg = uv_verifier verify \<and> cl_sni cfg \<and> cl_alpn cfg = alpn
        \<and> (cl_ech cfg = None \<longleftrightarrow> ech = None) \<and> pn_connect net k = Connects t \<and> pn_handshake net k cfg name = PhOk s d
        \<and> u = t + d \<and> (case ech of None \<Rightarrow> k = 0
            | Some e \<Rightarrow> k \<le> ee_max_retries (ep_settings e) \<and> (ep_require_ech e \<longrightarrow> se_ech s = EchAccepted)))"

text \<open>A provider shared with other probes stays sound while they run.\<close>

definition probe_env_ok :: "'r probe_net \<Rightarrow> 'r probe_plan \<Rightarrow> 'r ech_state \<Rightarrow> bool" where
  "probe_env_ok net plan st \<longleftrightarrow> (\<forall>tls pv alpn req n. pp_kind plan \<in> {KindTls tls} \<union> {KindHttp h c (Some tls) | h c. True}
     \<and> tp_config tls = EchSource pv alpn req n \<longrightarrow> provider_ok pv st
     \<and> (\<forall>k st. provider_ok pv st \<longrightarrow> provider_ok pv (et_mid (pn_ech net k) st) \<and> provider_ok pv (et_after (pn_ech net k) st)))"

lemma tls_connect_session:
  assumes "tls = build_tls_probe name alpn port ech verify"
    and env: "\<And>pv a r n. tp_config tls = EchSource pv a r n \<Longrightarrow> provider_ok pv st
      \<and> (\<forall>k st. provider_ok pv st \<longrightarrow> provider_ok pv (et_mid (pn_ech net k) st) \<and> provider_ok pv (et_after (pn_ech net k) st))"
    and c: "tls_connect lib net tls st = (st', Some (Inr (k, s, u)))"
  shows "probe_session net name alpn ech verify k u"
proof (cases ech)
  case None
  then have cfg: "tp_config tls = PlainSource (plain_config verify True alpn)" "tp_sni tls = name"
    by (simp_all add: assms(1) build_tls_probe_def)
  obtain t d where "pn_connect net 0 = Connects t" "pn_handshake net 0 (plain_config verify True alpn) name = PhOk s d" "k = 0" "u = t + d"
    using c by (auto simp: tls_connect_def cfg split: if_splits attempt.splits probe_handshake.splits)
  then show ?thesis unfolding probe_session_def None by (intro exI [of _ "plain_config verify True alpn"]) (auto simp: plain_config_def)
next
  case (Some e)
  define pv where "pv = \<lparr>pv_settings = ep_settings e, pv_port = port, pv_require = ep_require_ech e, pv_sni = True,
      pv_verify = verify, pv_bound = ep_ech_refresh e\<rparr>"
  have cfg: "tp_config tls = EchSource pv alpn (ep_require_ech e) (ee_max_retries (ep_settings e))" "tp_sni tls = name"
    by (simp_all add: assms(1) build_tls_probe_def Some pv_def)
  have "tls_connect_loop lib net pv name alpn (ep_require_ech e) (ee_max_retries (ep_settings e)) 0 st = (st', Some (Inr (k, s, u)))"
    using c by (auto simp: tls_connect_def cfg split: if_splits)
  from tls_connect_loop_result [OF _ _ _ this] env [OF cfg(1)] obtain cfg' mode t d where
    "k \<le> ee_max_retries (ep_settings e)" "ep_require_ech e \<longrightarrow> se_ech s = EchAccepted" "config_proper pv mode alpn cfg'"
    "pn_connect net k = Connects t" "pn_handshake net k cfg' name = PhOk s d" "u = t + d" by blast
  then show ?thesis unfolding probe_session_def Some
    by (intro exI [of _ cfg'] exI [of _ s] exI [of _ t] exI [of _ d]) (simp add: config_proper_def pv_def)
qed

text \<open>A measured HTTP exchange: the time of its first byte, and an accepted status on its first line.\<close>

lemma http_exchange_measures:
  assumes h: "http_exchange written reads codes = Some (Inr rtt)"
  shows "first_time reads = Some rtt
    \<and> (\<forall>line rest. stream_bytes reads = line @ crlf @ rest \<and> line_feed \<notin> set line
        \<and> length line + 2 \<le> status_line_buf \<and> chunks reads \<and> ascii (take status_line_buf (line @ crlf @ rest)) \<longrightarrow>
        (\<exists>status\<in>set codes. parse_status line = Inr status))"
proof -
  obtain buf status where b: "read_status reads [] None = Some (Inr (buf, Some rtt))" written
    using http_exchange_sound [OF h] by blast
  have t: "first_time reads = Some rtt" using read_status_first [OF b(1)] by simp
  have "\<exists>status\<in>set codes. parse_status line = Inr status"
    if "stream_bytes reads = line @ crlf @ rest" "line_feed \<notin> set line" "length line + 2 \<le> status_line_buf"
      "chunks reads" "ascii (take status_line_buf (line @ crlf @ rest))" for line rest
    using http_exchange_exact [OF that t, of codes] h b(2) by (cases "parse_status line") (auto split: if_splits)
  then show ?thesis using t by blast
qed

text \<open>The session a probe that does TLS opened.\<close>

lemma probe_tls_session:
  assumes "probe_env_ok net plan st" "pp_kind plan = KindTls tls \<or> pp_kind plan = KindHttp request codes (Some tls)"
    and "tls = build_tls_probe name alpn port ech verify"
    and "tls_connect lib net tls st = (st', Some (Inr (k, s, t)))"
  shows "probe_session net name alpn ech verify k t"
proof (rule tls_connect_session [OF assms(3) _ assms(4)])
  show "provider_ok pv st \<and> (\<forall>k st. provider_ok pv st \<longrightarrow>
      provider_ok pv (et_mid (pn_ech net k) st) \<and> provider_ok pv (et_after (pn_ech net k) st))"
    if "tp_config tls = EchSource pv a q n" for pv a q n
    using assms(1,2) that unfolding probe_env_ok_def by blast
qed

lemma probe_exchange_tls:
  assumes "probe_exchange lib net (KindTls tls) st = (st', Some (Inr rtt))"
  obtains k s where "tls_connect lib net tls st = (st', Some (Inr (k, s, rtt)))"
proof -
  obtain st1 r1 where c: "tls_connect lib net tls st = (st1, r1)" by (cases "tls_connect lib net tls st")
  have "st1 = st'" "map_option (map_sum (\<lambda>e. e) (\<lambda>(k, s, t). t)) r1 = Some (Inr rtt)"
    using assms by (simp_all add: probe_exchange_def c)
  then obtain y where y: "r1 = Some y" "map_sum (\<lambda>e. e) (\<lambda>(k, s, t). t) y = Inr rtt" "st1 = st'" by (cases r1) auto
  then obtain k s where "r1 = Some (Inr (k, s, rtt))" by (cases y) auto
  then show thesis using c y(3) that by simp
qed

lemma probe_exchange_https:
  assumes "probe_exchange lib net (KindHttp request codes (Some tls)) st = (st', Some (Inr rtt))"
  obtains k s u where "tls_connect lib net tls st = (st', Some (Inr (k, s, u)))"
    "http_exchange (pn_written net) (pn_reads net k) codes = Some (Inr rtt)"
  using assms by (auto simp: probe_exchange_def split: prod.splits sum.splits option.splits)


definition sample_url_probe :: url where
  "sample_url_probe = \<lparr>url_scheme = ''https'', url_host = Some ''a.com'', url_port = None, url_path = ''/'', url_query = None\<rparr>"

definition sample_probe_verify :: "string upstream_verify" where
  "sample_probe_verify = \<lparr>uv_verifier = \<lparr>cv_roots = None, cv_name = NameSkip, cv_pins = []\<rparr>, uv_is_default = False,
     uv_name = None, uv_label = ''none''\<rparr>"

definition sample_probe_net :: "string probe_net" where
  "sample_probe_net = \<lparr>pn_server_name = (\<lambda>_. True), pn_connect = (\<lambda>_. Connects 10),
     pn_handshake = (\<lambda>_ _ _. PhOk \<lparr>se_alpn = Some alpn_h1, se_ech = EchNotOffered, se_chain = None, se_peer = SockV4 7 443\<rparr> 20),
     pn_ech = (\<lambda>_. \<lparr>et_now = 0, et_mid = (\<lambda>st. st), et_world = sample_world ''k'', et_after = (\<lambda>st. st)\<rparr>),
     pn_written = True, pn_reads = (\<lambda>_. [SrBytes 35 ''HTTP/1.1 20'', SrBytes 40 (''0 OK'' @ crlf)]), pn_expired = False\<rparr>"


text \<open>
  The status is read only once everything buffered is valid UTF-8, header bytes that came with the
  status line included: the same response is accepted or refused according to where the network cut it.
\<close>

definition cut_response :: string where
  "cut_response = ''HTTP/1.1 200 OK'' @ crlf @ ''Server: caf'' @ [CHR 0xC3]"

lemma status_depends_on_cut:
  "http_exchange True [SrBytes 1 (cut_response @ CHR 0xA9 # crlf)] [200] = Some (Inr 1)"
  "http_exchange True [SrBytes 1 cut_response, SrBytes 2 (CHR 0xA9 # crlf)] [200] = Some (Inl PfNotUtf8)"
proof -
  define rest where "rest = ''Server: caf'' @ [CHR 0xC3]"
  let ?line = "''HTTP/1.1 '' @ show_nat 200 @ '' OK''"
  have digits: "show_nat 200 = ''200''" by code_simp
  have cut: "cut_response = ?line @ crlf @ rest" by (simp add: cut_response_def rest_def digits)
  have crlf: "has_crlf (?line @ crlf @ r)" for r unfolding has_crlf_iff by blast
  have buf: "read_status (SrBytes 1 (?line @ crlf @ r) # rs) [] None = Some (Inr (?line @ crlf @ r, Some 1))"
    if "length r \<le> 100" for r rs
    using that crlf [of r] by (subst read_status.simps) (simp add: status_line_buf_def digits crlf_def Let_def)
  have status: "parse_status ?line = Inr 200" by (rule parse_status_line) (auto simp: line_feed_def)
  have ok: "utf8_ok ?line" "utf8_ok (?line @ crlf @ rest @ CHR 0xA9 # crlf)" "\<not> utf8_ok (?line @ crlf @ rest)"
    by (simp_all add: digits crlf_def rest_def carriage_return_def line_feed_def is_cont_def)
  have "parse_status (take (length (?line @ crlf @ rest @ CHR 0xA9 # crlf)) (?line @ crlf @ rest @ CHR 0xA9 # crlf)) = parse_status ?line"
    by (rule parse_status_cut) (use ok in \<open>auto simp: digits line_feed_def crlf_def\<close>)
  then have whole: "parse_status (?line @ crlf @ rest @ CHR 0xA9 # crlf) = Inr 200" using status by simp
  show "http_exchange True [SrBytes 1 (cut_response @ CHR 0xA9 # crlf)] [200] = Some (Inr 1)"
    using buf [of "rest @ CHR 0xA9 # crlf" "[]"] whole by (simp add: http_exchange_def cut rest_def crlf_def)
  show "http_exchange True [SrBytes 1 cut_response, SrBytes 2 (CHR 0xA9 # crlf)] [200] = Some (Inl PfNotUtf8)"
    using buf [of rest "[SrBytes 2 (CHR 0xA9 # crlf)]"] ok(3) by (simp add: http_exchange_def cut rest_def parse_status_def)
qed

text \<open>The HTTP/2 check: the verdict is that of the first nine bytes, however they arrive.\<close>

lemma read_frame_collects:
  assumes "chunks reads" "frame_header_len \<le> length (buf @ stream_bytes reads)" "length buf \<le> frame_header_len"
  shows "read_frame reads buf = Some (Inr (take frame_header_len (buf @ stream_bytes reads)))"
  using assms
proof (induction reads arbitrary: buf)
  case Nil
  then show ?case by (subst read_frame.simps) simp
next
  case (Cons r reads)
  obtain t bs where r: "r = SrBytes t bs" "bs \<noteq> []" using Cons.prems(1) by (auto simp: chunks_def)
  show ?case
  proof (cases "length buf = frame_header_len")
    case True
    then show ?thesis by (subst read_frame.simps) simp
  next
    case False
    then have short: "length buf < frame_header_len" using Cons.prems(3) by simp
    define seen where "seen = buf @ take (frame_header_len - length buf) bs"
    have step: "read_frame (r # reads) buf = read_frame reads seen"
      using short r by (subst read_frame.simps) (simp add: seen_def)
    show ?thesis
    proof (cases "length (buf @ bs) \<le> frame_header_len")
      case True
      then have "seen = buf @ bs" by (simp add: seen_def)
      then show ?thesis
        using Cons.IH [of seen] Cons.prems(1,2) True step r(1) by (simp add: chunks_def)
    next
      case over: False
      then have s: "seen = take frame_header_len (buf @ stream_bytes (r # reads))" "length seen = frame_header_len"
        using short r(1) by (simp_all add: seen_def)
      have "read_frame reads seen = Some (Inr seen)" using s(2) by (subst read_frame.simps) (simp del: length_append)
      then show ?thesis using step s(1) by (simp only:)
    qed
  qed
qed

lemma h2c_exchange_exact:
  assumes "hp_connects p = Some True" "hp_written p" "chunks (hp_reads p)" "frame_header_len \<le> length (stream_bytes (hp_reads p))"
  shows "h2c_exchange p = Some (classify_reply (take frame_header_len (stream_bytes (hp_reads p))))"
  using read_frame_collects [OF assms(3), of "[]"] assms by (simp add: h2c_exchange_def)

lemma classify_reply_ok:
  "classify_reply reply = Inr () \<longleftrightarrow>
     frame_header_len \<le> length reply \<and> byte (reply ! 3) = frame_type_settings \<and> \<not> starts_with ''HTTP/1.'' reply"
  by (auto simp: classify_reply_def frame_header_len_def starts_with_def)

lemma h2c_attempt_ok:
  assumes "h2c_attempt p = Inr ()"
  shows "\<not> hp_expired p \<and> hp_connects p = Some True \<and> hp_written p
    \<and> (\<exists>reply. read_frame (hp_reads p) [] = Some (Inr reply) \<and> classify_reply reply = Inr ())"
proof -
  have "\<not> hp_expired p" "h2c_exchange p = Some (Inr ())"
    using assms by (auto simp: h2c_attempt_def split: if_splits option.splits)
  moreover from this obtain r where "hp_connects p = Some True" "hp_written p" "read_frame (hp_reads p) [] = Some r"
      "res_bind r classify_reply = Inr ()"
    by (auto simp: h2c_exchange_def split: option.splits bool.splits if_splits)
  ultimately show ?thesis by (cases r) auto
qed

lemma probe_h2c_ok:
  "probe_h2c peer addrs = Inr () \<longleftrightarrow>
     h2c_attempt (peer (ra_primary addrs)) = Inr () \<or> (\<exists>f. ra_fallback addrs = Some f \<and> h2c_attempt (peer f) = Inr ())"
proof (cases "ra_fallback addrs")
  case None
  then show ?thesis by (simp add: probe_h2c_def)
next
  case (Some f)
  show ?thesis
  proof (cases "h2c_attempt (peer (ra_primary addrs))")
    case (Inl e)
    then show ?thesis by (cases "h2c_attempt (peer f)") (simp_all add: probe_h2c_def Some)
  next
    case (Inr u)
    moreover have "u = ()" by simp
    ultimately show ?thesis by (simp only: probe_h2c_def Some option.case sum.case unit.case) simp
  qed
qed

end
