(* ===== verification/Files.thy ===== *)
theory Files
  imports Prelude
begin

text \<open>
  The file system as far as the program depends on it: files by directory and name, each with its
  bytes and modification time, and the staged atomic write that \<open>store.rs\<close> and \<open>psl.rs\<close> both use
  (write \<open><name>.tmp\<close>, then rename over the target). Input/output faults are explicit: a plan
  says, for each path, whether creating its directory, writing it or renaming onto it fails, and
  how much of the data an interrupted write leaves behind.
\<close>

type_synonym path = "string \<times> string"
type_synonym fs = "path \<rightharpoonup> string \<times> nat"

datatype fault = NoFault | CreateDirFails | OpenFails | WriteFails string | PermFails | RenameFails | RemoveFails | ReadFails

datatype io_error = IoFailed path | IoNotFound path

definition staging_path :: "path \<Rightarrow> path" where
  "staging_path p = (fst p, snd p @ ''.tmp'')"

text \<open>\<open>std::fs::write\<close>: a file that cannot be opened is left as it was, and a failed write may leave a
  partial file behind.\<close>

definition fs_write :: "(path \<Rightarrow> fault) \<Rightarrow> nat \<Rightarrow> path \<Rightarrow> string \<Rightarrow> fs \<Rightarrow> (io_error, unit) result \<times> fs" where
  "fs_write plan now p bytes f =
     (case plan p of
        OpenFails \<Rightarrow> (Inl (IoFailed p), f)
      | WriteFails junk \<Rightarrow> (Inl (IoFailed p), f(p \<mapsto> (junk, now)))
      | _ \<Rightarrow> (Inr (), f(p \<mapsto> (bytes, now))))"

definition fs_rename :: "(path \<Rightarrow> fault) \<Rightarrow> path \<Rightarrow> path \<Rightarrow> fs \<Rightarrow> (io_error, unit) result \<times> fs" where
  "fs_rename plan src dst f =
     (case f src of None \<Rightarrow> (Inl (IoNotFound src), f)
      | Some x \<Rightarrow> if plan dst = RenameFails then (Inl (IoFailed dst), f)
          else (Inr (), (f(src := None))(dst \<mapsto> x)))"

definition fs_remove :: "(path \<Rightarrow> fault) \<Rightarrow> path \<Rightarrow> fs \<Rightarrow> (io_error, unit) result \<times> fs" where
  "fs_remove plan p f =
     (case f p of None \<Rightarrow> (Inl (IoNotFound p), f)
      | Some _ \<Rightarrow> if plan p = RemoveFails then (Inl (IoFailed p), f) else (Inr (), f(p := None)))"

definition fs_read :: "(path \<Rightarrow> fault) \<Rightarrow> path \<Rightarrow> fs \<Rightarrow> (io_error, string) result" where
  "fs_read plan p f =
     (case f p of None \<Rightarrow> Inl (IoNotFound p)
      | Some (b, _) \<Rightarrow> if plan p = ReadFails then Inl (IoFailed p) else Inr b)"

definition write_atomic ::
    "(path \<Rightarrow> fault) \<Rightarrow> nat \<Rightarrow> path \<Rightarrow> string \<Rightarrow> fs \<Rightarrow> (io_error, unit) result \<times> fs" where
  "write_atomic plan now p bytes f =
     (let tmp = staging_path p in
      case fs_write plan now tmp bytes f of
        (Inl e, f1) \<Rightarrow> (Inl e, f1)
      | (Inr _, f1) \<Rightarrow> fs_rename plan tmp p f1)"

text \<open>The same with the mode of the staging file restricted before the rename.\<close>

definition write_atomic_private ::
    "(path \<Rightarrow> fault) \<Rightarrow> nat \<Rightarrow> path \<Rightarrow> string \<Rightarrow> fs \<Rightarrow> (io_error, unit) result \<times> fs" where
  "write_atomic_private plan now p bytes f =
     (let tmp = staging_path p in
      case fs_write plan now tmp bytes f of
        (Inl e, f1) \<Rightarrow> (Inl e, f1)
      | (Inr _, f1) \<Rightarrow> if plan tmp = PermFails then (Inl (IoFailed tmp), f1) else fs_rename plan tmp p f1)"

lemma staging_path_neq [simp]: "staging_path p \<noteq> p" "p \<noteq> staging_path p"
  by (cases p; simp add: staging_path_def)+

lemma staging_path_inject [simp]: "staging_path p = staging_path q \<longleftrightarrow> p = q"
  by (cases p; cases q) (simp add: staging_path_def)

text \<open>The target of an atomic write is never seen half-written: it holds what it held before, or
  the new bytes and then the write reports success; no other file changes but the staging one.\<close>

lemma write_atomic_target:
  assumes "write_atomic plan now p bytes f = (r, f')"
  shows "(r = Inr () \<and> f' p = Some (bytes, now)) \<or> (r \<noteq> Inr () \<and> f' p = f p)"
  using assms
  by (auto simp: write_atomic_def fs_write_def fs_rename_def Let_def split: fault.splits if_splits)

lemma write_atomic_frame:
  assumes "write_atomic plan now p bytes f = (r, f')" "q \<noteq> p" "q \<noteq> staging_path p"
  shows "f' q = f q"
  using assms
  by (auto simp: write_atomic_def fs_write_def fs_rename_def Let_def split: fault.splits if_splits)

lemma write_atomic_private_frame:
  assumes "write_atomic_private plan now p bytes f = (r, f')" "q \<noteq> p" "q \<noteq> staging_path p"
  shows "f' q = f q"
  using assms
  by (auto simp: write_atomic_private_def fs_write_def fs_rename_def Let_def split: fault.splits if_splits)

lemma write_atomic_private_target:
  assumes "write_atomic_private plan now p bytes f = (r, f')"
  shows "(r = Inr () \<and> f' p = Some (bytes, now)) \<or> (r \<noteq> Inr () \<and> f' p = f p)"
  using assms
  by (auto simp: write_atomic_private_def fs_write_def fs_rename_def Let_def split: fault.splits if_splits)

lemma fs_remove_target:
  "fs_remove plan p f = (r, f') \<Longrightarrow> (f' p = None \<and> (r = Inr () \<or> r = Inl (IoNotFound p))) \<or> (f' p = f p \<and> r = Inl (IoFailed p))"
  by (auto simp: fs_remove_def split: option.splits if_splits)

lemma fs_remove_frame: "fs_remove plan p f = (r, f') \<Longrightarrow> q \<noteq> p \<Longrightarrow> f' q = f q"
  by (auto simp: fs_remove_def split: option.splits if_splits)

lemma write_atomic_ok:
  assumes "plan (staging_path p) = NoFault" "plan p = NoFault"
  shows "write_atomic plan now p bytes f = (Inr (), (f(staging_path p := None))(p \<mapsto> (bytes, now)))"
  using assms by (simp add: write_atomic_def fs_write_def fs_rename_def)

end
