(* ===== verification/Suffix.thy ===== *)
theory Suffix
  imports Router NetAddr
begin

text \<open>
  Public-suffix decisions (\<open>src/src/suffix.rs\<close>) and the management of the list
  (\<open>src/src/psl.rs\<close>). The \<open>publicsuffix\<close> crate is a parameter: a parsed list has the type \<open>'l\<close>,
  \<open>psl_parse\<close> is \<open>List::from_bytes\<close>, \<open>psl_suffix l h\<close> is \<open>List::suffix\<close> (the matching suffix with
  its section, if the rule names one) and \<open>psl_domain\<close> is \<open>List::domain\<close>.
\<close>

datatype psl_type = Icann | Private

type_synonym 'l psl_lookup = "'l \<Rightarrow> string \<Rightarrow> (string \<times> psl_type option) option"

section \<open>Registrable domains\<close>

definition one_label_below :: "string \<Rightarrow> string \<Rightarrow> string option" where
  "one_label_below host sfx =
     (if host = sfx then None
      else case strip_suffix sfx host of None \<Rightarrow> None
      | Some l0 \<Rightarrow> (case strip_suffix ''.'' l0 of None \<Rightarrow> None
        | Some left \<Rightarrow>
            (let final = last (split_char CHR ''.'' left) in
             if final = [] then None else Some (final @ ''.'' @ sfx))))"

text \<open>The loop that walks a private suffix down to the enclosing non-private one.\<close>

function private_walk :: "'l psl_lookup \<Rightarrow> 'l \<Rightarrow> string \<Rightarrow> string option" where
  "private_walk psl l cur =
     (case split_once CHR ''.'' cur of None \<Rightarrow> None
      | Some (_, rest) \<Rightarrow>
        (case psl l rest of None \<Rightarrow> None
         | Some (s, typ) \<Rightarrow> if typ \<noteq> Some Private then Some s else private_walk psl l rest))"
  by pat_completeness auto
termination
  by (relation "measure (\<lambda>(psl, l, cur). length cur)") (auto simp: str_simps)

declare private_walk.simps [simp del]

definition registrable_icann :: "'l psl_lookup \<Rightarrow> 'l \<Rightarrow> string \<Rightarrow> string option" where
  "registrable_icann psl l host =
     (case psl l host of None \<Rightarrow> None
      | Some (sfx, typ) \<Rightarrow>
        (case (if typ = Some Private then private_walk psl l sfx else Some sfx) of
           None \<Rightarrow> None | Some boundary \<Rightarrow> one_label_below host boundary))"

definition wildcard_is_mintable :: "'l psl_lookup \<Rightarrow> 'l \<Rightarrow> string \<Rightarrow> bool" where
  "wildcard_is_mintable psl l parent =
     (if is_ip_literal parent then False
      else registrable_icann psl l (lowercase (trim_end_char CHR ''.'' parent)) \<noteq> None)"

section \<open>Coverage\<close>

definition san_covers :: "string \<Rightarrow> string \<Rightarrow> bool" where
  "san_covers host san =
     (if san = host then True
      else case strip_prefix ''*.'' san of
        Some sfx \<Rightarrow> (case split_once CHR ''.'' host of
            Some (l, rest) \<Rightarrow> l \<noteq> [] \<and> rest = sfx | None \<Rightarrow> False)
      | None \<Rightarrow> False)"

definition host_covered_by :: "string list \<Rightarrow> string \<Rightarrow> bool" where
  "host_covered_by sans host \<longleftrightarrow> list_ex (san_covers host) sans"

section \<open>Swapping the list\<close>

datatype psl_error =
    PslParse
  | PslSanity
  | PslRead
  | PslDownload
  | PslEmpty
  | PslWrite

definition from_file :: "(string \<Rightarrow> 'l option) \<Rightarrow> string \<Rightarrow> (psl_error, 'l) result" where
  "from_file psl_parse bytes = ok_or PslParse (psl_parse bytes)"

text \<open>\<open>replace_from_bytes\<close>: the new contents of the lock, and the result.\<close>

definition replace_from_bytes ::
    "(string \<Rightarrow> 'l option) \<Rightarrow> ('l \<Rightarrow> string \<Rightarrow> string option) \<Rightarrow> string \<Rightarrow> 'l
     \<Rightarrow> (psl_error, unit) result \<times> 'l" where
  "replace_from_bytes psl_parse psl_domain bytes current =
     (case psl_parse bytes of None \<Rightarrow> (Inl PslParse, current)
      | Some parsed \<Rightarrow>
          if psl_domain parsed ''example.co.uk'' = None then (Inl PslSanity, current)
          else (Inr (), parsed))"

section \<open>Facts\<close>

lemma last_split_char: "\<exists>x. s = x @ last (split_char d s) \<and> (x = [] \<or> (\<exists>y. x = y @ [d]))"
proof (induction s)
  case Nil
  then show ?case by simp
next
  case (Cons c s)
  then obtain x where x: "s = x @ last (split_char d s)" "x = [] \<or> (\<exists>y. x = y @ [d])"
    by blast
  obtain v vs where v: "split_char d s = v # vs"
    by (metis neq_Nil_conv split_char_nonempty)
  consider "c = d" | "c \<noteq> d" "vs = []" | "c \<noteq> d" "vs \<noteq> []" by blast
  then show ?case
  proof cases
    case 1
    have "c # s = (c # x) @ last (split_char d (c # s))" using x(1) 1 by simp
    moreover have "c # x = [d] \<or> (\<exists>y. c # x = y @ [d])" using x(2) 1 by auto
    ultimately show ?thesis by blast
  next
    case 2
    then show ?thesis using v join_split_char [of d s] by simp
  next
    case 3
    have "c # s = (c # x) @ last (split_char d (c # s))" using x(1) 3 v by simp
    moreover have "x \<noteq> []"
    proof
      assume "x = []"
      then have "d \<notin> set s"
        using x(1) v split_char_parts [of "last (split_char d s)" d s] by (metis append_Nil last_in_set split_char_nonempty)
      then show False using v 3 by (simp add: split_char_nodelim)
    qed
    then have "\<exists>y. c # x = y @ [d]" using x(2) by auto
    ultimately show ?thesis by blast
  qed
qed

lemma one_label_below_Some:
  assumes "one_label_below host sfx = Some d"
  shows "\<exists>l. is_label l \<and> d = l @ CHR ''.'' # sfx \<and> domain_suffix d host"
proof -
  obtain left where left: "host = left @ CHR ''.'' # sfx"
    and d: "d = last (split_char CHR ''.'' left) @ CHR ''.'' # sfx" "last (split_char CHR ''.'' left) \<noteq> []"
    using assms by (auto simp: one_label_below_def str_simps Let_def split: if_splits option.splits)
  have lab: "is_label (last (split_char CHR ''.'' left))"
    using d split_char_parts [of "last (split_char CHR ''.'' left)" "CHR ''.''" left]
    by (simp add: is_label_def)
  have "domain_suffix d host"
    using last_split_char [of left "CHR ''.''"] by (auto simp: domain_suffix_def left d(1))
  then show ?thesis using lab d(1) by blast
qed

lemma host_covered_by_iff:
  "host_covered_by sans h \<longleftrightarrow>
     h \<in> set sans \<or> (\<exists>l p. h = l @ CHR ''.'' # p \<and> is_label l \<and> ''*.'' @ p \<in> set sans)"
proof -
  have "san_covers h s \<longleftrightarrow> s = h \<or> (\<exists>l p. h = l @ CHR ''.'' # p \<and> is_label l \<and> s = ''*.'' @ p)" for s
  proof -
    have "(\<exists>l p. h = l @ CHR ''.'' # p \<and> is_label l \<and> s = ''*.'' @ p) \<longleftrightarrow>
        (\<exists>p. strip_prefix ''*.'' s = Some p \<and> (\<exists>l. l \<noteq> [] \<and> split_once CHR ''.'' h = Some (l, p)))"
      by (auto simp: is_label_def strip_prefix_Some split_once_Some)
    then show ?thesis
      by (auto simp: san_covers_def split: option.splits)
  qed
  then show ?thesis
    by (auto simp: host_covered_by_def list_ex_iff)
qed

lemma private_walk_Some:
  "private_walk psl l cur = Some b \<Longrightarrow>
     \<exists>anc t. psl l anc = Some (b, t) \<and> t \<noteq> Some Private \<and> domain_suffix anc cur \<and> anc \<noteq> cur"
proof (induction psl l cur rule: private_walk.induct)
  case (1 psl l cur)
  obtain a rest s t where rest: "split_once CHR ''.'' cur = Some (a, rest)" "psl l rest = Some (s, t)"
    and b: "(if t \<noteq> Some Private then Some s else private_walk psl l rest) = Some b"
    using 1(2) by (subst (asm) private_walk.simps) (auto split: option.splits prod.splits)
  have cur: "cur = a @ CHR ''.'' # rest" "CHR ''.'' \<notin> set a"
    using rest(1) by (simp_all add: split_once_Some)
  show ?case
  proof (cases "t = Some Private")
    case False
    then have "psl l rest = Some (b, t)" using b rest(2) by simp
    moreover have "domain_suffix rest cur \<and> rest \<noteq> cur"
      using cur by (auto simp: domain_suffix_def)
    ultimately show ?thesis using False by blast
  next
    case True
    then have "private_walk psl l rest = Some b" using b by simp
    then obtain anc t' where "psl l anc = Some (b, t')" "t' \<noteq> Some Private" "domain_suffix anc rest"
      using 1(1) [OF rest(1) refl rest(2) refl] True by auto
    moreover have "domain_suffix anc cur \<and> anc \<noteq> cur"
      using calculation(3) cur by (auto simp: domain_suffix_def)
    ultimately show ?thesis by blast
  qed
qed

lemma one_label_below_iff:
  "one_label_below p s \<noteq> None \<longleftrightarrow> (\<exists>l. is_label l \<and> domain_suffix (l @ CHR ''.'' # s) p)"
proof
  assume "one_label_below p s \<noteq> None"
  then show "\<exists>l. is_label l \<and> domain_suffix (l @ CHR ''.'' # s) p"
    using one_label_below_Some by fastforce
next
  assume "\<exists>l. is_label l \<and> domain_suffix (l @ CHR ''.'' # s) p"
  then obtain l where l: "is_label l" and d: "domain_suffix (l @ CHR ''.'' # s) p" by blast
  obtain left where left: "p = left @ CHR ''.'' # s" "last (split_char CHR ''.'' left) = l"
    using d l by (auto simp: domain_suffix_def is_label_def split_char_nodelim split_char_append)
  then show "one_label_below p s \<noteq> None"
    using l by (auto simp: one_label_below_def is_label_def strip_suffix_append [of "''.''" left, simplified])
qed

lemma mintable_Some:
  assumes "wildcard_is_mintable psl l parent"
  shows "\<not> is_ip_literal parent \<and>
    (\<exists>anc b t lab. psl l anc = Some (b, t) \<and> t \<noteq> Some Private \<and> is_label lab
       \<and> domain_suffix (lab @ CHR ''.'' # b) (lowercase (trim_end_char CHR ''.'' parent)))"
proof -
  let ?p = "lowercase (trim_end_char CHR ''.'' parent)"
  have ip: "\<not> is_ip_literal parent" and reg: "registrable_icann psl l ?p \<noteq> None"
    using assms by (auto simp: wildcard_is_mintable_def split: if_splits)
  obtain s t b where s: "psl l ?p = Some (s, t)"
    and b: "(if t = Some Private then private_walk psl l s else Some s) = Some b"
    and one: "one_label_below ?p b \<noteq> None"
    using reg by (auto simp: registrable_icann_def split: option.splits prod.splits)
  have "\<exists>anc t. psl l anc = Some (b, t) \<and> t \<noteq> Some Private"
    using s b private_walk_Some [of psl l s b] by (cases "t = Some Private") auto
  then show ?thesis
    using ip one one_label_below_iff by blast
qed

section \<open>Properties\<close>

text \<open>C34. A wildcard is minted only inside one registrable domain: an accepted parent is not an IP
  literal, and there is a non-private public suffix such that the parent is, or lies below, a
  domain one whole label under it. In particular a parent that the list itself names as a
  non-private suffix is always refused.\<close>

theorem mintable_inside_registry:
  "(wildcard_is_mintable psl l parent \<longrightarrow> \<not> is_ip_literal parent \<and>
    (\<exists>anc b t lab. psl l anc = Some (b, t) \<and> t \<noteq> Some Private \<and> is_label lab
       \<and> domain_suffix (lab @ CHR ''.'' # b) (lowercase (trim_end_char CHR ''.'' parent))))
   \<and> (psl l (lowercase (trim_end_char CHR ''.'' parent))
        = Some (lowercase (trim_end_char CHR ''.'' parent), Some Icann)
      \<longrightarrow> \<not> wildcard_is_mintable psl l parent)"
  using mintable_Some [of psl l parent]
  by (auto simp: wildcard_is_mintable_def registrable_icann_def one_label_below_def)

text \<open>A two-rule list: \<open>com\<close> is a registry suffix, \<open>site.com\<close> a vendor's private entry.\<close>

definition sample_psl :: "unit psl_lookup" where
  "sample_psl = (\<lambda>_ h. if is_suffix_of_or_equal h ''site.com'' then Some (''site.com'', Some Private)
     else if is_suffix_of_or_equal h ''com'' then Some (''com'', Some Icann)
     else Some (last (split_char CHR ''.'' h), None))"

lemma mintable_inside_registry_witness:
  "wildcard_is_mintable sample_psl () ''Site.com.'' \<and> \<not> wildcard_is_mintable sample_psl () ''com''
   \<and> \<not> is_ip_literal ''Site.com.''"
proof -
  have "wildcard_is_mintable sample_psl () ''Site.com.''" by code_simp
  moreover have "sample_psl () (lowercase (trim_end_char CHR ''.'' ''com''))
      = Some (lowercase (trim_end_char CHR ''.'' ''com''), Some Icann)" by code_simp
  ultimately show ?thesis
    using mintable_inside_registry [of sample_psl "()" "''Site.com.''"]
      mintable_inside_registry [of sample_psl "()" "''com''"] by blast
qed

end
