(* ===== verification/Ca.thy ===== *)
theory Ca
  imports Suffix
begin

text \<open>
  Leaf issuance (\<open>src/src/ca.rs\<close>): the common name, the subject names, and the assembly of the
  parameters that are signed. Key generation and signing (\<open>rcgen\<close>) are the parameter \<open>sign\<close>;
  \<open>ia5_ok\<close> is the crate's test that a text is a valid IA5 string.
\<close>

datatype san_type = SanIp ip_addr | SanDns string

datatype dn_attr = CommonName string | OrganizationName string | CountryName string

datatype ca_error = InvalidDnsName string | SigningFailed

record leaf_params =
  lp_is_ca :: bool
  lp_sans :: "san_type list"
  lp_dn :: "dn_attr list"
  lp_not_before :: int
  lp_not_after :: int

record cert_authority =
  au_organization :: string
  au_country :: string
  au_leaf_validity :: int

definition max_common_name_len :: nat where
  "max_common_name_len = 64"

text \<open>\<open>str::is_char_boundary\<close> strictly inside a string: the byte there is no continuation byte.\<close>

definition is_char_boundary :: "string \<Rightarrow> nat \<Rightarrow> bool" where
  "is_char_boundary s n \<longleftrightarrow> n = 0 \<or> n = length s \<or>
     (n < length s \<and> \<not> (128 \<le> byte (s ! n) \<and> byte (s ! n) < 192))"

function clamp_labels :: "string \<Rightarrow> string" where
  "clamp_labels cur =
     (if max_common_name_len < length cur then
        (case split_once CHR ''.'' cur of Some (_, rest) \<Rightarrow> clamp_labels rest | None \<Rightarrow> cur)
      else cur)"
  by pat_completeness auto
termination
  by (relation "measure length") (auto simp: str_simps)

declare clamp_labels.simps [simp del]

fun clamp_end :: "string \<Rightarrow> nat \<Rightarrow> nat" where
  "clamp_end s 0 = 0"
| "clamp_end s (Suc n) = (if is_char_boundary s (Suc n) then Suc n else clamp_end s n)"

definition clamp_common_name :: "string \<Rightarrow> string" where
  "clamp_common_name host =
     (if length host \<le> max_common_name_len then host
      else let cur = clamp_labels host in
        if length cur \<le> max_common_name_len then cur
        else take (clamp_end cur max_common_name_len) cur)"

definition build_dn :: "string \<Rightarrow> string \<Rightarrow> string \<Rightarrow> dn_attr list" where
  "build_dn common_name organization country =
     [CommonName common_name]
     @ (if organization \<noteq> [] then [OrganizationName organization] else [])
     @ (if country \<noteq> [] then [CountryName country] else [])"

definition san_for_name :: "(string \<Rightarrow> bool) \<Rightarrow> string \<Rightarrow> (ca_error, san_type) result" where
  "san_for_name ia5_ok name =
     (case parse_ip name of Some ip \<Rightarrow> Inr (SanIp ip)
      | None \<Rightarrow> if ia5_ok name then Inr (SanDns name) else Inl (InvalidDnsName name))"

definition issue ::
    "(string \<Rightarrow> bool) \<Rightarrow> (leaf_params \<Rightarrow> 'i option) \<Rightarrow> int \<Rightarrow> cert_authority \<Rightarrow> string \<Rightarrow> string list
     \<Rightarrow> (ca_error, 'i) result" where
  "issue ia5_ok sign now au common_name sans =
     (case map_res (san_for_name ia5_ok) sans of Inl e \<Rightarrow> Inl e
      | Inr sts \<Rightarrow>
          ok_or SigningFailed (sign
            \<lparr>lp_is_ca = False, lp_sans = sts,
             lp_dn = build_dn (clamp_common_name common_name) (au_organization au) (au_country au),
             lp_not_before = now - 3600, lp_not_after = now + au_leaf_validity au\<rparr>))"

section \<open>Facts\<close>

lemma clamp_labels_suffix: "domain_suffix (clamp_labels s) s"
proof (induction s rule: clamp_labels.induct)
  case (1 s)
  show ?case
  proof (cases "max_common_name_len < length s \<and> split_once CHR ''.'' s \<noteq> None")
    case True
    then obtain a b where ab: "split_once CHR ''.'' s = Some (a, b)" by auto
    then have s: "s = a @ CHR ''.'' # b" "CHR ''.'' \<notin> set a" by (simp_all add: split_once_Some)
    have "clamp_labels s = clamp_labels b" using True ab by (subst clamp_labels.simps) simp
    moreover have "domain_suffix (clamp_labels b) b" using 1 True ab by simp
    ultimately show ?thesis using s by (simp add: domain_suffix_step)
  next
    case False
    then have "clamp_labels s = s" by (subst clamp_labels.simps) (auto split: option.splits)
    then show ?thesis by simp
  qed
qed

lemma clamp_labels_stop: "length (clamp_labels s) \<le> max_common_name_len \<or> CHR ''.'' \<notin> set (clamp_labels s)"
proof (induction s rule: clamp_labels.induct)
  case (1 s)
  show ?case
  proof (cases "split_once CHR ''.'' s")
    case None
    then have "clamp_labels s = s" by (subst clamp_labels.simps) simp
    then show ?thesis using None by (simp add: split_once_None)
  next
    case (Some ab)
    then show ?thesis using 1 by (subst (1 2) clamp_labels.simps) (auto split: prod.splits)
  qed
qed

lemma domain_suffix_length: "domain_suffix d s \<Longrightarrow> length d \<le> length s"
  by (auto simp: domain_suffix_def)

lemma clamp_labels_longest:
  "domain_suffix d s \<Longrightarrow> length d \<le> max_common_name_len \<Longrightarrow> length d \<le> length (clamp_labels s)"
proof (induction s rule: clamp_labels.induct)
  case (1 s)
  show ?case
  proof (cases "max_common_name_len < length s \<and> split_once CHR ''.'' s \<noteq> None")
    case True
    then obtain a b where ab: "split_once CHR ''.'' s = Some (a, b)" by auto
    then have s: "s = a @ CHR ''.'' # b" "CHR ''.'' \<notin> set a" by (simp_all add: split_once_Some)
    have "domain_suffix d b"
      using 1(2,3) True s by (auto simp: domain_suffix_step)
    then have "length d \<le> length (clamp_labels b)"
      using 1 True ab by simp
    then show ?thesis using True ab by (subst clamp_labels.simps) simp
  next
    case False
    then have "clamp_labels s = s" by (subst clamp_labels.simps) (auto split: option.splits)
    then show ?thesis using domain_suffix_length [OF 1(2)] by simp
  qed
qed

lemma clamp_end_le: "clamp_end s n \<le> n"
  by (induction n) auto

lemma clamp_end_boundary: "is_char_boundary s (clamp_end s n)"
  by (induction n) (auto simp: is_char_boundary_def)

lemma clamp_length: "length (clamp_common_name h) \<le> 64"
proof -
  have "clamp_end (clamp_labels h) max_common_name_len \<le> 64"
    using clamp_end_le [of "clamp_labels h" max_common_name_len] by (simp add: max_common_name_len_def)
  then show ?thesis
    by (simp add: clamp_common_name_def Let_def) (simp add: max_common_name_len_def)
qed

lemma san_for_name_dns: "\<not> is_ip_literal n \<Longrightarrow> san_for_name ia5 n = Inr st \<Longrightarrow> st = SanDns n"
  by (auto simp: san_for_name_def is_ip_literal_def split: if_splits option.splits)

lemma map_res_dns:
  "map_res (san_for_name ia5) ns = Inr sts \<Longrightarrow> \<forall>n\<in>set ns. \<not> is_ip_literal n \<Longrightarrow> sts = List.map SanDns ns"
proof (induction ns arbitrary: sts)
  case (Cons n ns)
  then show ?case by (auto split: sum.splits dest: san_for_name_dns)
qed simp

section \<open>Properties\<close>

text \<open>The common name of an issued certificate always fits X.509's 64-byte bound; a host that
  fits is used as it is; a longer one is cut on a label boundary to its longest trailing run of
  labels that fits, and only when its last label alone is too long is that label cut, on a
  character boundary.\<close>

theorem common_name_fits:
  "length (clamp_common_name host) \<le> 64
   \<and> (length host \<le> 64 \<longrightarrow> clamp_common_name host = host)
   \<and> (domain_suffix (clamp_common_name host) host
        \<and> (\<forall>d. domain_suffix d host \<and> length d \<le> 64 \<longrightarrow> length d \<le> length (clamp_common_name host))
      \<or> (\<exists>final n. domain_suffix final host \<and> CHR ''.'' \<notin> set final \<and> 64 < length final
           \<and> is_char_boundary final n \<and> clamp_common_name host = take n final))"
proof -
  have "domain_suffix (clamp_common_name host) host
        \<and> (\<forall>d. domain_suffix d host \<and> length d \<le> 64 \<longrightarrow> length d \<le> length (clamp_common_name host))
      \<or> (\<exists>final n. domain_suffix final host \<and> CHR ''.'' \<notin> set final \<and> 64 < length final
           \<and> is_char_boundary final n \<and> clamp_common_name host = take n final)"
  proof (cases "length host \<le> 64 \<or> length (clamp_labels host) \<le> 64")
    case True
    then show ?thesis
      using clamp_labels_suffix clamp_labels_longest [of _ host] domain_suffix_length [of _ host]
      by (auto simp: clamp_common_name_def max_common_name_len_def)
  next
    case False
    then have "clamp_common_name host = take (clamp_end (clamp_labels host) 64) (clamp_labels host)"
      by (simp add: clamp_common_name_def max_common_name_len_def Let_def)
    moreover have "CHR ''.'' \<notin> set (clamp_labels host)"
      using clamp_labels_stop [of host] False by (simp add: max_common_name_len_def)
    ultimately show ?thesis
      using clamp_labels_suffix clamp_end_boundary False by (metis not_le)
  qed
  then show ?thesis
    using clamp_length by (simp add: clamp_common_name_def max_common_name_len_def)
qed

lemma common_name_fits_witness:
  "length (clamp_common_name (replicate 70 CHR ''x'' @ ''.example.com'')) \<le> 64
   \<and> clamp_common_name ''a.com'' = ''a.com''"
  using common_name_fits [of "replicate 70 CHR ''x'' @ ''.example.com''"] common_name_fits [of "''a.com''"]
  by simp

end
