(* ===== verification/Store.thy ===== *)
theory Store
  imports Files Ca
begin

text \<open>
  On-disk persistence of issued certificates (\<open>src/src/store.rs\<close>): three files per scope and host,
  each written atomically, and the \<open>.observed\<close> sidecar that records which upstream names a
  certificate mirrors. PEM and X.509 decoding are third-party and parameters (\<open>pki\<close>); a
  timestamp is a number of Unix seconds.
\<close>

datatype general_name = DnsName string | IpAddress string | OtherName

text \<open>The certificate library: issuing, PEM text, and reading back. \<open>'c\<close> is a DER certificate and
  \<open>'k\<close> a private key.\<close>

record ('c, 'k) pki =
  pk_ia5 :: "string \<Rightarrow> bool"
  pk_sign :: "leaf_params \<Rightarrow> ('c \<times> 'k) option"
  pk_ecdsa :: "'k \<Rightarrow> bool"
  pk_pem :: "'c \<Rightarrow> string"
  pk_key_pem :: "'k \<Rightarrow> string"
  pk_read_certs :: "string \<Rightarrow> 'c list option"
  pk_read_key :: "string \<Rightarrow> 'k option"
  pk_x509 :: "'c \<Rightarrow> (int \<times> general_name list option) option"
  pk_ca :: "'c"
  pk_ca_pem :: string

record ('c, 'k) stored =
  sr_chain :: "'c list"
  sr_key :: 'k
  sr_not_after :: int
  sr_sans :: "string list"
  sr_observed :: "string list option"

record cert_store =
  cs_dir :: string
  cs_renew_margin :: int

datatype store_error = ReadFailed | BadChain | BadKey | BadMetadata | SaveFailed path

definition new_store :: "string \<Rightarrow> nat \<Rightarrow> cert_store" where
  "new_store dir renew_margin_days =
     \<lparr>cs_dir = dir, cs_renew_margin = int renew_margin_days * 86400\<rparr>"

section \<open>The sidecar\<close>

fun encode_observed :: "string list \<Rightarrow> string" where
  "encode_observed [] = []"
| "encode_observed (san # sans) = san @ [CHR 0x0A] @ encode_observed sans"

text \<open>\<open>str::lines\<close>: a line ends at a newline, with one preceding carriage return dropped; a final
  unterminated line counts when it is nonempty.\<close>

definition strip_cr :: "string \<Rightarrow> string" where
  "strip_cr l = (case strip_suffix [CHR 0x0D] l of Some r \<Rightarrow> r | None \<Rightarrow> l)"

definition lines :: "string \<Rightarrow> string list" where
  "lines text =
     (let parts = split_char (CHR 0x0A) text in
      List.map strip_cr (butlast parts) @ (if last parts = [] then [] else [last parts]))"

definition decode_observed :: "string \<Rightarrow> string list" where
  "decode_observed text = filter (\<lambda>l. l \<noteq> []) (List.map trim (lines text))"

section \<open>Reading a certificate\<close>

definition ip_from_bytes :: "string \<Rightarrow> string option" where
  "ip_from_bytes bytes =
     (case List.map byte bytes of
        [a, b, c, d] \<Rightarrow> Some (show_ipv4 (ipv4_of a b c d))
      | [a, b, c, d, e, f, g, h, i, j, k, l, m, n, p, q] \<Rightarrow>
          Some (show_ipv6 (ipv6_of [a * 256 + b, c * 256 + d, e * 256 + f, g * 256 + h,
                                    i * 256 + j, k * 256 + l, m * 256 + n, p * 256 + q]))
      | _ \<Rightarrow> None)"

fun san_text :: "general_name \<Rightarrow> string option" where
  "san_text (DnsName d) = Some d"
| "san_text (IpAddress bytes) = ip_from_bytes bytes"
| "san_text OtherName = None"

definition timestamp_ok :: "int \<Rightarrow> bool" where
  "timestamp_ok t \<longleftrightarrow> -377705116800 \<le> t \<and> t \<le> 253402300799"

definition leaf_metadata :: "('c, 'k) pki \<Rightarrow> 'c \<Rightarrow> (int \<times> string list) option" where
  "leaf_metadata lib der =
     (case pk_x509 lib der of None \<Rightarrow> None
      | Some (not_after, ext) \<Rightarrow>
          if timestamp_ok not_after
          then Some (not_after, (case ext of None \<Rightarrow> [] | Some gns \<Rightarrow> List.map_filter san_text gns))
          else None)"

section \<open>Paths\<close>

definition scope_dir :: "cert_store \<Rightarrow> string \<Rightarrow> string" where
  "scope_dir st scope = cs_dir st @ ''/'' @ scope"

definition cert_path :: "cert_store \<Rightarrow> string \<Rightarrow> string \<Rightarrow> path" where
  "cert_path st scope host = (scope_dir st scope, host @ ''.crt'')"

definition key_path :: "cert_store \<Rightarrow> string \<Rightarrow> string \<Rightarrow> path" where
  "key_path st scope host = (scope_dir st scope, host @ ''.key'')"

definition observed_path :: "cert_store \<Rightarrow> string \<Rightarrow> string \<Rightarrow> path" where
  "observed_path st scope host = (scope_dir st scope, host @ ''.observed'')"

section \<open>Load and save\<close>

text \<open>What one call sees of the outside: input/output faults and the clock.\<close>

record io_env =
  io_plan :: "path \<Rightarrow> fault"
  io_now :: nat

definition load_inner ::
    "('c, 'k) pki \<Rightarrow> io_env \<Rightarrow> fs \<Rightarrow> path \<Rightarrow> path \<Rightarrow> path \<Rightarrow> (store_error, ('c, 'k) stored) result" where
  "load_inner lib env f cp kp op =
     (case (fs_read (io_plan env) cp f, fs_read (io_plan env) kp f) of
        (Inr cert_pem, Inr key_pem) \<Rightarrow>
          (case pk_read_certs lib cert_pem of
             Some (leaf # rest) \<Rightarrow>
               (case pk_read_key lib key_pem of None \<Rightarrow> Inl BadKey
                | Some key \<Rightarrow>
                  (case leaf_metadata lib leaf of None \<Rightarrow> Inl BadMetadata
                   | Some (not_after, sans) \<Rightarrow>
                       Inr \<lparr>sr_chain = leaf # rest, sr_key = key, sr_not_after = not_after, sr_sans = sans,
                            sr_observed = (case fs_read (io_plan env) op f of
                               Inr text \<Rightarrow> Some (decode_observed text) | Inl _ \<Rightarrow> None)\<rparr>))
           | _ \<Rightarrow> Inl BadChain)
      | _ \<Rightarrow> Inl ReadFailed)"

definition needs_renewal :: "cert_store \<Rightarrow> io_env \<Rightarrow> int \<Rightarrow> bool" where
  "needs_renewal st env not_after \<longleftrightarrow> not_after \<le> int (io_now env) + cs_renew_margin st"

definition load ::
    "('c, 'k) pki \<Rightarrow> cert_store \<Rightarrow> io_env \<Rightarrow> fs \<Rightarrow> string \<Rightarrow> string \<Rightarrow> ('c, 'k) stored option" where
  "load lib st env f scope host =
     (let cp = cert_path st scope host; kp = key_path st scope host in
      if f cp = None \<or> f kp = None then None
      else case load_inner lib env f cp kp (observed_path st scope host) of
        Inr stored \<Rightarrow> if \<not> needs_renewal st env (sr_not_after stored) then Some stored else None
      | Inl _ \<Rightarrow> None)"

definition save ::
    "cert_store \<Rightarrow> io_env \<Rightarrow> fs \<Rightarrow> string \<Rightarrow> string \<Rightarrow> string \<Rightarrow> string \<Rightarrow> string list option
     \<Rightarrow> (store_error, unit) result \<times> fs" where
  "save st env f scope host chain_pem key_pem observed =
     (let cp = cert_path st scope host; kp = key_path st scope host; op = observed_path st scope host in
      if io_plan env (scope_dir st scope, []) = CreateDirFails
      then (Inl (SaveFailed (scope_dir st scope, [])), f)
      else case write_atomic (io_plan env) (io_now env) cp chain_pem f of
        (Inl _, f1) \<Rightarrow> (Inl (SaveFailed cp), f1)
      | (Inr _, f1) \<Rightarrow>
        (case write_atomic_private (io_plan env) (io_now env) kp key_pem f1 of
          (Inl _, f2) \<Rightarrow> (Inl (SaveFailed kp), f2)
        | (Inr _, f2) \<Rightarrow>
          (case observed of
             Some sans \<Rightarrow>
               (case write_atomic (io_plan env) (io_now env) op (encode_observed sans) f2 of
                  (Inl _, f3) \<Rightarrow> (Inl (SaveFailed op), f3) | (Inr _, f3) \<Rightarrow> (Inr (), f3))
           | None \<Rightarrow>
               (case fs_remove (io_plan env) op f2 of
                  (Inr _, f3) \<Rightarrow> (Inr (), f3)
                | (Inl (IoNotFound _), f3) \<Rightarrow> (Inr (), f3)
                | (Inl (IoFailed _), f3) \<Rightarrow> (Inl (SaveFailed op), f3)))))"

section \<open>The sidecar round trip\<close>

definition sidecar_name :: "string \<Rightarrow> bool" where
  "sidecar_name s \<longleftrightarrow> s \<noteq> [] \<and> trim s = s \<and> CHR 0x0A \<notin> set s"

lemma split_encode:
  "\<forall>s\<in>set sans. CHR 0x0A \<notin> set s \<Longrightarrow> split_char (CHR 0x0A) (encode_observed sans) = sans @ [[]]"
  by (induction sans) (simp_all add: split_char_app)

lemma strip_cr_trimmed: "trim s = s \<Longrightarrow> strip_cr s = s"
proof -
  assume s: "trim s = s"
  have "strip_suffix [CHR 0x0D] s = None"
  proof (rule ccontr)
    assume "strip_suffix [CHR 0x0D] s \<noteq> None"
    then obtain r where "s = r @ [CHR 0x0D]" by (auto simp: strip_suffix_Some)
    then have "ws_back (rev s) = 1"
      by (cases "rev s" rule: ws_back.cases) (auto simp: is_ascii_ws_def)
    then show False using trim_rev_back [of s] s by simp
  qed
  then show ?thesis by (simp add: strip_cr_def)
qed

lemma decode_encode:
  assumes "\<forall>s\<in>set sans. sidecar_name s"
  shows "decode_observed (encode_observed sans) = sans"
proof -
  have "lines (encode_observed sans) = List.map strip_cr sans"
    using assms by (simp add: lines_def split_encode sidecar_name_def)
  also have "\<dots> = sans"
    using assms by (intro map_idI) (simp add: strip_cr_trimmed sidecar_name_def)
  finally have "decode_observed (encode_observed sans) = filter (\<lambda>l. l \<noteq> []) (List.map trim sans)"
    by (simp add: decode_observed_def)
  also have "List.map trim sans = sans"
    using assms by (intro map_idI) (simp add: sidecar_name_def)
  finally show ?thesis
    using assms by (auto simp: sidecar_name_def intro: filter_True)
qed

section \<open>Paths of different certificates do not meet\<close>

lemma paths_apart:
  "cert_path st s h \<noteq> key_path st s' h'" "cert_path st s h \<noteq> observed_path st s' h'"
  "key_path st s h \<noteq> observed_path st s' h'"
  "cert_path st s h \<noteq> staging_path (cert_path st s' h')" "cert_path st s h \<noteq> staging_path (key_path st s' h')"
  "cert_path st s h \<noteq> staging_path (observed_path st s' h')"
  "key_path st s h \<noteq> staging_path (cert_path st s' h')" "key_path st s h \<noteq> staging_path (key_path st s' h')"
  "key_path st s h \<noteq> staging_path (observed_path st s' h')"
  "observed_path st s h \<noteq> staging_path (cert_path st s' h')" "observed_path st s h \<noteq> staging_path (key_path st s' h')"
  "observed_path st s h \<noteq> staging_path (observed_path st s' h')"
proof -
  have last: "p \<noteq> q" if "last (snd p) \<noteq> last (snd q)" for p q :: path
    using that by auto
  show "cert_path st s h \<noteq> key_path st s' h'" "cert_path st s h \<noteq> observed_path st s' h'"
    "key_path st s h \<noteq> observed_path st s' h'"
    "cert_path st s h \<noteq> staging_path (cert_path st s' h')" "cert_path st s h \<noteq> staging_path (key_path st s' h')"
    "cert_path st s h \<noteq> staging_path (observed_path st s' h')"
    "key_path st s h \<noteq> staging_path (cert_path st s' h')" "key_path st s h \<noteq> staging_path (key_path st s' h')"
    "key_path st s h \<noteq> staging_path (observed_path st s' h')"
    "observed_path st s h \<noteq> staging_path (cert_path st s' h')" "observed_path st s h \<noteq> staging_path (key_path st s' h')"
    "observed_path st s h \<noteq> staging_path (observed_path st s' h')"
    by (intro last; simp add: cert_path_def key_path_def observed_path_def staging_path_def)+
qed

lemma path_inject:
  "cert_path st s h = cert_path st s' h' \<longleftrightarrow> s = s' \<and> h = h'"
  "key_path st s h = key_path st s' h' \<longleftrightarrow> s = s' \<and> h = h'"
  "observed_path st s h = observed_path st s' h' \<longleftrightarrow> s = s' \<and> h = h'"
  by (auto simp: cert_path_def key_path_def observed_path_def scope_dir_def)

section \<open>What a file asserts\<close>

definition claims :: "('c, 'k) pki \<Rightarrow> cert_store \<Rightarrow> fs \<Rightarrow> string \<times> string \<Rightarrow> string list option" where
  "claims lib st f k =
     (case f (cert_path st (fst k) (snd k)) of None \<Rightarrow> None
      | Some (pem, _) \<Rightarrow> (case pk_read_certs lib pem of
          Some (leaf # rest) \<Rightarrow> map_option snd (leaf_metadata lib leaf)
        | _ \<Rightarrow> None))"

lemma load_claims: "load lib st env f s h = Some x \<Longrightarrow> claims lib st f (s, h) = Some (sr_sans x)"
  by (auto simp: load_def load_inner_def claims_def fs_read_def Let_def
      split: if_splits sum.splits option.splits list.splits)

lemma save_cert_file:
  assumes "save st env f s h chain key obs = (r, f')"
  shows "f' (cert_path st s h) = f (cert_path st s h) \<or> f' (cert_path st s h) = Some (chain, io_now env)"
    and "(s', h') \<noteq> (s, h) \<Longrightarrow> f' (cert_path st s' h') = f (cert_path st s' h')
      \<and> f' (key_path st s' h') = f (key_path st s' h') \<and> f' (observed_path st s' h') = f (observed_path st s' h')"
proof -
  let ?cp = "cert_path st s h" and ?kp = "key_path st s h" and ?op = "observed_path st s h"
  have step: "f' q = f q" if "q \<notin> {?cp, ?kp, ?op, staging_path ?cp, staging_path ?kp, staging_path ?op}" for q
    using assms that
    by (auto simp: save_def Let_def split: if_splits sum.splits prod.splits option.splits io_error.splits
        dest!: write_atomic_frame [where q = q] write_atomic_private_frame [where q = q] fs_remove_frame [where q = q])
  show "(s', h') \<noteq> (s, h) \<Longrightarrow> f' (cert_path st s' h') = f (cert_path st s' h')
      \<and> f' (key_path st s' h') = f (key_path st s' h') \<and> f' (observed_path st s' h') = f (observed_path st s' h')"
    using paths_apart paths_apart [symmetric] path_inject by (intro conjI step) auto
  obtain r1 f1 where w1: "write_atomic (io_plan env) (io_now env) ?cp chain f = (r1, f1)" by fastforce
  obtain r2 f2 where w2: "write_atomic_private (io_plan env) (io_now env) ?kp key f1 = (r2, f2)" by fastforce
  have c1: "f1 ?cp = f ?cp \<or> f1 ?cp = Some (chain, io_now env)"
    using write_atomic_target [OF w1] by auto
  have c2: "f2 ?cp = f1 ?cp"
    using paths_apart by (intro write_atomic_private_frame [OF w2]) auto
  have c3: "g2 ?cp = g1 ?cp" if "write_atomic p n ?op b g1 = (x, g2)" for p n b g1 x g2
    using paths_apart by (intro write_atomic_frame [OF that]) auto
  have c4: "g2 ?cp = g1 ?cp" if "fs_remove p ?op g1 = (x, g2)" for p g1 x g2
    using paths_apart by (intro fs_remove_frame [OF that]) auto
  obtain r3 f3 where w3: "fs_remove (io_plan env) ?op f2 = (r3, f3)" by fastforce
  obtain r4 f4 where w4: "write_atomic (io_plan env) (io_now env) ?op (encode_observed (the obs)) f2 = (r4, f4)"
    by fastforce
  have "f' \<in> {f, f1, f2, f3, f4}"
    using assms w1 w2 w3 w4
    by (auto simp: save_def Let_def split: if_splits sum.splits option.splits io_error.splits)
  then show "f' ?cp = f ?cp \<or> f' ?cp = Some (chain, io_now env)"
    using c1 c2 c3 [OF w4] c4 [OF w3] by auto
qed

text \<open>The interface a certificate cache needs from its store: a load never asserts more than the
  file does, and a save changes only the file of its own key, to the data it was given.\<close>

definition honest :: "('f \<Rightarrow> 'key \<Rightarrow> string list option) \<Rightarrow> ('key \<Rightarrow> string list \<Rightarrow> bool) \<Rightarrow> 'f \<Rightarrow> bool" where
  "honest cl P f \<longleftrightarrow> (\<forall>k ns. cl f k = Some ns \<longrightarrow> P k ns)"

locale cert_storage =
  fixes claims :: "'f \<Rightarrow> 'key \<Rightarrow> string list option"
    and load_names :: "'env \<Rightarrow> 'f \<Rightarrow> 'key \<Rightarrow> string list option"
    and save_data :: "'env \<Rightarrow> 'f \<Rightarrow> 'key \<Rightarrow> 'data \<Rightarrow> 'f"
    and data_names :: "'data \<Rightarrow> string list option"
  assumes load_names_claims: "load_names e f k = Some ns \<Longrightarrow> claims f k = Some ns"
    and save_claims: "claims (save_data e f k d) k' = claims f k' \<or> (k' = k \<and> claims (save_data e f k d) k' = data_names d)"
begin

lemma save_honest:
  "honest claims P f \<Longrightarrow> (\<And>ns. data_names d = Some ns \<Longrightarrow> P k ns) \<Longrightarrow> honest claims P (save_data e f k d)"
  unfolding honest_def using save_claims [of e f k d] by metis

lemma load_honest: "honest claims P f \<Longrightarrow> load_names e f k = Some ns \<Longrightarrow> P k ns"
  unfolding honest_def using load_names_claims by blast

end

definition pem_names :: "('c, 'k) pki \<Rightarrow> string \<Rightarrow> string list option" where
  "pem_names lib pem = (case pk_read_certs lib pem of
     Some (leaf # rest) \<Rightarrow> map_option snd (leaf_metadata lib leaf) | _ \<Rightarrow> None)"

interpretation disk: cert_storage "claims lib st"
    "\<lambda>env f k. map_option sr_sans (load lib st env f (fst k) (snd k))"
    "\<lambda>env f k d. snd (save st env f (fst k) (snd k) (fst d) (fst (snd d)) (snd (snd d)))"
    "\<lambda>d. pem_names lib (fst d)" for lib st
proof unfold_locales
  fix e f k ns
  assume "map_option sr_sans (load lib st e f (fst k) (snd k)) = Some ns"
  then show "claims lib st f k = Some ns"
    using load_claims [of lib st e f "fst k" "snd k"] by auto
next
  fix e f k d k'
  let ?r = "save st e f (fst k) (snd k) (fst d) (fst (snd d)) (snd (snd d))"
  have "claims lib st (snd ?r) k' = claims lib st f k'" if "k' \<noteq> k"
    using save_cert_file(2) [of st e f "fst k" "snd k" "fst d" "fst (snd d)" "snd (snd d)" "fst ?r" "snd ?r"
        "fst k'" "snd k'"] that
    by (simp add: claims_def prod_eq_iff)
  moreover have "claims lib st (snd ?r) k = claims lib st f k \<or> claims lib st (snd ?r) k = pem_names lib (fst d)"
    using save_cert_file(1) [of st e f "fst k" "snd k" "fst d" "fst (snd d)" "snd (snd d)" "fst ?r" "snd ?r"]
    by (auto simp: claims_def pem_names_def)
  ultimately show "claims lib st (snd ?r) k' = claims lib st f k' \<or> (k' = k \<and> claims lib st (snd ?r) k' = pem_names lib (fst d))"
    by blast
qed

section \<open>Load after save\<close>

text \<open>What the certificate library promises: its own PEM reads back.\<close>

definition pem_ok :: "('c, 'k) pki \<Rightarrow> bool" where
  "pem_ok lib \<longleftrightarrow> (\<forall>c. pk_read_certs lib (pk_pem lib c @ pk_ca_pem lib) = Some [c, pk_ca lib])
     \<and> (\<forall>k. pk_read_key lib (pk_key_pem lib k) = Some k)"

lemma save_ok_files:
  assumes "save st env f s h chain key obs = (Inr (), f')"
  shows "f' (cert_path st s h) = Some (chain, io_now env)" "f' (key_path st s h) = Some (key, io_now env)"
    and "f' (observed_path st s h) = (case obs of None \<Rightarrow> None | Some sans \<Rightarrow> Some (encode_observed sans, io_now env))"
proof -
  let ?cp = "cert_path st s h" and ?kp = "key_path st s h" and ?op = "observed_path st s h"
  obtain f1 where f1: "write_atomic (io_plan env) (io_now env) ?cp chain f = (Inr (), f1)"
    using assms by (auto simp: save_def Let_def split: if_splits sum.splits prod.splits)
  obtain f2 where f2: "write_atomic_private (io_plan env) (io_now env) ?kp key f1 = (Inr (), f2)"
    using assms f1 by (auto simp: save_def Let_def split: if_splits sum.splits prod.splits)
  have c1: "f1 ?cp = Some (chain, io_now env)" using write_atomic_target [OF f1] by simp
  have c2: "f2 ?cp = Some (chain, io_now env)" "f2 ?kp = Some (key, io_now env)"
    using write_atomic_private_frame [OF f2, of ?cp] write_atomic_private_target [OF f2] c1 paths_apart by auto
  have "f' ?cp = Some (chain, io_now env) \<and> f' ?kp = Some (key, io_now env)
    \<and> f' ?op = (case obs of None \<Rightarrow> None | Some sans \<Rightarrow> Some (encode_observed sans, io_now env))"
  proof (cases obs)
    case None
    obtain x where x: "fs_remove (io_plan env) ?op f2 = (x, f')" "x = Inr () \<or> (\<exists>p. x = Inl (IoNotFound p))"
      using assms f1 f2 None
      by (auto simp: save_def Let_def split: if_splits sum.splits prod.splits io_error.splits)
    then show ?thesis
      using fs_remove_frame [OF x(1), of ?cp] fs_remove_frame [OF x(1), of ?kp] fs_remove_target [OF x(1)]
        c2 paths_apart None by auto
  next
    case (Some sans)
    have x: "write_atomic (io_plan env) (io_now env) ?op (encode_observed sans) f2 = (Inr (), f')"
      using assms f1 f2 Some
      by (auto simp: save_def Let_def split: if_splits sum.splits prod.splits)
    then show ?thesis
      using write_atomic_frame [OF x, of ?cp] write_atomic_frame [OF x, of ?kp] write_atomic_target [OF x]
        c2 paths_apart Some by auto
  qed
  then show "f' ?cp = Some (chain, io_now env)" "f' ?kp = Some (key, io_now env)"
    "f' ?op = (case obs of None \<Rightarrow> None | Some sans \<Rightarrow> Some (encode_observed sans, io_now env))"
    by simp_all
qed

lemma load_after_save:
  assumes "pem_ok lib" "save st env f s h (pk_pem lib c @ pk_ca_pem lib) (pk_key_pem lib k) obs = (Inr (), f')"
    and "leaf_metadata lib c = Some (na, sans)" "\<not> needs_renewal st env' na"
    and "\<forall>p. io_plan env' p = NoFault" "\<forall>ns. obs = Some ns \<longrightarrow> (\<forall>n\<in>set ns. sidecar_name n)"
  shows "load lib st env' f' s h = Some \<lparr>sr_chain = [c, pk_ca lib], sr_key = k, sr_not_after = na,
    sr_sans = sans, sr_observed = obs\<rparr>"
proof -
  have "io_plan env' = (\<lambda>_. NoFault)" using assms(5) by auto
  then show ?thesis
    using save_ok_files [OF assms(2)] assms(1,3,4,6)
    by (cases obs) (auto simp: load_def load_inner_def fs_read_def pem_ok_def Let_def decode_encode)
qed

section \<open>A sample library\<close>

datatype sample_cert = CertA | CertB | CertCA

definition sample_pki :: "(sample_cert, unit) pki" where
  "sample_pki = \<lparr>pk_ia5 = (\<lambda>_. True),
     pk_sign = (\<lambda>p. if lp_sans p = [SanDns ''a.com''] then Some (CertA, ())
                  else if lp_sans p = [SanDns ''*.a.com'', SanDns ''a.com''] then Some (CertB, ()) else None),
     pk_ecdsa = (\<lambda>_. True),
     pk_pem = (\<lambda>c. case c of CertA \<Rightarrow> ''A'' | CertB \<Rightarrow> ''B'' | CertCA \<Rightarrow> ''C''),
     pk_key_pem = (\<lambda>_. ''K''),
     pk_read_certs = (\<lambda>s. if s = ''AX'' then Some [CertA, CertCA] else if s = ''BX'' then Some [CertB, CertCA]
                        else if s = ''CX'' then Some [CertCA, CertCA] else None),
     pk_read_key = (\<lambda>s. if s = ''K'' then Some () else None),
     pk_x509 = (\<lambda>c. case c of CertA \<Rightarrow> Some (1000000, Some [DnsName ''a.com''])
        | CertB \<Rightarrow> Some (1000000, Some [DnsName ''*.a.com'', DnsName ''a.com'']) | CertCA \<Rightarrow> None),
     pk_ca = CertCA, pk_ca_pem = ''X''\<rparr>"

definition sample_store :: cert_store where
  "sample_store = new_store ''certs'' 1"

definition sample_io :: io_env where
  "sample_io = \<lparr>io_plan = (\<lambda>_. NoFault), io_now = 5\<rparr>"

lemma sample_pem_ok: "pem_ok sample_pki"
  by (auto simp: pem_ok_def sample_pki_def split: sample_cert.splits)

section \<open>Properties\<close>

text \<open>C31. Persistence round trip: after a successful save, an undisturbed load returns exactly the
  certificate, the key and the mirrored observation that were saved, until the renewal margin is
  reached; the observation distinguishes "never observed" from "observed and empty".\<close>

theorem save_load_roundtrip:
  assumes "pem_ok lib" and "save st env f s h (pk_pem lib c @ pk_ca_pem lib) (pk_key_pem lib k) obs = (Inr (), f')"
    and "leaf_metadata lib c = Some (na, sans)" and "int (io_now env') + cs_renew_margin st < na"
    and "\<forall>p. io_plan env' p = NoFault" and "\<forall>ns. obs = Some ns \<longrightarrow> (\<forall>n\<in>set ns. sidecar_name n)"
  shows "load lib st env' f' s h = Some \<lparr>sr_chain = [c, pk_ca lib], sr_key = k, sr_not_after = na,
    sr_sans = sans, sr_observed = obs\<rparr>"
  using assms by (intro load_after_save) (auto simp: needs_renewal_def)

lemma save_load_roundtrip_witness:
  "load sample_pki sample_store sample_io
     (snd (save sample_store sample_io (\<lambda>_. None) ''s'' ''a.com'' ''BX'' ''K'' (Some [''*.a.com''])))
     ''s'' ''a.com'' =
   Some \<lparr>sr_chain = [CertB, CertCA], sr_key = (), sr_not_after = 1000000, sr_sans = [''*.a.com'', ''a.com''],
     sr_observed = Some [''*.a.com'']\<rparr>"
proof -
  let ?r = "save sample_store sample_io (\<lambda>_. None) ''s'' ''a.com'' ''BX'' ''K'' (Some [''*.a.com''])"
  have ok: "?r = (Inr (), snd ?r)"
    by (simp add: save_def sample_io_def write_atomic_def write_atomic_private_def fs_write_def fs_rename_def Let_def)
  have "save sample_store sample_io (\<lambda>_. None) ''s'' ''a.com'' (pk_pem sample_pki CertB @ pk_ca_pem sample_pki)
      (pk_key_pem sample_pki ()) (Some [''*.a.com'']) = (Inr (), snd ?r)"
    using ok by (simp add: sample_pki_def)
  moreover have "leaf_metadata sample_pki CertB = Some (1000000, [''*.a.com'', ''a.com''])"
    by (simp add: leaf_metadata_def sample_pki_def timestamp_ok_def map_filter_simps)
  moreover have "int (io_now sample_io) + cs_renew_margin sample_store < 1000000"
    by (simp add: sample_io_def sample_store_def new_store_def)
  moreover have "sidecar_name ''*.a.com''" by code_simp
  ultimately show ?thesis
    using save_load_roundtrip [OF sample_pem_ok, of sample_store sample_io "\<lambda>_. None" "''s''" "''a.com''" CertB
        "()" "Some [''*.a.com'']" "snd ?r" 1000000 "[''*.a.com'', ''a.com'']" sample_io]
    by (simp add: sample_io_def sample_pki_def)
qed

text \<open>C11. Isolation and atomicity of a save, under any input/output fault: the certificate file of
  the saved key holds the old bytes or the new ones, and nothing another scope or host would load
  has changed.\<close>

theorem save_isolated:
  assumes "save st env f s h chain key obs = (r, f')"
  shows "(f' (cert_path st s h) = f (cert_path st s h) \<or> f' (cert_path st s h) = Some (chain, io_now env))
    \<and> ((s', h') \<noteq> (s, h) \<longrightarrow> load lib st env' f' s' h' = load lib st env' f s' h')"
proof -
  have "load lib st env' f' s' h' = load lib st env' f s' h'" if "(s', h') \<noteq> (s, h)"
  proof -
    have eqs: "f' (cert_path st s' h') = f (cert_path st s' h')" "f' (key_path st s' h') = f (key_path st s' h')"
      "f' (observed_path st s' h') = f (observed_path st s' h')"
      using save_cert_file(2) [OF assms that] by blast+
    show ?thesis
      unfolding load_def load_inner_def fs_read_def Let_def eqs ..
  qed
  then show ?thesis
    using save_cert_file(1) [OF assms] by blast
qed

lemma save_isolated_witness:
  "load sample_pki sample_store sample_io
     (snd (save sample_store (sample_io\<lparr>io_plan := \<lambda>_. WriteFails ''''\<rparr>) (\<lambda>_. None) ''s'' ''a.com'' ''AX'' ''K'' None))
     ''t'' ''a.com'' = load sample_pki sample_store sample_io (\<lambda>_. None) ''t'' ''a.com''"
  using save_isolated [OF surjective_pairing [of "save sample_store (sample_io\<lparr>io_plan := \<lambda>_. WriteFails ''''\<rparr>)
      (\<lambda>_. None) ''s'' ''a.com'' ''AX'' ''K'' None"], of "''t''" "''a.com''" sample_pki sample_io]
  by simp

end
