(* ===== verification/Certscope.thy ===== *)
theory Certscope
  imports ConfigTypes "HOL-Library.Multiset"
begin

text \<open>
  Certificate partitions (\<open>src/src/certscope.rs\<close>) and the rendering of a verification policy they
  embed (\<open>EffectiveVerify::canonical\<close> of \<open>src/src/config.rs\<close>). The 64-bit FNV-1a digest is
  computed on machine words.
\<close>

datatype upstream_identity =
    Direct "string option" address_family "string option" string
  | Pool string

record ech_identity =
  ei_mode :: ech_mode
  ei_domain :: "string option"
  ei_resolver :: string
  ei_inline_config :: bool

record forwarding =
  fw_route_type :: route_type
  fw_upstream :: upstream_identity
  fw_port :: nat
  fw_sni :: sni_policy
  fw_ech :: "ech_identity option"
  fw_verify :: effective_verify

section \<open>Rendering\<close>

definition or_str :: "string \<Rightarrow> string option \<Rightarrow> string" where
  "or_str d x = (case x of None \<Rightarrow> d | Some s \<Rightarrow> s)"

definition show_bool :: "bool \<Rightarrow> string" where
  "show_bool b = (if b then ''true'' else ''false'')"

definition hex16 :: "64 word \<Rightarrow> string" where
  "hex16 w = (let s = show_hex (unat w) in replicate (16 - length s) CHR ''0'' @ s)"

definition verify_canonical :: "effective_verify \<Rightarrow> string" where
  "verify_canonical v =
     ''mode:'' @ verify_mode_str (ev_mode v)
     @ '',name:'' @ or_str ''-'' (ev_name v)
     @ '',pins:['' @ join '','' (sort (ev_pins v)) @ '']''
     @ '',ca:'' @ or_str ''-'' (ev_ca_file v)
     @ '',webpki:'' @ show_bool (ev_trust_webpki v)"

fun route_type_str :: "route_type \<Rightarrow> string" where
  "route_type_str RtEch = ''ech''"
| "route_type_str RtTls = ''tls''"
| "route_type_str RtHttp = ''http''"
| "route_type_str RtRaw = ''raw''"

fun sni_str :: "sni_policy \<Rightarrow> string" where
  "sni_str SniReflect = ''reflect''"
| "sni_str SniOmit = ''omit''"
| "sni_str (SniFixed n) = ''fixed:'' @ n"

fun family_debug :: "address_family \<Rightarrow> string" where
  "family_debug Dual = ''Dual''"
| "family_debug Ipv4Only = ''Ipv4''"
| "family_debug Ipv6Only = ''Ipv6''"

fun ech_mode_debug :: "ech_mode \<Rightarrow> string" where
  "ech_mode_debug EchDoh = ''Doh''"
| "ech_mode_debug EchStatic = ''Static''"
| "ech_mode_debug EchDohWithFallback = ''DohWithFallback''"

definition reflect_marker :: string where
  "reflect_marker = ''reflect''"

fun upstream_canonical :: "upstream_identity \<Rightarrow> string" where
  "upstream_canonical (Direct host family nat64 addr_resolver) =
     ''host='' @ or_str reflect_marker host @ '';''
     @ ''family='' @ family_debug family @ '';''
     @ ''nat64='' @ or_str ''-'' nat64 @ '';''
     @ ''addr_resolver='' @ addr_resolver @ '';''"
| "upstream_canonical (Pool name) = ''pool='' @ name @ '';''"

fun ech_canonical :: "ech_identity option \<Rightarrow> string" where
  "ech_canonical None = ''ech=-;''"
| "ech_canonical (Some e) =
     ''ech=mode:'' @ ech_mode_debug (ei_mode e) @ '',domain:'' @ or_str ''-'' (ei_domain e)
     @ '',resolver:'' @ ei_resolver e @ '',inline:'' @ show_bool (ei_inline_config e) @ '';''"

definition canonical :: "64 word \<Rightarrow> forwarding \<Rightarrow> string" where
  "canonical router_fp f =
     ''router='' @ hex16 router_fp @ '';''
     @ ''type='' @ route_type_str (fw_route_type f) @ '';''
     @ upstream_canonical (fw_upstream f)
     @ ''port='' @ show_nat (fw_port f) @ '';''
     @ ''sni='' @ sni_str (fw_sni f) @ '';''
     @ ech_canonical (fw_ech f)
     @ ''verify='' @ verify_canonical (fw_verify f) @ '';''"

section \<open>Digest and path-safe names\<close>

definition fnv_offset :: "64 word" where
  "fnv_offset = 0xcbf29ce484222325"

definition fnv_prime :: "64 word" where
  "fnv_prime = 0x00000100000001b3"

definition fnv1a :: "string \<Rightarrow> 64 word" where
  "fnv1a bytes = foldl (\<lambda>h b. (h XOR of_nat (byte b)) * fnv_prime) fnv_offset bytes"

definition sanitize_step :: "string \<Rightarrow> char \<Rightarrow> string" where
  "sanitize_step out c =
     (if is_alnum c \<or> c = CHR ''.'' \<or> c = CHR ''-'' then out @ [c]
      else if \<not> ends_with ''_'' out then out @ ''_'' else out)"

definition sanitize :: "string \<Rightarrow> string" where
  "sanitize s =
     (let out = foldl sanitize_step [] s;
          trimmed = trim_end_char CHR ''.'' (dropWhile (\<lambda>c. c = CHR ''.'') out)
      in if trimmed = [] then ''_'' else trimmed)"

definition cert_scope :: "64 word \<Rightarrow> forwarding \<Rightarrow> string" where
  "cert_scope router_fp f =
     (let host = (case fw_upstream f of
                    Direct host _ _ _ \<Rightarrow> or_str reflect_marker host
                  | Pool name \<Rightarrow> ''pool.'' @ name);
          readable = sanitize (route_type_str (fw_route_type f) @ ''_'' @ host @ ''_'' @ show_nat (fw_port f));
          digest = fnv1a (canonical router_fp f)
      in readable @ ''-'' @ hex16 digest)"

section \<open>Fingerprint of a routing table\<close>

fun fp_routes :: "nat \<Rightarrow> string list list \<Rightarrow> string" where
  "fp_routes i [] = []"
| "fp_routes i (pats # rest) =
     show_nat i @ ''='' @ join '','' (sort pats) @ '';'' @ fp_routes (Suc i) rest"

definition fp_regexes :: "(string \<times> regex_def) list \<Rightarrow> string" where
  "fp_regexes regexes =
     (if regexes = [] then []
      else '';regexes={'' @ concat (List.map (\<lambda>(name, def).
             name @ '':'' @ regex_def.rd_pattern def @ ''['' @ join '','' (sort (rd_scope_suffix def)) @ ''];'')
             (sort_key fst regexes)) @ ''}'')"

definition fp_buffer :: "string list list \<Rightarrow> nat option \<Rightarrow> (string \<times> regex_def) list \<Rightarrow> string" where
  "fp_buffer patterns dflt regexes =
     fp_routes 0 patterns @ ''default='' @ (case dflt of Some i \<Rightarrow> show_nat i | None \<Rightarrow> ''none'')
     @ fp_regexes regexes"

definition router_fingerprint ::
    "string list list \<Rightarrow> nat option \<Rightarrow> (string \<times> regex_def) list \<Rightarrow> 64 word" where
  "router_fingerprint patterns dflt regexes = fnv1a (fp_buffer patterns dflt regexes)"

section \<open>The rendering determines the identity\<close>

text \<open>What the delimiters rely on: no field contains the delimiter that ends it, and none is
  spelled like the marker of its absence.\<close>

definition plain :: "string \<Rightarrow> bool" where
  "plain s \<longleftrightarrow> CHR '';'' \<notin> set s \<and> CHR '','' \<notin> set s \<and> CHR '']'' \<notin> set s"

fun upstream_plain :: "upstream_identity \<Rightarrow> bool" where
  "upstream_plain (Direct host family nat64 addr_resolver) \<longleftrightarrow>
     (\<forall>h. host = Some h \<longrightarrow> plain h \<and> h \<noteq> reflect_marker)
     \<and> (\<forall>n. nat64 = Some n \<longrightarrow> plain n \<and> n \<noteq> ''-'') \<and> plain addr_resolver"
| "upstream_plain (Pool name) \<longleftrightarrow> plain name"

definition ech_plain :: "ech_identity option \<Rightarrow> bool" where
  "ech_plain e \<longleftrightarrow> (\<forall>i. e = Some i \<longrightarrow> plain (ei_resolver i)
     \<and> (\<forall>d. ei_domain i = Some d \<longrightarrow> plain d \<and> d \<noteq> ''-''))"

definition verify_plain :: "effective_verify \<Rightarrow> bool" where
  "verify_plain v \<longleftrightarrow>
     (\<forall>n. ev_name v = Some n \<longrightarrow> plain n \<and> n \<noteq> ''-'')
     \<and> (\<forall>p\<in>set (ev_pins v). plain p \<and> p \<noteq> [])
     \<and> (\<forall>c. ev_ca_file v = Some c \<longrightarrow> plain c \<and> c \<noteq> ''-'')"

definition forwarding_plain :: "forwarding \<Rightarrow> bool" where
  "forwarding_plain f \<longleftrightarrow> upstream_plain (fw_upstream f)
     \<and> (\<forall>n. fw_sni f = SniFixed n \<longrightarrow> plain n) \<and> ech_plain (fw_ech f) \<and> verify_plain (fw_verify f)"

text \<open>Equal policies, the pins counted as a multiset (the rendering sorts them).\<close>

definition verify_equiv :: "effective_verify \<Rightarrow> effective_verify \<Rightarrow> bool" where
  "verify_equiv v w \<longleftrightarrow> ev_mode v = ev_mode w \<and> ev_name v = ev_name w
     \<and> mset (ev_pins v) = mset (ev_pins w) \<and> ev_ca_file v = ev_ca_file w
     \<and> ev_trust_webpki v = ev_trust_webpki w"

definition forwarding_equiv :: "forwarding \<Rightarrow> forwarding \<Rightarrow> bool" where
  "forwarding_equiv f g \<longleftrightarrow> fw_route_type f = fw_route_type g \<and> fw_upstream f = fw_upstream g
     \<and> fw_port f = fw_port g \<and> fw_sni f = fw_sni g \<and> fw_ech f = fw_ech g
     \<and> verify_equiv (fw_verify f) (fw_verify g)"

lemma digits_plain: "c \<in> set (show_nat n) \<Longrightarrow> c \<notin> {CHR '';'', CHR '','', CHR '']''}"
  by (drule show_nat_digits) (auto simp: is_digit_def)

lemma hex16_chars: "c \<in> set (hex16 w) \<Longrightarrow> is_hexdigit c"
  by (auto simp: hex16_def Let_def is_hexdigit_def is_digit_def dest: show_hex_hexdigits)

lemma hex_val_replicate: "hex_val (replicate n CHR ''0'' @ s) = hex_val s"
  by (induction n) (auto simp: hex_val_def hex_digit_val_def is_digit_def)

lemma hex16_inject: "hex16 a = hex16 b \<longleftrightarrow> a = b"
  by (metis hex16_def hex_val_replicate hex_val_show_hex word_unat_eq_iff)

lemma hex16_semi: "CHR '';'' \<notin> set (hex16 w)"
  using hex16_chars by (fastforce simp: is_hexdigit_def is_digit_def)

lemma or_str_eq:
  "(\<forall>s. x = Some s \<longrightarrow> s \<noteq> d) \<Longrightarrow> (\<forall>s. y = Some s \<longrightarrow> s \<noteq> d) \<Longrightarrow> or_str d x = or_str d y \<longleftrightarrow> x = y"
  by (cases x; cases y) (auto simp: or_str_def)

lemma join_comma_inject:
  assumes "join '','' xs = join '','' ys" "\<forall>x\<in>set xs. plain x \<and> x \<noteq> []" "\<forall>y\<in>set ys. plain y \<and> y \<noteq> []"
  shows "xs = ys"
proof (cases "xs = [] \<or> ys = []")
  case True
  have "join '','' zs = [] \<Longrightarrow> \<forall>z\<in>set zs. z \<noteq> [] \<Longrightarrow> zs = []" for zs
    by (cases zs; cases "tl zs") auto
  then show ?thesis using True assms by (metis join.simps(1))
next
  case False
  then have "split_char CHR '','' (join '','' xs) = xs" "split_char CHR '','' (join '','' ys) = ys"
    using assms(2,3) by (auto intro!: split_char_join simp: plain_def)
  then show ?thesis using assms(1) by metis
qed

lemma plain_or_str:
  "(\<forall>s. x = Some s \<longrightarrow> plain s \<and> s \<noteq> d) \<Longrightarrow> plain d \<Longrightarrow> plain (or_str d x)"
  by (cases x) (auto simp: or_str_def)

lemma plain_cuts:
  "plain a \<Longrightarrow> plain b \<Longrightarrow> a @ CHR '';'' # x = b @ CHR '';'' # y \<longleftrightarrow> a = b \<and> x = y"
  "plain a \<Longrightarrow> plain b \<Longrightarrow> a @ CHR '','' # x = b @ CHR '','' # y \<longleftrightarrow> a = b \<and> x = y"
  by (auto simp: plain_def cut_eq)

lemma plain_markers: "plain ''-''" "plain reflect_marker"
  by (simp_all add: plain_def reflect_marker_def)

lemma plain_words: "plain (verify_mode_str m)" "plain (show_bool b)" "plain (route_type_str t)"
    "plain (family_debug fam)" "plain (ech_mode_debug em)" "plain (show_nat n)" "plain (hex16 w)"
proof -
  show "plain (verify_mode_str m)" by (cases m) (simp_all add: plain_def)
  show "plain (show_bool b)" by (simp add: plain_def show_bool_def)
  show "plain (route_type_str t)" by (cases t) (simp_all add: plain_def)
  show "plain (family_debug fam)" by (cases fam) (simp_all add: plain_def)
  show "plain (ech_mode_debug em)" by (cases em) (simp_all add: plain_def)
  show "plain (show_nat n)" using digits_plain [of _ n] by (auto simp: plain_def)
  show "plain (hex16 w)" using hex16_chars [of _ w] by (fastforce simp: plain_def is_hexdigit_def is_digit_def)
qed

lemma word_injects:
  "verify_mode_str m = verify_mode_str m' \<longleftrightarrow> m = m'" "show_bool b = show_bool b' \<longleftrightarrow> b = b'"
  "route_type_str t = route_type_str t' \<longleftrightarrow> t = t'" "family_debug fam = family_debug fam' \<longleftrightarrow> fam = fam'"
  "ech_mode_debug em = ech_mode_debug em' \<longleftrightarrow> em = em'"
  by (cases m; cases m'; simp) (simp add: show_bool_def, (cases t; cases t'; simp),
    (cases fam; cases fam'; simp), (cases em; cases em'; simp))

lemma join_no_bracket: "\<forall>p\<in>set ps. plain p \<Longrightarrow> CHR '']'' \<notin> set (join '','' ps) \<and> CHR '';'' \<notin> set (join '','' ps)"
  by (induction "'',''" ps rule: join.induct) (auto simp: plain_def)

lemma verify_canonical_inject:
  assumes "verify_plain v" "verify_plain w" and eq: "verify_canonical v = verify_canonical w"
  shows "verify_equiv v w"
proof -
  have names: "plain (or_str ''-'' (ev_name u))" "plain (or_str ''-'' (ev_ca_file u))"
    if "verify_plain u" for u
    using that plain_markers by (auto simp: verify_plain_def intro!: plain_or_str)
  have pins: "\<forall>p\<in>set (sort (ev_pins u)). plain p \<and> p \<noteq> []" if "verify_plain u" for u
    using that by (simp add: verify_plain_def)
  have brk: "CHR '']'' \<notin> set (join '','' (sort (ev_pins u)))" if "verify_plain u" for u
    using join_no_bracket pins [OF that] by blast
  have e: "ev_mode v = ev_mode w" "or_str ''-'' (ev_name v) = or_str ''-'' (ev_name w)"
    "join '','' (sort (ev_pins v)) = join '','' (sort (ev_pins w))"
    "or_str ''-'' (ev_ca_file v) = or_str ''-'' (ev_ca_file w)" "ev_trust_webpki v = ev_trust_webpki w"
    using eq names [OF assms(1)] names [OF assms(2)] brk [OF assms(1)] brk [OF assms(2)] plain_words
    by (simp_all add: verify_canonical_def plain_cuts word_injects cut_eq)
  have "sort (ev_pins v) = sort (ev_pins w)"
    using e(3) pins [OF assms(1)] pins [OF assms(2)] by (rule join_comma_inject)
  then have "mset (ev_pins v) = mset (ev_pins w)"
    by (metis mset_sort)
  moreover have "ev_name v = ev_name w" "ev_ca_file v = ev_ca_file w"
    using e(2,4) assms(1,2) by (auto simp: verify_plain_def or_str_eq)
  ultimately show ?thesis
    using e by (simp add: verify_equiv_def)
qed

lemma verify_canonical_semi: "verify_plain v \<Longrightarrow> CHR '';'' \<notin> set (verify_canonical v)"
proof -
  assume v: "verify_plain v"
  have "plain (or_str ''-'' (ev_name v))" "plain (or_str ''-'' (ev_ca_file v))"
    using v plain_markers by (auto simp: verify_plain_def intro!: plain_or_str)
  moreover have "CHR '';'' \<notin> set (join '','' (sort (ev_pins v)))"
    using v join_no_bracket [of "sort (ev_pins v)"] by (simp add: verify_plain_def)
  ultimately show ?thesis
    using plain_words by (auto simp: verify_canonical_def plain_def)
qed

lemma upstream_canonical_inject:
  assumes "upstream_plain u" "upstream_plain u'" "upstream_canonical u @ x = upstream_canonical u' @ y"
  shows "u = u' \<and> x = y"
proof (cases u)
  case (Direct h fam n r)
  show ?thesis
  proof (cases u')
    case (Direct h' fam' n' r')
    have "plain (or_str reflect_marker h)" "plain (or_str reflect_marker h')"
      "plain (or_str ''-'' n)" "plain (or_str ''-'' n')" "plain r" "plain r'"
      using assms(1,2) plain_markers unfolding \<open>u = _\<close> \<open>u' = _\<close>
      by (auto intro!: plain_or_str)
    then have e: "or_str reflect_marker h = or_str reflect_marker h'" "fam = fam'"
      "or_str ''-'' n = or_str ''-'' n'" "r = r'" "x = y"
      using assms(3) plain_words unfolding \<open>u = _\<close> \<open>u' = _\<close>
      by (simp_all add: plain_cuts word_injects)
    moreover have "h = h'" "n = n'"
      using e(1,3) assms(1,2) unfolding \<open>u = _\<close> \<open>u' = _\<close> by (auto simp: or_str_eq)
    ultimately show ?thesis using \<open>u = _\<close> \<open>u' = _\<close> by simp
  next
    case (Pool m)
    then show ?thesis using assms(3) Direct by simp
  qed
next
  case (Pool m)
  then show ?thesis using assms by (cases u') (simp_all add: plain_cuts)
qed

lemma ech_canonical_inject:
  assumes "ech_plain e" "ech_plain e'" "ech_canonical e @ x = ech_canonical e' @ y"
  shows "e = e' \<and> x = y"
proof (cases e; cases e')
  fix i i' assume e: "e = Some i" "e' = Some i'"
  have "plain (or_str ''-'' (ei_domain i))" "plain (or_str ''-'' (ei_domain i'))"
    "plain (ei_resolver i)" "plain (ei_resolver i')"
    using assms(1,2) e plain_markers by (auto simp: ech_plain_def intro!: plain_or_str)
  then have "ei_mode i = ei_mode i'" "or_str ''-'' (ei_domain i) = or_str ''-'' (ei_domain i')"
    "ei_resolver i = ei_resolver i'" "ei_inline_config i = ei_inline_config i'" "x = y"
    using assms(3) e plain_words by (simp_all add: plain_cuts word_injects)
  moreover from this have "ei_domain i = ei_domain i'"
    using assms(1,2) e by (auto simp: ech_plain_def or_str_eq)
  ultimately show ?thesis using e by simp
qed (use assms(3) in auto)

lemma canonical_inject:
  assumes f: "forwarding_plain f" and g: "forwarding_plain g" and eq: "canonical fp f = canonical fp' g"
  shows "fp = fp' \<and> forwarding_equiv f g"
proof -
  have sni: "plain (sni_str (fw_sni k))" if "forwarding_plain k" for k
    using that by (cases "fw_sni k") (auto simp: forwarding_plain_def plain_def)
  have e1: "fp = fp'" "fw_route_type f = fw_route_type g" and
    t1: "upstream_canonical (fw_upstream f) @ ''port='' @ show_nat (fw_port f) @ '';''
       @ ''sni='' @ sni_str (fw_sni f) @ '';'' @ ech_canonical (fw_ech f)
       @ ''verify='' @ verify_canonical (fw_verify f) @ '';''
     = upstream_canonical (fw_upstream g) @ ''port='' @ show_nat (fw_port g) @ '';''
       @ ''sni='' @ sni_str (fw_sni g) @ '';'' @ ech_canonical (fw_ech g)
       @ ''verify='' @ verify_canonical (fw_verify g) @ '';''"
    using eq plain_words by (simp_all add: canonical_def plain_cuts word_injects hex16_inject)
  have e2: "fw_upstream f = fw_upstream g" and
    t2: "''port='' @ show_nat (fw_port f) @ '';''
       @ ''sni='' @ sni_str (fw_sni f) @ '';'' @ ech_canonical (fw_ech f)
       @ ''verify='' @ verify_canonical (fw_verify f) @ '';''
     = ''port='' @ show_nat (fw_port g) @ '';''
       @ ''sni='' @ sni_str (fw_sni g) @ '';'' @ ech_canonical (fw_ech g)
       @ ''verify='' @ verify_canonical (fw_verify g) @ '';''"
    using upstream_canonical_inject [OF _ _ t1] f g by (auto simp: forwarding_plain_def)
  have e3: "fw_port f = fw_port g" "sni_str (fw_sni f) = sni_str (fw_sni g)" and
    t3: "ech_canonical (fw_ech f) @ ''verify='' @ verify_canonical (fw_verify f) @ '';''
     = ech_canonical (fw_ech g) @ ''verify='' @ verify_canonical (fw_verify g) @ '';''"
    using t2 plain_words sni [OF f] sni [OF g] by (simp_all add: plain_cuts)
  have e4: "fw_ech f = fw_ech g" and
    t4: "''verify='' @ verify_canonical (fw_verify f) @ '';'' = ''verify='' @ verify_canonical (fw_verify g) @ '';''"
    using ech_canonical_inject [OF _ _ t3] f g by (auto simp: forwarding_plain_def)
  have "verify_equiv (fw_verify f) (fw_verify g)"
    using t4 f g by (intro verify_canonical_inject) (auto simp: forwarding_plain_def)
  moreover have "fw_sni f = fw_sni g"
    using e3(2) by (cases "fw_sni f"; cases "fw_sni g") auto
  ultimately show ?thesis
    using e1 e2 e3 e4 by (simp add: forwarding_equiv_def)
qed

section \<open>Path-safe names\<close>

definition path_char :: "char \<Rightarrow> bool" where
  "path_char c \<longleftrightarrow> is_alnum c \<or> c \<in> {CHR ''.'', CHR ''-'', CHR ''_''}"

lemma sanitize_fold: "list_all path_char out \<Longrightarrow> list_all path_char (foldl sanitize_step out s)"
  by (induction s arbitrary: out) (auto simp: sanitize_step_def path_char_def)

lemma sanitize_safe:
  "list_all path_char (sanitize s) \<and> sanitize s \<noteq> [] \<and> hd (sanitize s) \<noteq> CHR ''.''
   \<and> last (sanitize s) \<noteq> CHR ''.''"
proof -
  define out where "out = foldl sanitize_step [] s"
  define front where "front = dropWhile (\<lambda>c. c = CHR ''.'') out"
  define t where "t = trim_end_char CHR ''.'' front"
  have out: "list_all path_char out"
    unfolding out_def by (rule sanitize_fold) simp
  have "set t \<subseteq> set front" "set front \<subseteq> set out"
    unfolding t_def front_def using trim_end_char_set set_dropWhileD by fast+
  then have chars: "list_all path_char t"
    using out by (auto simp: list_all_iff)
  have first: "t \<noteq> [] \<Longrightarrow> hd t \<noteq> CHR ''.''"
  proof -
    assume "t \<noteq> []"
    moreover obtain n where "front = t @ replicate n CHR ''.''"
      using trim_end_char_split t_def by metis
    ultimately have "hd t = hd front" "front \<noteq> []" by auto
    then show "hd t \<noteq> CHR ''.''"
      using hd_dropWhile [of "\<lambda>c. c = CHR ''.''" out] by (simp add: front_def)
  qed
  have final: "t \<noteq> [] \<Longrightarrow> last t \<noteq> CHR ''.''"
    unfolding t_def using trim_end_char_last by blast
  have "sanitize s = (if t = [] then ''_'' else t)"
    by (simp add: sanitize_def t_def front_def out_def Let_def)
  then show ?thesis
    using chars first final by (auto simp: path_char_def)
qed

lemma cert_scope_safe:
  "list_all path_char (cert_scope fp f) \<and> cert_scope fp f \<noteq> [] \<and> hd (cert_scope fp f) \<noteq> CHR ''.''"
proof -
  have hex: "list_all path_char (hex16 w)" for w
  proof -
    have "path_char c" if "is_hexdigit c" for c
      using that by (auto simp: path_char_def is_alnum_def is_alpha_def is_upper_def is_lower_def
        is_hexdigit_def is_digit_def)
    then show ?thesis using hex16_chars by (auto simp: list_all_iff)
  qed
  then show ?thesis
    using sanitize_safe by (auto simp: cert_scope_def Let_def path_char_def hd_append)
qed

section \<open>Reordering patterns\<close>

lemma fp_routes_reorder:
  "list_all2 (\<lambda>ps qs. mset ps = mset qs) pss qss \<Longrightarrow> fp_routes i pss = fp_routes i qss"
proof (induction pss qss arbitrary: i rule: list_all2_induct)
  case (Cons ps pss qs qss)
  have "sort ps = sort qs"
    using Cons(1) by (metis mset_sort properties_for_sort sorted_sort)
  then show ?case using Cons by simp
qed simp

section \<open>Properties\<close>

text \<open>C10. The rendering of a scope determines the destination: two routes whose fields contain no
  delimiter and are not spelled like an absence marker render alike only if the router fingerprint,
  the protocol, the upstream, the port, the presented name, the ECH source and the verification
  policy (its pins as a set) are all equal.\<close>

theorem canonical_identifies:
  assumes "forwarding_plain f" and "forwarding_plain g" and "canonical fp f = canonical fp' g"
  shows "fp = fp' \<and> forwarding_equiv f g"
  using assms by (rule canonical_inject)

definition sample_forwarding :: forwarding where
  "sample_forwarding = \<lparr>fw_route_type = RtTls, fw_upstream = Direct (Some ''edge.net'') Dual None ''system'',
     fw_port = 443, fw_sni = SniReflect, fw_ech = None,
     fw_verify = default_effective_verify\<lparr>ev_pins := [''sha256/b'', ''sha256/a'']\<rparr>\<rparr>"

lemma canonical_identifies_witness:
  "forwarding_equiv sample_forwarding
     (sample_forwarding\<lparr>fw_verify := default_effective_verify\<lparr>ev_pins := [''sha256/a'', ''sha256/b'']\<rparr>\<rparr>)"
proof -
  let ?g = "sample_forwarding\<lparr>fw_verify := default_effective_verify\<lparr>ev_pins := [''sha256/a'', ''sha256/b'']\<rparr>\<rparr>"
  have "forwarding_plain sample_forwarding" "forwarding_plain ?g"
    by (simp_all add: sample_forwarding_def forwarding_plain_def ech_plain_def verify_plain_def plain_def
        default_effective_verify_def reflect_marker_def)
  moreover have "verify_canonical (fw_verify sample_forwarding) = verify_canonical (fw_verify ?g)"
    by code_simp
  then have "canonical 7 sample_forwarding = canonical 7 ?g"
    by (simp add: canonical_def)
  ultimately show ?thesis using canonical_identifies by blast
qed

text \<open>A scope key is one safe path component for every forwarding target: nonempty, made of
  letters, digits, dot, hyphen and underscore only, and never starting with a dot, so it cannot
  name a hidden directory, the parent directory or a path.\<close>

theorem cert_scope_path_safe:
  "list_all path_char (cert_scope fp f) \<and> cert_scope fp f \<noteq> [] \<and> hd (cert_scope fp f) \<noteq> CHR ''.''
   \<and> CHR ''/'' \<notin> set (cert_scope fp f)"
  using cert_scope_safe [of fp f]
  by (auto simp: list_all_iff path_char_def is_alnum_def is_alpha_def is_upper_def is_lower_def is_digit_def)

text \<open>Reordering the patterns within routes changes neither the fingerprint nor any routing
  decision, so a cosmetic edit keeps every certificate path and every destination.\<close>

theorem fingerprint_reorder:
  assumes "list_all2 (\<lambda>ps qs. mset ps = mset qs) patterns patterns'"
    and "build rxc patterns dflt (map_of regexes) = Inr r"
    and "build rxc patterns' dflt (map_of regexes) = Inr r'"
  shows "router_fingerprint patterns dflt regexes = router_fingerprint patterns' dflt regexes
    \<and> match_host rxm r h = match_host rxm r' h"
proof -
  have "list_all2 (\<lambda>ps qs. set ps = set qs) patterns patterns'"
    using assms(1) by (rule list_all2_mono) (metis set_mset_mset)
  then show ?thesis
    using build_reorder [OF assms(2,3)] fp_routes_reorder [OF assms(1)]
    by (simp add: router_fingerprint_def fp_buffer_def)
qed

lemma fingerprint_reorder_witness:
  "router_fingerprint [[''a.com'', ''*.b.com'']] (Some 1) [] = router_fingerprint [[''*.b.com'', ''a.com'']] (Some 1) []"
proof -
  have "list_all2 (\<lambda>ps qs. mset ps = mset qs) [[''a.com'', ''*.b.com'']] [[''*.b.com'', ''a.com'']]"
    by simp
  moreover have "build Some [[''a.com'', ''*.b.com'']] (Some 1) (map_of []) = Inr
      \<lparr>r_exact = [(''a.com'', 0)], r_wildcard = [(''b.com'', 0)], r_suffix = [], r_regex = [], r_default = Some 1\<rparr>"
    "build Some [[''*.b.com'', ''a.com'']] (Some 1) (map_of []) = Inr
      \<lparr>r_exact = [(''a.com'', 0)], r_wildcard = [(''b.com'', 0)], r_suffix = [], r_regex = [], r_default = Some 1\<rparr>"
    by code_simp+
  ultimately show ?thesis
    using fingerprint_reorder by blast
qed

section \<open>Where the promises stop\<close>

text \<open>The fingerprint joins a route's patterns with a comma and does not escape it: a table whose
  single pattern contains a comma and the table of its two halves share a fingerprint, yet route
  differently.\<close>

lemma fingerprint_comma:
  "router_fingerprint [[''a,b'']] None [] = router_fingerprint [[''a'', ''b'']] None []"
proof -
  have "fp_buffer [[''a,b'']] None [] = fp_buffer [[''a'', ''b'']] None []" by code_simp
  then show ?thesis by (simp add: router_fingerprint_def)
qed

lemma fingerprint_comma_routes:
  "map_option (\<lambda>r. match_host (=) r ''a'') (ok_opt (build Some [[''a,b'']] None (\<lambda>_. None))) = Some None
   \<and> map_option (\<lambda>r. match_host (=) r ''a'') (ok_opt (build Some [[''a'', ''b'']] None (\<lambda>_. None))) = Some (Some 0)"
  by code_simp

text \<open>A route to the literal host \<open>reflect\<close> and a route that reflects the requested name share a
  scope, although they dial different destinations.\<close>

lemma reflect_host_collision:
  "cert_scope fp (sample_forwarding\<lparr>fw_upstream := Direct (Some ''reflect'') Dual None ''system''\<rparr>)
   = cert_scope fp (sample_forwarding\<lparr>fw_upstream := Direct None Dual None ''system''\<rparr>)"
  by (simp add: cert_scope_def canonical_def or_str_def reflect_marker_def sample_forwarding_def)

end
