(* ===== verification/Resolver.thy ===== *)
theory Resolver
  imports Store Certscope
begin

text \<open>
  The certificate resolver (\<open>src/src/resolver.rs\<close>): the shared issuer (CA, suffix list, store,
  cache) and the per-listener operations on it. The cache is a map from scope and exact SNI host
  to a certificate together with the raw upstream observation it was built from; eviction by the
  cache library is a step of its own. Each operation body runs under a per-key lock, so an
  operation is one atomic step of the model.
\<close>

type_synonym cache_key = "string \<times> string"

record ('c, 'k) cached_cert =
  cc_certified :: "'c list \<times> 'k"
  cc_observed :: "string list option"

record ('c, 'k) issuer =
  is_cache :: "cache_key \<rightharpoonup> ('c, 'k) cached_cert"
  is_fs :: fs

text \<open>What never changes while the program runs: the certificate library, the CA, the store (if
  enabled), the regex engine's matcher and the suffix decision in force.\<close>

record ('c, 'k, 're) issuer_env =
  ie_pki :: "('c, 'k) pki"
  ie_ca :: cert_authority
  ie_store :: "cert_store option"
  ie_match :: "'re \<Rightarrow> string \<Rightarrow> bool"

record ('c, 'k, 're) dynamic_resolver =
  dr_router :: "'re router"
  dr_scopes :: "string list"
  dr_pinned :: "('c list \<times> 'k) option list"

datatype drop_reason = OutOfScope escape | CrossesRegistryBoundary | Unmintable

record mirror_plan =
  mp_kept :: "string list"
  mp_dropped :: "(string \<times> drop_reason) list"

datatype issue_error = IssueFailed ca_error | KeyUnusable string

definition normalize_host :: "string \<Rightarrow> string" where
  "normalize_host host = lowercase (trim_end_char CHR ''.'' (trim host))"

definition scope_of :: "('c, 'k, 're) dynamic_resolver \<Rightarrow> route_id \<Rightarrow> string" where
  "scope_of d i = dr_scopes d ! i"

definition pinned_for :: "('c, 'k, 're) dynamic_resolver \<Rightarrow> route_id \<Rightarrow> ('c list \<times> 'k) option" where
  "pinned_for d i = (if i < length (dr_pinned d) then dr_pinned d ! i else None)"

section \<open>Clipping\<close>

definition clip_step ::
    "('re \<Rightarrow> string \<Rightarrow> bool) \<Rightarrow> (string \<Rightarrow> bool) \<Rightarrow> ('c, 'k, 're) dynamic_resolver \<Rightarrow> string
     \<Rightarrow> string \<Rightarrow> mirror_plan \<Rightarrow> mirror_plan" where
  "clip_step rxm mintable d scope san p =
     (let in_scope = (\<lambda>i. scope_of d i = scope); name = normalize_host san in
      if name = [] \<or> name \<in> set (mp_kept p) then p
      else case strip_prefix ''*.'' name of
        Some parent \<Rightarrow>
          if parent = [] \<or> CHR ''*'' \<in> set parent
          then p\<lparr>mp_dropped := mp_dropped p @ [(name, Unmintable)]\<rparr>
          else if \<not> mintable parent
          then p\<lparr>mp_dropped := mp_dropped p @ [(name, CrossesRegistryBoundary)]\<rparr>
          else (case wildcard_confined rxm (dr_router d) parent in_scope of
              Inr _ \<Rightarrow> p\<lparr>mp_kept := mp_kept p @ [name]\<rparr>
            | Inl e \<Rightarrow> p\<lparr>mp_dropped := mp_dropped p @ [(name, OutOfScope e)]\<rparr>)
      | None \<Rightarrow>
          if CHR ''*'' \<in> set name \<or> is_ip_literal name
          then p\<lparr>mp_dropped := mp_dropped p @ [(name, Unmintable)]\<rparr>
          else (case name_confined rxm (dr_router d) name in_scope of
              Inr _ \<Rightarrow> p\<lparr>mp_kept := mp_kept p @ [name]\<rparr>
            | Inl e \<Rightarrow> p\<lparr>mp_dropped := mp_dropped p @ [(name, OutOfScope e)]\<rparr>))"

definition clip ::
    "('re \<Rightarrow> string \<Rightarrow> bool) \<Rightarrow> (string \<Rightarrow> bool) \<Rightarrow> ('c, 'k, 're) dynamic_resolver \<Rightarrow> string
     \<Rightarrow> route_id \<Rightarrow> string list \<Rightarrow> mirror_plan" where
  "clip rxm mintable d sni_host owner observed =
     (let host = normalize_host sni_host; scope = scope_of d owner;
          p = fold (clip_step rxm mintable d scope) observed \<lparr>mp_kept = [], mp_dropped = []\<rparr>
      in if \<not> host_covered_by (mp_kept p) host then p\<lparr>mp_kept := mp_kept p @ [host]\<rparr> else p)"

section \<open>Signing and persisting\<close>

text \<open>Persistence is best-effort: a failed save is logged and the certificate still served.\<close>

definition sign ::
    "('c, 'k, 're) issuer_env \<Rightarrow> io_env \<Rightarrow> string \<Rightarrow> string \<Rightarrow> string list \<Rightarrow> string list option \<Rightarrow> fs
     \<Rightarrow> (issue_error, 'c list \<times> 'k) result \<times> fs" where
  "sign ie env scope host sans observed f =
     (let lib = ie_pki ie in
      case issue (pk_ia5 lib) (pk_sign lib) (int (io_now env)) (ie_ca ie) host sans of
        Inl e \<Rightarrow> (Inl (IssueFailed e), f)
      | Inr (c, k) \<Rightarrow>
          if \<not> pk_ecdsa lib k then (Inl (KeyUnusable host), f)
          else (Inr ([c, pk_ca lib], k),
           (case ie_store ie of None \<Rightarrow> f
            | Some st \<Rightarrow> snd (save st env f scope host (pk_pem lib c @ pk_ca_pem lib) (pk_key_pem lib k) observed))))"

section \<open>Serving\<close>

text \<open>The persisted certificate the cache may be filled from: one that covers its own host and, if
  no observation is recorded, covers nothing else.\<close>

definition usable :: "string \<Rightarrow> ('c, 'k) stored \<Rightarrow> bool" where
  "usable host x \<longleftrightarrow> \<not> (sr_observed x = None \<and> sr_sans x \<noteq> [host]) \<and> host_covered_by (sr_sans x) host"

definition get_or_issue ::
    "('c, 'k, 're) issuer_env \<Rightarrow> io_env \<Rightarrow> ('c, 'k, 're) dynamic_resolver \<Rightarrow> string \<Rightarrow> route_id
     \<Rightarrow> ('c, 'k) issuer \<Rightarrow> (issue_error, 'c list \<times> 'k) result \<times> ('c, 'k) issuer" where
  "get_or_issue ie env d sni_host owner s =
     (let host = normalize_host sni_host; scope = scope_of d owner; key = (scope, host) in
      case is_cache s key of Some existing \<Rightarrow> (Inr (cc_certified existing), s)
      | None \<Rightarrow>
      (case (case ie_store ie of None \<Rightarrow> None
             | Some st \<Rightarrow> (case load (ie_pki ie) st env (is_fs s) scope host of
                 Some x \<Rightarrow> if usable host x then Some x else None | None \<Rightarrow> None)) of
         Some x \<Rightarrow>
           if \<not> pk_ecdsa (ie_pki ie) (sr_key x) then (Inl (KeyUnusable host), s)
           else (Inr (sr_chain x, sr_key x),
            s\<lparr>is_cache := (is_cache s)(key \<mapsto> \<lparr>cc_certified = (sr_chain x, sr_key x), cc_observed = sr_observed x\<rparr>)\<rparr>)
       | None \<Rightarrow>
           (case sign ie env scope host [host] None (is_fs s) of
              (Inl e, f) \<Rightarrow> (Inl e, s\<lparr>is_fs := f\<rparr>)
            | (Inr certified, f) \<Rightarrow>
                (Inr certified,
                 s\<lparr>is_fs := f,
                   is_cache := (is_cache s)(key \<mapsto> \<lparr>cc_certified = certified, cc_observed = None\<rparr>)\<rparr>))))"

definition certificate_for ::
    "('c, 'k, 're) issuer_env \<Rightarrow> io_env \<Rightarrow> ('c, 'k, 're) dynamic_resolver \<Rightarrow> string \<Rightarrow> route_id
     \<Rightarrow> ('c, 'k) issuer \<Rightarrow> (issue_error, 'c list \<times> 'k) result \<times> ('c, 'k) issuer" where
  "certificate_for ie env d sni_host owner s =
     (case pinned_for d owner of Some pinned \<Rightarrow> (Inr pinned, s)
      | None \<Rightarrow> get_or_issue ie env d sni_host owner s)"

text \<open>The trait method: no SNI or no route yields no certificate.\<close>

definition resolve ::
    "('c, 'k, 're) issuer_env \<Rightarrow> io_env \<Rightarrow> ('c, 'k, 're) dynamic_resolver \<Rightarrow> string option
     \<Rightarrow> ('c, 'k) issuer \<Rightarrow> ('c list \<times> 'k) option \<times> ('c, 'k) issuer" where
  "resolve ie env d server_name s =
     (case server_name of None \<Rightarrow> (None, s)
      | Some host \<Rightarrow>
        (case match_host (ie_match ie) (dr_router d) host of None \<Rightarrow> (None, s)
         | Some owner \<Rightarrow>
           (case certificate_for ie env d host owner s of
              (Inr key, s') \<Rightarrow> (Some key, s') | (Inl _, s') \<Rightarrow> (None, s'))))"

section \<open>Mirroring\<close>

definition mirror_is_current ::
    "('c, 'k, 're) issuer_env \<Rightarrow> ('c, 'k, 're) dynamic_resolver \<Rightarrow> string \<Rightarrow> string list
     \<Rightarrow> ('c, 'k) issuer \<Rightarrow> bool" where
  "mirror_is_current ie d sni_host observed s =
     (case match_host (ie_match ie) (dr_router d) sni_host of None \<Rightarrow> True
      | Some owner \<Rightarrow>
        if pinned_for d owner \<noteq> None then True
        else (case is_cache s (scope_of d owner, normalize_host sni_host) of
            None \<Rightarrow> False | Some cached \<Rightarrow> cc_observed cached = Some observed))"

definition record_upstream_sans ::
    "('c, 'k, 're) issuer_env \<Rightarrow> (string \<Rightarrow> bool) \<Rightarrow> io_env \<Rightarrow> ('c, 'k, 're) dynamic_resolver
     \<Rightarrow> string \<Rightarrow> string list \<Rightarrow> ('c, 'k) issuer \<Rightarrow> ('c, 'k) issuer" where
  "record_upstream_sans ie mintable env d sni_host observed s =
     (case match_host (ie_match ie) (dr_router d) sni_host of None \<Rightarrow> s
      | Some owner \<Rightarrow>
        if pinned_for d owner \<noteq> None then s
        else
          (let host = normalize_host sni_host; scope = scope_of d owner; key = (scope, host) in
           if (case is_cache s key of Some existing \<Rightarrow> cc_observed existing = Some observed | None \<Rightarrow> False)
           then s
           else
             (let plan = clip (ie_match ie) mintable d host owner observed in
              case sign ie env scope host (mp_kept plan) (Some observed) (is_fs s) of
                (Inr certified, f) \<Rightarrow>
                  s\<lparr>is_fs := f,
                    is_cache := (is_cache s)(key \<mapsto> \<lparr>cc_certified = certified, cc_observed = Some observed\<rparr>)\<rparr>
              | (Inl _, f) \<Rightarrow> s\<lparr>is_fs := f\<rparr>)))"

section \<open>Names a certificate asserts\<close>

definition observed_dns_sans :: "('c, 'k) pki \<Rightarrow> 'c list \<Rightarrow> string list" where
  "observed_dns_sans lib chain =
     (case chain of [] \<Rightarrow> []
      | leaf # _ \<Rightarrow> (case pk_x509 lib leaf of
          Some (_, Some gns) \<Rightarrow> List.map_filter (\<lambda>g. case g of DnsName n \<Rightarrow> Some n | _ \<Rightarrow> None) gns
        | _ \<Rightarrow> []))"

section \<open>What the clipped names cover\<close>

context confinement
begin

text \<open>A subject name whose every host routes into the scope \<open>S\<close>.\<close>

definition san_ok :: "'r \<Rightarrow> (route_id \<Rightarrow> bool) \<Rightarrow> string \<Rightarrow> bool" where
  "san_ok r S n \<longleftrightarrow> (case strip_prefix ''*.'' n of Some p \<Rightarrow> p \<noteq> [] \<and> wild_ok r p S | None \<Rightarrow> name_ok r n S)"

lemma covered_routes:
  assumes "ready r" "host_covered_by sans h" "clean_host h"
    and "\<forall>n\<in>set sans. san_ok r S n \<or> (\<exists>i. route r n = Some i \<and> S i)"
    and "\<forall>n\<in>set sans. strip_prefix ''*.'' n \<noteq> None \<longrightarrow> san_ok r S n"
  shows "\<exists>i. route r h = Some i \<and> S i"
proof -
  have nostar: "strip_prefix ''*.'' h = None"
    using assms(3) by (cases h) (auto simp: clean_host_def host_char_def)
  from assms(2) consider "h \<in> set sans"
    | l p where "h = l @ CHR ''.'' # p" "is_label l" "''*.'' @ p \<in> set sans"
    by (auto simp: host_covered_by_iff)
  then show ?thesis
  proof cases
    case 1
    then show ?thesis
      using assms(4) nostar name_ok_routes by (auto simp: san_ok_def)
  next
    case 2
    have "strip_prefix ''*.'' (''*.'' @ p) = Some p" by simp
    then have "san_ok r S (''*.'' @ p)"
      using assms(5) 2(3) by (metis option.distinct(1))
    then have p: "p \<noteq> []" "wild_ok r p S"
      by (simp_all add: san_ok_def)
    moreover have "clean_host p" "list_all host_char l"
      using assms(3) 2(1) p(1) by (auto simp: clean_host_def)
    ultimately show ?thesis
      using wild_ok_routes assms(1) 2 by blast
  qed
qed

end

abbreviation in_scope_of :: "('c, 'k, 're) dynamic_resolver \<Rightarrow> string \<Rightarrow> route_id \<Rightarrow> bool" where
  "in_scope_of d scope \<equiv> (\<lambda>i. scope_of d i = scope)"

lemma star_not_ip: "\<not> is_ip_literal (CHR ''*'' # s)"
  by (simp add: is_ip_literal_def parse_ip_def read_ipv4_def read_octet_def is_digit_def Let_def
      parse_ipv6_def read_ipv6_def read_hextet_def is_hexdigit_def whole_def eval_nat_numeral)

lemma clip_covers: "host_covered_by (mp_kept (clip rxm mintable d h owner obs)) (normalize_host h)"
  by (auto simp: clip_def Let_def host_covered_by_iff)

definition kept_ok :: "('re \<Rightarrow> string \<Rightarrow> bool) \<Rightarrow> ('c, 'k, 're) dynamic_resolver \<Rightarrow> string \<Rightarrow> string \<Rightarrow> bool" where
  "kept_ok rxm d scope n \<longleftrightarrow>
     router_conf.san_ok rxm (dr_router d) (in_scope_of d scope) n \<and> \<not> is_ip_literal n"

lemma clip_step_kept:
  assumes "\<forall>n\<in>set (mp_kept p). kept_ok rxm d scope n"
  shows "\<forall>n\<in>set (mp_kept (clip_step rxm mintable d scope san p)). kept_ok rxm d scope n"
proof -
  let ?n = "normalize_host san"
  have wild: "kept_ok rxm d scope ?n"
    if "strip_prefix ''*.'' ?n = Some parent" "parent \<noteq> []"
      "wildcard_confined rxm (dr_router d) parent (in_scope_of d scope) = Inr u" for parent u
    using that star_not_ip by (auto simp: kept_ok_def router_conf.san_ok_def strip_prefix_Some)
  have exact: "kept_ok rxm d scope ?n"
    if "strip_prefix ''*.'' ?n = None" "\<not> is_ip_literal ?n"
      "name_confined rxm (dr_router d) ?n (in_scope_of d scope) = Inr u" for u
    using that by (simp add: kept_ok_def router_conf.san_ok_def)
  show ?thesis
    using assms wild exact
    by (auto simp: clip_step_def Let_def split: option.splits sum.splits)
qed

lemma clip_fold_kept:
  assumes "\<forall>n\<in>set (mp_kept p). kept_ok rxm d scope n"
  shows "\<forall>n\<in>set (mp_kept (fold (clip_step rxm mintable d scope) obs p)). kept_ok rxm d scope n"
  using assms
proof (induction obs arbitrary: p)
  case (Cons san obs)
  show ?case using Cons.IH [OF clip_step_kept [OF Cons.prems]] by simp
qed simp

lemma clip_kept:
  "n \<in> set (mp_kept (clip rxm mintable d h owner obs))
   \<Longrightarrow> kept_ok rxm d (scope_of d owner) n \<or> n = normalize_host h"
  using clip_fold_kept [of "\<lparr>mp_kept = [], mp_dropped = []\<rparr>" rxm d "scope_of d owner" mintable obs]
  by (auto simp: clip_def Let_def split: if_splits)

text \<open>An SNI the TLS layer can deliver: a plain DNS name.\<close>

definition sni_ok :: "string \<Rightarrow> bool" where
  "sni_ok h \<longleftrightarrow> clean_host (normalize_host h) \<and> \<not> is_ip_literal (normalize_host h)"

lemma normalize_host_router:
  assumes "clean_host (normalize_host h)"
  shows "normalize h = normalize_host h"
proof -
  obtain n where n: "trim h = trim_end_char CHR ''.'' (trim h) @ replicate n CHR ''.''"
    using trim_end_char_split by blast
  have low: "CHR '':'' \<notin> set (lowercase s) \<Longrightarrow> CHR '':'' \<notin> set s" for s
  proof (induction s)
    case (Cons c s)
    moreover have "lower_char CHR '':'' = CHR '':''" by code_simp
    ultimately show ?case by auto
  qed simp
  have "CHR '':'' \<notin> set (trim_end_char CHR ''.'' (trim h))"
  proof (rule low)
    have "CHR '':'' \<notin> set (normalize_host h)"
      using clean_host_chars [OF assms, of "CHR '':''"] by (auto simp: host_char_def)
    then show "CHR '':'' \<notin> set (lowercase (trim_end_char CHR ''.'' (trim h)))"
      by (simp add: normalize_host_def)
  qed
  moreover have "CHR '':'' \<notin> set (replicate n CHR ''.'')" by auto
  ultimately have colon: "CHR '':'' \<notin> set (trim h)"
    using n by (metis Un_iff set_append)
  have "\<not> starts_with ''['' (trim h)"
  proof
    assume "starts_with ''['' (trim h)"
    then obtain r where r: "trim h = CHR ''['' # r" by (auto simp: starts_with_iff)
    have ne: "trim_end_char CHR ''.'' (trim h) \<noteq> []"
      using assms by (auto simp: normalize_host_def clean_host_def)
    then obtain c t where ct: "trim_end_char CHR ''.'' (trim h) = c # t" by (cases "trim_end_char CHR ''.'' (trim h)") auto
    then have "c = CHR ''[''" using n r by simp
    then have "lower_char CHR ''['' \<in> set (normalize_host h)"
      using ct by (simp add: normalize_host_def)
    moreover have "lower_char CHR ''['' = CHR ''[''" by code_simp
    ultimately show False
      using clean_host_chars [OF assms, of "CHR ''[''"] by (simp add: host_char_def)
  qed
  then show ?thesis
    using colon by (simp add: Router.normalize_def normalize_host_def split_char_nodelim)
qed

lemma match_host_sni:
  assumes "clean_host (normalize_host h)"
  shows "match_host rxm r (normalize_host h) = match_host rxm r h"
proof -
  have "normalize h = normalize_host h" "normalize (normalize_host h) = normalize_host h"
    using assms by (simp_all add: normalize_host_router clean_host_normal)
  then show ?thesis by (simp add: match_host_def)
qed

lemma normalize_host_clean: "clean_host g \<Longrightarrow> normalize_host g = g"
proof -
  assume g: "clean_host g"
  have "trim g = g"
    using g by (intro trim_all_graphic) (auto dest: clean_host_chars simp: host_char_def)
  moreover have "trim_end_char CHR ''.'' g = g"
    using g by (intro trim_end_char_fix) (simp add: clean_host_def)
  moreover have "lowercase g = g"
    using g by (intro lowercase_fix) (auto dest: clean_host_chars simp: host_char_def)
  ultimately show ?thesis by (simp add: normalize_host_def)
qed

text \<open>The names that may sit on a certificate of one scope, as one listener sees it.\<close>

definition routes_into :: "('re \<Rightarrow> string \<Rightarrow> bool) \<Rightarrow> ('c, 'k, 're) dynamic_resolver \<Rightarrow> string \<Rightarrow> string \<Rightarrow> bool" where
  "routes_into rxm d scope h \<longleftrightarrow>
     (\<exists>i. match_host rxm (dr_router d) h = Some i \<and> scope_of d i = scope)"

lemma clip_routes:
  assumes "regexes_truthful rxm (dr_router d)" "sni_ok h" "match_host rxm (dr_router d) h = Some owner"
    and "host_covered_by (mp_kept (clip rxm mintable d h owner obs)) x" "clean_host x"
  shows "routes_into rxm d (scope_of d owner) x"
proof -
  let ?S = "in_scope_of d (scope_of d owner)"
  have host: "match_host rxm (dr_router d) (normalize_host h) = Some owner"
    using assms(2,3) by (simp add: match_host_sni sni_ok_def)
  have nostar: "strip_prefix ''*.'' (normalize_host h) = None"
    using assms(2) by (cases "normalize_host h") (auto simp: sni_ok_def clean_host_def host_char_def)
  have "\<exists>i. match_host rxm (dr_router d) x = Some i \<and> ?S i"
  proof (rule router_conf.covered_routes [OF assms(1,4,5)])
    show "\<forall>n\<in>set (mp_kept (clip rxm mintable d h owner obs)).
        router_conf.san_ok rxm (dr_router d) ?S n
        \<or> (\<exists>i. match_host rxm (dr_router d) n = Some i \<and> ?S i)"
      using clip_kept [of _ rxm mintable d h owner obs] host by (auto simp: kept_ok_def)
    show "\<forall>n\<in>set (mp_kept (clip rxm mintable d h owner obs)).
        strip_prefix ''*.'' n \<noteq> None \<longrightarrow> router_conf.san_ok rxm (dr_router d) ?S n"
    proof (intro ballI impI)
      fix n
      assume n: "n \<in> set (mp_kept (clip rxm mintable d h owner obs))" "strip_prefix ''*.'' n \<noteq> None"
      then have "kept_ok rxm d (scope_of d owner) n \<or> n = normalize_host h"
        using clip_kept by blast
      then show "router_conf.san_ok rxm (dr_router d) ?S n"
        using n(2) nostar by (auto simp: kept_ok_def)
    qed
  qed
  then show ?thesis by (simp add: routes_into_def)
qed

lemma clip_not_ip:
  "sni_ok h \<Longrightarrow> \<forall>n\<in>set (mp_kept (clip rxm mintable d h owner obs)). \<not> is_ip_literal n"
  using clip_kept [of _ rxm mintable d h owner obs] by (auto simp: kept_ok_def sni_ok_def)

section \<open>The issuer as a state machine\<close>

text \<open>The listeners that share one issuer handle handshakes and observations in any order, the cache
  library may drop any entry at any time, and the suffix list may be swapped between operations.\<close>

inductive issuer_step ::
    "('c, 'k, 're) issuer_env \<Rightarrow> ('c, 'k, 're) dynamic_resolver set \<Rightarrow> ('c, 'k) issuer \<Rightarrow> ('c, 'k) issuer \<Rightarrow> bool"
  for ie L where
  Handshake: "d \<in> L \<Longrightarrow> sni_ok h \<Longrightarrow> issuer_step ie L s (snd (resolve ie env d (Some h) s))"
| Observe: "d \<in> L \<Longrightarrow> sni_ok h \<Longrightarrow> issuer_step ie L s (record_upstream_sans ie mintable env d h obs s)"
| Evict: "issuer_step ie L s (s\<lparr>is_cache := (is_cache s)(k := None)\<rparr>)"

inductive issuer_reach ::
    "('c, 'k, 're) issuer_env \<Rightarrow> ('c, 'k, 're) dynamic_resolver set \<Rightarrow> ('c, 'k) issuer \<Rightarrow> ('c, 'k) issuer \<Rightarrow> bool"
  for ie L s0 where
  IssuerStart: "issuer_reach ie L s0 s0"
| IssuerStep: "issuer_reach ie L s0 s \<Longrightarrow> issuer_step ie L s s' \<Longrightarrow> issuer_reach ie L s0 s'"

text \<open>What the certificate library promises: a signed certificate carries the names it was given.\<close>

definition pki_ok :: "('c, 'k) pki \<Rightarrow> bool" where
  "pki_ok lib \<longleftrightarrow> pem_ok lib \<and>
     (\<forall>p c k ns. pk_sign lib p = Some (c, k) \<and> lp_sans p = List.map SanDns ns \<longrightarrow>
        (\<exists>na. leaf_metadata lib c = Some (na, ns)))"

text \<open>What the configuration promises about the listeners: the regexes respect their declared
  scopes, and listeners that hold a common scope agree on which hosts it contains.\<close>

definition listeners_ok :: "('re \<Rightarrow> string \<Rightarrow> bool) \<Rightarrow> ('c, 'k, 're) dynamic_resolver set \<Rightarrow> bool" where
  "listeners_ok rxm L \<longleftrightarrow> (\<forall>d\<in>L. regexes_truthful rxm (dr_router d)) \<and>
     (\<forall>d\<in>L. \<forall>d'\<in>L. \<forall>h h' s. routes_into rxm d s h \<and> routes_into rxm d' s h' \<longrightarrow>
        (\<forall>x. routes_into rxm d s x \<longleftrightarrow> routes_into rxm d' s x))"

text \<open>Names that are safe on a certificate of a scope: every listener that serves the scope at all
  routes every host they cover into it.\<close>

definition names_safe ::
    "('re \<Rightarrow> string \<Rightarrow> bool) \<Rightarrow> ('c, 'k, 're) dynamic_resolver set \<Rightarrow> string \<Rightarrow> string list \<Rightarrow> bool" where
  "names_safe rxm L scope ns \<longleftrightarrow>
     (\<forall>d\<in>L. (\<exists>h. routes_into rxm d scope h) \<longrightarrow>
        (\<forall>x. clean_host x \<and> host_covered_by ns x \<longrightarrow> routes_into rxm d scope x))"

definition chain_names :: "('c, 'k) pki \<Rightarrow> 'c list \<Rightarrow> string list option" where
  "chain_names lib chain = (case chain of [] \<Rightarrow> None | leaf # _ \<Rightarrow> map_option snd (leaf_metadata lib leaf))"

definition cache_safe ::
    "('c, 'k, 're) issuer_env \<Rightarrow> ('c, 'k, 're) dynamic_resolver set \<Rightarrow> ('c, 'k) issuer \<Rightarrow> bool" where
  "cache_safe ie L s \<longleftrightarrow> (\<forall>key cc. is_cache s key = Some cc \<longrightarrow>
     (\<exists>ns. chain_names (ie_pki ie) (fst (cc_certified cc)) = Some ns
        \<and> host_covered_by ns (snd key) \<and> names_safe (ie_match ie) L (fst key) ns))"

definition disk_safe ::
    "('c, 'k, 're) issuer_env \<Rightarrow> ('c, 'k, 're) dynamic_resolver set \<Rightarrow> fs \<Rightarrow> bool" where
  "disk_safe ie L f \<longleftrightarrow> (\<forall>st. ie_store ie = Some st \<longrightarrow>
     honest (claims (ie_pki ie) st) (\<lambda>k ns. names_safe (ie_match ie) L (fst k) ns) f)"

definition issuer_inv ::
    "('c, 'k, 're) issuer_env \<Rightarrow> ('c, 'k, 're) dynamic_resolver set \<Rightarrow> ('c, 'k) issuer \<Rightarrow> bool" where
  "issuer_inv ie L s \<longleftrightarrow> cache_safe ie L s \<and> disk_safe ie L (is_fs s)"

lemma names_safe_if:
  assumes "listeners_ok rxm L" "d \<in> L" "routes_into rxm d scope h"
    and "\<And>x. clean_host x \<Longrightarrow> host_covered_by ns x \<Longrightarrow> routes_into rxm d scope x"
  shows "names_safe rxm L scope ns"
proof -
  have agree: "routes_into rxm d scope x \<longleftrightarrow> routes_into rxm d' scope x"
    if "d' \<in> L" "routes_into rxm d' scope h'" for d' h' x
    using assms(1-3) that unfolding listeners_ok_def by blast
  show ?thesis
    unfolding names_safe_def using assms(4) agree by blast
qed

lemma issue_names:
  assumes "pki_ok lib" "\<forall>n\<in>set sans. \<not> is_ip_literal n"
    and "issue (pk_ia5 lib) (pk_sign lib) now ca host sans = Inr (c, k)"
  shows "\<exists>na. leaf_metadata lib c = Some (na, sans)"
proof -
  obtain sts where sts: "map_res (san_for_name (pk_ia5 lib)) sans = Inr sts"
    using assms(3) by (auto simp: issue_def split: sum.splits)
  then have "sts = List.map SanDns sans"
    using assms(2) by (intro map_res_dns)
  moreover obtain p where "pk_sign lib p = Some (c, k)" "lp_sans p = sts"
    using assms(3) sts by (auto simp: issue_def ok_or_Inr)
  ultimately show ?thesis
    using assms(1) unfolding pki_ok_def by blast
qed

lemma sign_cases:
  obtains (Failed) e where "sign ie env scope host sans obs f = (Inl e, f)"
  | (Signed) c k where
    "issue (pk_ia5 (ie_pki ie)) (pk_sign (ie_pki ie)) (int (io_now env)) (ie_ca ie) host sans = Inr (c, k)"
    "sign ie env scope host sans obs f = (Inr ([c, pk_ca (ie_pki ie)], k),
       (case ie_store ie of None \<Rightarrow> f
        | Some st \<Rightarrow> snd (save st env f scope host (pk_pem (ie_pki ie) c @ pk_ca_pem (ie_pki ie))
            (pk_key_pem (ie_pki ie) k) obs)))"
proof (cases "issue (pk_ia5 (ie_pki ie)) (pk_sign (ie_pki ie)) (int (io_now env)) (ie_ca ie) host sans")
  case (Inl e)
  then show ?thesis by (intro Failed) (simp add: sign_def Let_def)
next
  case (Inr ck)
  obtain c k where ck: "ck = (c, k)" by fastforce
  show ?thesis
  proof (cases "pk_ecdsa (ie_pki ie) k")
    case True
    then show ?thesis using Inr ck by (intro Signed) (simp_all add: sign_def Let_def)
  next
    case False
    then show ?thesis using Inr ck by (intro Failed) (simp add: sign_def Let_def)
  qed
qed

lemma sign_result:
  assumes "pki_ok (ie_pki ie)" "\<forall>n\<in>set sans. \<not> is_ip_literal n"
    and "sign ie env scope host sans obs f = (Inr cert, f')"
  shows "chain_names (ie_pki ie) (fst cert) = Some sans"
proof (cases rule: sign_cases [of ie env scope host sans obs f])
  case (Signed c k)
  then show ?thesis
    using assms(3) issue_names [OF assms(1,2) Signed(1)] by (auto simp: chain_names_def)
qed (use assms(3) in auto)

lemma sign_disk:
  assumes "pki_ok (ie_pki ie)" "\<forall>n\<in>set sans. \<not> is_ip_literal n" "disk_safe ie L f"
    and "names_safe (ie_match ie) L scope sans"
  shows "disk_safe ie L (snd (sign ie env scope host sans obs f))"
proof (cases rule: sign_cases [of ie env scope host sans obs f])
  case (Failed e)
  then show ?thesis using assms(3) by simp
next
  case (Signed c k)
  obtain na where na: "leaf_metadata (ie_pki ie) c = Some (na, sans)"
    using issue_names [OF assms(1,2) Signed(1)] by blast
  show ?thesis
  proof (cases "ie_store ie")
    case None
    then show ?thesis by (simp add: disk_safe_def)
  next
    case (Some st)
    let ?P = "\<lambda>k ns. names_safe (ie_match ie) L (fst k) ns"
    let ?d = "(pk_pem (ie_pki ie) c @ pk_ca_pem (ie_pki ie), pk_key_pem (ie_pki ie) k, obs)"
    have "honest (claims (ie_pki ie) st) ?P f"
      using assms(3) Some by (simp add: disk_safe_def)
    moreover have "pem_names (ie_pki ie) (fst ?d) = Some sans"
      using assms(1) na by (simp add: pem_names_def pki_ok_def pem_ok_def)
    ultimately have "honest (claims (ie_pki ie) st) ?P
        (snd (save st env f (fst (scope, host)) (snd (scope, host)) (fst ?d) (fst (snd ?d)) (snd (snd ?d))))"
      using assms(4) by (intro disk.save_honest) auto
    then show ?thesis
      using Signed(2) Some by (simp add: disk_safe_def)
  qed
qed

lemma issuer_inv_update:
  assumes "issuer_inv ie L s" "disk_safe ie L f"
    and "chain_names (ie_pki ie) (fst cert) = Some ns" "host_covered_by ns h" "names_safe (ie_match ie) L scope ns"
  shows "issuer_inv ie L (s\<lparr>is_fs := f, is_cache := (is_cache s)((scope, h) \<mapsto> \<lparr>cc_certified = cert, cc_observed = o'\<rparr>)\<rparr>)"
  using assms by (auto simp: issuer_inv_def cache_safe_def)

lemma issuer_inv_fs: "issuer_inv ie L s \<Longrightarrow> disk_safe ie L f \<Longrightarrow> issuer_inv ie L (s\<lparr>is_fs := f\<rparr>)"
  by (simp add: issuer_inv_def cache_safe_def)

lemma routes_into_owner:
  "sni_ok h \<Longrightarrow> match_host rxm (dr_router d) h = Some owner
   \<Longrightarrow> routes_into rxm d (scope_of d owner) (normalize_host h)"
  by (auto simp: routes_into_def match_host_sni sni_ok_def)

text \<open>An exact certificate is safe for the scope of its host.\<close>

lemma exact_safe:
  assumes "listeners_ok (ie_match ie) L" "d \<in> L" "sni_ok h" "match_host (ie_match ie) (dr_router d) h = Some owner"
  shows "names_safe (ie_match ie) L (scope_of d owner) [normalize_host h]"
proof (rule names_safe_if [OF assms(1,2) routes_into_owner [OF assms(3,4)]])
  fix x assume x: "clean_host x" "host_covered_by [normalize_host h] x"
  have "strip_prefix ''*.'' (normalize_host h) = None"
    using assms(3) by (cases "normalize_host h") (auto simp: sni_ok_def clean_host_def host_char_def)
  then have "x = normalize_host h"
    using x(2) by (auto simp: host_covered_by_def san_covers_def split: if_splits)
  then show "routes_into (ie_match ie) d (scope_of d owner) x"
    using routes_into_owner [OF assms(3,4)] by simp
qed

lemma load_chain_names:
  "load lib st env f s h = Some x \<Longrightarrow> chain_names lib (sr_chain x) = Some (sr_sans x)"
  by (auto simp: load_def load_inner_def chain_names_def Let_def
      split: if_splits sum.splits option.splits list.splits)

lemma load_safe:
  assumes "disk_safe ie L f" "ie_store ie = Some st" "load (ie_pki ie) st env f scope h = Some x"
  shows "names_safe (ie_match ie) L scope (sr_sans x)"
  using disk.load_honest [of "ie_pki ie" st "\<lambda>k ns. names_safe (ie_match ie) L (fst k) ns" f env "(scope, h)"] assms
  by (auto simp: disk_safe_def)

text \<open>The result of \<open>get_or_issue\<close>: what it serves, and the state it leaves.\<close>

lemma get_or_issue_inv:
  assumes pki: "pki_ok (ie_pki ie)" and L: "listeners_ok (ie_match ie) L" "d \<in> L"
    and h: "sni_ok h" "match_host (ie_match ie) (dr_router d) h = Some owner"
    and inv: "issuer_inv ie L s" and g: "get_or_issue ie env d h owner s = (r, s')"
  shows "issuer_inv ie L s' \<and> (\<forall>cert. r = Inr cert \<longrightarrow>
    (\<exists>ns. chain_names (ie_pki ie) (fst cert) = Some ns \<and> host_covered_by ns (normalize_host h)
      \<and> names_safe (ie_match ie) L (scope_of d owner) ns))"
proof -
  let ?host = "normalize_host h" and ?scope = "scope_of d owner"
  let ?key = "(?scope, ?host)"
  let ?stored = "case ie_store ie of None \<Rightarrow> None | Some st \<Rightarrow> (case load (ie_pki ie) st env (is_fs s) ?scope ?host of
                 Some x \<Rightarrow> if usable ?host x then Some x else None | None \<Rightarrow> None)"
  have disk: "disk_safe ie L (is_fs s)" using inv by (simp add: issuer_inv_def)
  show ?thesis
  proof (cases "is_cache s ?key")
    case (Some cc)
    then have "r = Inr (cc_certified cc)" "s' = s" using g by (simp_all add: get_or_issue_def)
    then show ?thesis
      using inv Some by (fastforce simp: issuer_inv_def cache_safe_def)
  next
    case miss: None
    show ?thesis
    proof (cases ?stored)
      case (Some x)
      then obtain st where x: "ie_store ie = Some st" "load (ie_pki ie) st env (is_fs s) ?scope ?host = Some x"
        "usable ?host x"
        by (auto split: option.splits if_splits)
      have cov: "host_covered_by (sr_sans x) ?host" using x(3) by (simp add: usable_def)
      note names = load_chain_names [OF x(2)] and safe = load_safe [OF disk x(1,2)]
      show ?thesis
      proof (cases "pk_ecdsa (ie_pki ie) (sr_key x)")
        case True
        then have "r = Inr (sr_chain x, sr_key x)"
          "s' = s\<lparr>is_cache := (is_cache s)(?key \<mapsto> \<lparr>cc_certified = (sr_chain x, sr_key x), cc_observed = sr_observed x\<rparr>)\<rparr>"
          using g miss Some by (simp_all add: get_or_issue_def Let_def)
        then show ?thesis
          using issuer_inv_update [OF inv disk, of "(sr_chain x, sr_key x)" "sr_sans x" ?host ?scope "sr_observed x"]
            cov names safe by auto
      next
        case False
        then have "r = Inl (KeyUnusable ?host)" "s' = s"
          using g miss Some by (simp_all add: get_or_issue_def Let_def)
        then show ?thesis using inv by simp
      qed
    next
      case None
      have safe: "names_safe (ie_match ie) L ?scope [?host]" by (rule exact_safe [OF L h])
      have ip: "\<forall>n\<in>set [?host]. \<not> is_ip_literal n" using h(1) by (simp add: sni_ok_def)
      obtain q f where sg: "sign ie env ?scope ?host [?host] None (is_fs s) = (q, f)" by fastforce
      have fsafe: "disk_safe ie L f"
        using sign_disk [OF pki ip disk safe, of env ?host None] sg by simp
      show ?thesis
      proof (cases q)
        case (Inl e)
        then have "r = Inl e" "s' = s\<lparr>is_fs := f\<rparr>"
          using g miss None sg by (simp_all add: get_or_issue_def Let_def)
        then show ?thesis using issuer_inv_fs [OF inv fsafe] by simp
      next
        case (Inr cert)
        then have "r = Inr cert"
          "s' = s\<lparr>is_fs := f, is_cache := (is_cache s)(?key \<mapsto> \<lparr>cc_certified = cert, cc_observed = None\<rparr>)\<rparr>"
          using g miss None sg by (simp_all add: get_or_issue_def Let_def)
        moreover have "chain_names (ie_pki ie) (fst cert) = Some [?host]"
          using sign_result [OF pki ip] sg Inr by blast
        moreover have "host_covered_by [?host] ?host" by (simp add: host_covered_by_iff)
        ultimately show ?thesis
          using issuer_inv_update [OF inv fsafe, of cert "[?host]" ?host ?scope None] safe by auto
      qed
    qed
  qed
qed

lemma record_inv:
  assumes pki: "pki_ok (ie_pki ie)" and L: "listeners_ok (ie_match ie) L" "d \<in> L" and h: "sni_ok h"
    and inv: "issuer_inv ie L s"
  shows "issuer_inv ie L (record_upstream_sans ie mintable env d h obs s)"
proof (cases "match_host (ie_match ie) (dr_router d) h")
  case None
  then show ?thesis using inv by (simp add: record_upstream_sans_def)
next
  case (Some owner)
  let ?host = "normalize_host h" and ?scope = "scope_of d owner"
  let ?plan = "clip (ie_match ie) mintable d ?host owner obs"
  let ?sg = "sign ie env ?scope ?host (mp_kept ?plan) (Some obs) (is_fs s)"
  have hh: "normalize_host ?host = ?host" "sni_ok ?host"
    using h by (simp_all add: sni_ok_def normalize_host_clean)
  have owner: "match_host (ie_match ie) (dr_router d) ?host = Some owner"
    using Some h by (simp add: match_host_sni sni_ok_def)
  have rx: "regexes_truthful (ie_match ie) (dr_router d)"
    using L by (simp add: listeners_ok_def)
  have safe: "names_safe (ie_match ie) L ?scope (mp_kept ?plan)"
    using clip_routes [OF rx hh(2) owner] routes_into_owner [OF hh(2) owner]
    by (intro names_safe_if [OF L]) auto
  have ip: "\<forall>n\<in>set (mp_kept ?plan). \<not> is_ip_literal n" by (rule clip_not_ip [OF hh(2)])
  have disk: "disk_safe ie L (is_fs s)" using inv by (simp add: issuer_inv_def)
  have fsafe: "disk_safe ie L (snd ?sg)" by (rule sign_disk [OF pki ip disk safe])
  have cov: "host_covered_by (mp_kept ?plan) ?host"
    using clip_covers [of "ie_match ie" mintable d ?host owner obs] hh by simp
  have "issuer_inv ie L s'" if "s' \<in> {s, s\<lparr>is_fs := snd ?sg\<rparr>}" for s'
    using that inv issuer_inv_fs [OF inv fsafe] by auto
  moreover have "issuer_inv ie L (s\<lparr>is_fs := f, is_cache := (is_cache s)((?scope, ?host) \<mapsto>
      \<lparr>cc_certified = cert, cc_observed = Some obs\<rparr>)\<rparr>)" if "?sg = (Inr cert, f)" for cert f
    using issuer_inv_update [OF inv _ sign_result [OF pki ip that] cov safe] fsafe that by simp
  ultimately show ?thesis
    using Some by (cases ?sg) (auto simp: record_upstream_sans_def Let_def split: sum.splits option.splits)
qed

lemma issuer_step_inv [inv_intros]:
  assumes pki: "pki_ok (ie_pki ie)" and L: "listeners_ok (ie_match ie) L"
    and "issuer_step ie L s s'" "issuer_inv ie L s"
  shows "issuer_inv ie L s'"
  using assms(3,4)
proof cases
  case (Handshake d h env)
  then show ?thesis
    using get_or_issue_inv [OF pki L, of d h] assms(4)
    by (auto simp: resolve_def certificate_for_def split: option.splits prod.splits sum.splits)
next
  case (Observe d h mintable env obs)
  then show ?thesis using record_inv [OF pki L] assms(4) by simp
next
  case (Evict k)
  then show ?thesis using assms(4) by (auto simp: issuer_inv_def cache_safe_def split: if_splits)
qed

lemma issuer_reach_inv:
  assumes "pki_ok (ie_pki ie)" "listeners_ok (ie_match ie) L" "issuer_inv ie L s0" "issuer_reach ie L s0 s"
  shows "issuer_inv ie L s"
  using assms(4) by induction (auto intro: assms(3) issuer_step_inv [OF assms(1,2)])

section \<open>What an unobserved certificate may name\<close>

definition exact_until_observed :: "('c, 'k) pki \<Rightarrow> ('c, 'k) issuer \<Rightarrow> bool" where
  "exact_until_observed lib s \<longleftrightarrow> (\<forall>key cc. is_cache s key = Some cc \<and> cc_observed cc = None \<longrightarrow>
     chain_names lib (fst (cc_certified cc)) = Some [snd key])"

lemma exact_until_observed_upd:
  "exact_until_observed lib s \<Longrightarrow> (cc_observed cc = None \<longrightarrow> chain_names lib (fst (cc_certified cc)) = Some [h])
   \<Longrightarrow> exact_until_observed lib (s\<lparr>is_fs := f, is_cache := (is_cache s)((k, h) \<mapsto> cc)\<rparr>)"
  by (auto simp: exact_until_observed_def)

lemma exact_until_observed_cache:
  "exact_until_observed lib s \<Longrightarrow> (cc_observed cc = None \<longrightarrow> chain_names lib (fst (cc_certified cc)) = Some [h])
   \<Longrightarrow> exact_until_observed lib (s\<lparr>is_cache := (is_cache s)((k, h) \<mapsto> cc)\<rparr>)"
  by (auto simp: exact_until_observed_def)

lemma exact_until_observed_fs: "exact_until_observed lib (s\<lparr>is_fs := f\<rparr>) = exact_until_observed lib s"
  by (simp add: exact_until_observed_def)

lemma get_or_issue_exact:
  assumes "pki_ok (ie_pki ie)" "sni_ok h" "exact_until_observed (ie_pki ie) s"
  shows "exact_until_observed (ie_pki ie) (snd (get_or_issue ie env d h owner s))"
proof -
  let ?host = "normalize_host h" and ?scope = "scope_of d owner"
  let ?stored = "case ie_store ie of None \<Rightarrow> None | Some st \<Rightarrow> (case load (ie_pki ie) st env (is_fs s) ?scope ?host of
                 Some x \<Rightarrow> if usable ?host x then Some x else None | None \<Rightarrow> None)"
  have ip: "\<forall>n\<in>set [?host]. \<not> is_ip_literal n" using assms(2) by (simp add: sni_ok_def)
  show ?thesis
  proof (cases "is_cache s (?scope, ?host)")
    case (Some cc)
    then show ?thesis using assms(3) by (simp add: get_or_issue_def)
  next
    case miss: None
    show ?thesis
    proof (cases ?stored)
      case (Some x)
      then obtain st where x: "load (ie_pki ie) st env (is_fs s) ?scope ?host = Some x" "usable ?host x"
        by (auto split: option.splits if_splits)
      have "sr_observed x = None \<longrightarrow> chain_names (ie_pki ie) (sr_chain x) = Some [?host]"
        using load_chain_names [OF x(1)] x(2) by (auto simp: usable_def)
      then show ?thesis
        using miss Some assms(3) exact_until_observed_cache [OF assms(3)]
        by (simp add: get_or_issue_def Let_def)
    next
      case None
      obtain q f where sg: "sign ie env ?scope ?host [?host] None (is_fs s) = (q, f)" by fastforce
      then have "chain_names (ie_pki ie) (fst cert) = Some [?host]" if "q = Inr cert" for cert
        using sign_result [OF assms(1) ip] that by blast
      then show ?thesis
        using miss None sg assms(3) exact_until_observed_upd [OF assms(3)]
        by (cases q) (simp_all add: get_or_issue_def Let_def exact_until_observed_fs)
    qed
  qed
qed

lemma issuer_step_exact [inv_intros]:
  assumes "pki_ok (ie_pki ie)" "issuer_step ie L s s'" "exact_until_observed (ie_pki ie) s"
  shows "exact_until_observed (ie_pki ie) s'"
  using assms(2)
proof cases
  case (Handshake d h env)
  then show ?thesis
    using get_or_issue_exact [OF assms(1) _ assms(3), of h env d] assms(3)
    by (auto simp: resolve_def certificate_for_def split: option.splits prod.splits sum.splits) (metis snd_conv)+
next
  case (Observe d h mintable env obs)
  then show ?thesis
    using assms(3) exact_until_observed_upd [OF assms(3)]
    by (auto simp: record_upstream_sans_def Let_def exact_until_observed_fs
        split: option.splits prod.splits sum.splits)
next
  case (Evict k)
  then show ?thesis using assms(3) by (auto simp: exact_until_observed_def)
qed

section \<open>What clipping accounts for\<close>

definition accounted :: "mirror_plan \<Rightarrow> string \<Rightarrow> bool" where
  "accounted p n \<longleftrightarrow> n = [] \<or> n \<in> set (mp_kept p) \<or> n \<in> fst ` set (mp_dropped p)"

lemma clip_step_accounts:
  "accounted (clip_step rxm mintable d scope san p) (normalize_host san)
   \<and> (\<forall>n. accounted p n \<longrightarrow> accounted (clip_step rxm mintable d scope san p) n)
   \<and> set (mp_kept (clip_step rxm mintable d scope san p)) \<subseteq> insert (normalize_host san) (set (mp_kept p))
   \<and> (distinct (mp_kept p) \<longrightarrow> distinct (mp_kept (clip_step rxm mintable d scope san p)))"
  by (auto simp: clip_step_def Let_def accounted_def split: option.splits sum.splits)

lemma clip_fold_accounts:
  "(\<forall>san\<in>set obs. accounted (fold (clip_step rxm mintable d scope) obs p) (normalize_host san))
   \<and> (\<forall>n. accounted p n \<longrightarrow> accounted (fold (clip_step rxm mintable d scope) obs p) n)
   \<and> set (mp_kept (fold (clip_step rxm mintable d scope) obs p)) \<subseteq> normalize_host ` set obs \<union> set (mp_kept p)
   \<and> (distinct (mp_kept p) \<longrightarrow> distinct (mp_kept (fold (clip_step rxm mintable d scope) obs p)))"
proof (induction obs arbitrary: p)
  case (Cons san obs)
  show ?case
    using Cons.IH [of "clip_step rxm mintable d scope san p"] clip_step_accounts [of rxm mintable d scope san p]
    by auto
qed simp

section \<open>Properties\<close>


definition sample_listener :: "(sample_cert, unit, string) dynamic_resolver" where
  "sample_listener = \<lparr>dr_router = \<lparr>r_exact = [(''a.com'', 0)], r_wildcard = [(''a.com'', 0)], r_suffix = [],
      r_regex = [], r_default = None\<rparr>, dr_scopes = [''s''], dr_pinned = [None]\<rparr>"

definition sample_env :: "(sample_cert, unit, string) issuer_env" where
  "sample_env = \<lparr>ie_pki = sample_pki, ie_ca = \<lparr>au_organization = [], au_country = [], au_leaf_validity = 100\<rparr>,
     ie_store = None, ie_match = (=)\<rparr>"

abbreviation sample_start :: "(sample_cert, unit) issuer" where
  "sample_start \<equiv> \<lparr>is_cache = (\<lambda>_. None), is_fs = (\<lambda>_. None)\<rparr>"

definition sample_mirrored :: "(sample_cert, unit) issuer" where
  "sample_mirrored = record_upstream_sans sample_env (\<lambda>_. True) sample_io sample_listener ''a.com''
     [''*.a.com'', ''a.com''] sample_start"

lemma sample_pki_ok: "pki_ok sample_pki"
proof -
  have inj: "List.map SanDns ns = List.map SanDns ms \<Longrightarrow> ns = ms" for ns ms
    by (rule map_injective) (auto simp: inj_on_def)
  have names: "leaf_metadata sample_pki CertA = Some (1000000, [''a.com''])"
    "leaf_metadata sample_pki CertB = Some (1000000, [''*.a.com'', ''a.com''])"
    by (simp_all add: leaf_metadata_def sample_pki_def timestamp_ok_def map_filter_simps)
  have "\<exists>na. leaf_metadata sample_pki c = Some (na, ns)"
    if "pk_sign sample_pki p = Some (c, k)" "lp_sans p = List.map SanDns ns" for p c k ns
    using that names inj [of ns "[''a.com'']"] inj [of ns "[''*.a.com'', ''a.com'']"]
    by (auto simp: sample_pki_def split: if_splits)
  then show ?thesis using sample_pem_ok by (auto simp: pki_ok_def)
qed

lemma sample_listeners_ok: "listeners_ok (=) {sample_listener}"
  by (auto simp: listeners_ok_def regexes_truthful_def sample_listener_def)

lemma sample_sni_ok: "sni_ok ''a.com''"
  by code_simp

lemma sample_match: "match_host (=) (dr_router sample_listener) ''a.com'' = Some 0"
  by code_simp

lemma sample_serves:
  "resolve sample_env sample_io sample_listener (Some ''a.com'') sample_mirrored
   = (Some ([CertB, CertCA], ()), sample_mirrored)"
proof -
  have "clip (=) (\<lambda>_. True) sample_listener ''a.com'' 0 [''*.a.com'', ''a.com'']
      = \<lparr>mp_kept = [''*.a.com'', ''a.com''], mp_dropped = []\<rparr>"
    by code_simp
  moreover have "normalize_host ''a.com'' = ''a.com''" "parse_ip ''a.com'' = None" "parse_ip ''*.a.com'' = None"
    by code_simp+
  ultimately show ?thesis
    using sample_match
    by (simp add: sample_mirrored_def record_upstream_sans_def resolve_def certificate_for_def get_or_issue_def
        pinned_for_def sample_env_def Let_def sample_listener_def sign_def issue_def san_for_name_def
        sample_pki_def scope_of_def)
qed


text \<open>C36. Exact until observed. In every reachable state a cached certificate for which no upstream
  observation is recorded names its own host and nothing else, also when it was read back from
  disk.\<close>

theorem unobserved_exact:
  assumes "pki_ok (ie_pki ie)" and "issuer_reach ie L s0 s" and "is_cache s0 = (\<lambda>_. None)"
    and "is_cache s (scope, h) = Some cc" and "cc_observed cc = None"
  shows "chain_names (ie_pki ie) (fst (cc_certified cc)) = Some [h]"
proof -
  have "exact_until_observed (ie_pki ie) s"
    using assms(2)
    by induction (auto simp: assms(3) exact_until_observed_def [of _ s0] intro: issuer_step_exact [OF assms(1)])
  then show ?thesis using assms(4,5) by (auto simp: exact_until_observed_def)
qed

lemma unobserved_exact_witness:
  "chain_names sample_pki (fst (cc_certified (the (is_cache
     (snd (resolve sample_env sample_io sample_listener (Some ''a.com'') sample_start)) (''s'', ''a.com'')))))
   = Some [''a.com'']"
proof -
  let ?s = "snd (resolve sample_env sample_io sample_listener (Some ''a.com'') sample_start)"
  have "issuer_step sample_env {sample_listener} sample_start ?s"
    by (rule Handshake) (simp_all add: sample_sni_ok)
  then have reach: "issuer_reach sample_env {sample_listener} sample_start ?s"
    by (rule IssuerStep [OF IssuerStart])
  have "normalize_host ''a.com'' = ''a.com''" "parse_ip ''a.com'' = None"
    by code_simp+
  then have "is_cache ?s (''s'', ''a.com'') = Some \<lparr>cc_certified = ([CertA, CertCA], ()), cc_observed = None\<rparr>"
    using sample_match
    by (simp add: resolve_def certificate_for_def get_or_issue_def
        pinned_for_def sample_env_def Let_def sample_listener_def sign_def issue_def san_for_name_def
        sample_pki_def scope_of_def)
  then show ?thesis
    using unobserved_exact [of sample_env "{sample_listener}" sample_start ?s "''s''" "''a.com''"] reach sample_pki_ok
    by (simp add: sample_env_def)
qed

text \<open>C16. Nothing is lost silently when upstream names are clipped: every observed name is blank,
  kept or reported as dropped; the kept names are distinct, were observed (or are the requested
  host) and cover the requested host; and none of them is an IP address.\<close>

theorem clip_accounts:
  assumes "clip rxm mintable d h owner obs = p"
  shows "(\<forall>san\<in>set obs. normalize_host san = [] \<or> normalize_host san \<in> set (mp_kept p) \<union> fst ` set (mp_dropped p))
    \<and> distinct (mp_kept p) \<and> set (mp_kept p) \<subseteq> insert (normalize_host h) (normalize_host ` set obs)
    \<and> host_covered_by (mp_kept p) (normalize_host h)
    \<and> (sni_ok h \<longrightarrow> (\<forall>n\<in>set (mp_kept p). \<not> is_ip_literal n))"
proof -
  let ?q = "fold (clip_step rxm mintable d (scope_of d owner)) obs \<lparr>mp_kept = [], mp_dropped = []\<rparr>"
  have q: "\<forall>san\<in>set obs. accounted ?q (normalize_host san)" "distinct (mp_kept ?q)"
    "set (mp_kept ?q) \<subseteq> normalize_host ` set obs"
    using clip_fold_accounts [of obs rxm mintable d "scope_of d owner" "\<lparr>mp_kept = [], mp_dropped = []\<rparr>"]
    by auto
  have p: "p = (if host_covered_by (mp_kept ?q) (normalize_host h) then ?q
      else ?q\<lparr>mp_kept := mp_kept ?q @ [normalize_host h]\<rparr>)"
    unfolding assms [symmetric] by (simp add: clip_def Let_def)
  have "\<not> host_covered_by (mp_kept ?q) (normalize_host h) \<longrightarrow> normalize_host h \<notin> set (mp_kept ?q)"
    by (auto simp: host_covered_by_iff)
  then show ?thesis
    using q clip_covers [of rxm mintable d h owner obs] clip_not_ip [of h rxm mintable d owner obs] assms
    unfolding p by (auto simp: accounted_def split: if_splits)
qed

lemma clip_accounts_witness:
  "set (mp_kept (clip (=) (\<lambda>_. True) sample_listener ''A.com.'' 0 [''*.a.com'', ''b.org'']))
   \<subseteq> {''a.com'', ''*.a.com'', ''b.org''}"
proof -
  have "normalize_host ''A.com.'' = ''a.com''" "normalize_host ''*.a.com'' = ''*.a.com''"
    "normalize_host ''b.org'' = ''b.org''"
    by code_simp+
  then show ?thesis
    using clip_accounts [OF refl, where rxm = "(=)" and mintable = "\<lambda>_. True" and d = sample_listener
        and h = "''A.com.''" and owner = 0 and obs = "[''*.a.com'', ''b.org'']"]
    by simp
qed

text \<open>C17. Mirroring takes effect and settles: when a new observation is recorded and signing
  succeeds, the next handshake serves a certificate with exactly the clipped names, the mirror is
  current, and recording the same observation again changes nothing.\<close>

theorem mirror_takes_effect:
  assumes "pki_ok (ie_pki ie)" and "sni_ok h" and "match_host (ie_match ie) (dr_router d) h = Some owner"
    and "pinned_for d owner = None" and "\<not> mirror_is_current ie d h obs s"
    and "sign ie env (scope_of d owner) (normalize_host h)
      (mp_kept (clip (ie_match ie) mintable d h owner obs)) (Some obs) (is_fs s) = (Inr cert, f)"
    and "s' = record_upstream_sans ie mintable env d h obs s"
  shows "resolve ie env' d (Some h) s' = (Some cert, s')
    \<and> chain_names (ie_pki ie) (fst cert) = Some (mp_kept (clip (ie_match ie) mintable d h owner obs))
    \<and> mirror_is_current ie d h obs s' \<and> record_upstream_sans ie mintable' env' d h obs s' = s'"
proof -
  have n: "normalize_host (normalize_host h) = normalize_host h"
    using assms(2) by (simp add: normalize_host_clean sni_ok_def)
  have clip: "clip (ie_match ie) mintable d (normalize_host h) owner obs = clip (ie_match ie) mintable d h owner obs"
    using n by (simp add: clip_def)
  have s': "s' = s\<lparr>is_fs := f, is_cache := (is_cache s)((scope_of d owner, normalize_host h) \<mapsto>
      \<lparr>cc_certified = cert, cc_observed = Some obs\<rparr>)\<rparr>"
    using assms(3-7) clip
    by (auto simp: record_upstream_sans_def mirror_is_current_def Let_def split: option.splits if_splits)
  have "resolve ie env' d (Some h) s' = (Some cert, s')"
    using assms(3,4) s' by (simp add: resolve_def certificate_for_def get_or_issue_def)
  moreover have "chain_names (ie_pki ie) (fst cert) = Some (mp_kept (clip (ie_match ie) mintable d h owner obs))"
    by (rule sign_result [OF assms(1) clip_not_ip [OF assms(2)] assms(6)])
  ultimately show ?thesis
    using assms(3,4) s' by (simp add: mirror_is_current_def record_upstream_sans_def)
qed

lemma mirror_takes_effect_witness:
  "record_upstream_sans sample_env (\<lambda>_. False) sample_io sample_listener ''a.com'' [''*.a.com'', ''a.com''] sample_mirrored
   = sample_mirrored"
proof -
  have clip: "mp_kept (clip (=) (\<lambda>_. True) sample_listener ''a.com'' 0 [''*.a.com'', ''a.com'']) = [''*.a.com'', ''a.com'']"
    "normalize_host ''a.com'' = ''a.com''" "parse_ip ''a.com'' = None" "parse_ip ''*.a.com'' = None"
    by code_simp+
  have pin: "pinned_for sample_listener 0 = None" "ie_match sample_env = (=)" "ie_pki sample_env = sample_pki"
    by (simp_all add: sample_listener_def pinned_for_def sample_env_def)
  have "sign sample_env sample_io (scope_of sample_listener 0) ''a.com'' [''*.a.com'', ''a.com'']
      (Some [''*.a.com'', ''a.com'']) (\<lambda>_. None) = (Inr ([CertB, CertCA], ()), \<lambda>_. None)"
    using clip by (simp add: sample_env_def Let_def sign_def issue_def san_for_name_def sample_pki_def)
  moreover have "\<not> mirror_is_current sample_env sample_listener ''a.com'' [''*.a.com'', ''a.com''] sample_start"
    using sample_match pin by (simp add: mirror_is_current_def)
  ultimately show ?thesis
    using mirror_takes_effect [of sample_env "''a.com''" sample_listener 0 "[''*.a.com'', ''a.com'']" sample_start
        sample_io "\<lambda>_. True" _ _ sample_mirrored sample_io "\<lambda>_. False"] sample_pki_ok sample_sni_ok sample_match clip pin
    by (simp add: sample_mirrored_def)
qed

text \<open>C18. Isolation of names and of pinned routes: a handshake or an observation for one host touches
  no cache entry but the one of its own partition and host, and on a pinned route it touches
  nothing at all.\<close>

theorem resolver_frame:
  assumes "match_host (ie_match ie) (dr_router d) h = Some owner"
    and "s' = snd (resolve ie env d (Some h) s) \<or> s' = record_upstream_sans ie mintable env d h obs s"
  shows "(k \<noteq> (scope_of d owner, normalize_host h) \<longrightarrow> is_cache s' k = is_cache s k)
    \<and> (pinned_for d owner \<noteq> None \<longrightarrow> s' = s)"
proof -
  have "is_cache (snd (resolve ie env d (Some h) s)) k = is_cache s k"
    if "k \<noteq> (scope_of d owner, normalize_host h)"
    using that assms(1) by (auto simp: resolve_def certificate_for_def get_or_issue_def Let_def
        split: option.splits prod.splits sum.splits if_splits)
  moreover have "is_cache (record_upstream_sans ie mintable env d h obs s) k = is_cache s k"
    if "k \<noteq> (scope_of d owner, normalize_host h)"
    using that assms(1) by (auto simp: record_upstream_sans_def Let_def
        split: option.splits prod.splits sum.splits if_splits)
  moreover have "snd (resolve ie env d (Some h) s) = s" "record_upstream_sans ie mintable env d h obs s = s"
    if "pinned_for d owner \<noteq> None"
    using that assms(1) by (auto simp: resolve_def certificate_for_def record_upstream_sans_def)
  ultimately show ?thesis using assms(2) by auto
qed

lemma resolver_frame_witness:
  "is_cache sample_mirrored (''t'', ''a.com'') = None"
proof -
  have "scope_of sample_listener 0 = ''s''" "ie_match sample_env = (=)"
    by (simp_all add: scope_of_def sample_listener_def sample_env_def)
  then show ?thesis
    using resolver_frame [of sample_env sample_listener "''a.com''" 0 sample_mirrored sample_io sample_start
        "\<lambda>_. True" "[''*.a.com'', ''a.com'']" "(''t'', ''a.com'')"] sample_match
    by (simp add: sample_mirrored_def)
qed

section \<open>Where the promise stops\<close>

text \<open>A partition folds in the routing table and the forwarding of its own route, not the forwarding
  of the others. Two listeners with the same patterns therefore share the partition of a route
  they forward alike, even when they forward another route differently. A wildcard one listener
  may mirror, because both routes share its destination, is then served by the other listener,
  where it covers a host of a different destination.\<close>

definition narrow_route :: forwarding where
  "narrow_route = sample_forwarding\<lparr>fw_port := 8443\<rparr>"

definition two_routes :: "string list list" where
  "two_routes = [[''a.com'', ''*.a.com''], [''x.a.com'']]"

definition two_router :: "string router" where
  "two_router = the (ok_opt (build Some two_routes None (\<lambda>_. None)))"

definition listener_for :: "forwarding list \<Rightarrow> (sample_cert, unit, string) dynamic_resolver" where
  "listener_for fws = \<lparr>dr_router = two_router,
     dr_scopes = List.map (cert_scope (router_fingerprint two_routes None [])) fws, dr_pinned = [None, None]\<rparr>"

lemma two_router_eq: "two_router = \<lparr>r_exact = [(''x.a.com'', 1), (''a.com'', 0)], r_wildcard = [(''a.com'', 0)],
    r_suffix = [], r_regex = [], r_default = None\<rparr>"
  unfolding two_router_def two_routes_def by code_simp

lemma scopes_differ: "cert_scope fp sample_forwarding \<noteq> cert_scope fp narrow_route"
proof -
  have n: "show_nat 443 = ''443''" "show_nat 8443 = ''8443''"
    by (simp_all add: show_nat.simps [of 8443] show_nat.simps [of 844] show_nat.simps [of 84] show_nat.simps [of 8]
        show_nat.simps [of 443] show_nat.simps [of 44] show_nat.simps [of 4] digit_def) code_simp+
  have g: "foldl sanitize_step [] (''tls'' @ ''_'' @ ''edge.net'' @ ''_'' @ ''443'') = ''tls_edge.net_443''"
    "foldl sanitize_step [] (''tls'' @ ''_'' @ ''edge.net'' @ ''_'' @ ''8443'') = ''tls_edge.net_8443''"
    by (simp_all add: sanitize_step_def is_alnum_def is_alpha_def is_upper_def is_lower_def is_digit_def
        ends_with_def strip_suffix_def)
  have a: "sanitize (''tls'' @ ''_'' @ ''edge.net'' @ ''_'' @ show_nat 443) = ''tls_edge.net_443''"
    "sanitize (''tls'' @ ''_'' @ ''edge.net'' @ ''_'' @ show_nat 8443) = ''tls_edge.net_8443''"
    unfolding sanitize_def n g by (simp_all add: trim_end_char_def)
  have f: "fw_route_type sample_forwarding = RtTls" "fw_port sample_forwarding = 443"
    "fw_upstream sample_forwarding = Direct (Some ''edge.net'') Dual None ''system''"
    "fw_route_type narrow_route = RtTls" "fw_port narrow_route = 8443"
    "fw_upstream narrow_route = Direct (Some ''edge.net'') Dual None ''system''"
    by (simp_all add: sample_forwarding_def narrow_route_def)
  show ?thesis
    unfolding cert_scope_def Let_def f upstream_identity.case or_str_def option.case route_type_str.simps a
    by simp
qed

lemma two_router_confined:
  "wildcard_confined (=) two_router ''a.com'' (\<lambda>_. True) = Inr ()"
  "name_confined (=) two_router ''a.com'' (\<lambda>_. True) = Inr ()"
  "match_host (=) two_router ''a.com'' = Some 0" "match_host (=) two_router ''x.a.com'' = Some 1"
  "named_hosts two_router ''a.com'' = [''x.a.com'']" "normalize_host ''a.com'' = ''a.com''" "normalize_host ''*.a.com'' = ''*.a.com''"
  "parse_ip ''a.com'' = None" "parse_ip ''*.a.com'' = None" "is_ip_literal ''a.com'' = False" "Router.normalize ''a.com'' = ''a.com''"
  unfolding two_router_eq by code_simp+

lemma two_clip:
  "clip (=) (\<lambda>_. True) (listener_for [f, f]) ''a.com'' 0 [''*.a.com'', ''a.com'']
   = \<lparr>mp_kept = [''*.a.com'', ''a.com''], mp_dropped = []\<rparr>"
proof -
  let ?d = "listener_for [f, f]" and ?S = "\<lambda>i. scope_of (listener_for [f, f]) i = scope_of (listener_for [f, f]) 0"
  have S: "?S 0" "?S 1" "dr_router ?d = two_router" by (simp_all add: scope_of_def listener_for_def)
  have "r_wildcard two_router = [(''a.com'', 0)]" by (simp add: two_router_eq)
  then have "wildcard_confined (=) two_router ''a.com'' ?S = Inr ()" "name_confined (=) two_router ''a.com'' ?S = Inr ()"
    using S two_router_confined by (simp_all add: wildcard_confined_def name_confined_def)
  moreover have "host_covered_by [''*.a.com'', ''a.com''] ''a.com''" by code_simp
  ultimately show ?thesis
    using S two_router_confined by (simp add: clip_def clip_step_def Let_def)
qed

lemma scope_shared_across_listeners:
  fixes A B s
  defines "A \<equiv> listener_for [sample_forwarding, sample_forwarding]"
    and "B \<equiv> listener_for [sample_forwarding, narrow_route]"
    and "s \<equiv> record_upstream_sans sample_env (\<lambda>_. True) sample_io A ''a.com'' [''*.a.com'', ''a.com''] sample_start"
  shows "fst (resolve sample_env sample_io B (Some ''a.com'') s) = Some ([CertB, CertCA], ())
    \<and> host_covered_by [''*.a.com'', ''a.com''] ''x.a.com''
    \<and> chain_names sample_pki [CertB, CertCA] = Some [''*.a.com'', ''a.com'']
    \<and> \<not> routes_into (=) B (scope_of B 0) ''x.a.com''"
proof -
  have r: "dr_router A = two_router" "dr_router B = two_router" "pinned_for A 0 = None" "pinned_for B 0 = None"
    "scope_of A 0 = scope_of B 0" "scope_of B 0 \<noteq> scope_of B 1"
    using scopes_differ by (simp_all add: A_def B_def listener_for_def pinned_for_def scope_of_def)
  have ie: "ie_match sample_env = (=)" "ie_pki sample_env = sample_pki" by (simp_all add: sample_env_def)
  have "sign sample_env sample_io sc ''a.com'' [''*.a.com'', ''a.com'']
      (Some [''*.a.com'', ''a.com'']) (\<lambda>_. None) = (Inr ([CertB, CertCA], ()), \<lambda>_. None)" for sc
    using two_router_confined by (simp add: sample_env_def Let_def sign_def issue_def san_for_name_def sample_pki_def)
  then have "is_cache s (scope_of B 0, ''a.com'') = Some \<lparr>cc_certified = ([CertB, CertCA], ()),
      cc_observed = Some [''*.a.com'', ''a.com'']\<rparr>"
    using r ie two_router_confined two_clip [of sample_forwarding]
    by (simp add: s_def record_upstream_sans_def Let_def A_def)
  then have "fst (resolve sample_env sample_io B (Some ''a.com'') s) = Some ([CertB, CertCA], ())"
    using r ie two_router_confined by (simp add: resolve_def certificate_for_def get_or_issue_def)
  moreover have "chain_names sample_pki [CertB, CertCA] = Some [''*.a.com'', ''a.com'']"
    by (simp add: chain_names_def leaf_metadata_def sample_pki_def timestamp_ok_def map_filter_simps)
  moreover have "host_covered_by [''*.a.com'', ''a.com''] ''x.a.com''" by code_simp
  moreover have "\<not> routes_into (=) B (scope_of B 0) ''x.a.com''"
    using r two_router_confined by (auto simp: routes_into_def)
  ultimately show ?thesis by blast
qed

end
