(* ===== verification/Validate.thy ===== *)
theory Validate
  imports Probespec Nat64
begin

text \<open>
  Load-time validation of the whole document (\<open>Config::validate\<close> and what it calls in
  \<open>src/src/config.rs\<close>). The checks run in the code's order and stop at the first failure, which is
  returned as a value. A table is iterated in the order of its association list.
\<close>

text \<open>Where a resolver reference was written.\<close>

datatype origin =
    OGlobal | OGlobalEch
  | OTemplate string | OTemplateEch string
  | OListener socket_addr | OListenerEch socket_addr
  | ORoute string | ORouteEch string
  | OResolver string | OBootstrap string | OResolverEch string
  | OPool string | OPoolEch string

datatype route_error =
    EmptyUpstream
  | BadUpstream
  | NoPatterns
  | MissingType
  | CertKeyNotPaired
  | CertOnRaw
  | EchNeedsConfig
  | Http2OnRaw
  | VerifyNotUsed route_type
  | InlineRegexRef string
  | SelectWithoutPool
  | UnknownPool string
  | SelectOutOfBounds nat
  | InertWithPool string

datatype resolver_table_error =
    EndpointBlank
  | EndpointIsReference
  | BadEndpoint endpoint_error
  | VerifyWithoutTls
  | ResolverEchNeedsConfig
  | ResolverEchSelf
  | ResolverBootstrapSelf

datatype regex_table_error =
    BadRegex
  | RegexWithoutScope
  | BadScope scope_error

datatype pool_error =
    PoolWithoutTargets
  | BadTarget nat target_error
  | EmptyTag nat
  | FallbackOutOfBounds nat
  | BadProbe probe_error
  | ProbeEchNeedsConfig
  | Nat64NoPrefixes
  | BadNat64Prefix string
  | Nat64FromOutOfBounds nat
  | Nat64ZeroTimeout

datatype config_error =
    NoListeners
  | BadVerify origin verify_error
  | DuplicateListener socket_addr
  | UnknownTemplate string
  | RouteError string route_error
  | LeafValidityZero
  | RenewMarginTooLong
  | BadReference origin resolver_error
  | ResolverError string resolver_table_error
  | BadResolverGraph resolver_error
  | RegexError string regex_table_error
  | UnknownRegexRef string
  | BareRegexRef
  | NotARegexRef string
  | PoolError string pool_error

definition map_err :: "('e \<Rightarrow> 'f) \<Rightarrow> ('e, 'a) result \<Rightarrow> ('f, 'a) result" where
  "map_err f r = map_sum f id r"

abbreviation and_then :: "('e, unit) result \<Rightarrow> ('e, 'b) result \<Rightarrow> ('e, 'b) result" where
  "and_then r s \<equiv> res_bind r (\<lambda>_. s)"

section \<open>Lookups\<close>

definition template_for :: "config \<Rightarrow> string option \<Rightarrow> (config_error, template option) result" where
  "template_for c name =
     (case name of None \<Rightarrow> Inr None
      | Some n \<Rightarrow> ok_or (UnknownTemplate n) (map_option Some (map_of (c_templates c) n)))"

definition is_regex_ref :: "string \<Rightarrow> bool" where
  "is_regex_ref pattern \<longleftrightarrow> starts_with ''@'' (trim pattern)"

definition regex_def_of :: "config \<Rightarrow> string \<Rightarrow> (config_error, regex_def) result" where
  "regex_def_of c name = ok_or (UnknownRegexRef name) (map_of (c_regexes c) name)"

definition resolve_regex_ref :: "config \<Rightarrow> string \<Rightarrow> (config_error, regex_def) result" where
  "resolve_regex_ref c pattern =
     (case strip_prefix ''@'' (trim pattern) of None \<Rightarrow> Inl (NotARegexRef pattern)
      | Some name \<Rightarrow> if name = [] then Inl BareRegexRef else regex_def_of c name)"

definition pool_def_of :: "config \<Rightarrow> string \<Rightarrow> pool_def option" where
  "pool_def_of c name = map_of (c_pools c) name"

definition effective_resolver_of :: "config \<Rightarrow> string \<Rightarrow> (resolver_error, effective_resolver) result" where
  "effective_resolver_of c name =
     res_bind (resolver_def_of (c_resolvers c) name) (\<lambda>d. Inr (resolver_effective d name (c_global c)))"

text \<open>A route's display name.\<close>

fun route_type_debug :: "route_type \<Rightarrow> string" where
  "route_type_debug RtEch = ''ech''"
| "route_type_debug RtTls = ''tls''"
| "route_type_debug RtHttp = ''http''"
| "route_type_debug RtRaw = ''raw''"

definition route_label :: "route \<Rightarrow> string" where
  "route_label rt = unwrap_or ''route''
     (first_some [rt_name rt, (case rt_match_sni rt of [] \<Rightarrow> None | p # _ \<Rightarrow> Some p),
        map_option route_type_debug (rt_route_type rt)])"

definition all_routes :: "listener \<Rightarrow> route list" where
  "all_routes lis = ln_routes lis @ (case ln_default_route lis of None \<Rightarrow> [] | Some d \<Rightarrow> [d])"

section \<open>Routes\<close>

definition route_validate :: "bool \<Rightarrow> nat \<Rightarrow> template option \<Rightarrow> route \<Rightarrow> (config_error, unit) result" where
  "route_validate is_default listener_port tpl rt =
     (let spec = upstream_spec_of rt tpl; (cert, key) = cert_key rt tpl in
      if opt_ok (\<lambda>s. trim s \<noteq> []) spec = False then Inl (RouteError (route_label rt) EmptyUpstream)
      else if resolved_upstream_from spec listener_port = None then Inl (RouteError (route_label rt) BadUpstream)
      else if \<not> is_default \<and> rt_match_sni rt = [] then Inl (RouteError (route_label rt) NoPatterns)
      else if effective_route_type rt tpl = None then Inl (RouteError (route_label rt) MissingType)
      else if (cert = None) \<noteq> (key = None) then Inl (RouteError (route_label rt) CertKeyNotPaired)
      else if cert \<noteq> None \<and> effective_route_type rt tpl = Some RtRaw then Inl (RouteError (route_label rt) CertOnRaw)
      else Inr ())"

definition validate_ech ::
    "config \<Rightarrow> listener \<Rightarrow> route \<Rightarrow> template option \<Rightarrow> template option \<Rightarrow> (config_error, unit) result" where
  "validate_ech c lis rt rt_tpl ln_tpl =
     (if effective_route_type rt rt_tpl \<noteq> Some RtEch then Inr ()
      else let eff = effective_ech_of c lis rt rt_tpl ln_tpl in
        if ee_mode eff \<in> {EchStatic, EchDohWithFallback} \<and> ee_config eff = None
        then Inl (RouteError (route_label rt) EchNeedsConfig) else Inr ())"

definition validate_http2 :: "route \<Rightarrow> template option \<Rightarrow> (config_error, unit) result" where
  "validate_http2 rt rt_tpl =
     (if effective_route_type rt rt_tpl \<noteq> Some RtRaw then Inr ()
      else if list_ex (\<lambda>h. hc_enabled h = Some True) (flatten [rt_http2 rt, tier rt_tpl t_http2])
      then Inl (RouteError (route_label rt) Http2OnRaw) else Inr ())"

definition validate_verify ::
    "libs \<Rightarrow> config \<Rightarrow> listener \<Rightarrow> route \<Rightarrow> template option \<Rightarrow> template option \<Rightarrow> (config_error, unit) result" where
  "validate_verify lib c lis rt rt_tpl ln_tpl =
     (case effective_route_type rt rt_tpl of
        None \<Rightarrow> Inr ()
      | Some t \<Rightarrow>
          if t \<in> {RtTls, RtEch}
          then map_err (BadVerify (ORoute (route_label rt))) (verify_validate lib (effective_verify_of c lis rt rt_tpl ln_tpl))
          else if flatten [rt_verify rt, tier rt_tpl t_verify] = [] then Inr ()
          else Inl (RouteError (route_label rt) (VerifyNotUsed t)))"

definition validate_route ::
    "libs \<Rightarrow> config \<Rightarrow> listener \<Rightarrow> template option \<Rightarrow> bool \<Rightarrow> route \<Rightarrow> (config_error, unit) result" where
  "validate_route lib c lis ln_tpl is_default rt =
     res_bind (template_for c (rt_use_template rt)) (\<lambda>rt_tpl.
       and_then (route_validate is_default (sock_port (ln_addr lis)) rt_tpl rt)
       (and_then (validate_ech c lis rt rt_tpl ln_tpl)
       (and_then (validate_http2 rt rt_tpl)
         (validate_verify lib c lis rt rt_tpl ln_tpl))))"

fun validate_listeners :: "libs \<Rightarrow> config \<Rightarrow> listener list \<Rightarrow> (config_error, unit) result" where
  "validate_listeners lib c [] = Inr ()"
| "validate_listeners lib c (a # rest) =
     (if ln_addr a \<in> set (List.map ln_addr rest) then Inl (DuplicateListener (ln_addr a))
      else res_bind (template_for c (ln_use_template a)) (\<lambda>ln_tpl.
        and_then (check_all (validate_route lib c a ln_tpl False) (ln_routes a))
        (and_then (case ln_default_route a of None \<Rightarrow> Inr () | Some d \<Rightarrow> validate_route lib c a ln_tpl True d)
          (validate_listeners lib c rest))))"

section \<open>Default-supplying verification blocks\<close>

definition validate_verify_blocks :: "libs \<Rightarrow> config \<Rightarrow> (config_error, unit) result" where
  "validate_verify_blocks lib c =
     and_then (case g_verify (c_global c) of None \<Rightarrow> Inr ()
        | Some v \<Rightarrow> map_err (BadVerify OGlobal) (and_then (verify_validate_syntax lib v) (verify_reject_name v)))
     (and_then (check_all (\<lambda>(name, t). case t_verify t of None \<Rightarrow> Inr ()
        | Some v \<Rightarrow> map_err (BadVerify (OTemplate name)) (verify_validate_syntax lib v)) (c_templates c))
       (check_all (\<lambda>a. case ln_verify a of None \<Rightarrow> Inr ()
        | Some v \<Rightarrow> map_err (BadVerify (OListener (ln_addr a)))
            (and_then (verify_validate_syntax lib v) (verify_reject_name v))) (c_listeners c)))"

section \<open>Resolvers\<close>

definition common_refs :: "origin \<Rightarrow> common_opts \<Rightarrow> (origin \<times> string) list" where
  "common_refs org co = List.map (Pair org) (flatten [co_resolver co, co_ech_resolver co, co_addr_resolver co])"

definition ech_refs :: "origin \<Rightarrow> ech_config option \<Rightarrow> (origin \<times> string) list" where
  "ech_refs org e = List.map (Pair org) (flatten [tier e ec_ech_resolver])"

definition resolver_refs :: "config \<Rightarrow> (origin \<times> string) list" where
  "resolver_refs c =
     common_refs OGlobal (g_common (c_global c)) @ ech_refs OGlobalEch (g_ech (c_global c))
     @ concat (List.map (\<lambda>(n, t). common_refs (OTemplate n) (t_common t) @ ech_refs (OTemplateEch n) (t_ech t)) (c_templates c))
     @ concat (List.map (\<lambda>l. common_refs (OListener (ln_addr l)) (ln_common l) @ ech_refs (OListenerEch (ln_addr l)) (ln_ech l)
         @ concat (List.map (\<lambda>r. common_refs (ORoute (route_label r)) (rt_common r)
             @ ech_refs (ORouteEch (route_label r)) (rt_ech r)) (all_routes l))) (c_listeners c))
     @ concat (List.map (\<lambda>(n, r). List.map (Pair (OBootstrap n)) (flatten [rd_bootstrap r])
         @ ech_refs (OResolverEch n) (rd_ech r)) (c_resolvers c))"

definition names_itself :: "string \<Rightarrow> string option \<Rightarrow> bool" where
  "names_itself name spec \<longleftrightarrow> (case spec of None \<Rightarrow> False
     | Some s \<Rightarrow> is_resolver_ref s \<and> strip_prefix ''@'' s = Some name)"

definition validate_resolver :: "libs \<Rightarrow> config \<Rightarrow> string \<times> resolver_def \<Rightarrow> (config_error, unit) result" where
  "validate_resolver lib c nd =
     (let (name, d) = nd; eff = resolver_effective d name (c_global c) in
      if trim (rd_endpoint d) = [] then Inl (ResolverError name EndpointBlank)
      else if is_resolver_ref (rd_endpoint d) then Inl (ResolverError name EndpointIsReference)
      else res_bind (map_err (\<lambda>e. ResolverError name (BadEndpoint e)) (endpoint_parse (er_endpoint eff))) (\<lambda>ep.
        and_then (if ep_is_tls ep then map_err (BadVerify (OResolver name)) (verify_validate lib (er_verify eff))
                  else require (rd_verify d = None) (ResolverError name VerifyWithoutTls))
        (and_then (case er_ech eff of None \<Rightarrow> Inr ()
            | Some e \<Rightarrow>
                if ee_mode e \<in> {EchStatic, EchDohWithFallback} \<and> ee_config e = None then Inl (ResolverError name ResolverEchNeedsConfig)
                else require (\<not> names_itself name (er_ech_resolver eff)) (ResolverError name ResolverEchSelf))
          (require (\<not> names_itself name (er_bootstrap eff)) (ResolverError name ResolverBootstrapSelf)))))"

definition validate_resolvers :: "libs \<Rightarrow> config \<Rightarrow> (config_error, unit) result" where
  "validate_resolvers lib c =
     and_then (check_all (\<lambda>(org, spec). if is_resolver_ref spec
         then map_err (BadReference org) (map_sum id (\<lambda>_. ()) (resolve_resolver_ref (c_resolvers c) spec)) else Inr ())
        (resolver_refs c))
     (and_then (check_all (validate_resolver lib c) (c_resolvers c))
       (map_err BadResolverGraph (map_sum id (\<lambda>_. ()) (resolver_build_order (c_resolvers c)))))"

section \<open>Regexes\<close>

definition validate_pattern_ref :: "config \<Rightarrow> route \<Rightarrow> string \<Rightarrow> (config_error, unit) result" where
  "validate_pattern_ref c rt pattern =
     (if is_regex_ref pattern then map_sum id (\<lambda>_. ()) (resolve_regex_ref c pattern)
      else if starts_with ''~'' (trim pattern) then Inl (RouteError (route_label rt) (InlineRegexRef pattern))
      else Inr ())"

definition validate_regexes :: "libs \<Rightarrow> config \<Rightarrow> (config_error, unit) result" where
  "validate_regexes lib c =
     and_then (check_all (\<lambda>(name, def). and_then (require (lb_regex lib (rd_pattern def)) (RegexError name BadRegex))
         (and_then (require (rd_scope_suffix def \<noteq> []) (RegexError name RegexWithoutScope))
           (check_all (\<lambda>scope. map_err (\<lambda>e. RegexError name (BadScope e)) (validate_scope_pattern scope)) (rd_scope_suffix def))))
        (c_regexes c))
     (check_all (\<lambda>l. check_all (\<lambda>rt. check_all (validate_pattern_ref c rt) (rt_match_sni rt)) (all_routes l))
        (c_listeners c))"

section \<open>Pools\<close>

fun check_indexed :: "(nat \<Rightarrow> 'a \<Rightarrow> ('e, unit) result) \<Rightarrow> nat \<Rightarrow> 'a list \<Rightarrow> ('e, unit) result" where
  "check_indexed f i [] = Inr ()"
| "check_indexed f i (x # xs) = and_then (f i x) (check_indexed f (Suc i) xs)"

definition validate_target :: "libs \<Rightarrow> string \<Rightarrow> nat \<Rightarrow> target_def \<Rightarrow> (config_error, unit) result" where
  "validate_target lib name i t =
     and_then (map_err (\<lambda>e. PoolError name (BadTarget i e)) (map_sum id (\<lambda>_. ()) (target_parse (lb_cidr lib) (target_addr t))))
       (check_all (\<lambda>tag. require (trim tag \<noteq> []) (PoolError name (EmptyTag i))) (target_tags t))"

definition validate_pool_probe :: "libs \<Rightarrow> config \<Rightarrow> string \<Rightarrow> probe_def \<Rightarrow> (config_error, unit) result" where
  "validate_pool_probe lib c pool_name probe =
     res_bind (map_err (\<lambda>e. PoolError pool_name (BadProbe e)) (probe_validate lib probe)) (\<lambda>spec.
       and_then (case probe_ech spec of None \<Rightarrow> Inr ()
         | Some e \<Rightarrow>
             (let eff = probe_ech_resolve e (c_global c) in
              if ee_mode (ep_settings eff) \<in> {EchStatic, EchDohWithFallback} \<and> ee_config (ep_settings eff) = None
              then Inl (PoolError pool_name ProbeEchNeedsConfig)
              else (case ep_ech_resolver eff of None \<Rightarrow> Inr ()
                | Some s \<Rightarrow> if is_resolver_ref s
                    then map_err (BadReference (OPoolEch pool_name)) (map_sum id (\<lambda>_. ()) (resolve_resolver_ref (c_resolvers c) s))
                    else Inr ())))
       (if probe_handshakes spec
        then map_err (BadVerify (OPool pool_name)) (verify_validate lib (verify_resolve (probe_verify spec) (c_global c)))
        else Inr ()))"

definition validate_pool_nat64 :: "string \<Rightarrow> nat \<Rightarrow> pool_nat64_def \<Rightarrow> (config_error, unit) result" where
  "validate_pool_nat64 name targets n =
     and_then (require (pn_prefixes n \<noteq> []) (PoolError name Nat64NoPrefixes))
     (and_then (check_all (\<lambda>p. require (is_ok (nat64_from_str p)) (PoolError name (BadNat64Prefix p))) (pn_prefixes n))
     (and_then (check_all (\<lambda>i. require (i < targets) (PoolError name (Nat64FromOutOfBounds i))) (unwrap_or [] (pn_from n)))
       (require (pn_timeout n \<noteq> Some 0) (PoolError name Nat64ZeroTimeout))))"

definition validate_pool :: "libs \<Rightarrow> config \<Rightarrow> string \<times> pool_def \<Rightarrow> (config_error, unit) result" where
  "validate_pool lib c np =
     (let (name, pool) = np; targets = po_targets pool in
      and_then (require (targets \<noteq> []) (PoolError name PoolWithoutTargets))
      (and_then (check_indexed (validate_target lib name) 0 targets)
      (and_then (case po_fallback pool of None \<Rightarrow> Inr ()
         | Some f \<Rightarrow> require (f < length targets) (PoolError name (FallbackOutOfBounds f)))
      (and_then (validate_pool_probe lib c name (po_probe pool))
      (and_then (case po_nat64 pool of None \<Rightarrow> Inr () | Some n \<Rightarrow> validate_pool_nat64 name (length targets) n)
        (case po_resolver pool of None \<Rightarrow> Inr ()
         | Some s \<Rightarrow> if is_resolver_ref s
             then map_err (BadReference (OPool name)) (map_sum id (\<lambda>_. ()) (resolve_resolver_ref (c_resolvers c) s))
             else Inr ()))))))"

definition inert_fields :: "common_opts \<Rightarrow> string option list" where
  "inert_fields co =
     [map_option (\<lambda>_. ''address_family'') (co_address_family co),
      map_option (\<lambda>_. ''nat64_prefix'') (co_nat64_prefix co),
      map_option (\<lambda>_. ''addr_resolver'') (co_addr_resolver co)]"

definition validate_route_pool ::
    "config \<Rightarrow> route \<Rightarrow> template option \<Rightarrow> nat \<Rightarrow> (config_error, unit) result" where
  "validate_route_pool c rt tpl listener_port =
     (case resolved_upstream_from (upstream_spec_of rt tpl) listener_port of
        None \<Rightarrow> Inl (RouteError (route_label rt) BadUpstream)
      | Some resolved \<Rightarrow>
          (case ru_host resolved of
             PoolRef pool_name \<Rightarrow>
               (case pool_def_of c pool_name of None \<Rightarrow> Inl (RouteError (route_label rt) (UnknownPool pool_name))
                | Some pool \<Rightarrow>
                    and_then (check_all (\<lambda>sel. case sel of SelIndex i \<Rightarrow>
                          require (i < length (po_targets pool)) (RouteError (route_label rt) (SelectOutOfBounds i))
                        | SelTag _ \<Rightarrow> Inr ()) (unwrap_or [] (select_for rt tpl)))
                    (case first_some (inert_fields (rt_common rt)
                          @ (case tpl of None \<Rightarrow> [] | Some t \<Rightarrow> inert_fields (t_common t))) of
                       None \<Rightarrow> Inr () | Some field \<Rightarrow> Inl (RouteError (route_label rt) (InertWithPool field))))
           | _ \<Rightarrow> require (select_for rt tpl = None) (RouteError (route_label rt) SelectWithoutPool)))"

definition validate_pools :: "libs \<Rightarrow> config \<Rightarrow> (config_error, unit) result" where
  "validate_pools lib c =
     and_then (check_all (validate_pool lib c) (c_pools c))
     (check_all (\<lambda>l. check_all (\<lambda>r. res_bind (template_for c (rt_use_template r)) (\<lambda>tpl.
        validate_route_pool c r tpl (sock_port (ln_addr l)))) (all_routes l)) (c_listeners c))"

section \<open>The whole document\<close>

definition config_validate :: "libs \<Rightarrow> config \<Rightarrow> (config_error, unit) result" where
  "config_validate lib c =
     and_then (require (c_listeners c \<noteq> []) NoListeners)
     (and_then (validate_verify_blocks lib c)
     (and_then (validate_listeners lib c (c_listeners c))
     (and_then (require (1 \<le> ca_leaf_validity_days (c_ca c)) LeafValidityZero)
     (and_then (require (sc_renew_margin_days (c_store c) < ca_leaf_validity_days (c_ca c)) RenewMarginTooLong)
     (and_then (validate_resolvers lib c)
     (and_then (validate_regexes lib c)
       (validate_pools lib c)))))))"

section \<open>What validation guarantees\<close>

lemma map_err_ok [simp]: "map_err f r = Inr x \<longleftrightarrow> r = Inr x"
  by (cases r) (auto simp: map_err_def)

lemma drop_value_ok [simp]: "map_sum id (\<lambda>_. ()) r = Inr u \<longleftrightarrow> is_ok r"
  by (cases r) auto

lemma template_for_ok: "template_for c name = Inr t \<longleftrightarrow>
    (case name of None \<Rightarrow> t = None | Some n \<Rightarrow> map_of (c_templates c) n = t \<and> t \<noteq> None)"
  by (cases name) (auto simp: template_for_def)

lemma validate_listeners_ok:
  "validate_listeners lib c ls = Inr () \<longleftrightarrow>
     distinct (List.map ln_addr ls)
     \<and> (\<forall>a\<in>set ls. \<exists>ln_tpl. template_for c (ln_use_template a) = Inr ln_tpl
         \<and> (\<forall>r\<in>set (ln_routes a). validate_route lib c a ln_tpl False r = Inr ())
         \<and> (\<forall>d. ln_default_route a = Some d \<longrightarrow> validate_route lib c a ln_tpl True d = Inr ()))"
  by (induction ls) (auto split: option.splits)

lemma all_routes_set: "r \<in> set (all_routes a) \<longleftrightarrow> r \<in> set (ln_routes a) \<or> ln_default_route a = Some r"
  by (auto simp: all_routes_def split: option.splits)

lemma route_validate_ok:
  "route_validate b p tpl rt = Inr () \<longleftrightarrow>
     opt_ok (\<lambda>s. trim s \<noteq> []) (upstream_spec_of rt tpl) \<and> resolved_upstream_from (upstream_spec_of rt tpl) p \<noteq> None
     \<and> (b \<or> rt_match_sni rt \<noteq> []) \<and> effective_route_type rt tpl \<noteq> None
     \<and> (fst (cert_key rt tpl) = None \<longleftrightarrow> snd (cert_key rt tpl) = None)
     \<and> (fst (cert_key rt tpl) \<noteq> None \<longrightarrow> effective_route_type rt tpl \<noteq> Some RtRaw)"
  by (cases "cert_key rt tpl") (auto simp: route_validate_def Let_def)

text \<open>A route that passed: what the data path and the listener's start-up rely on.\<close>

definition route_sound :: "libs \<Rightarrow> config \<Rightarrow> listener \<Rightarrow> template option \<Rightarrow> route \<Rightarrow> bool" where
  "route_sound lib c lis ln_tpl rt \<longleftrightarrow> (\<exists>tpl ty u.
     template_for c (rt_use_template rt) = Inr tpl \<and> effective_route_type rt tpl = Some ty
     \<and> resolved_upstream_from (upstream_spec_of rt tpl) (sock_port (ln_addr lis)) = Some u
     \<and> (\<forall>p. ru_host u = PoolRef p \<longrightarrow> (\<exists>pool. pool_def_of c p = Some pool
          \<and> (\<forall>i. SelIndex i \<in> set (unwrap_or [] (select_for rt tpl)) \<longrightarrow> i < length (po_targets pool))))
     \<and> (fst (cert_key rt tpl) = None \<longleftrightarrow> snd (cert_key rt tpl) = None)
     \<and> (ty = RtEch \<longrightarrow> ee_mode (effective_ech_of c lis rt tpl ln_tpl) \<noteq> EchDoh
          \<longrightarrow> ee_config (effective_ech_of c lis rt tpl ln_tpl) \<noteq> None)
     \<and> (ty = RtRaw \<longrightarrow> fst (cert_key rt tpl) = None \<and> \<not> eh_enabled (effective_http2_of c lis rt tpl ln_tpl))
     \<and> (let v = effective_verify_of c lis rt tpl ln_tpl in
          (ev_mode v \<noteq> VFull \<longrightarrow> ev_name v = None)
          \<and> (ev_mode v \<noteq> VNone \<longrightarrow> ev_trust_webpki v \<or> ev_ca_file v \<noteq> None))
     \<and> (\<forall>p\<in>set (rt_match_sni rt). is_regex_ref p \<longrightarrow> is_ok (resolve_regex_ref c p)))"

lemma default_verify_coherent:
  "ev_name default_effective_verify = None" "ev_trust_webpki default_effective_verify"
  by (simp_all add: default_effective_verify_def)

lemma validate_verify_coherent:
  assumes "validate_verify lib c lis rt tpl lt = Inr ()"
  shows "(ev_mode (effective_verify_of c lis rt tpl lt) \<noteq> VFull \<longrightarrow> ev_name (effective_verify_of c lis rt tpl lt) = None)
    \<and> (ev_mode (effective_verify_of c lis rt tpl lt) \<noteq> VNone
        \<longrightarrow> ev_trust_webpki (effective_verify_of c lis rt tpl lt) \<or> ev_ca_file (effective_verify_of c lis rt tpl lt) \<noteq> None)"
proof (cases "effective_route_type rt tpl \<in> {Some RtTls, Some RtEch}")
  case True
  then have "verify_validate lib (effective_verify_of c lis rt tpl lt) = Inr ()"
    using assms by (auto simp: validate_verify_def)
  then show ?thesis by (auto simp: verify_validate_ok split: if_splits)
next
  case False
  then have "effective_verify_of c lis rt tpl lt = default_effective_verify" by (simp add: effective_verify_of_def)
  then show ?thesis by (simp add: default_verify_coherent)
qed

lemma validate_ech_config:
  "validate_ech c lis rt tpl lt = Inr () \<Longrightarrow> effective_route_type rt tpl = Some RtEch
   \<Longrightarrow> ee_mode (effective_ech_of c lis rt tpl lt) \<noteq> EchDoh \<Longrightarrow> ee_config (effective_ech_of c lis rt tpl lt) \<noteq> None"
  by (cases "ee_mode (effective_ech_of c lis rt tpl lt)") (auto simp: validate_ech_def Let_def split: if_splits)

lemma validate_route_pool_ok:
  assumes "validate_route_pool c rt tpl port = Inr ()" "resolved_upstream_from (upstream_spec_of rt tpl) port = Some u"
    and "ru_host u = PoolRef p"
  shows "\<exists>pool. pool_def_of c p = Some pool
    \<and> (\<forall>i. SelIndex i \<in> set (unwrap_or [] (select_for rt tpl)) \<longrightarrow> i < length (po_targets pool))"
proof (cases "pool_def_of c p")
  case None
  then show ?thesis using assms by (simp add: validate_route_pool_def)
next
  case (Some pool)
  then have "\<forall>sel\<in>set (unwrap_or [] (select_for rt tpl)). (case sel of SelIndex i \<Rightarrow>
      require (i < length (po_targets pool)) (RouteError (route_label rt) (SelectOutOfBounds i)) | SelTag _ \<Rightarrow> Inr ()) = Inr ()"
    using assms by (simp add: validate_route_pool_def)
  then show ?thesis using Some by fastforce
qed

lemma validate_route_sound:
  assumes "validate_route lib c lis lt b rt = Inr ()"
    and pool: "\<forall>tpl. template_for c (rt_use_template rt) = Inr tpl
      \<longrightarrow> validate_route_pool c rt tpl (sock_port (ln_addr lis)) = Inr ()"
    and rx: "\<forall>p\<in>set (rt_match_sni rt). validate_pattern_ref c rt p = Inr ()"
  shows "route_sound lib c lis lt rt"
proof -
  obtain tpl where tpl: "template_for c (rt_use_template rt) = Inr tpl"
    and v: "route_validate b (sock_port (ln_addr lis)) tpl rt = Inr ()" "validate_ech c lis rt tpl lt = Inr ()"
      "validate_verify lib c lis rt tpl lt = Inr ()"
    using assms(1) by (auto simp: validate_route_def)
  obtain ty u where ty: "effective_route_type rt tpl = Some ty"
    and u: "resolved_upstream_from (upstream_spec_of rt tpl) (sock_port (ln_addr lis)) = Some u"
    using v(1) by (auto simp: route_validate_ok)
  have raw: "ty = RtRaw \<longrightarrow> fst (cert_key rt tpl) = None \<and> \<not> eh_enabled (effective_http2_of c lis rt tpl lt)"
    using v(1) ty by (auto simp: route_validate_ok effective_http2_of_def Let_def)
  have regex: "\<forall>p\<in>set (rt_match_sni rt). is_regex_ref p \<longrightarrow> is_ok (resolve_regex_ref c p)"
    using rx by (auto simp: validate_pattern_ref_def)
  have pools: "\<forall>p. ru_host u = PoolRef p \<longrightarrow> (\<exists>pool. pool_def_of c p = Some pool
      \<and> (\<forall>i. SelIndex i \<in> set (unwrap_or [] (select_for rt tpl)) \<longrightarrow> i < length (po_targets pool)))"
    using validate_route_pool_ok [OF _ u] pool tpl by blast
  have ech: "ty = RtEch \<longrightarrow> ee_mode (effective_ech_of c lis rt tpl lt) \<noteq> EchDoh
      \<longrightarrow> ee_config (effective_ech_of c lis rt tpl lt) \<noteq> None"
    using validate_ech_config [OF v(2)] ty by blast
  have pair: "fst (cert_key rt tpl) = None \<longleftrightarrow> snd (cert_key rt tpl) = None"
    using v(1) by (simp add: route_validate_ok)
  show ?thesis
    unfolding route_sound_def Let_def
    by (intro exI [of _ tpl] exI [of _ ty] exI [of _ u] conjI)
      (use tpl ty u pools pair ech raw regex validate_verify_coherent [OF v(3)] in simp_all)
qed

text \<open>The checks a document that passes has passed, one by one.\<close>

lemma config_validate_parts:
  assumes "config_validate lib c = Inr ()"
  shows "c_listeners c \<noteq> []" "validate_listeners lib c (c_listeners c) = Inr ()"
    "sc_renew_margin_days (c_store c) < ca_leaf_validity_days (c_ca c)"
    "validate_resolvers lib c = Inr ()" "validate_regexes lib c = Inr ()" "validate_pools lib c = Inr ()"
  using assms by (auto simp: config_validate_def)

lemma validated_listener_sound:
  assumes c: "config_validate lib c = Inr ()" and a: "a \<in> set (c_listeners c)"
  shows "\<exists>lt. template_for c (ln_use_template a) = Inr lt \<and> (\<forall>r\<in>set (all_routes a). route_sound lib c a lt r)"
proof -
  note v = config_validate_parts [OF c]
  obtain lt where lt: "template_for c (ln_use_template a) = Inr lt"
    "\<forall>r\<in>set (ln_routes a). validate_route lib c a lt False r = Inr ()"
    "\<forall>d. ln_default_route a = Some d \<longrightarrow> validate_route lib c a lt True d = Inr ()"
    using v(2) a unfolding validate_listeners_ok by blast
  have "route_sound lib c a lt r" if "validate_route lib c a lt b r = Inr ()" "r \<in> set (all_routes a)" for b r
  proof (rule validate_route_sound [OF that(1)])
    show "\<forall>tpl. template_for c (rt_use_template r) = Inr tpl
        \<longrightarrow> validate_route_pool c r tpl (sock_port (ln_addr a)) = Inr ()"
      using v(6) a that(2) by (fastforce simp: validate_pools_def)
    show "\<forall>p\<in>set (rt_match_sni r). validate_pattern_ref c r p = Inr ()"
      using v(5) a that(2) by (simp add: validate_regexes_def)
  qed
  then have "route_sound lib c a lt r" if "r \<in> set (all_routes a)" for r
    using lt(2,3) that unfolding all_routes_set by blast
  then show ?thesis using lt(1) by blast
qed

lemma validated_resolver:
  assumes "config_validate lib c = Inr ()" "(n, d) \<in> set (c_resolvers c)"
  shows "is_ok (endpoint_parse (rd_endpoint d))"
proof -
  have "validate_resolver lib c (n, d) = Inr ()"
    using config_validate_parts(4) [OF assms(1)] assms(2) by (simp add: validate_resolvers_def)
  then show ?thesis
    by (auto simp: validate_resolver_def Let_def resolver_effective_def is_ok_iff split: if_splits)
qed

section \<open>Properties\<close>


lemma doc_order: "resolver_build_order (c_resolvers doc_config) = Inr [''dns'', ''lan'']"
proof -
  have t: "c_resolvers doc_config = [(''dns'', plain_resolver ''system''), (''lan'', (plain_resolver ''system'')\<lparr>rd_bootstrap := Some ''@dns''\<rparr>)]"
    by (simp add: doc_config_def)
  have "is_resolver_ref ''@dns''" by code_simp
  then have "resolver_edges (c_resolvers doc_config) ''dns'' = Inr []" "resolver_edges (c_resolvers doc_config) ''lan'' = Inr [''dns'']"
    by (simp_all add: t resolver_edges_def resolver_def_of_def plain_resolver_def
        resolver_references_def flatten_def map_filter_simps edge_target_def)
  moreover have "sort (List.map fst (c_resolvers doc_config)) = [''dns'', ''lan'']"
    unfolding t by code_simp
  ultimately show ?thesis by (simp add: resolver_build_order_def)
qed

lemma doc_valid: "config_validate sample_libs doc_config = Inr ()"
proof -
  have s: "is_resolver_ref ''@dns''" "is_resolver_ref ''@lan''" "\<not> is_resolver_ref ''system''" "trim ''@dns'' = ''@dns''"
    "trim ''@lan'' = ''@lan''" "trim ''system'' = ''system''" "trim ''edge.net'' = ''edge.net''"
    "endpoint_parse ''system'' = Inr EpSystem" "\<not> is_regex_ref ''a.com''" "\<not> starts_with ''~'' (trim ''a.com'')"
    "parse_upstream ''edge.net'' = Some \<lparr>us_host = FixedHost ''edge.net'', us_port = None\<rparr>"
    by code_simp+
  show ?thesis
    using s doc_order
    by (simp add: config_validate_def validate_verify_blocks_def validate_listeners_ok template_for_def validate_route_def
        route_validate_def upstream_spec_of_def opt_ok_def resolved_upstream_from_def effective_route_type_def cert_key_def
        validate_ech_def validate_http2_def validate_verify_def effective_verify_of_def verify_merge_def flatten_def
        map_filter_simps verify_validate_ok validate_resolvers_def resolver_refs_def common_refs_def ech_refs_def
        resolve_resolver_ref_def resolver_def_of_def validate_resolver_def Let_def resolver_effective_def names_itself_def
        validate_regexes_def validate_pattern_ref_def validate_pools_def validate_route_pool_def select_for_def
        all_routes_def unwrap_or_def doc_defs default_store_config_def default_leaf_validity_days_def
        default_renew_margin_days_def default_effective_verify_def del: check_all.simps)
qed


end
