(* ===== verification/Startup.thy ===== *)
theory Startup
  imports Proxy Probing Resolver Validate
begin

text \<open>
  Startup (\<open>src/src/main.rs\<close>): from a validated document to the listeners' states. Each step threads
  the resolver cache, the verifier factory and the collected probe targets, and stops at the first
  error.

  What startup reads from outside the document is the environment \<open>start_env\<close>: the certificate files,
  the operating system's resolver, the regex engine, and the answers other resolvers give while a
  resolver is built.
\<close>

section \<open>State and errors\<close>

text \<open>A resolver as the rest of the program holds it: its label, its plan and the swapped handle.\<close>

record 'r resolver_handle =
  rh_label :: string
  rh_plan :: "'r resolver_plan option"
  rh_state :: "'r dns_handle"

record 'r probe_target =
  pt_route :: string
  pt_host :: string
  pt_port :: nat
  pt_policy :: h2_probe
  pt_budget :: nat
  pt_resolver :: "'r resolver_handle"
  pt_family :: address_family
  pt_nat64 :: "nat64_prefix option"

record 'r start_state =
  sx_cache :: "string \<times> address_family \<Rightarrow> 'r live_resolver option"
  sx_verifiers :: "'r verifier_factory"
  sx_probes :: "'r probe_target list"

datatype pinned_error = PinnedRead string | PinnedParse string | PinnedEmpty string | PinnedNoKey string | PinnedKeyType string

datatype start_error =
    StConfig config_error
  | StResolverOrder resolver_error
  | StMissingType string
  | StUpstream string
  | StResolverUpstream string
  | StNat64 string nat64_error
  | StUnknownPool string string
  | StNoView string string
  | StBadReference string
  | StUnknownResolver string
  | StSpec anyhow
  | StVerifier string factory_error
  | StPinned string pinned_error
  | StRouter socket_addr Router.build_error
  | StEndpoint string endpoint_error
  | StBuild string Dnsresolver.build_error
  | StPoolUpstream string string
  | StProbe string probe_error
  | StTarget string nat target_error
  | StProbes "(string list \<times> string \<times> nat) list"
  | StPanic

record ('re, 'c, 'k, 'r) start_env =
  en_libs :: libs
  en_ech :: ech_lib
  en_anchors :: "string \<Rightarrow> 'r anchor_env"
  en_os :: "string \<Rightarrow> nat \<Rightarrow> socket_addr list option"
  en_accept :: "'r live_resolver \<Rightarrow> (anyhow, unit) result"
  en_compile :: "string \<Rightarrow> 're option"
  en_file :: "string \<Rightarrow> string option"
  en_certs :: "string \<Rightarrow> 'c list option"
  en_key :: "string \<Rightarrow> 'k option option"
  en_supported :: "'k \<Rightarrow> bool"
  en_world :: "string \<Rightarrow> 'r resolver_handle \<Rightarrow> 'r resolver_handle option \<Rightarrow> 'r build_world"
  en_hosts :: "ip_addr \<Rightarrow> nat \<Rightarrow> ip_addr list"
  en_draws :: "string \<Rightarrow> nat \<Rightarrow> nat \<Rightarrow> nat"

type_synonym ('r, 'a) starting = "'r start_state \<Rightarrow> 'r start_state \<times> (start_error, 'a) result"

definition start_return :: "'a \<Rightarrow> ('r, 'a) starting" where
  "start_return x s = (s, Inr x)"

definition start_lift :: "(start_error, 'a) result \<Rightarrow> ('r, 'a) starting" where
  "start_lift r s = (s, r)"

definition start_bind :: "('r, 'a) starting \<Rightarrow> ('a \<Rightarrow> ('r, 'b) starting) \<Rightarrow> ('r, 'b) starting" where
  "start_bind m f s = (case m s of (s1, Inl e) \<Rightarrow> (s1, Inl e) | (s1, Inr x) \<Rightarrow> f x s1)"

fun start_map :: "('a \<Rightarrow> ('r, 'b) starting) \<Rightarrow> 'a list \<Rightarrow> ('r, 'b list) starting" where
  "start_map f [] = start_return []"
| "start_map f (x # xs) = start_bind (f x) (\<lambda>y. start_bind (start_map f xs) (\<lambda>ys. start_return (y # ys)))"

definition err_map :: "('e \<Rightarrow> 'f) \<Rightarrow> ('e, 'a) result \<Rightarrow> ('f, 'a) result" where
  "err_map f r = map_sum f (\<lambda>x. x) r"

section \<open>Resolvers\<close>

type_synonym 'r registry = "string \<Rightarrow> 'r resolver_handle option"

definition inline_handle :: "string \<Rightarrow> 'r live_resolver \<Rightarrow> 'r resolver_handle" where
  "inline_handle label r =
     \<lparr>rh_label = label, rh_plan = None, rh_state = handle_new \<lparr>bt_resolver = r, bt_ech_bytes = None\<rparr>\<rparr>"

text \<open>A reference is looked up by its name; the family then is the resolver's own.\<close>

definition registered :: "'r registry \<Rightarrow> string \<Rightarrow> (start_error, 'r resolver_handle) result" where
  "registered registry spec =
     (case strip_prefix ''@'' (trim spec) of None \<Rightarrow> Inl (StBadReference spec)
      | Some name \<Rightarrow> ok_or (StUnknownResolver name) (registry name))"

definition get_resolver :: "('re, 'c, 'k, 'r) start_env \<Rightarrow> 'r registry \<Rightarrow> string \<Rightarrow> address_family
    \<Rightarrow> ('r, 'r resolver_handle) starting" where
  "get_resolver env registry spec family s =
     (if is_resolver_ref spec then (s, registered registry spec)
      else case sx_cache s (spec, family) of
        Some r \<Rightarrow> (s, Inr (inline_handle spec r))
      | None \<Rightarrow>
          (case res_bind (with_context (''resolver spec '' @ spec) (spec_parse (en_os env) spec))
                  (\<lambda>parsed. with_context (''building resolver '' @ spec) (spec_build (en_accept env) parsed family)) of
             Inl e \<Rightarrow> (s, Inl (StSpec e))
           | Inr r \<Rightarrow> (s\<lparr>sx_cache := (sx_cache s)((spec, family) := Some r)\<rparr>, Inr (inline_handle spec r))))"

text \<open>The verifier of one scope, from the factory shared by the process.\<close>

definition get_verifier :: "('re, 'c, 'k, 'r) start_env \<Rightarrow> string \<Rightarrow> effective_verify \<Rightarrow> ('r, 'r upstream_verify) starting" where
  "get_verifier env label policy s =
     (case factory_get (en_libs env) (en_anchors env label) policy (sx_verifiers s) of
        (fac, r) \<Rightarrow> (s\<lparr>sx_verifiers := fac\<rparr>, err_map (StVerifier label) r))"

section \<open>Routes\<close>

datatype 'r route_via = ViaResolver "'r resolver_handle" | ViaPool string nat

record ('c, 'k, 'r) built_route =
  bu_runtime :: "'r route_runtime"
  bu_via :: "'r route_via"
  bu_ech_resolver :: "'r resolver_handle option"
  bu_forwarding :: forwarding
  bu_pinned :: "('c list \<times> 'k) option"

definition fixed_host_of :: "resolved_upstream \<Rightarrow> string option" where
  "fixed_host_of resolved = (case ru_host resolved of FixedHost h \<Rightarrow> Some h | _ \<Rightarrow> None)"

definition route_nat64 :: "string \<Rightarrow> effective \<Rightarrow> (start_error, nat64_prefix option) result" where
  "route_nat64 label eff =
     (if ef_address_family eff = Ipv6Only then Inr None
      else case ef_nat64_prefix eff of None \<Rightarrow> Inr None
        | Some p \<Rightarrow> err_map (StNat64 label) (map_sum (\<lambda>e. e) Some (nat64_from_str p)))"

text \<open>Where the route sends connections: a view of a started pool, or a name and its resolver.\<close>

definition route_upstream :: "('re, 'c, 'k, 'r) start_env \<Rightarrow> 'r registry \<Rightarrow> (string \<Rightarrow> selector list list option) \<Rightarrow> string
    \<Rightarrow> selector list option \<Rightarrow> resolved_upstream \<Rightarrow> effective \<Rightarrow> nat64_prefix option
    \<Rightarrow> ('r, proxy_upstream \<times> 'r route_via \<times> upstream_identity) starting" where
  "route_upstream env registry pools label selectors resolved eff nat64 =
     (let addr_spec = unwrap_or [] (ef_addr_resolver eff) in
      case ru_host resolved of
        PoolRef name \<Rightarrow>
          (case pools name of None \<Rightarrow> start_lift (Inl (StUnknownPool label name))
           | Some views \<Rightarrow>
               (case view_for views selectors of None \<Rightarrow> start_lift (Inl (StNoView label name))
                | Some view \<Rightarrow> start_return (UpPool, ViaPool name view, Pool name)))
      | _ \<Rightarrow>
          start_bind (get_resolver env registry addr_spec (ef_address_family eff)) (\<lambda>resolver.
            start_return
              (UpDirect (fixed_host_of resolved) (ef_address_family eff) nat64, ViaResolver resolver,
               Direct (fixed_host_of resolved) (ef_address_family eff) (ef_nat64_prefix eff) addr_spec)))"

type_synonym 'r route_tls =
  "'r upstream_verify option \<times> 'r ech_provider option \<times> 'r client_configs option \<times> ech_identity option
   \<times> 'r resolver_handle option"

definition route_tls :: "('re, 'c, 'k, 'r) start_env \<Rightarrow> 'r registry \<Rightarrow> string \<Rightarrow> route_type \<Rightarrow> nat \<Rightarrow> sni_policy \<Rightarrow> effective
    \<Rightarrow> effective_ech \<Rightarrow> effective_verify \<Rightarrow> ('r, 'r route_tls) starting" where
  "route_tls env registry label ty port sni eff eff_ech eff_verify =
     (case ty of
        RtHttp \<Rightarrow> start_return (None, None, None, None, None)
      | RtRaw \<Rightarrow> start_return (None, None, None, None, None)
      | RtTls \<Rightarrow>
          start_bind (get_verifier env (''route '' @ label) eff_verify) (\<lambda>verify.
            start_return (Some verify, None, Some (client_configs_new verify (sni \<noteq> SniOmit)), None, None))
      | RtEch \<Rightarrow>
          start_bind (get_verifier env (''route '' @ label) eff_verify) (\<lambda>verify.
            let ech_spec = (case ef_ech_resolver eff of Some s \<Rightarrow> s
                              | None \<Rightarrow> unwrap_or ''system'' (ef_addr_resolver eff)) in
            start_bind (get_resolver env registry ech_spec Dual) (\<lambda>resolver.
              start_return
                (Some verify,
                 Some \<lparr>pv_settings = eff_ech, pv_port = port, pv_require = ef_require_ech eff, pv_sni = (sni \<noteq> SniOmit),
                       pv_verify = verify, pv_bound = ef_ech_refresh eff\<rparr>,
                 None,
                 Some \<lparr>ei_mode = ee_mode eff_ech, ei_domain = ee_ech_domain eff_ech, ei_resolver = ech_spec,
                       ei_inline_config = (ee_config eff_ech \<noteq> None)\<rparr>,
                 Some resolver))))"

definition push_probe :: "'r probe_target \<Rightarrow> ('r, unit) starting" where
  "push_probe t s = (s\<lparr>sx_probes := sx_probes s @ [t]\<rparr>, Inr ())"

text \<open>Only an \<open>http\<close> route with a fixed backend is checked for HTTP/2 at startup.\<close>

definition route_probe :: "string \<Rightarrow> route_type \<Rightarrow> effective_http2 \<Rightarrow> nat \<Rightarrow> effective \<Rightarrow> nat64_prefix option
    \<Rightarrow> string option \<Rightarrow> 'r route_via \<Rightarrow> ('r, unit) starting" where
  "route_probe label ty h2 port eff nat64 fixed via =
     (if eh_enabled h2 \<and> ty = RtHttp \<and> eh_probe h2 \<noteq> H2Off then
        (case (via, fixed) of
           (ViaResolver resolver, Some h) \<Rightarrow>
             push_probe \<lparr>pt_route = label, pt_host = h, pt_port = port, pt_policy = eh_probe h2,
               pt_budget = eh_probe_timeout h2, pt_resolver = resolver, pt_family = ef_address_family eff, pt_nat64 = nat64\<rparr>
         | _ \<Rightarrow> start_return ())
      else start_return ())"

definition load_pinned_certificate :: "('re, 'c, 'k, 'r) start_env \<Rightarrow> string \<Rightarrow> string
    \<Rightarrow> (pinned_error, 'c list \<times> 'k) result" where
  "load_pinned_certificate env cert_file key_file =
     res_bind (ok_or (PinnedRead cert_file) (en_file env cert_file)) (\<lambda>cert_pem.
     res_bind (ok_or (PinnedRead key_file) (en_file env key_file)) (\<lambda>key_pem.
     res_bind (ok_or (PinnedParse cert_file) (en_certs env cert_pem)) (\<lambda>chain.
     res_bind (require (chain \<noteq> []) (PinnedEmpty cert_file)) (\<lambda>_.
     res_bind (ok_or (PinnedParse key_file) (en_key env key_pem)) (\<lambda>key.
     res_bind (ok_or (PinnedNoKey key_file) key) (\<lambda>key.
     res_bind (require (en_supported env key) (PinnedKeyType key_file)) (\<lambda>_. Inr (chain, key))))))))"

definition route_pinned :: "('re, 'c, 'k, 'r) start_env \<Rightarrow> string \<Rightarrow> string option \<times> string option
    \<Rightarrow> (start_error, ('c list \<times> 'k) option) result" where
  "route_pinned env label pair =
     (case pair of
        (Some cert, Some key) \<Rightarrow>
          err_map (StPinned label) (map_sum (\<lambda>e. e) Some (load_pinned_certificate env cert key))
      | _ \<Rightarrow> Inr None)"

text \<open>The route's runtime and the identity its certificates are keyed by.\<close>

definition assemble_route :: "string \<Rightarrow> effective \<Rightarrow> effective_ech \<Rightarrow> effective_verify \<Rightarrow> effective_http2 \<Rightarrow> route_type \<Rightarrow> nat
    \<Rightarrow> sni_policy \<Rightarrow> proxy_upstream \<Rightarrow> 'r route_via \<Rightarrow> upstream_identity \<Rightarrow> 'r route_tls \<Rightarrow> ('c list \<times> 'k) option
    \<Rightarrow> ('c, 'k, 'r) built_route" where
  "assemble_route label eff eff_ech eff_verify h2 ty port sni upstream via identity artifacts pinned =
     (let (verify, ech, tls, ech_identity, ech_resolver) = artifacts in
       \<lparr>bu_runtime = \<lparr>rr_name = label, rr_type = ty, rr_upstream = upstream, rr_port = port, rr_sni_policy = sni,
          rr_http2 = eh_enabled h2, rr_require_ech = ef_require_ech eff, rr_max_retries = ee_max_retries eff_ech,
          rr_connect_timeout = ef_connect_timeout eff, rr_idle_timeout = ef_idle_timeout eff, rr_fail = ef_fail eff,
          rr_ech = ech, rr_verify = verify, rr_tls = tls\<rparr>,
        bu_via = via, bu_ech_resolver = ech_resolver,
        bu_forwarding = \<lparr>fw_route_type = ty, fw_upstream = identity, fw_port = port, fw_sni = sni,
          fw_ech = ech_identity, fw_verify = eff_verify\<rparr>,
        bu_pinned = pinned\<rparr>)"

definition build_route :: "('re, 'c, 'k, 'r) start_env \<Rightarrow> config \<Rightarrow> 'r registry \<Rightarrow> (string \<Rightarrow> selector list list option)
    \<Rightarrow> listener \<Rightarrow> route \<Rightarrow> ('r, ('c, 'k, 'r) built_route) starting" where
  "build_route env c registry pools lis rt =
     start_bind (start_lift (err_map StConfig (template_for c (rt_use_template rt)))) (\<lambda>rt_tpl.
     start_bind (start_lift (err_map StConfig (template_for c (ln_use_template lis)))) (\<lambda>ln_tpl.
     let label = route_label rt; eff = effective_of c lis rt rt_tpl ln_tpl in
     start_bind (start_lift (ok_or (StMissingType label) (effective_route_type rt rt_tpl))) (\<lambda>ty.
     start_bind (start_lift (ok_or (StUpstream label)
         (resolved_upstream_from (upstream_spec_of rt rt_tpl) (sock_port (ln_addr lis))))) (\<lambda>resolved.
     let port = ru_port resolved; sni = sni_policy_of rt rt_tpl in
     start_bind (start_lift (route_nat64 label eff)) (\<lambda>nat64.
     start_bind (route_upstream env registry pools label (select_for rt rt_tpl) resolved eff nat64) (\<lambda>(upstream, via, identity).
     let eff_ech = effective_ech_of c lis rt rt_tpl ln_tpl; eff_verify = effective_verify_of c lis rt rt_tpl ln_tpl in
     start_bind (route_tls env registry label ty port sni eff eff_ech eff_verify) (\<lambda>(verify, ech, tls, ech_identity, ech_resolver).
     let h2 = effective_http2_of c lis rt rt_tpl ln_tpl in
     start_bind (route_probe label ty h2 port eff nat64 (fixed_host_of resolved) via) (\<lambda>_.
     start_bind (start_lift (route_pinned env label (cert_key rt rt_tpl))) (\<lambda>pinned.
     start_return (assemble_route label eff eff_ech eff_verify h2 ty port sni
       upstream via identity (verify, ech, tls, ech_identity, ech_resolver) pinned))))))))))"

section \<open>Listeners\<close>

record ('re, 'c, 'k, 'r) built_listener =
  bl_addr :: socket_addr
  bl_state :: "('re, 'r) listener_state"
  bl_built :: "('c, 'k, 'r) built_route list"
  bl_certs :: "('c, 'k, 're) dynamic_resolver"

definition listener_patterns :: "listener \<Rightarrow> string list list" where
  "listener_patterns lis =
     List.map rt_match_sni (ln_routes lis) @ (case ln_default_route lis of None \<Rightarrow> [] | Some _ \<Rightarrow> [[]])"

definition default_id :: "listener \<Rightarrow> nat option" where
  "default_id lis = map_option (\<lambda>_. length (ln_routes lis)) (ln_default_route lis)"

definition build_listener :: "('re, 'c, 'k, 'r) start_env \<Rightarrow> config \<Rightarrow> 'r registry \<Rightarrow> (string \<Rightarrow> selector list list option)
    \<Rightarrow> listener \<Rightarrow> ('r, ('re, 'c, 'k, 'r) built_listener) starting" where
  "build_listener env c registry pools lis =
     start_bind (start_map (build_route env c registry pools lis) (all_routes lis)) (\<lambda>built.
     let patterns = listener_patterns lis; dflt = default_id lis in
     start_bind (start_lift (err_map (StRouter (ln_addr lis))
         (build (en_compile env) patterns dflt (map_of (c_regexes c))))) (\<lambda>router.
     let router_fp = router_fingerprint patterns dflt (c_regexes c);
         scopes = List.map (\<lambda>b. cert_scope router_fp (bu_forwarding b)) built in
     start_return
       \<lparr>bl_addr = ln_addr lis,
        bl_state = \<lparr>ls_router = router, ls_routes = List.map bu_runtime built, ls_unmatched = g_unmatched (c_global c)\<rparr>,
        bl_built = built,
        bl_certs = \<lparr>dr_router = router, dr_scopes = scopes, dr_pinned = List.map bu_pinned built\<rparr>\<rparr>))"

text \<open>The domain a pattern is warned about: its last two labels, without wildcard and leading dots.\<close>

function trim_wildcards :: "string \<Rightarrow> string" where
  "trim_wildcards s = (case strip_prefix ''*.'' s of None \<Rightarrow> s | Some r \<Rightarrow> trim_wildcards r)"
  by pat_completeness auto
termination
  by (relation "measure length") (auto simp: strip_prefix_Some)

declare trim_wildcards.simps [simp del]

definition two_labels :: "string \<Rightarrow> string option" where
  "two_labels base0 =
     (let base = dropWhile (\<lambda>c. c = CHR ''.'') (trim_wildcards base0) in
      if base = [] \<or> CHR ''^'' \<in> set base \<or> CHR 0x5C \<in> set base then None
      else
        (let labels = split_char CHR ''.'' base in
         if 2 \<le> length labels then Some (join ''.'' (drop (length labels - 2) labels)) else None))"

definition pattern_apex :: "config \<Rightarrow> string \<Rightarrow> string list" where
  "pattern_apex c pat0 =
     (let pat = trim pat0 in
      case strip_prefix ''@'' pat of
        Some name \<Rightarrow>
          (case regex_def_of c name of Inl e \<Rightarrow> []
           | Inr d \<Rightarrow> List.map_filter (\<lambda>scope. two_labels (trim scope)) (rd_scope_suffix d))
      | None \<Rightarrow> (case two_labels pat of None \<Rightarrow> [] | Some a \<Rightarrow> [a]))"

text \<open>The warnings: the domain of a raw route, its name, and the terminating routes under the same domain.\<close>

definition apexes :: "config \<Rightarrow> bool \<Rightarrow> ('r route_runtime \<times> string list) list \<Rightarrow> (string \<times> string) list" where
  "apexes c raw routes =
     concat (List.map (\<lambda>(rt, pats). if (rr_type rt = RtRaw) = raw
        then concat (List.map (\<lambda>pat. List.map (\<lambda>a. (a, rr_name rt)) (pattern_apex c pat)) pats) else []) routes)"

definition warn_on_raw_overlap :: "config \<Rightarrow> 'r route_runtime list \<Rightarrow> string list list
    \<Rightarrow> (string \<times> string \<times> string list) list" where
  "warn_on_raw_overlap c runtimes patterns =
     (let routes = zip runtimes patterns; term_apexes = apexes c False routes in
      List.map_filter (\<lambda>(apex, raw_route).
          let clashing = List.map snd (filter (\<lambda>(a, _). a = apex) term_apexes) in
          if clashing = [] then None else Some (apex, raw_route, clashing))
        (apexes c True routes))"

section \<open>Checking HTTP/2 backends\<close>

record probe_key =
  pk_host :: string
  pk_port :: nat
  pk_family :: address_family
  pk_nat64 :: "nat64_prefix option"
  pk_resolver :: string

record 'r probe_group =
  pg_routes :: "string list"
  pg_policy :: h2_probe
  pg_budget :: nat
  pg_resolver :: "'r resolver_handle"

fun stricter :: "h2_probe \<Rightarrow> h2_probe \<Rightarrow> h2_probe" where
  "stricter a b =
     (if a = H2Require \<or> b = H2Require then H2Require
      else if a = H2Warn \<or> b = H2Warn then H2Warn else H2Off)"

definition key_of :: "'r probe_target \<Rightarrow> probe_key" where
  "key_of t = \<lparr>pk_host = pt_host t, pk_port = pt_port t, pk_family = pt_family t, pk_nat64 = pt_nat64 t,
     pk_resolver = rh_label (pt_resolver t)\<rparr>"

definition add_target :: "'r probe_target \<Rightarrow> (probe_key \<times> 'r probe_group) list \<Rightarrow> (probe_key \<times> 'r probe_group) list" where
  "add_target t groups =
     (let key = key_of t;
          grp = (case map_of groups key of Some g \<Rightarrow> g
            | None \<Rightarrow> \<lparr>pg_routes = [], pg_policy = H2Off, pg_budget = 0, pg_resolver = pt_resolver t\<rparr>) in
      AList.update key
        (grp\<lparr>pg_routes := pg_routes grp @ [pt_route t], pg_policy := stricter (pg_policy grp) (pt_policy t),
               pg_budget := max (pg_budget grp) (pt_budget t)\<rparr>) groups)"

definition group_probe_targets :: "'r probe_target list \<Rightarrow> (probe_key \<times> 'r probe_group) list" where
  "group_probe_targets targets = fold add_target targets []"

text \<open>What a grp's probe meets: the lookup through its resolver, and its peers within the budget.\<close>

record 'r probe_world =
  pw_lookup :: "'r resolver_handle \<Rightarrow> string \<Rightarrow> nat \<Rightarrow> address_family \<Rightarrow> nat64_prefix option \<Rightarrow> (anyhow, resolved_addrs) result"
  pw_peer :: "nat \<Rightarrow> socket_addr \<Rightarrow> h2c_peer"

definition probe_group_ok :: "'r probe_world \<Rightarrow> probe_key \<times> 'r probe_group \<Rightarrow> bool" where
  "probe_group_ok w kg =
     (let (key, grp) = kg in
      case pw_lookup w (pg_resolver grp) (pk_host key) (pk_port key) (pk_family key) (pk_nat64 key) of
        Inl e \<Rightarrow> False
      | Inr addrs \<Rightarrow> probe_h2c (pw_peer w (pg_budget grp)) addrs = Inr ())"

text \<open>The verdicts in the order the probes finish. A failing grp of policy \<open>off\<close> is a panic.\<close>

fun collect_failures :: "'r probe_world \<Rightarrow> (probe_key \<times> 'r probe_group) list
    \<Rightarrow> (start_error, (string list \<times> string \<times> nat) list) result" where
  "collect_failures w [] = Inr []"
| "collect_failures w ((key, grp) # rest) =
     (if probe_group_ok w (key, grp) then collect_failures w rest
      else if pg_policy grp = H2Off then Inl StPanic
      else res_bind (collect_failures w rest) (\<lambda>failures.
        Inr (if pg_policy grp = H2Require then (pg_routes grp, pk_host key, pk_port key) # failures else failures)))"

definition run_probes :: "'r probe_world \<Rightarrow> ((probe_key \<times> 'r probe_group) list \<Rightarrow> (probe_key \<times> 'r probe_group) list)
    \<Rightarrow> 'r probe_target list \<Rightarrow> (start_error, unit) result" where
  "run_probes w finish targets =
     (if targets = [] then Inr ()
      else res_bind (collect_failures w (finish (group_probe_targets targets))) (\<lambda>failures.
        if failures = [] then Inr () else Inl (StProbes failures)))"

section \<open>Facts\<close>

text \<open>The bind of a start step.\<close>

lemma start_bind_ok:
  "start_bind m f s = (s', Inr y) \<longleftrightarrow> (\<exists>s1 x. m s = (s1, Inr x) \<and> f x s1 = (s', Inr y))"
  by (auto simp: start_bind_def split: prod.splits sum.splits)

lemma start_return_ok [simp]: "start_return x s = (s', Inr y) \<longleftrightarrow> s' = s \<and> y = x"
  by (auto simp: start_return_def)

lemma start_lift_ok [simp]: "start_lift r s = (s', Inr y) \<longleftrightarrow> s' = s \<and> r = Inr y"
  by (auto simp: start_lift_def)

lemma err_map_ok [simp]: "err_map f r = Inr y \<longleftrightarrow> r = Inr y"
  by (cases r) (simp_all add: err_map_def)

lemma start_map_nth:
  assumes "start_map f xs s = (s', Inr ys)" and pre: "I s"
    and step: "\<forall>x\<in>set xs. \<forall>s s1 y. I s \<and> f x s = (s1, Inr y) \<longrightarrow> I s1"
  shows "I s' \<and> length ys = length xs
    \<and> (\<forall>i<length xs. \<exists>s0 s1. I s0 \<and> f (xs ! i) s0 = (s1, Inr (ys ! i)))"
  using assms
proof (induction xs arbitrary: s ys)
  case Nil
  then show ?case by simp
next
  case (Cons x xs)
  obtain s1 y zs where y: "f x s = (s1, Inr y)" "start_map f xs s1 = (s', Inr zs)" "ys = y # zs"
    using Cons.prems(1) by (auto simp: start_bind_ok)
  have now: "\<forall>s s1 y. I s \<and> f x s = (s1, Inr y) \<longrightarrow> I s1"
    and later: "\<forall>x\<in>set xs. \<forall>s s1 y. I s \<and> f x s = (s1, Inr y) \<longrightarrow> I s1"
    using Cons.prems(3) unfolding list.set ball_simps by blast+
  have "I s1" using now Cons.prems(2) y(1) by blast
  note ih = Cons.IH [OF y(2) this later]
  have "\<exists>s0 s1. I s0 \<and> f ((x # xs) ! i) s0 = (s1, Inr (ys ! i))" if "i < length (x # xs)" for i
    using that ih y Cons.prems(2) by (cases i) auto
  then show ?case using ih y(3) by simp
qed

text \<open>A router only names routes it was built from.\<close>

definition ids_below :: "nat \<Rightarrow> 're router \<Rightarrow> bool" where
  "ids_below n r \<longleftrightarrow> (\<forall>(k, i)\<in>set (r_exact r) \<union> set (r_wildcard r) \<union> set (r_suffix r). i < n)
     \<and> (\<forall>x\<in>set (r_regex r). rx_route x < n)"

lemma add_pattern_ids:
  "add_pattern rxc rgs i p r = Inr r' \<Longrightarrow> i < n \<Longrightarrow> ids_below n r \<Longrightarrow> ids_below n r' \<and> r_default r' = r_default r"
  by (auto simp: add_pattern_def insert_unique_def ids_below_def Let_def split: option.splits if_splits)

lemma add_patterns_ids:
  "add_patterns rxc rgs i ps r = Inr r' \<Longrightarrow> i < n \<Longrightarrow> ids_below n r \<Longrightarrow> ids_below n r' \<and> r_default r' = r_default r"
  by (induction ps arbitrary: r) (fastforce dest: add_pattern_ids split: sum.splits)+

lemma add_routes_ids:
  "add_routes rxc rgs base pss r = Inr r' \<Longrightarrow> base + length pss \<le> n \<Longrightarrow> ids_below n r
    \<Longrightarrow> ids_below n r' \<and> r_default r' = r_default r"
proof (induction pss arbitrary: r base)
  case (Cons ps pss)
  obtain r1 where r1: "add_patterns rxc rgs base ps r = Inr r1" "add_routes rxc rgs (Suc base) pss r1 = Inr r'"
    using Cons.prems(1) by (auto split: sum.splits)
  have "ids_below n r1 \<and> r_default r1 = r_default r" using add_patterns_ids [OF r1(1), of n] Cons.prems(2,3) by simp
  then show ?case using Cons.IH [OF r1(2)] Cons.prems(2) by simp
qed simp

lemma build_ids:
  assumes "build rxc pss dflt rgs = Inr r"
  shows "ids_below (length pss) r \<and> r_default r = dflt"
  using add_routes_ids [OF assms [unfolded build_def], of "length pss"] by (simp add: ids_below_def)

lemma suffix_walk_in: "suffix_walk m h = Some (k, i) \<Longrightarrow> (k, i) \<in> set m"
proof (induction m h rule: suffix_walk.induct)
  case (1 m cur)
  show ?case
  proof (cases "map_of m cur")
    case None
    then obtain a b where "split_once CHR ''.'' cur = Some (a, b)" "suffix_walk m b = Some (k, i)"
      using "1.prems" by (subst (asm) suffix_walk.simps) (auto split: option.splits prod.splits)
    then show ?thesis using "1.IH" [OF None] by blast
  next
    case (Some j)
    then show ?thesis using "1.prems" by (subst (asm) suffix_walk.simps) (auto dest: map_of_SomeD)
  qed
qed

lemma match_host_below:
  assumes "ids_below n r" "match_host rxm r h = Some i"
  shows "i < n \<or> r_default r = Some i"
  using assms
  by (fastforce simp: match_host_def ids_below_def Let_def
      dest: map_of_SomeD suffix_walk_in regex_tier_Some split: option.splits if_splits prod.splits)

text \<open>Every verifier handed out was built for its own policy, and no target of policy \<open>off\<close> is collected.\<close>

definition start_ok :: "('re, 'c, 'k, 'r) start_env \<Rightarrow> 'r list \<Rightarrow> 'r start_state \<Rightarrow> bool" where
  "start_ok env webpki s \<longleftrightarrow>
     factory_inv (en_libs env) webpki {(en_anchors env l, p) | l p. True} (sx_verifiers s)
     \<and> (\<forall>t\<in>set (sx_probes s). pt_policy t \<noteq> H2Off)"

definition start_state_new :: "'r list \<Rightarrow> 'r start_state" where
  "start_state_new webpki = \<lparr>sx_cache = (\<lambda>_. None), sx_verifiers = new_factory webpki, sx_probes = []\<rparr>"

lemma start_ok_new: "start_ok env webpki (start_state_new webpki)"
  by (simp add: start_ok_def start_state_new_def factory_inv_def new_factory_def)

definition built_for :: "('re, 'c, 'k, 'r) start_env \<Rightarrow> 'r list \<Rightarrow> effective_verify \<Rightarrow> 'r upstream_verify \<Rightarrow> bool" where
  "built_for env webpki policy v \<longleftrightarrow> (\<exists>l. verifier_build (en_libs env) (en_anchors env l) webpki policy = Inr v)"

lemma get_verifier_ok:
  assumes "get_verifier env l policy s = (s', r)" "start_ok env webpki s"
  shows "start_ok env webpki s' \<and> sx_probes s' = sx_probes s \<and> (\<forall>v. r = Inr v \<longrightarrow> built_for env webpki policy v)"
proof -
  obtain fac out where g: "factory_get (en_libs env) (en_anchors env l) policy (sx_verifiers s) = (fac, out)" by fastforce
  have mem: "(en_anchors env l, policy) \<in> {(en_anchors env l, p) | l p. True}" by blast
  have inv: "factory_inv (en_libs env) webpki {(en_anchors env l, p) | l p. True} (sx_verifiers s)"
    using assms(2) by (simp add: start_ok_def)
  note parts = factory_get_inv [OF inv g mem]
  have s': "s' = s\<lparr>sx_verifiers := fac\<rparr>" "r = err_map (StVerifier l) out"
    using assms(1) g by (simp_all add: get_verifier_def)
  have "built_for env webpki policy v" if "r = Inr v" for v
  proof -
    have "map_of (vf_cache fac) policy = Some v" using parts(3) that s'(2) by simp
    then show ?thesis using parts(1) unfolding factory_inv_def built_for_def by blast
  qed
  then show ?thesis using parts(1) s'(1) assms(2) by (simp add: start_ok_def)
qed

lemma get_resolver_frame:
  "get_resolver env registry spec family s = (s', r) \<Longrightarrow>
     start_ok env webpki s' = start_ok env webpki s \<and> sx_probes s' = sx_probes s"
  by (auto simp: get_resolver_def start_ok_def split: if_splits option.splits sum.splits)

lemma route_upstream_frame:
  "route_upstream env registry pools label sel resolved eff nat64 s = (s', r) \<Longrightarrow> start_ok env webpki s' = start_ok env webpki s"
  by (auto simp: route_upstream_def start_bind_def start_lift_def start_return_def Let_def
      dest!: get_resolver_frame [of env _ _ _ _ _ _ webpki] split: upstream_host.splits option.splits prod.splits sum.splits)

lemma route_upstream_ok:
  assumes "route_upstream env registry pools label sel resolved eff nat64 s = (s', Inr (up, via, identity))"
  shows "(case ru_host resolved of
      PoolRef name \<Rightarrow> up = UpPool \<and> identity = Pool name
        \<and> (\<exists>views view. pools name = Some views \<and> view_for views sel = Some view \<and> via = ViaPool name view)
    | _ \<Rightarrow> up = UpDirect (fixed_host_of resolved) (ef_address_family eff) nat64
        \<and> identity = Direct (fixed_host_of resolved) (ef_address_family eff) (ef_nat64_prefix eff) (unwrap_or [] (ef_addr_resolver eff))
        \<and> (\<exists>h. via = ViaResolver h))"
  using assms by (auto simp: route_upstream_def start_bind_ok Let_def split: upstream_host.splits option.splits)

text \<open>The TLS half of a route is what its data path relies on.\<close>

lemma route_tls_ok:
  assumes "route_tls env registry label ty port sni eff eff_ech eff_verify s = (s', Inr (verify, ech, tls, idn, res))"
    and ok: "start_ok env webpki s"
  shows "start_ok env webpki s' \<and> sx_probes s' = sx_probes s
    \<and> (\<forall>v. verify = Some v \<longrightarrow> built_for env webpki eff_verify v)
    \<and> (ty = RtTls \<longrightarrow> (\<exists>v. verify = Some v \<and> tls = Some (client_configs_new v (sni \<noteq> SniOmit))) \<and> ech = None)
    \<and> (ty = RtEch \<longrightarrow> (\<exists>pv v. ech = Some pv \<and> verify = Some v \<and> pv_verify pv = v \<and> pv_require pv = ef_require_ech eff
          \<and> pv_sni pv = (sni \<noteq> SniOmit) \<and> pv_settings pv = eff_ech \<and> pv_port pv = port))
    \<and> (ty \<notin> {RtTls, RtEch} \<longrightarrow> verify = None \<and> ech = None)
    \<and> (idn = None \<longleftrightarrow> ty \<noteq> RtEch)"
proof (cases ty)
  case RtTls
  then obtain v where "get_verifier env (''route '' @ label) eff_verify s = (s', Inr v)" "verify = Some v" "ech = None"
      "tls = Some (client_configs_new v (sni \<noteq> SniOmit))" "idn = None"
    using assms(1) by (auto simp: route_tls_def start_bind_ok)
  then show ?thesis using get_verifier_ok [OF _ ok] RtTls by blast
next
  case RtEch
  then obtain v s1 h spec where v: "get_verifier env (''route '' @ label) eff_verify s = (s1, Inr v)"
      "get_resolver env registry spec Dual s1 = (s', Inr h)" "verify = Some v" "idn \<noteq> None"
      "ech = Some \<lparr>pv_settings = eff_ech, pv_port = port, pv_require = ef_require_ech eff, pv_sni = (sni \<noteq> SniOmit),
                       pv_verify = v, pv_bound = ef_ech_refresh eff\<rparr>"
    using assms(1) by (auto simp: route_tls_def start_bind_ok Let_def)
  then show ?thesis using get_verifier_ok [OF v(1) ok] get_resolver_frame [OF v(2), of webpki] RtEch by simp
qed (use assms in \<open>auto simp: route_tls_def\<close>)

text \<open>A built route says what the document says: its settings are the effective ones, its verifier was
  built for its effective policy, and the identity its certificates are keyed by describes the
  destination its data path dials.\<close>

definition as_configured :: "('re, 'c, 'k, 'r) start_env \<Rightarrow> 'r list \<Rightarrow> config \<Rightarrow> (string \<Rightarrow> selector list list option)
    \<Rightarrow> listener \<Rightarrow> route \<Rightarrow> ('c, 'k, 'r) built_route \<Rightarrow> bool" where
  "as_configured env webpki c pools lis rt b \<longleftrightarrow> (\<exists>rt_tpl ln_tpl resolved nat64.
     template_for c (rt_use_template rt) = Inr rt_tpl \<and> template_for c (ln_use_template lis) = Inr ln_tpl
     \<and> effective_route_type rt rt_tpl = Some (rr_type (bu_runtime b))
     \<and> resolved_upstream_from (upstream_spec_of rt rt_tpl) (sock_port (ln_addr lis)) = Some resolved
     \<and> (let eff = effective_of c lis rt rt_tpl ln_tpl; policy = effective_verify_of c lis rt rt_tpl ln_tpl;
            r = bu_runtime b; f = bu_forwarding b in
        rr_port r = ru_port resolved \<and> rr_sni_policy r = sni_policy_of rt rt_tpl
        \<and> rr_require_ech r = ef_require_ech eff \<and> rr_fail r = ef_fail eff \<and> rr_connect_timeout r = ef_connect_timeout eff
        \<and> rr_http2 r = eh_enabled (effective_http2_of c lis rt rt_tpl ln_tpl)
        \<and> rr_max_retries r = ee_max_retries (effective_ech_of c lis rt rt_tpl ln_tpl)
        \<and> (\<forall>v. rr_verify r = Some v \<longrightarrow> built_for env webpki policy v)
        \<and> route_nat64 (route_label rt) eff = Inr nat64
        \<and> (case ru_host resolved of
             PoolRef name \<Rightarrow> rr_upstream r = UpPool \<and> fw_upstream f = Pool name
               \<and> (\<exists>views view. pools name = Some views \<and> bu_via b = ViaPool name view \<and> view < length views
                    \<and> views ! view = unwrap_or [] (select_for rt rt_tpl))
           | _ \<Rightarrow> rr_upstream r = UpDirect (fixed_host_of resolved) (ef_address_family eff) nat64
               \<and> fw_upstream f = Direct (fixed_host_of resolved) (ef_address_family eff) (ef_nat64_prefix eff)
                    (unwrap_or [] (ef_addr_resolver eff)))
        \<and> fw_route_type f = rr_type r \<and> fw_port f = rr_port r \<and> fw_sni f = rr_sni_policy r \<and> fw_verify f = policy
        \<and> (fw_ech f = None \<longleftrightarrow> rr_type r \<noteq> RtEch)))"

lemma view_for_nth: "view_for views sel = Some v \<Longrightarrow> v < length views \<and> views ! v = unwrap_or [] sel"
proof -
  have pos: "position P xs = Some i \<Longrightarrow> i < length xs \<and> P (xs ! i)" for P and xs :: "selector list list" and i
    by (induction xs arbitrary: i) (auto split: if_splits option.splits)
  assume "view_for views sel = Some v"
  then show ?thesis using pos by (fastforce simp: view_for_def unwrap_or_def)
qed

lemma build_route_parts:
  assumes "build_route env c registry pools lis rt s = (s', Inr b)"
  shows "\<exists>rt_tpl ln_tpl ty resolved nat64 s1 up via identity s2 artifacts s3 u pinned.
    template_for c (rt_use_template rt) = Inr rt_tpl \<and> template_for c (ln_use_template lis) = Inr ln_tpl
    \<and> ok_or (StMissingType (route_label rt)) (effective_route_type rt rt_tpl) = Inr ty
    \<and> ok_or (StUpstream (route_label rt)) (resolved_upstream_from (upstream_spec_of rt rt_tpl) (sock_port (ln_addr lis))) = Inr resolved
    \<and> route_nat64 (route_label rt) (effective_of c lis rt rt_tpl ln_tpl) = Inr nat64
    \<and> route_upstream env registry pools (route_label rt) (select_for rt rt_tpl) resolved
        (effective_of c lis rt rt_tpl ln_tpl) nat64 s = (s1, Inr (up, via, identity))
    \<and> route_tls env registry (route_label rt) ty (ru_port resolved) (sni_policy_of rt rt_tpl)
        (effective_of c lis rt rt_tpl ln_tpl) (effective_ech_of c lis rt rt_tpl ln_tpl)
        (effective_verify_of c lis rt rt_tpl ln_tpl) s1 = (s2, Inr artifacts)
    \<and> route_probe (route_label rt) ty (effective_http2_of c lis rt rt_tpl ln_tpl) (ru_port resolved)
        (effective_of c lis rt rt_tpl ln_tpl) nat64 (fixed_host_of resolved) via s2 = (s3, Inr u)
    \<and> s' = s3
    \<and> b = assemble_route (route_label rt) (effective_of c lis rt rt_tpl ln_tpl) (effective_ech_of c lis rt rt_tpl ln_tpl)
        (effective_verify_of c lis rt rt_tpl ln_tpl) (effective_http2_of c lis rt rt_tpl ln_tpl) ty (ru_port resolved)
        (sni_policy_of rt rt_tpl) up via identity artifacts pinned"
  using assms unfolding build_route_def Let_def start_bind_ok start_lift_ok start_return_ok err_map_ok split_paired_Ex prod.case
  by (clarify, intro exI conjI) (assumption | rule refl)+

lemma build_route_ok:
  assumes b: "build_route env c registry pools lis rt s = (s', Inr b)" and ok: "start_ok env webpki s"
  shows "start_ok env webpki s'" "runtime_ok (bu_runtime b)" "as_configured env webpki c pools lis rt b"
proof -
  obtain rt_tpl ln_tpl ty resolved nat64 s1 up via identity s2 verify ech tls idn res s3 u pinned where
    tpl: "template_for c (rt_use_template rt) = Inr rt_tpl" "template_for c (ln_use_template lis) = Inr ln_tpl"
      "ok_or (StMissingType (route_label rt)) (effective_route_type rt rt_tpl) = Inr ty"
      "ok_or (StUpstream (route_label rt)) (resolved_upstream_from (upstream_spec_of rt rt_tpl) (sock_port (ln_addr lis))) = Inr resolved"
      "route_nat64 (route_label rt) (effective_of c lis rt rt_tpl ln_tpl) = Inr nat64"
    and up: "route_upstream env registry pools (route_label rt) (select_for rt rt_tpl) resolved
      (effective_of c lis rt rt_tpl ln_tpl) nat64 s = (s1, Inr (up, via, identity))"
    and tls: "route_tls env registry (route_label rt) ty (ru_port resolved) (sni_policy_of rt rt_tpl)
      (effective_of c lis rt rt_tpl ln_tpl) (effective_ech_of c lis rt rt_tpl ln_tpl)
      (effective_verify_of c lis rt rt_tpl ln_tpl) s1 = (s2, Inr (verify, ech, tls, idn, res))"
    and probe: "route_probe (route_label rt) ty (effective_http2_of c lis rt rt_tpl ln_tpl) (ru_port resolved)
      (effective_of c lis rt rt_tpl ln_tpl) nat64 (fixed_host_of resolved) via s2 = (s3, Inr u)" "s' = s3"
    and b': "b = assemble_route (route_label rt) (effective_of c lis rt rt_tpl ln_tpl) (effective_ech_of c lis rt rt_tpl ln_tpl)
        (effective_verify_of c lis rt rt_tpl ln_tpl) (effective_http2_of c lis rt rt_tpl ln_tpl) ty (ru_port resolved)
        (sni_policy_of rt rt_tpl) up via identity (verify, ech, tls, idn, res) pinned"
    using build_route_parts [OF b] unfolding split_paired_Ex by (elim exE conjE)
  have some: "x = Some y" if "ok_or e x = Inr y" for e :: start_error and x :: "'x option" and y
    using that by (cases x) simp_all
  note typed = some [OF tpl(3)] some [OF tpl(4)]
  have ok1: "start_ok env webpki s1" using route_upstream_frame [OF up, of webpki] ok by simp
  note t = route_tls_ok [OF tls ok1]
  show "start_ok env webpki s'"
    using t probe by (auto simp: route_probe_def push_probe_def start_return_def start_ok_def split: if_splits route_via.splits option.splits)
  show "runtime_ok (bu_runtime b)" using t b' by (auto simp: runtime_ok_def assemble_route_def)
  have u: "(case ru_host resolved of
             PoolRef name \<Rightarrow> up = UpPool \<and> identity = Pool name
               \<and> (\<exists>views view. pools name = Some views \<and> via = ViaPool name view \<and> view < length views
                    \<and> views ! view = unwrap_or [] (select_for rt rt_tpl))
           | _ \<Rightarrow> up = UpDirect (fixed_host_of resolved) (ef_address_family (effective_of c lis rt rt_tpl ln_tpl)) nat64
               \<and> identity = Direct (fixed_host_of resolved) (ef_address_family (effective_of c lis rt rt_tpl ln_tpl))
                    (ef_nat64_prefix (effective_of c lis rt rt_tpl ln_tpl))
                    (unwrap_or [] (ef_addr_resolver (effective_of c lis rt rt_tpl ln_tpl))))"
    using route_upstream_ok [OF up] by (cases "ru_host resolved") (auto dest: view_for_nth)
  have fields: "rr_type (bu_runtime b) = ty" "rr_port (bu_runtime b) = ru_port resolved"
      "rr_sni_policy (bu_runtime b) = sni_policy_of rt rt_tpl"
      "rr_require_ech (bu_runtime b) = ef_require_ech (effective_of c lis rt rt_tpl ln_tpl)"
      "rr_fail (bu_runtime b) = ef_fail (effective_of c lis rt rt_tpl ln_tpl)"
      "rr_connect_timeout (bu_runtime b) = ef_connect_timeout (effective_of c lis rt rt_tpl ln_tpl)"
      "rr_http2 (bu_runtime b) = eh_enabled (effective_http2_of c lis rt rt_tpl ln_tpl)"
      "rr_max_retries (bu_runtime b) = ee_max_retries (effective_ech_of c lis rt rt_tpl ln_tpl)"
      "rr_upstream (bu_runtime b) = up" "rr_verify (bu_runtime b) = verify" "bu_via b = via"
      "fw_route_type (bu_forwarding b) = ty" "fw_port (bu_forwarding b) = ru_port resolved"
      "fw_sni (bu_forwarding b) = sni_policy_of rt rt_tpl" "fw_upstream (bu_forwarding b) = identity"
      "fw_verify (bu_forwarding b) = effective_verify_of c lis rt rt_tpl ln_tpl" "fw_ech (bu_forwarding b) = idn"
    by (simp_all add: b' assemble_route_def)
  have verified: "\<forall>v. verify = Some v \<longrightarrow> built_for env webpki (effective_verify_of c lis rt rt_tpl ln_tpl) v"
    and keyed: "(idn = None) = (ty \<noteq> RtEch)" using t by blast+
  show "as_configured env webpki c pools lis rt b"
    unfolding as_configured_def Let_def fields
    by (intro exI [of _ rt_tpl] exI [of _ ln_tpl] exI [of _ resolved] exI [of _ nat64] conjI)
      (rule tpl typed u verified keyed refl)+
qed

lemma build_listener_ok:
  assumes b: "build_listener env c registry pools lis s = (s', Inr bl)" and ok: "start_ok env webpki s"
  shows "start_ok env webpki s' \<and> bl_addr bl = ln_addr lis \<and> length (bl_built bl) = length (all_routes lis)
    \<and> ls_routes (bl_state bl) = List.map bu_runtime (bl_built bl) \<and> ls_unmatched (bl_state bl) = g_unmatched (c_global c)
    \<and> dr_router (bl_certs bl) = ls_router (bl_state bl)
    \<and> dr_scopes (bl_certs bl) = List.map (\<lambda>b. cert_scope (router_fingerprint (listener_patterns lis) (default_id lis) (c_regexes c))
         (bu_forwarding b)) (bl_built bl)
    \<and> dr_pinned (bl_certs bl) = List.map bu_pinned (bl_built bl)
    \<and> build (en_compile env) (listener_patterns lis) (default_id lis) (map_of (c_regexes c)) = Inr (ls_router (bl_state bl))
    \<and> (\<forall>i<length (all_routes lis). runtime_ok (bu_runtime (bl_built bl ! i))
         \<and> as_configured env webpki c pools lis (all_routes lis ! i) (bl_built bl ! i))"
proof -
  obtain built where m: "start_map (build_route env c registry pools lis) (all_routes lis) s = (s', Inr built)"
    and r: "build (en_compile env) (listener_patterns lis) (default_id lis) (map_of (c_regexes c)) = Inr (ls_router (bl_state bl))"
    and bl: "bl_built bl = built" "bl_addr bl = ln_addr lis" "ls_routes (bl_state bl) = List.map bu_runtime built"
      "ls_unmatched (bl_state bl) = g_unmatched (c_global c)" "dr_router (bl_certs bl) = ls_router (bl_state bl)"
      "dr_scopes (bl_certs bl) = List.map (\<lambda>b. cert_scope (router_fingerprint (listener_patterns lis) (default_id lis) (c_regexes c))
         (bu_forwarding b)) built" "dr_pinned (bl_certs bl) = List.map bu_pinned built"
    using b by (auto simp: build_listener_def Let_def start_bind_ok)
  have step: "\<forall>rt\<in>set (all_routes lis). \<forall>s s1 b. start_ok env webpki s
      \<and> build_route env c registry pools lis rt s = (s1, Inr b) \<longrightarrow> start_ok env webpki s1"
    using build_route_ok(1) by blast
  note each = start_map_nth [OF m ok step]
  have "runtime_ok (bu_runtime (built ! i)) \<and> as_configured env webpki c pools lis (all_routes lis ! i) (built ! i)"
    if i: "i < length (all_routes lis)" for i
  proof -
    obtain s0 s1 where "start_ok env webpki s0" "build_route env c registry pools lis (all_routes lis ! i) s0 = (s1, Inr (built ! i))"
      using each i by blast
    then show ?thesis using build_route_ok(2,3) by blast
  qed
  then show ?thesis using each r bl by simp
qed

lemma listener_route_below:
  assumes b: "build_listener env c registry pools lis s = (s', Inr bl)" "start_ok env webpki s"
    and m: "match_host rxm (ls_router (bl_state bl)) h = Some i"
  shows "i < length (all_routes lis)"
proof -
  note parts = build_listener_ok [OF b]
  have "ids_below (length (listener_patterns lis)) (ls_router (bl_state bl)) \<and> r_default (ls_router (bl_state bl)) = default_id lis"
    using build_ids parts by blast
  moreover have "length (listener_patterns lis) = length (all_routes lis)"
    by (cases "ln_default_route lis") (simp_all add: listener_patterns_def all_routes_def)
  moreover have "default_id lis = Some i \<Longrightarrow> i < length (all_routes lis)"
    by (cases "ln_default_route lis") (simp_all add: default_id_def all_routes_def)
  ultimately show ?thesis using match_host_below [OF _ m] by metis
qed

text \<open>A raw overlap is reported exactly when a raw and a terminating pattern share a domain.\<close>

lemma apexes_in:
  "(a, n) \<in> set (apexes c raw routes) \<longleftrightarrow>
     (\<exists>(rt, pats)\<in>set routes. (rr_type rt = RtRaw) = raw \<and> rr_name rt = n \<and> (\<exists>pat\<in>set pats. a \<in> set (pattern_apex c pat)))"
proof (induction routes)
  case Nil
  then show ?case by (simp add: apexes_def)
next
  case (Cons r routes)
  obtain rt pats where r: "r = (rt, pats)" by (cases r)
  have "(a, n) \<in> set (concat (List.map (\<lambda>pat. List.map (\<lambda>a. (a, rr_name rt)) (pattern_apex c pat)) pats))
      \<longleftrightarrow> rr_name rt = n \<and> (\<exists>pat\<in>set pats. a \<in> set (pattern_apex c pat))" by auto
  moreover have "apexes c raw (r # routes) = (if (rr_type rt = RtRaw) = raw
      then concat (List.map (\<lambda>pat. List.map (\<lambda>a. (a, rr_name rt)) (pattern_apex c pat)) pats) else []) @ apexes c raw routes"
    by (simp add: apexes_def r)
  ultimately show ?case using Cons.IH by (simp add: r)
qed

lemma raw_overlap_reported:
  "(\<exists>clash. (a, n, clash) \<in> set (warn_on_raw_overlap c runtimes patterns)) \<longleftrightarrow>
     (a, n) \<in> set (apexes c True (zip runtimes patterns)) \<and> (\<exists>m. (a, m) \<in> set (apexes c False (zip runtimes patterns)))"
proof -
  have "(\<exists>clash. (a, n, clash) \<in> set (warn_on_raw_overlap c runtimes patterns)) \<longleftrightarrow>
      (a, n) \<in> set (apexes c True (zip runtimes patterns))
      \<and> filter (\<lambda>(b, _). b = a) (apexes c False (zip runtimes patterns)) \<noteq> []"
    by (auto simp: warn_on_raw_overlap_def Let_def set_map_filter split: if_splits prod.splits)
  also have "filter (\<lambda>(b, _). b = a) (apexes c False (zip runtimes patterns)) \<noteq> []
      \<longleftrightarrow> (\<exists>m. (a, m) \<in> set (apexes c False (zip runtimes patterns)))"
    by (auto simp: filter_empty_conv)
  finally show ?thesis .
qed

text \<open>The group of the targets that dial the same backend.\<close>

definition merged :: "'r probe_target list \<Rightarrow> 'r probe_group option" where
  "merged members = (case members of [] \<Rightarrow> None
     | t # _ \<Rightarrow> Some \<lparr>pg_routes = List.map pt_route members,
         pg_policy = fold (\<lambda>t p. stricter p (pt_policy t)) members H2Off,
         pg_budget = fold (\<lambda>t b. max b (pt_budget t)) members 0, pg_resolver = pt_resolver t\<rparr>)"

lemma merged_snoc:
  "merged (members @ [t]) = Some (case merged members of
     None \<Rightarrow> \<lparr>pg_routes = [pt_route t], pg_policy = stricter H2Off (pt_policy t), pg_budget = max 0 (pt_budget t),
        pg_resolver = pt_resolver t\<rparr>
   | Some g \<Rightarrow> g\<lparr>pg_routes := pg_routes g @ [pt_route t], pg_policy := stricter (pg_policy g) (pt_policy t),
        pg_budget := max (pg_budget g) (pt_budget t)\<rparr>)"
  by (cases members) (simp_all add: merged_def)

declare stricter.simps [simp del]

lemma stricter_cases:
  "stricter a b = H2Require \<longleftrightarrow> a = H2Require \<or> b = H2Require"
  "stricter a b = H2Off \<longleftrightarrow> a = H2Off \<and> b = H2Off"
  by (cases a; cases b; simp add: stricter.simps)+

lemma merged_policy:
  "merged members = Some g \<Longrightarrow> (pg_policy g = H2Require \<longleftrightarrow> (\<exists>t\<in>set members. pt_policy t = H2Require))
     \<and> (pg_policy g = H2Off \<longleftrightarrow> (\<forall>t\<in>set members. pt_policy t = H2Off))
     \<and> (\<forall>t\<in>set members. pt_budget t \<le> pg_budget g) \<and> pg_routes g = List.map pt_route members"
proof (induction members arbitrary: g rule: rev_induct)
  case Nil
  then show ?case by (simp add: merged_def)
next
  case (snoc t members)
  show ?case
  proof (cases "merged members")
    case None
    then have "members = []" by (simp add: merged_def split: list.splits)
    then show ?thesis using snoc.prems by (auto simp: merged_def stricter_cases)
  next
    case (Some h)
    then show ?thesis
      using snoc.prems snoc.IH [OF Some] by (auto simp: merged_snoc stricter_cases)
  qed
qed

lemma group_probe_targets_lookup:
  "map_of (group_probe_targets ts) k = merged (filter (\<lambda>t. key_of t = k) ts)
     \<and> distinct (List.map fst (group_probe_targets ts))"
proof (induction ts rule: rev_induct)
  case Nil
  then show ?case by (simp add: group_probe_targets_def merged_def)
next
  case (snoc t ts)
  have step: "group_probe_targets (ts @ [t]) = add_target t (group_probe_targets ts)"
    by (simp add: group_probe_targets_def)
  show ?case
  proof (cases "key_of t = k")
    case True
    then show ?thesis
      using snoc by (auto simp: step add_target_def Let_def AList.update_conv' merged_snoc distinct_update split: option.splits)
  next
    case False
    then show ?thesis
      using snoc by (auto simp: step add_target_def Let_def AList.update_conv' distinct_update)
  qed
qed

lemma collect_failures_ok:
  assumes "\<forall>(k, g)\<in>set gs. pg_policy g \<noteq> H2Off"
  shows "\<exists>fs. collect_failures w gs = Inr fs
    \<and> set fs = {(pg_routes g, pk_host k, pk_port k) | k g. (k, g) \<in> set gs \<and> pg_policy g = H2Require \<and> \<not> probe_group_ok w (k, g)}"
  using assms
proof (induction gs)
  case Nil
  then show ?case by simp
next
  case (Cons kg gs)
  obtain k g where kg: "kg = (k, g)" by (cases kg)
  obtain fs where fs: "collect_failures w gs = Inr fs"
      "set fs = {(pg_routes g, pk_host k, pk_port k) | k g. (k, g) \<in> set gs \<and> pg_policy g = H2Require \<and> \<not> probe_group_ok w (k, g)}"
    using Cons.IH Cons.prems by auto
  show ?case
  proof (cases "probe_group_ok w (k, g)")
    case True
    then have "collect_failures w (kg # gs) = Inr fs" using fs(1) by (simp add: kg)
    then show ?thesis using True fs(2) kg by auto
  next
    case False
    then have "collect_failures w (kg # gs)
        = Inr (if pg_policy g = H2Require then (pg_routes g, pk_host k, pk_port k) # fs else fs)"
      using fs(1) Cons.prems by (simp add: kg)
    then show ?thesis using False fs(2) kg by auto
  qed
qed

lemma probe_group_ok_iff:
  "probe_group_ok w (k, g) \<longleftrightarrow> (\<exists>addrs. pw_lookup w (pg_resolver g) (pk_host k) (pk_port k) (pk_family k) (pk_nat64 k) = Inr addrs
     \<and> (\<exists>a. (a = ra_primary addrs \<or> ra_fallback addrs = Some a) \<and> h2c_attempt (pw_peer w (pg_budget g) a) = Inr ()))"
  by (auto simp: probe_group_ok_def probe_h2c_ok split: sum.splits)

text \<open>The groups in the order they finish, and what the whole check comes to.\<close>

lemma finished_groups:
  assumes "\<And>gs. mset (finish gs) = mset gs"
  shows "(k, g) \<in> set (finish (group_probe_targets targets)) \<longleftrightarrow> merged (filter (\<lambda>u. key_of u = k) targets) = Some g"
proof -
  have "set (finish (group_probe_targets targets)) = set (group_probe_targets targets)" using assms by (metis set_mset_mset)
  then show ?thesis using group_probe_targets_lookup [of targets k] by (simp add: map_of_eq_Some_iff [symmetric])
qed

lemma merged_exists: "t \<in> set targets \<Longrightarrow> \<exists>g. merged (filter (\<lambda>u. key_of u = key_of t) targets) = Some g"
  by (auto simp: merged_def filter_empty_conv split: list.splits)

lemma merged_strict:
  assumes m: "merged (filter (\<lambda>u. key_of u = k) targets) = Some g" and off: "\<forall>t\<in>set targets. pt_policy t \<noteq> H2Off"
  shows "pg_policy g = H2Require \<longleftrightarrow> (\<exists>u\<in>set targets. key_of u = k \<and> pt_policy u = H2Require)" "pg_policy g \<noteq> H2Off"
    "\<forall>u\<in>set targets. key_of u = k \<longrightarrow> pt_budget u \<le> pg_budget g \<and> pt_route u \<in> set (pg_routes g)"
proof -
  have "filter (\<lambda>u. key_of u = k) targets \<noteq> []" using m by (auto simp: merged_def)
  then obtain u where "u \<in> set targets" "key_of u = k" by (auto simp: filter_empty_conv)
  then show "pg_policy g = H2Require \<longleftrightarrow> (\<exists>u\<in>set targets. key_of u = k \<and> pt_policy u = H2Require)" "pg_policy g \<noteq> H2Off"
    "\<forall>u\<in>set targets. key_of u = k \<longrightarrow> pt_budget u \<le> pg_budget g \<and> pt_route u \<in> set (pg_routes g)"
    using merged_policy [OF m] off by auto
qed

lemma run_probes_outcome:
  assumes off: "\<forall>t\<in>set targets. pt_policy t \<noteq> H2Off" and perm: "\<And>gs. mset (finish gs) = mset gs"
  shows "\<exists>fs. run_probes w finish targets = (if fs = [] then Inr () else Inl (StProbes fs))
    \<and> set fs = {(pg_routes g, pk_host k, pk_port k) | k g. merged (filter (\<lambda>u. key_of u = k) targets) = Some g
        \<and> pg_policy g = H2Require \<and> \<not> probe_group_ok w (k, g)}"
proof -
  have "\<forall>(k, g)\<in>set (finish (group_probe_targets targets)). pg_policy g \<noteq> H2Off"
    using finished_groups [OF perm] merged_strict(2) [OF _ off] by blast
  from collect_failures_ok [OF this] obtain fs where fs: "collect_failures w (finish (group_probe_targets targets)) = Inr fs"
      "set fs = {(pg_routes g, pk_host k, pk_port k) | k g. (k, g) \<in> set (finish (group_probe_targets targets))
         \<and> pg_policy g = H2Require \<and> \<not> probe_group_ok w (k, g)}" by blast
  have none: "fs = []" if "targets = []"
    using fs(2) by (simp add: finished_groups [OF perm] that merged_def)
  show ?thesis
    using fs none unfolding run_probes_def finished_groups [OF perm] by (intro exI [of _ fs]) auto
qed

text \<open>The check fails for exactly the strict groups that do not pass.\<close>

lemma run_probes_fails:
  assumes "\<forall>t\<in>set targets. pt_policy t \<noteq> H2Off" and "\<And>gs. mset (finish gs) = mset gs"
  obtains fs where "run_probes w finish targets = (if fs = [] then Inr () else Inl (StProbes fs))"
    "\<forall>t g. t \<in> set targets \<and> pt_policy t = H2Require \<and> merged (filter (\<lambda>u. key_of u = key_of t) targets) = Some g
      \<and> \<not> probe_group_ok w (key_of t, g) \<longrightarrow> (pg_routes g, pt_host t, pt_port t) \<in> set fs"
    "fs \<noteq> [] \<longrightarrow> (\<exists>t\<in>set targets. \<exists>g. pt_policy t = H2Require
      \<and> merged (filter (\<lambda>u. key_of u = key_of t) targets) = Some g \<and> \<not> probe_group_ok w (key_of t, g))"
proof -
  obtain fs where run: "run_probes w finish targets = (if fs = [] then Inr () else Inl (StProbes fs))"
    and fs: "set fs = {(pg_routes g, pk_host k, pk_port k) | k g. merged (filter (\<lambda>u. key_of u = k) targets) = Some g
        \<and> pg_policy g = H2Require \<and> \<not> probe_group_ok w (k, g)}"
    using run_probes_outcome [OF assms] by blast
  have "(pg_routes g, pt_host t, pt_port t) \<in> set fs"
    if "t \<in> set targets" "pt_policy t = H2Require" "merged (filter (\<lambda>u. key_of u = key_of t) targets) = Some g"
      "\<not> probe_group_ok w (key_of t, g)" for t g
  proof -
    have "pg_policy g = H2Require" using merged_strict(1) [OF that(3) assms(1)] that(1,2) by blast
    then have "(pg_routes g, pk_host (key_of t), pk_port (key_of t)) \<in> set fs" using that(3,4) unfolding fs by blast
    then show ?thesis by (simp add: key_of_def)
  qed
  moreover have "\<exists>t\<in>set targets. \<exists>g. pt_policy t = H2Require
      \<and> merged (filter (\<lambda>u. key_of u = key_of t) targets) = Some g \<and> \<not> probe_group_ok w (key_of t, g)" if ne: "fs \<noteq> []"
  proof -
    have "set fs \<noteq> {}" using ne by simp
    then obtain k g where kg: "merged (filter (\<lambda>u. key_of u = k) targets) = Some g" "pg_policy g = H2Require"
        "\<not> probe_group_ok w (k, g)"
      unfolding fs by blast
    then show ?thesis using merged_strict(1) [OF kg(1) assms(1)] by blast
  qed
  ultimately show thesis using that [OF run] by blast
qed


definition sample_live :: "string live_resolver" where
  "sample_live = \<lparr>tk_servers = [], tk_strategy = strategy_for Dual, tk_hosts = True, tk_timeout = None, tk_tls = None\<rparr>"

definition sample_targets :: "string probe_target list" where
  "sample_targets =
     [\<lparr>pt_route = ''lenient'', pt_host = ''b.com'', pt_port = 80, pt_policy = H2Warn, pt_budget = 100,
       pt_resolver = inline_handle ''system'' sample_live, pt_family = Dual, pt_nat64 = None\<rparr>,
      \<lparr>pt_route = ''strict'', pt_host = ''b.com'', pt_port = 80, pt_policy = H2Require, pt_budget = 50,
       pt_resolver = inline_handle ''system'' sample_live, pt_family = Dual, pt_nat64 = None\<rparr>]"

definition sample_probe_world :: "string probe_world" where
  "sample_probe_world = \<lparr>pw_lookup = (\<lambda>_ _ _ _ _. Inr (ra_single (SockV4 7 80))),
     pw_peer = (\<lambda>_ _. \<lparr>hp_connects = Some True, hp_written = True, hp_reads = [SrBytes 1 ''HTTP/1.1 '', SrBytes 2 ''505''],
       hp_expired = False\<rparr>)\<rparr>"


end
