(* ===== verification/Launch.thy ===== *)
theory Launch
  imports Startup
begin

text \<open>
  The order of startup (\<open>run\<close>, \<open>build_named_resolvers\<close> and \<open>build_pools\<close> of \<open>src/src/main.rs\<close>,
  \<open>PoolBuilder\<close> of \<open>src/src/pool.rs\<close>): named resolvers in dependency order, pools with the views the
  routes ask for, listeners, and the check of HTTP/2 backends before anything is served.
\<close>

section \<open>Named resolvers\<close>

text \<open>A resolver another one leans on: a named one already built, an inline one, or the system's.\<close>

definition helper_resolver :: "('re, 'c, 'k, 'r) start_env \<Rightarrow> 'r registry \<Rightarrow> string option \<Rightarrow> address_family \<Rightarrow> string
    \<Rightarrow> string \<Rightarrow> string \<Rightarrow> (start_error, 'r resolver_handle) result" where
  "helper_resolver env registry spec family what inline_label system_label =
     (case spec of
        Some s \<Rightarrow>
          if is_resolver_ref s then registered registry s
          else err_map StSpec (res_bind (with_context what (spec_parse (en_os env) s))
                 (\<lambda>parsed. res_bind (spec_build (en_accept env) parsed family) (\<lambda>r. Inr (inline_handle inline_label r))))
      | None \<Rightarrow>
          err_map StSpec (res_bind (spec_build (en_accept env) SpecSystem family) (\<lambda>r. Inr (inline_handle system_label r))))"

definition resolver_dial_host :: "string \<Rightarrow> endpoint \<Rightarrow> resolved_upstream \<Rightarrow> (start_error, string) result" where
  "resolver_dial_host name ep resolved =
     (case ru_host resolved of
        FixedHost h \<Rightarrow> Inr h
      | Reflect \<Rightarrow> Inr (unwrap_or [] (ep_host ep))
      | PoolRef p \<Rightarrow> Inl (StPoolUpstream name p))"

definition resolver_server_name :: "endpoint \<Rightarrow> sni_policy \<Rightarrow> string option" where
  "resolver_server_name ep sni = (case sni of SniFixed n \<Rightarrow> Some n | _ \<Rightarrow> ep_host ep)"

definition optional_prefix :: "string \<Rightarrow> string option \<Rightarrow> (start_error, nat64_prefix option) result" where
  "optional_prefix label p =
     (case p of None \<Rightarrow> Inr None | Some s \<Rightarrow> err_map (StNat64 label) (map_sum (\<lambda>e. e) Some (nat64_from_str s)))"

definition resolver_ech_helper :: "('re, 'c, 'k, 'r) start_env \<Rightarrow> 'r registry \<Rightarrow> string \<Rightarrow> effective_resolver
    \<Rightarrow> (start_error, 'r resolver_handle option) result" where
  "resolver_ech_helper env registry name eff =
     (case er_ech eff of None \<Rightarrow> Inr None
      | Some e \<Rightarrow> map_sum (\<lambda>e. e) Some
          (helper_resolver env registry (er_ech_resolver eff) Dual (''[resolvers.'' @ name @ ''] ech_resolver spec'')
             (name @ '':ech_resolver'') (name @ '':ech:system'')))"

definition plan_of :: "effective_resolver \<Rightarrow> endpoint \<Rightarrow> string \<Rightarrow> nat \<Rightarrow> nat64_prefix option \<Rightarrow> 'r upstream_verify
    \<Rightarrow> 'r resolver_plan" where
  "plan_of eff ep dial_host dial_port nat64 verify =
     \<lparr>rp_label = er_name eff, rp_endpoint = ep, rp_dial_host = dial_host, rp_dial_port = dial_port,
      rp_server_name = resolver_server_name ep (er_sni_policy eff), rp_enable_sni = (er_sni_policy eff \<noteq> SniOmit),
      rp_verify = verify, rp_family = er_address_family eff, rp_nat64 = nat64, rp_timeout = er_connect_timeout eff,
      rp_ech = map_option (\<lambda>e. \<lparr>el_settings = e, el_require = er_require_ech eff, el_refresh = er_ech_refresh eff,
        el_retries = ee_max_retries e\<rparr>) (er_ech eff)\<rparr>"

definition build_named_resolver :: "('re, 'c, 'k, 'r) start_env \<Rightarrow> config \<Rightarrow> 'r registry \<Rightarrow> string
    \<Rightarrow> ('r, 'r resolver_handle) starting" where
  "build_named_resolver env c registry name =
     start_bind (start_lift (err_map StResolverOrder (effective_resolver_of c name))) (\<lambda>eff.
     start_bind (start_lift (err_map (StEndpoint name) (endpoint_parse (er_endpoint eff)))) (\<lambda>ep.
     start_bind (start_lift (helper_resolver env registry (er_bootstrap eff) (er_address_family eff)
         (''[resolvers.'' @ name @ ''] bootstrap spec'') (name @ '':bootstrap'') (name @ '':system''))) (\<lambda>bootstrap.
     start_bind (start_lift (ok_or (StResolverUpstream name) (resolved_upstream_from (er_upstream eff) (ep_port ep)))) (\<lambda>resolved.
     start_bind (start_lift (resolver_dial_host name ep resolved)) (\<lambda>dial_host.
     start_bind (start_lift (optional_prefix name (er_nat64_prefix eff))) (\<lambda>nat64.
     start_bind (start_lift (resolver_ech_helper env registry name eff)) (\<lambda>ech_resolver.
     start_bind (get_verifier env (''[resolvers.'' @ name @ '']'') (er_verify eff)) (\<lambda>verify.
     let plan = plan_of eff ep dial_host (ru_port resolved) nat64 verify in
     start_bind (start_lift (err_map (StBuild name) (resolver_build (en_ech env) (en_world env name bootstrap ech_resolver) plan)))
       (\<lambda>built. start_return \<lparr>rh_label = name, rh_plan = Some plan, rh_state = handle_new built\<rparr>)))))))))"

fun build_in_order :: "('re, 'c, 'k, 'r) start_env \<Rightarrow> config \<Rightarrow> 'r registry \<Rightarrow> string list \<Rightarrow> ('r, 'r registry) starting" where
  "build_in_order env c registry [] = start_return registry"
| "build_in_order env c registry (name # names) =
     start_bind (build_named_resolver env c registry name) (\<lambda>handle.
       build_in_order env c (registry(name := Some handle)) names)"

definition build_named_resolvers :: "('re, 'c, 'k, 'r) start_env \<Rightarrow> config \<Rightarrow> ('r, 'r registry) starting" where
  "build_named_resolvers env c =
     start_bind (start_lift (err_map StResolverOrder (resolver_build_order (c_resolvers c)))) (\<lambda>order.
       build_in_order env c (\<lambda>_. None) order)"

section \<open>Pools\<close>

definition default_interval :: nat where
  "default_interval = 300000"

definition default_degraded_interval :: nat where
  "default_degraded_interval = 30000"

definition default_fail_threshold :: nat where
  "default_fail_threshold = 2"

definition default_max_concurrent_probes :: nat where
  "default_max_concurrent_probes = 16"

definition default_kalman_q :: "'f arith \<Rightarrow> 'f" where
  "default_kalman_q a = f_const a (1 / 100)"

definition default_kalman_r :: "'f arith \<Rightarrow> 'f" where
  "default_kalman_r a = f_const a (1 / 10)"

definition default_throughput_discount :: "'f arith \<Rightarrow> 'f" where
  "default_throughput_discount a = f_const a (95 / 100)"

text \<open>The pool's own half of startup reads the machine's floating-point numbers through \<open>pool_env\<close>.\<close>

record 'f pool_env =
  pe_arith :: "'f arith"
  pe_float :: "f64 \<Rightarrow> 'f"

record ('f, 'r) pool_builder =
  pb_def :: pool_def
  pb_targets :: "target list"
  pb_probe :: "'r probe_plan"
  pb_timing :: "'f timing"
  pb_resolver :: "'r resolver_handle"
  pb_views :: "selector list list"

definition pool_timing :: "'f pool_env \<Rightarrow> probe_def \<Rightarrow> 'f timing" where
  "pool_timing pe d =
     \<lparr>ti_interval = unwrap_or default_interval (pd_interval d),
      ti_degraded_interval = unwrap_or default_degraded_interval (pd_degraded_interval d),
      ti_fail_threshold = unwrap_or default_fail_threshold (pd_fail_threshold d),
      ti_max_concurrent = unwrap_or default_max_concurrent_probes (pd_max_concurrent_probes d),
      ti_payload = unwrap_or 0 (pd_score_payload_bytes d),
      ti_discount = unwrap_or (default_throughput_discount (pe_arith pe)) (map_option (pe_float pe) (pd_throughput_discount d)),
      ti_kalman_q = unwrap_or (default_kalman_q (pe_arith pe)) (map_option (pe_float pe) (pd_rtt_process_noise d)),
      ti_kalman_r = unwrap_or (default_kalman_r (pe_arith pe)) (map_option (pe_float pe) (pd_rtt_obs_noise d))\<rparr>"

definition tags_of :: "target_def \<Rightarrow> string list" where
  "tags_of t = List.map trim (target_tags t)"

definition draw_targets :: "('re, 'c, 'k, 'r) start_env \<Rightarrow> string \<Rightarrow> nat \<Rightarrow> target_def \<Rightarrow> (start_error, target) result" where
  "draw_targets env name index t =
     res_bind (err_map (StTarget name index) (target_parse (lb_cidr (en_libs env)) (target_addr t))) (\<lambda>spec.
       Inr \<lparr>tg_spec = spec, tg_tags = tags_of t,
            tg_sampled = (case spec of
                TsCidr net len sample \<Rightarrow> draw_sample (en_hosts env net len) (en_draws env name index) net len sample
              | _ \<Rightarrow> [])\<rparr>)"

fun map_indexed :: "(nat \<Rightarrow> 'a \<Rightarrow> ('e, 'b) result) \<Rightarrow> nat \<Rightarrow> 'a list \<Rightarrow> ('e, 'b list) result" where
  "map_indexed f i [] = Inr []"
| "map_indexed f i (x # xs) = res_bind (f i x) (\<lambda>y. res_bind (map_indexed f (Suc i) xs) (\<lambda>ys. Inr (y # ys)))"

definition pool_builder_new :: "('re, 'c, 'k, 'r) start_env \<Rightarrow> 'f pool_env \<Rightarrow> string \<Rightarrow> pool_def \<Rightarrow> probe_spec
    \<Rightarrow> 'r resolver_handle \<Rightarrow> effective_probe_ech option \<Rightarrow> 'r upstream_verify \<Rightarrow> (start_error, ('f, 'r) pool_builder) result" where
  "pool_builder_new env pe name d spec resolver ech_setup verify =
     res_bind (err_map (StProbe name) (validate_parameters (po_probe d))) (\<lambda>_.
     res_bind (map_indexed (draw_targets env name) 0 (po_targets d)) (\<lambda>targets.
     res_bind (ok_or StPanic (build_probe_plan spec ech_setup verify)) (\<lambda>plan.
       Inr \<lparr>pb_def = d, pb_targets = targets, pb_probe = plan, pb_timing = pool_timing pe (po_probe d),
            pb_resolver = resolver, pb_views = []\<rparr>)))"

text \<open>One declared pool: its resolver, the resolver and settings of its probe's ECH, and its verifier.\<close>

definition probe_policy :: "config \<Rightarrow> probe_spec \<Rightarrow> effective_verify" where
  "probe_policy c spec =
     (if probe_handshakes spec then verify_resolve (probe_verify spec) (c_global c) else default_effective_verify)"

definition build_pool :: "('re, 'c, 'k, 'r) start_env \<Rightarrow> 'f pool_env \<Rightarrow> config \<Rightarrow> 'r registry \<Rightarrow> string
    \<Rightarrow> ('r, string \<times> ('f, 'r) pool_builder) starting" where
  "build_pool env pe c registry name =
     start_bind (start_lift (ok_or (StUnknownPool ''pools'' name) (pool_def_of c name))) (\<lambda>d.
     let own = unwrap_or ''system'' (po_resolver d) in
     start_bind (get_resolver env registry own Dual) (\<lambda>resolver.
     start_bind (start_lift (err_map (StProbe name) (probe_validate (en_libs env) (po_probe d)))) (\<lambda>spec.
     start_bind (case probe_ech spec of None \<Rightarrow> start_return None
       | Some block \<Rightarrow>
           (let ech = probe_ech_resolve block (c_global c) in
            start_bind (get_resolver env registry (unwrap_or own (ep_ech_resolver ech)) Dual) (\<lambda>_. start_return (Some ech)))) (\<lambda>ech_setup.
     start_bind (get_verifier env (''[pools.'' @ name @ ''.probe]'') (probe_policy c spec)) (\<lambda>verify.
     start_bind (start_lift (pool_builder_new env pe name d spec resolver ech_setup verify)) (\<lambda>b.
       start_return (name, b)))))))"

text \<open>The first pass: every route that names a pool registers its filter there.\<close>

definition register_route :: "config \<Rightarrow> listener \<Rightarrow> route \<Rightarrow> (string \<times> ('f, 'r) pool_builder) list
    \<Rightarrow> (start_error, (string \<times> ('f, 'r) pool_builder) list) result" where
  "register_route c lis rt builders =
     res_bind (err_map StConfig (template_for c (rt_use_template rt))) (\<lambda>tpl.
       case resolved_upstream_from (upstream_spec_of rt tpl) (sock_port (ln_addr lis)) of
         None \<Rightarrow> Inr builders
       | Some resolved \<Rightarrow>
           (case ru_host resolved of
              PoolRef name \<Rightarrow>
                (case map_of builders name of
                   None \<Rightarrow> Inl (StUnknownPool (route_label rt) name)
                 | Some b \<Rightarrow>
                     Inr (AList.update name (b\<lparr>pb_views := snd (register_view (select_for rt tpl) (pb_views b))\<rparr>) builders))
            | _ \<Rightarrow> Inr builders))"

fun register_routes :: "config \<Rightarrow> (listener \<times> route) list \<Rightarrow> (string \<times> ('f, 'r) pool_builder) list
    \<Rightarrow> (start_error, (string \<times> ('f, 'r) pool_builder) list) result" where
  "register_routes c [] builders = Inr builders"
| "register_routes c ((lis, rt) # rest) builders = res_bind (register_route c lis rt builders) (register_routes c rest)"

definition config_routes :: "config \<Rightarrow> (listener \<times> route) list" where
  "config_routes c = concat (List.map (\<lambda>lis. List.map (\<lambda>rt. (lis, rt)) (all_routes lis)) (c_listeners c))"

text \<open>The second pass: a pool some route reads is started, with its NAT64 projection parsed.\<close>

record ('f, 'r) started_pool =
  st_cfg :: "'f pool_cfg"
  st_probe :: "'r probe_plan"
  st_resolver :: "'r resolver_handle"
  st_observes :: bool

definition spawn_pool :: "string \<Rightarrow> ('f, 'r) pool_builder \<Rightarrow> (start_error, ('f, 'r) started_pool) result" where
  "spawn_pool name b =
     res_bind (case po_nat64 (pb_def b) of None \<Rightarrow> Inr None
       | Some n \<Rightarrow>
           res_bind (map_res (\<lambda>p. err_map (StNat64 name) (nat64_from_str p)) (pn_prefixes n)) (\<lambda>prefixes.
             Inr (Some \<lparr>np_prefixes = prefixes, np_from = pn_from n,
                        np_timeout = unwrap_or (pp_timeout (pb_probe b)) (pn_timeout n)\<rparr>))) (\<lambda>nat64.
       Inr \<lparr>st_cfg = \<lparr>pl_targets = pb_targets b, pl_timing = pb_timing b, pl_nat64 = nat64,
                       pl_fallback = po_fallback (pb_def b), pl_views = pb_views b\<rparr>,
            st_probe = pb_probe b, st_resolver = pb_resolver b, st_observes = (ti_payload (pb_timing b) \<noteq> 0)\<rparr>)"

definition is_used :: "('f, 'r) pool_builder \<Rightarrow> bool" where
  "is_used b \<longleftrightarrow> pb_views b \<noteq> []"

definition build_pools :: "('re, 'c, 'k, 'r) start_env \<Rightarrow> 'f pool_env \<Rightarrow> config \<Rightarrow> 'r registry
    \<Rightarrow> ('r, (string \<times> ('f, 'r) started_pool) list) starting" where
  "build_pools env pe c registry =
     (if c_pools c = [] then start_return []
      else
        start_bind (start_map (build_pool env pe c registry) (sort (List.map fst (c_pools c)))) (\<lambda>builders.
        start_bind (start_lift (register_routes c (config_routes c) builders)) (\<lambda>builders.
          start_lift (map_res (\<lambda>(name, b). res_bind (spawn_pool name b) (\<lambda>p. Inr (name, p)))
            (filter (\<lambda>(name, b). is_used b) builders)))))"

definition pool_views :: "(string \<times> ('f, 'r) started_pool) list \<Rightarrow> string \<Rightarrow> selector list list option" where
  "pool_views pools name = map_option (\<lambda>p. pl_views (st_cfg p)) (map_of pools name)"

section \<open>The whole of startup\<close>

definition launch :: "('re, 'c, 'k, 'r) start_env \<Rightarrow> 'f pool_env \<Rightarrow> 'r probe_world
    \<Rightarrow> ((probe_key \<times> 'r probe_group) list \<Rightarrow> (probe_key \<times> 'r probe_group) list) \<Rightarrow> config
    \<Rightarrow> ('r, 'r registry \<times> (string \<times> ('f, 'r) started_pool) list \<times> ('re, 'c, 'k, 'r) built_listener list) starting" where
  "launch env pe w finish c =
     start_bind (build_named_resolvers env c) (\<lambda>registry.
     start_bind (build_pools env pe c registry) (\<lambda>pools.
     start_bind (start_map (build_listener env c registry (pool_views pools)) (c_listeners c)) (\<lambda>listeners.
     start_bind (\<lambda>s. (s, run_probes w finish (sx_probes s))) (\<lambda>_.
       start_return (registry, pools, listeners)))))"

section \<open>Every pooled route finds its view\<close>

text \<open>What a table of pools knows of one route: the pool exists, and has a view for the route's filter.\<close>

definition pooled :: "config \<Rightarrow> (string \<Rightarrow> selector list list option) \<Rightarrow> listener \<times> route \<Rightarrow> bool" where
  "pooled c pools lr \<longleftrightarrow> (\<forall>tpl u name. template_for c (rt_use_template (snd lr)) = Inr tpl
      \<and> resolved_upstream_from (upstream_spec_of (snd lr) tpl) (sock_port (ln_addr (fst lr))) = Some u
      \<and> ru_host u = PoolRef name
    \<longrightarrow> (\<exists>views view. pools name = Some views \<and> view_for views (select_for (snd lr) tpl) = Some view))"

definition views_in :: "(string \<times> ('f, 'r) pool_builder) list \<Rightarrow> string \<Rightarrow> selector list list option" where
  "views_in builders name = map_option pb_views (map_of builders name)"

definition grown :: "(string \<Rightarrow> selector list list option) \<Rightarrow> (string \<Rightarrow> selector list list option) \<Rightarrow> bool" where
  "grown pools pools' \<longleftrightarrow> (\<forall>name views. pools name = Some views \<longrightarrow> (\<exists>later. pools' name = Some (views @ later)))"

lemma grown_refl [simp]: "grown p p"
  by (simp add: grown_def)

lemma grown_trans: "grown p q \<Longrightarrow> grown q r \<Longrightarrow> grown p r"
  unfolding grown_def by (metis append.assoc)

lemma pooled_grown: "pooled c p lr \<Longrightarrow> grown p q \<Longrightarrow> pooled c q lr"
  unfolding pooled_def grown_def view_for_def using position_append by metis

lemma register_view_grows: "\<exists>later. snd (register_view sel views) = views @ later"
  by (auto simp: register_view_def Let_def split: option.splits)

lemma register_route_ok:
  assumes "register_route c lis rt bs = Inr bs'"
  shows "grown (views_in bs) (views_in bs') \<and> pooled c (views_in bs') (lis, rt)"
proof -
  obtain tpl where tpl: "template_for c (rt_use_template rt) = Inr tpl"
    using assms by (auto simp: register_route_def split: sum.splits)
  define found where "found = resolved_upstream_from (upstream_spec_of rt tpl) (sock_port (ln_addr lis))"
  show ?thesis
  proof (cases "\<exists>u name. found = Some u \<and> ru_host u = PoolRef name")
    case False
    then have "bs' = bs"
      using assms tpl by (auto simp: register_route_def found_def split: option.splits upstream_host.splits)
    then show ?thesis using False tpl by (auto simp: pooled_def found_def)
  next
    case True
    then obtain u name where u: "found = Some u" "ru_host u = PoolRef name" by blast
    obtain b where b: "map_of bs name = Some b"
        "bs' = AList.update name (b\<lparr>pb_views := snd (register_view (select_for rt tpl) (pb_views b))\<rparr>) bs"
      using assms tpl u by (auto simp: register_route_def found_def split: option.splits)
    define views where "views = snd (register_view (select_for rt tpl) (pb_views b))"
    have at: "views_in bs' = (views_in bs)(name := Some views)"
      by (auto simp: views_in_def b(2) AList.update_conv' views_def)
    have "\<exists>later. views = pb_views b @ later" unfolding views_def by (rule register_view_grows)
    then have "grown (views_in bs) (views_in bs')" using b(1) by (auto simp: grown_def at) (auto simp: views_in_def)
    moreover have "\<exists>i. view_for views (select_for rt tpl) = Some i"
      using register_view_for [of "select_for rt tpl" "pb_views b" _ views "[]"] by (metis append_Nil2 prod.collapse views_def)
    then have "pooled c (views_in bs') (lis, rt)" using tpl u by (auto simp: pooled_def found_def at)
    ultimately show ?thesis by blast
  qed
qed

lemma register_routes_ok:
  "register_routes c lrs bs = Inr bs' \<Longrightarrow> grown (views_in bs) (views_in bs') \<and> (\<forall>lr\<in>set lrs. pooled c (views_in bs') lr)"
proof (induction lrs arbitrary: bs)
  case Nil
  then show ?case by simp
next
  case (Cons lr lrs)
  obtain lis rt where lr: "lr = (lis, rt)" by (cases lr)
  obtain bs1 where bs1: "register_route c lis rt bs = Inr bs1" "register_routes c lrs bs1 = Inr bs'"
    using Cons.prems lr by auto
  show ?case
    using register_route_ok [OF bs1(1)] Cons.IH [OF bs1(2)] grown_trans pooled_grown lr by fastforce
qed

text \<open>Starting a pool keeps its views, and only pools without a view are left out.\<close>

lemma spawned_views:
  assumes "map_res (\<lambda>(name, b). res_bind (spawn_pool name b) (\<lambda>p. Inr (name, p))) (filter (\<lambda>(name, b). is_used b) bs) = Inr ps"
    and "views_in bs name = Some views" "views \<noteq> []"
  shows "pool_views ps name = Some views"
  using assms
proof (induction bs arbitrary: ps)
  case Nil
  then show ?case by (simp add: views_in_def)
next
  case (Cons nb bs)
  obtain n b where nb: "nb = (n, b)" by (cases nb)
  show ?case
  proof (cases "is_used b")
    case True
    then obtain p qs where p: "spawn_pool n b = Inr p" "ps = (n, p) # qs"
        "map_res (\<lambda>(name, b). res_bind (spawn_pool name b) (\<lambda>p. Inr (name, p))) (filter (\<lambda>(name, b). is_used b) bs) = Inr qs"
      using Cons.prems(1) nb by (auto split: sum.splits)
    have "pl_views (st_cfg p) = pb_views b" using p(1) by (auto simp: spawn_pool_def)
    then show ?thesis
      using Cons.IH [OF p(3)] Cons.prems(2,3) p(2) nb by (auto simp: pool_views_def views_in_def)
  next
    case False
    then have "n \<noteq> name" using Cons.prems(2,3) nb by (auto simp: views_in_def is_used_def)
    then show ?thesis using Cons.IH [of ps] Cons.prems False nb by (simp add: views_in_def)
  qed
qed

lemma spawned_pooled:
  assumes "map_res (\<lambda>(name, b). res_bind (spawn_pool name b) (\<lambda>p. Inr (name, p))) (filter (\<lambda>(name, b). is_used b) bs) = Inr ps"
    and "pooled c (views_in bs) lr"
  shows "pooled c (pool_views ps) lr"
proof -
  have "v \<noteq> []" if "view_for v sel = Some i" for v sel i using that by (auto simp: view_for_def)
  then show ?thesis
    using assms(2) spawned_views [OF assms(1)] unfolding pooled_def by blast
qed

end
