(* ===== verification/Guarantee.thy ===== *)
theory Guarantee
  imports Launch
begin

text \<open>
  What startup guarantees, by triples over its steps. A step keeps an invariant of the state, and ends
  in a value or an error of which something is known; the rules below compose such facts along the
  sequence, the case distinctions and the lists of \<open>Startup\<close> and \<open>Launch\<close>.
\<close>

section \<open>Triples\<close>

definition starts :: "('r start_state \<Rightarrow> bool) \<Rightarrow> ('r, 'a) starting \<Rightarrow> ('a \<Rightarrow> bool) \<Rightarrow> (start_error \<Rightarrow> bool) \<Rightarrow> bool" where
  "starts I m Q E \<longleftrightarrow> (\<forall>s s' r. I s \<longrightarrow> m s = (s', r) \<longrightarrow> I s' \<and> (case r of Inl e \<Rightarrow> E e | Inr x \<Rightarrow> Q x))"

named_theorems starts_rule

lemma starts_return [starts_rule]: "starts I (start_return x) (\<lambda>y. y = x) E"
  by (simp add: starts_def start_return_def)

lemma starts_lift [starts_rule]: "(\<And>e. r = Inl e \<Longrightarrow> E e) \<Longrightarrow> starts I (start_lift r) (\<lambda>x. r = Inr x) E"
  by (cases r) (simp_all add: starts_def start_lift_def)

lemma starts_weaken: "starts I m P E \<Longrightarrow> (\<And>x. P x \<Longrightarrow> Q x) \<Longrightarrow> starts I m Q E"
  unfolding starts_def by (metis (no_types, lifting) old.sum.simps(5,6) sum.exhaust_sel)

lemma starts_any: "starts I m P E \<Longrightarrow> starts I m (\<lambda>_. True) E"
  by (erule starts_weaken) (rule TrueI)

lemma starts_bind:
  assumes "starts I m Q E" "\<And>x. Q x \<Longrightarrow> starts I (f x) R E"
  shows "starts I (start_bind m f) R E"
  unfolding starts_def
proof (intro allI impI)
  fix s s' r
  assume I: "I s" and run: "start_bind m f s = (s', r)"
  obtain s1 r1 where m: "m s = (s1, r1)" by fastforce
  then have post: "I s1 \<and> (case r1 of Inl e \<Rightarrow> E e | Inr x \<Rightarrow> Q x)" using assms(1) I unfolding starts_def by blast
  show "I s' \<and> (case r of Inl e \<Rightarrow> E e | Inr x \<Rightarrow> R x)"
  proof (cases r1)
    case (Inl e)
    then show ?thesis using run m post by (auto simp: start_bind_def)
  next
    case (Inr x)
    then have "f x s1 = (s', r)" using run m by (simp add: start_bind_def)
    moreover have "starts I (f x) R E" using assms(2) post Inr by simp
    ultimately show ?thesis using post unfolding starts_def by blast
  qed
qed

text \<open>The same for one kind of step, with what follows it as the first premise.\<close>

lemma starts_then_lift:
  "(\<And>x. r = Inr x \<Longrightarrow> starts I (f x) R E) \<Longrightarrow> (\<And>e. r = Inl e \<Longrightarrow> E e) \<Longrightarrow> starts I (start_bind (start_lift r) f) R E"
  by (rule starts_bind [OF starts_lift])

lemma starts_then_any:
  "(\<And>x. starts I (f x) R E) \<Longrightarrow> starts I m (\<lambda>_. True) E \<Longrightarrow> starts I (start_bind m f) R E"
  by (rule starts_bind)

lemma lift_value: "start_bind (start_lift (Inr x)) f = f x"
  by (rule ext) (simp add: start_bind_def start_lift_def)

lemma starts_map:
  assumes "\<And>x. x \<in> set xs \<Longrightarrow> starts I (f x) (Q x) E"
  shows "starts I (start_map f xs) (\<lambda>ys. list_all2 Q xs ys) E"
  using assms
proof (induction xs)
  case Nil
  then show ?case using starts_return [of I "[]"] by simp
next
  case (Cons x xs)
  have "starts I (start_map f (x # xs)) (\<lambda>ys. list_all2 Q (x # xs) ys) E"
    unfolding start_map.simps
    by (rule starts_bind [OF Cons.prems], simp, rule starts_bind [OF Cons.IH], use Cons.prems in simp,
        rule starts_weaken [OF starts_return], simp)
  then show ?case .
qed

lemma starts_run:
  "starts I m Q E \<Longrightarrow> I s \<Longrightarrow> m s = (s', r) \<Longrightarrow> I s' \<and> (\<forall>e. r = Inl e \<longrightarrow> E e) \<and> (\<forall>x. r = Inr x \<longrightarrow> Q x)"
  unfolding starts_def by (cases r) fastforce+

section \<open>Errors that come from outside the document\<close>

text \<open>The errors left to a validated document: files, the network, the operating system, other
  servers, and the inline specifications, NAT64 prefixes and host patterns that are only parsed here.\<close>

fun startup_external :: "start_error \<Rightarrow> bool" where
  "startup_external (StSpec _) = True"
| "startup_external (StVerifier _ _) = True"
| "startup_external (StNat64 _ _) = True"
| "startup_external (StPinned _ _) = True"
| "startup_external (StRouter _ _) = True"
| "startup_external (StBuild _ _) = True"
| "startup_external (StPoolUpstream _ _) = True"
| "startup_external (StResolverUpstream _) = True"
| "startup_external (StProbes _) = True"
| "startup_external _ = False"

lemma map_sum_eq_Inl: "map_sum (\<lambda>e. e) g r = Inl e \<longleftrightarrow> r = Inl e"
  by (cases r) auto

lemma err_map_Inl: "err_map f r = Inl e \<longleftrightarrow> (\<exists>x. r = Inl x \<and> e = f x)"
  by (cases r) (auto simp: err_map_def)

section \<open>References of a validated document\<close>

definition known :: "config \<Rightarrow> string \<Rightarrow> bool" where
  "known c spec \<longleftrightarrow> (is_resolver_ref spec \<longrightarrow> is_ok (resolve_resolver_ref (c_resolvers c) spec))"

definition complete_registry :: "config \<Rightarrow> 'r registry \<Rightarrow> bool" where
  "complete_registry c registry \<longleftrightarrow> (\<forall>n\<in>fst ` set (c_resolvers c). registry n \<noteq> None)"

lemma known_name:
  assumes "known c spec" "is_resolver_ref spec"
  shows "\<exists>n. strip_prefix ''@'' (trim spec) = Some n \<and> n \<in> fst ` set (c_resolvers c)"
proof -
  obtain d where d: "resolve_resolver_ref (c_resolvers c) spec = Inr d" using assms by (auto simp: known_def is_ok_iff)
  then obtain n where n: "strip_prefix ''@'' (trim spec) = Some n" "resolver_def_of (c_resolvers c) n = Inr d"
    by (auto simp: resolve_resolver_ref_def split: option.splits if_splits)
  then have "map_of (c_resolvers c) n = Some d" by (cases "map_of (c_resolvers c) n") (simp_all add: resolver_def_of_def)
  then have "n \<in> fst ` set (c_resolvers c)" by (metis image_eqI fst_conv map_of_SomeD)
  then show ?thesis using n(1) by blast
qed

lemma known_registered: "known c spec \<Longrightarrow> complete_registry c registry \<Longrightarrow> is_resolver_ref spec \<Longrightarrow> is_ok (registered registry spec)"
  using known_name [of c spec] by (auto simp: registered_def complete_registry_def is_ok_iff)

lemma refs_known:
  assumes "config_validate lib c = Inr ()" "(org, spec) \<in> set (resolver_refs c)"
  shows "known c spec"
  unfolding known_def
proof
  assume r: "is_resolver_ref spec"
  have "\<forall>(org, spec)\<in>set (resolver_refs c). (if is_resolver_ref spec
         then map_err (BadReference org) (map_sum id (\<lambda>_. ()) (resolve_resolver_ref (c_resolvers c) spec)) else Inr ()) = Inr ()"
    using config_validate_parts(4) [OF assms(1)] by (simp add: validate_resolvers_def split_def)
  then have "map_err (BadReference org) (map_sum id (\<lambda>_. ()) (resolve_resolver_ref (c_resolvers c) spec)) = Inr ()"
    using assms(2) r by fastforce
  then show "is_ok (resolve_resolver_ref (c_resolvers c) spec)" by (simp only: map_err_ok drop_value_ok)
qed

definition opts_known :: "config \<Rightarrow> common_opts \<Rightarrow> bool" where
  "opts_known c co \<longleftrightarrow> (\<forall>s. Some s \<in> {co_resolver co, co_ech_resolver co, co_addr_resolver co} \<longrightarrow> known c s)"

definition block_known :: "config \<Rightarrow> ech_config \<Rightarrow> bool" where
  "block_known c e \<longleftrightarrow> (\<forall>s. ec_ech_resolver e = Some s \<longrightarrow> known c s)"

lemma flatten_set [simp]: "x \<in> set (flatten xs) \<longleftrightarrow> Some x \<in> set xs"
  by (induction xs) (auto simp: flatten_def map_filter_simps split: option.splits)

lemma opts_in_refs:
  assumes c: "config_validate lib c = Inr ()" and sub: "set (common_refs org co) \<subseteq> set (resolver_refs c)"
  shows "opts_known c co"
  unfolding opts_known_def
proof (intro allI impI)
  fix s
  assume "Some s \<in> {co_resolver co, co_ech_resolver co, co_addr_resolver co}"
  then have "(org, s) \<in> set (common_refs org co)" by (auto simp: common_refs_def)
  then show "known c s" using refs_known [OF c] sub by blast
qed

lemma block_in_refs:
  assumes c: "config_validate lib c = Inr ()" and sub: "set (ech_refs org (Some e)) \<subseteq> set (resolver_refs c)"
  shows "block_known c e"
  using refs_known [OF c] sub by (auto simp: block_known_def ech_refs_def flatten_def map_filter_simps)

text \<open>Every scope of the document a route inherits from only holds known references.\<close>

lemma scopes_known:
  assumes c: "config_validate lib c = Inr ()"
  shows "opts_known c (g_common (c_global c))" "g_ech (c_global c) = Some e \<Longrightarrow> block_known c e"
    "(n, t) \<in> set (c_templates c) \<Longrightarrow> opts_known c (t_common t)"
    "(n, t) \<in> set (c_templates c) \<Longrightarrow> t_ech t = Some e \<Longrightarrow> block_known c e"
    "l \<in> set (c_listeners c) \<Longrightarrow> opts_known c (ln_common l)"
    "l \<in> set (c_listeners c) \<Longrightarrow> ln_ech l = Some e \<Longrightarrow> block_known c e"
    "l \<in> set (c_listeners c) \<Longrightarrow> r \<in> set (all_routes l) \<Longrightarrow> opts_known c (rt_common r)"
    "l \<in> set (c_listeners c) \<Longrightarrow> r \<in> set (all_routes l) \<Longrightarrow> rt_ech r = Some e \<Longrightarrow> block_known c e"
  by (rule opts_in_refs [OF c] block_in_refs [OF c], force simp: resolver_refs_def)+

lemma template_in: "template_for c name = Inr (Some t) \<Longrightarrow> \<exists>n. (n, t) \<in> set (c_templates c)"
  by (auto simp: template_for_ok dest: map_of_SomeD split: option.splits)

lemma effective_refs_known:
  assumes c: "config_validate lib c = Inr ()" and l: "l \<in> set (c_listeners c)" "r \<in> set (all_routes l)"
    and t: "template_for c (rt_use_template r) = Inr rt_tpl" "template_for c (ln_use_template l) = Inr ln_tpl"
  shows "ef_addr_resolver (effective_of c l r rt_tpl ln_tpl) = Some s \<Longrightarrow> known c s"
    "ef_ech_resolver (effective_of c l r rt_tpl ln_tpl) = Some s \<Longrightarrow> known c s"
proof -
  note scopes = scopes_known [OF c]
  have tpls: "opts_known c (t_common x)" "t_ech x = Some e \<Longrightarrow> block_known c e"
    if "rt_tpl = Some x \<or> ln_tpl = Some x" for x e
    using that t template_in scopes(3,4) by blast+
  have tier: "known c s" if t: "tier (map_option t_common tpl) f = Some s" "tpl = rt_tpl \<or> tpl = ln_tpl"
      "f \<in> {co_resolver, co_ech_resolver, co_addr_resolver}" for tpl f
  proof -
    obtain x where x: "tpl = Some x" "f (t_common x) = Some s" using t(1) by (cases tpl) auto
    then have "opts_known c (t_common x)" using tpls(1) t(2) by blast
    then show ?thesis using x(2) t(3) unfolding opts_known_def by auto
  qed
  have here: "known c s" if "f co = Some s" "f \<in> {co_resolver, co_ech_resolver, co_addr_resolver}"
      "co \<in> {rt_common r, ln_common l, g_common (c_global c)}" for f co
  proof -
    have "opts_known c co" using that(3) scopes(1) scopes(5) [OF l(1)] scopes(7) [OF l] by blast
    then show ?thesis using that(1,2) unfolding opts_known_def by auto
  qed
  have blocks: "known c s" if "es_ech_resolver (effective_ech_shared c l r rt_tpl ln_tpl) = Some s"
  proof -
    have "find_map ec_ech_resolver (ech_tiers c l r rt_tpl ln_tpl) = Some s"
      using that by (simp add: effective_ech_shared_def Let_def)
    from find_map_Some [OF this] obtain e where e: "e \<in> set (ech_tiers c l r rt_tpl ln_tpl)" "ec_ech_resolver e = Some s"
      by blast
    consider "rt_ech r = Some e" | "tier rt_tpl t_ech = Some e" | "ln_ech l = Some e" | "tier ln_tpl t_ech = Some e"
      | "g_ech (c_global c) = Some e"
      using e(1) by (auto simp: ech_tiers_def)
    then have "block_known c e"
    proof cases
      case 2
      then show ?thesis using tpls(2) by (cases rt_tpl) auto
    next
      case 4
      then show ?thesis using tpls(2) by (cases ln_tpl) auto
    qed (use scopes l in blast)+
    then show ?thesis using e(2) by (simp add: block_known_def)
  qed
  show "known c s" if "ef_addr_resolver (effective_of c l r rt_tpl ln_tpl) = Some s"
    using first_some_Some [of _ s] that here tier by (fastforce simp: effective_of_def Let_def)
  show "known c s" if "ef_ech_resolver (effective_of c l r rt_tpl ln_tpl) = Some s"
    using first_some_Some [of _ s] that here tier blocks by (fastforce simp: effective_of_def Let_def)
qed

section \<open>The steps of startup\<close>

text \<open>Resolvers and verifiers.\<close>

lemma starts_resolver:
  assumes "is_resolver_ref spec \<Longrightarrow> is_ok (registered registry spec)"
  shows "starts (start_ok env webpki) (get_resolver env registry spec family) (\<lambda>_. True) startup_external"
  unfolding starts_def
proof (intro allI impI)
  fix s s' r
  assume ok: "start_ok env webpki s" and run: "get_resolver env registry spec family s = (s', r)"
  have "r = Inl e \<Longrightarrow> startup_external e" for e
    using run assms by (auto simp: get_resolver_def is_ok_iff split: if_splits option.splits sum.splits)
  then show "start_ok env webpki s' \<and> (case r of Inl e \<Rightarrow> startup_external e | Inr x \<Rightarrow> True)"
    using get_resolver_frame [OF run, of webpki] ok by (auto split: sum.splits)
qed

lemma starts_verifier [starts_rule]:
  "starts (start_ok env webpki) (get_verifier env label policy) (\<lambda>_. True) startup_external"
  unfolding starts_def
proof (intro allI impI)
  fix s s' r
  assume ok: "start_ok env webpki s" and run: "get_verifier env label policy s = (s', r)"
  have "r = Inl e \<Longrightarrow> startup_external e" for e
    using run by (auto simp: get_verifier_def err_map_Inl split: prod.splits)
  then show "start_ok env webpki s' \<and> (case r of Inl e \<Rightarrow> startup_external e | Inr x \<Rightarrow> True)"
    using get_verifier_ok [OF run ok] by (auto split: sum.splits)
qed

lemma starts_push [starts_rule]:
  "pt_policy t \<noteq> H2Off \<Longrightarrow> starts (start_ok env webpki) (push_probe t) (\<lambda>_. True) E"
  by (auto simp: starts_def push_probe_def start_ok_def)

text \<open>One named resolver, once those it refers to are built.\<close>

definition refs_built :: "resolver_def \<Rightarrow> 'r registry \<Rightarrow> bool" where
  "refs_built d registry \<longleftrightarrow>
     (\<forall>s. Some s \<in> {rd_bootstrap d, tier (rd_ech d) ec_ech_resolver} \<longrightarrow> is_resolver_ref s \<longrightarrow> is_ok (registered registry s))"

lemma helper_resolver_error:
  assumes "helper_resolver env registry spec family what l1 l2 = Inl e"
    and "\<And>s. spec = Some s \<Longrightarrow> is_resolver_ref s \<Longrightarrow> is_ok (registered registry s)"
  shows "startup_external e"
  using assms by (fastforce simp: helper_resolver_def err_map_Inl is_ok_iff split: option.splits if_splits)

lemma starts_named_resolver:
  assumes d: "map_of (c_resolvers c) name = Some d" and ep: "is_ok (endpoint_parse (rd_endpoint d))"
    and refs: "refs_built d registry"
  shows "starts (start_ok env webpki) (build_named_resolver env c registry name) (\<lambda>_. True) startup_external"
proof -
  have eff: "effective_resolver_of c name = Inr (resolver_effective d name (c_global c))"
    by (simp add: effective_resolver_of_def resolver_def_of_def d)
  have fields: "er_bootstrap (resolver_effective d name (c_global c)) = rd_bootstrap d"
      "er_ech_resolver (resolver_effective d name (c_global c)) = tier (rd_ech d) ec_ech_resolver"
      "er_endpoint (resolver_effective d name (c_global c)) = rd_endpoint d"
    by (simp_all add: resolver_effective_def Let_def)
  have helper: "startup_external e"
    if "helper_resolver env registry spec family what l1 l2 = Inl e" "spec \<in> {rd_bootstrap d, tier (rd_ech d) ec_ech_resolver}"
    for e spec family what l1 l2
    using helper_resolver_error [OF that(1)] that(2) refs unfolding refs_built_def by blast
  show ?thesis
    unfolding build_named_resolver_def Let_def
    by (rule starts_then_lift starts_any [OF starts_return] starts_then_any [OF _ starts_verifier])+
      (use eff ep in \<open>auto simp: fields err_map_Inl is_ok_iff resolver_dial_host_def optional_prefix_def resolver_ech_helper_def
          map_sum_eq_Inl ok_or_Inl dest!: helper split: upstream_host.splits option.splits\<close>)
qed

text \<open>References written without surrounding blanks are the ones the build order follows.\<close>

definition tidy_refs :: "config \<Rightarrow> bool" where
  "tidy_refs c \<longleftrightarrow> (\<forall>(n, d)\<in>set (c_resolvers c). \<forall>e\<in>set (resolver_references d). trim e = e)"

lemma refs_built_in_order:
  assumes c: "config_validate lib c = Inr ()" and t: "tidy_refs c" and d: "map_of (c_resolvers c) name = Some d"
    and before: "\<forall>n\<in>depends (c_resolvers c) name. registry n \<noteq> None"
  shows "refs_built d registry"
  unfolding refs_built_def
proof (intro allI impI)
  fix s
  assume s: "Some s \<in> {rd_bootstrap d, tier (rd_ech d) ec_ech_resolver}" "is_resolver_ref s"
  have mem: "(name, d) \<in> set (c_resolvers c)" using d by (rule map_of_SomeD)
  have ref: "s \<in> set (resolver_references d)" using s(1) by (auto simp: resolver_references_def)
  have "(OBootstrap name, s) \<in> set (resolver_refs c) \<or> (OResolverEch name, s) \<in> set (resolver_refs c)"
  proof (cases "rd_bootstrap d = Some s")
    case True
    then show ?thesis using mem by (force simp: resolver_refs_def)
  next
    case False
    then have "tier (rd_ech d) ec_ech_resolver = Some s" using s(1) by auto
    then show ?thesis using mem by (force simp: resolver_refs_def ech_refs_def)
  qed
  then have "known c s" using refs_known [OF c] by blast
  from known_name [OF this s(2)] obtain n where n: "strip_prefix ''@'' (trim s) = Some n" by blast
  have "trim s = s" using t mem ref by (auto simp: tidy_refs_def)
  then have "s = CHR ''@'' # n" using n by (simp add: strip_prefix_Some)
  then have "n \<in> depends (c_resolvers c) name" using d ref s(2) by (simp add: depends_def)
  then show "is_ok (registered registry s)" using before n by (auto simp: registered_def is_ok_iff)
qed

lemma starts_in_order:
  assumes c: "config_validate lib c = Inr ()" "tidy_refs c"
    and order: "resolver_build_order (c_resolvers c) = Inr (ys @ names)"
    and ready: "\<forall>n\<in>set ys. registry n \<noteq> None"
  shows "starts (start_ok env webpki) (build_in_order env c registry names) (complete_registry c) startup_external"
  using order ready
proof (induction names arbitrary: ys registry)
  case Nil
  have "set ys = fst ` set (c_resolvers c)" using build_order_ok [OF Nil.prems(1)] by simp
  then have "complete_registry c registry" using Nil.prems(2) unfolding complete_registry_def by blast
  then show ?case unfolding build_in_order.simps by (intro starts_weaken [OF starts_return]) simp
next
  case (Cons name names)
  have top: "set (ys @ name # names) = fst ` set (c_resolvers c)" "depends (c_resolvers c) name \<subseteq> set ys"
    using build_order_ok [OF Cons.prems(1)] by (auto simp: topological_def)
  then have "name \<in> fst ` set (c_resolvers c)" by auto
  then obtain d where d: "map_of (c_resolvers c) name = Some d"
    by (metis (no_types) map_of_eq_None_iff not_None_eq)
  have step: "starts (start_ok env webpki) (build_named_resolver env c registry name) (\<lambda>_. True) startup_external"
    by (rule starts_named_resolver [OF d validated_resolver [OF c(1) map_of_SomeD [OF d]] refs_built_in_order [OF c d]])
      (use Cons.prems(2) top(2) in blast)
  have rest: "starts (start_ok env webpki) (build_in_order env c (registry(name := Some handle)) names) (complete_registry c)
      startup_external" for handle
    by (rule Cons.IH [of "ys @ [name]"]) (use Cons.prems in auto)
  show ?case unfolding build_in_order.simps by (rule starts_then_any [OF rest step])
qed

lemma starts_named_resolvers:
  assumes "config_validate lib c = Inr ()" "tidy_refs c"
  shows "starts (start_ok env webpki) (build_named_resolvers env c) (complete_registry c) startup_external"
proof -
  obtain order where o: "resolver_build_order (c_resolvers c) = Inr order"
    using config_validate_parts(4) [OF assms(1)] by (auto simp: validate_resolvers_def is_ok_iff)
  show ?thesis
    unfolding build_named_resolvers_def
    by (rule starts_then_lift)
      (use starts_in_order [OF assms, of "[]"] in \<open>auto simp: o err_map_def\<close>)
qed

text \<open>Pools.\<close>

lemma probe_plan_total:
  assumes "probe_validate lib d = Inr spec"
  shows "build_probe_plan spec ech verify \<noteq> None"
proof -
  have r: "probe_reduce lib d = Inr spec" using assms by (auto simp: probe_validate_def)
  show ?thesis
  proof (cases spec)
    case (ProbeHttp u codes t e v)
    then have "reduce_http lib d = Inr spec"
      using r by (auto simp: probe_reduce_def reduce_tcp_def reduce_tls_def split: if_splits option.splits)
    then show ?thesis by (rule reduce_http_ok) (auto simp: ProbeHttp Let_def)
  qed (simp_all add: Let_def)
qed

lemma check_indexed_ok: "check_indexed f i xs = Inr () \<longleftrightarrow> (\<forall>k<length xs. f (i + k) (xs ! k) = Inr ())"
proof (induction xs arbitrary: i)
  case (Cons x xs)
  have "(\<forall>k<length (x # xs). f (i + k) ((x # xs) ! k) = Inr ())
      \<longleftrightarrow> f i x = Inr () \<and> (\<forall>k<length xs. f (Suc i + k) (xs ! k) = Inr ())"
    by (auto simp: less_Suc_eq_0_disj)
  then show ?case using Cons.IH by simp
qed simp

lemma map_indexed_err: "map_indexed f i xs = Inl e \<Longrightarrow> \<exists>k<length xs. f (i + k) (xs ! k) = Inl e"
proof (induction xs arbitrary: i)
  case (Cons x xs)
  show ?case
  proof (cases "f i x")
    case (Inl e')
    then show ?thesis using Cons.prems by (auto intro: exI [of _ 0])
  next
    case (Inr y)
    then have "map_indexed f (Suc i) xs = Inl e" using Cons.prems by (cases "map_indexed f (Suc i) xs") auto
    from Cons.IH [OF this] obtain k where "k < length xs" "f (Suc i + k) (xs ! k) = Inl e" by blast
    then show ?thesis by (auto intro: exI [of _ "Suc k"])
  qed
qed simp

lemma validated_pool:
  assumes c: "config_validate lib c = Inr ()" and d: "(name, d) \<in> set (c_pools c)"
  shows "\<exists>spec. probe_validate lib (po_probe d) = Inr spec
      \<and> (\<forall>b s. probe_ech spec = Some b \<longrightarrow> ep_ech_resolver (probe_ech_resolve b (c_global c)) = Some s \<longrightarrow> known c s)"
    "po_resolver d = Some s \<Longrightarrow> known c s"
    "k < length (po_targets d) \<Longrightarrow> is_ok (target_parse (lb_cidr lib) (target_addr (po_targets d ! k)))"
proof -
  have v: "validate_pool lib c (name, d) = Inr ()" using config_validate_parts(6) [OF c] d by (simp add: validate_pools_def)
  have k: "known c s" if "(if is_resolver_ref s then map_err e (map_sum id (\<lambda>_. ()) (resolve_resolver_ref (c_resolvers c) s))
      else Inr ()) = Inr ()" for s e
    unfolding known_def
  proof
    assume "is_resolver_ref s"
    then have "map_err e (map_sum id (\<lambda>_. ()) (resolve_resolver_ref (c_resolvers c) s)) = Inr ()" using that by simp
    then show "is_ok (resolve_resolver_ref (c_resolvers c) s)" by (simp only: map_err_ok drop_value_ok)
  qed
  show "known c s" if "po_resolver d = Some s"
    using v that by (intro k [of s "BadReference (OPool name)"]) (simp add: validate_pool_def Let_def)
  show "is_ok (target_parse (lb_cidr lib) (target_addr (po_targets d ! k)))" if "k < length (po_targets d)"
    using v that by (simp add: validate_pool_def Let_def check_indexed_ok validate_target_def)
  have p: "validate_pool_probe lib c name (po_probe d) = Inr ()" using v by (simp add: validate_pool_def Let_def)
  then obtain spec where spec: "probe_validate lib (po_probe d) = Inr spec" by (auto simp: validate_pool_probe_def)
  have "known c s" if "probe_ech spec = Some b" "ep_ech_resolver (probe_ech_resolve b (c_global c)) = Some s" for b s
    using p spec that by (intro k [of s "BadReference (OPoolEch name)"]) (simp add: validate_pool_probe_def Let_def split: if_splits)
  then show "\<exists>spec. probe_validate lib (po_probe d) = Inr spec
      \<and> (\<forall>b s. probe_ech spec = Some b \<longrightarrow> ep_ech_resolver (probe_ech_resolve b (c_global c)) = Some s \<longrightarrow> known c s)"
    using spec by blast
qed

lemma system_not_ref: "\<not> is_resolver_ref ''system''"
  by code_simp

lemma pool_builder_total:
  assumes c: "config_validate (en_libs env) c = Inr ()" and d: "(name, d) \<in> set (c_pools c)"
    and spec: "probe_validate (en_libs env) (po_probe d) = Inr spec"
  shows "pool_builder_new env pe name d spec resolver ech verify \<noteq> Inl e"
proof -
  have "\<exists>ts. map_indexed (draw_targets env name) 0 (po_targets d) = Inr ts"
  proof (rule ccontr)
    assume "\<nexists>ts. map_indexed (draw_targets env name) 0 (po_targets d) = Inr ts"
    then obtain e where "map_indexed (draw_targets env name) 0 (po_targets d) = Inl e"
      by (cases "map_indexed (draw_targets env name) 0 (po_targets d)") auto
    from map_indexed_err [OF this] obtain k where k: "k < length (po_targets d)" "draw_targets env name k (po_targets d ! k) = Inl e"
      by auto
    then show False using validated_pool(3) [OF c d k(1)] by (auto simp: draw_targets_def is_ok_iff err_map_def)
  qed
  moreover have "validate_parameters (po_probe d) = Inr ()" using spec by (auto simp: probe_validate_def)
  moreover obtain plan where "build_probe_plan spec ech verify = Some plan" using probe_plan_total [OF spec] by fast
  ultimately show ?thesis by (auto simp: pool_builder_new_def err_map_def)
qed

lemma starts_pool:
  assumes c: "config_validate (en_libs env) c = Inr ()" and name: "name \<in> fst ` set (c_pools c)"
    and reg: "complete_registry c registry"
  shows "starts (start_ok env webpki) (build_pool env pe c registry name) (\<lambda>b. fst b = name) startup_external"
proof -
  obtain d where d: "pool_def_of c name = Some d" "(name, d) \<in> set (c_pools c)"
    using name by (metis pool_def_of_def map_of_SomeD map_of_eq_None_iff not_None_eq)
  obtain spec where spec: "probe_validate (en_libs env) (po_probe d) = Inr spec"
      "\<forall>b s. probe_ech spec = Some b \<longrightarrow> ep_ech_resolver (probe_ech_resolve b (c_global c)) = Some s \<longrightarrow> known c s"
    using validated_pool(1) [OF c d(2)] by blast
  have good: "is_ok (registered registry s)" if "known c s" "is_resolver_ref s" for s
    by (rule known_registered [OF that(1) reg that(2)])
  have own: "starts (start_ok env webpki) (get_resolver env registry (unwrap_or ''system'' (po_resolver d)) fam)
      (\<lambda>_. True) startup_external" for fam
    by (rule starts_resolver)
      (use good validated_pool(2) [OF c d(2)] system_not_ref in \<open>auto simp: unwrap_or_def split: option.splits\<close>)
  have ech: "starts (start_ok env webpki)
     (case probe_ech spec of None \<Rightarrow> start_return None
       | Some block \<Rightarrow>
           (let ech = probe_ech_resolve block (c_global c) in
            start_bind (get_resolver env registry (unwrap_or (unwrap_or ''system'' (po_resolver d)) (ep_ech_resolver ech)) Dual)
              (\<lambda>_. start_return (Some ech)))) (\<lambda>_. True) startup_external"
  proof (cases "probe_ech spec")
    case None
    then show ?thesis using starts_any [OF starts_return] by simp
  next
    case (Some b)
    have "starts (start_ok env webpki) (get_resolver env registry
        (unwrap_or (unwrap_or ''system'' (po_resolver d)) (ep_ech_resolver (probe_ech_resolve b (c_global c)))) Dual)
        (\<lambda>_. True) startup_external"
    proof (cases "ep_ech_resolver (probe_ech_resolve b (c_global c))")
      case None
      then show ?thesis using own by (simp add: unwrap_or_def)
    next
      case s: (Some s)
      then show ?thesis using spec(2) Some good by (intro starts_resolver) (simp add: unwrap_or_def)
    qed
    then show ?thesis unfolding Some option.case Let_def by (rule starts_then_any [OF starts_any [OF starts_return]])
  qed
  have last: "starts (start_ok env webpki) (start_bind (start_lift (pool_builder_new env pe name d spec resolver ech verify))
      (\<lambda>b. start_return (name, b))) (\<lambda>b. fst b = name) startup_external" for resolver ech verify
    by (rule starts_then_lift, rule starts_weaken [OF starts_return]) (simp_all add: pool_builder_total [OF c d(2) spec(1)])
  show ?thesis
    unfolding build_pool_def d(1) ok_or.simps spec(1) err_map_def map_sum.simps lift_value Let_def
    by (rule starts_then_any [OF starts_then_any [OF starts_then_any [OF last starts_verifier] ech [unfolded Let_def]] own])
qed

lemma register_route_total:
  assumes "template_for c (rt_use_template rt) = Inr tpl"
    and "\<And>u p. resolved_upstream_from (upstream_spec_of rt tpl) (sock_port (ln_addr lis)) = Some u \<Longrightarrow> ru_host u = PoolRef p
      \<Longrightarrow> views_in bs p \<noteq> None"
  shows "\<exists>bs'. register_route c lis rt bs = Inr bs'"
  using assms by (fastforce simp: register_route_def err_map_def views_in_def split: option.splits upstream_host.splits)

lemma register_routes_total:
  assumes "\<forall>(lis, rt)\<in>set lrs. \<exists>tpl. template_for c (rt_use_template rt) = Inr tpl
      \<and> (\<forall>u p. resolved_upstream_from (upstream_spec_of rt tpl) (sock_port (ln_addr lis)) = Some u \<longrightarrow> ru_host u = PoolRef p
          \<longrightarrow> views_in bs p \<noteq> None)"
  shows "\<exists>bs'. register_routes c lrs bs = Inr bs'"
  using assms
proof (induction lrs arbitrary: bs)
  case (Cons lr lrs)
  obtain lis rt where lr: "lr = (lis, rt)" by (cases lr)
  then obtain bs1 where bs1: "register_route c lis rt bs = Inr bs1"
    using Cons.prems register_route_total [of c rt _ lis bs] by fastforce
  have "views_in bs1 p \<noteq> None" if "views_in bs p \<noteq> None" for p
    using register_route_ok [OF bs1] that by (fastforce simp: grown_def)
  then have "\<exists>bs'. register_routes c lrs bs1 = Inr bs'" using Cons.prems by (intro Cons.IH) fastforce
  then show ?case using bs1 lr by simp
qed simp

lemma spawn_error: "spawn_pool name b = Inl e \<Longrightarrow> startup_external e"
proof -
  have "startup_external e" if "map_res (\<lambda>p. err_map (StNat64 name) (nat64_from_str p)) ps = Inl e" for ps e
    using map_res_err [OF that] by (auto simp: err_map_Inl)
  then show "spawn_pool name b = Inl e \<Longrightarrow> startup_external e"
    by (cases "po_nat64 (pb_def b)") (auto simp: spawn_pool_def split: sum.splits elim!: res_bind.elims)
qed

text \<open>A validated route that names a pool names a declared one.\<close>

lemma validated_route:
  assumes c: "config_validate lib c = Inr ()" and l: "lis \<in> set (c_listeners c)" "rt \<in> set (all_routes lis)"
  shows "\<exists>lt tpl ty u. template_for c (ln_use_template lis) = Inr lt \<and> template_for c (rt_use_template rt) = Inr tpl
    \<and> effective_route_type rt tpl = Some ty
    \<and> resolved_upstream_from (upstream_spec_of rt tpl) (sock_port (ln_addr lis)) = Some u
    \<and> (\<forall>p. ru_host u = PoolRef p \<longrightarrow> p \<in> fst ` set (c_pools c))"
proof -
  have dom: "pool_def_of c p \<noteq> None \<longleftrightarrow> p \<in> fst ` set (c_pools c)" for p
    by (simp add: pool_def_of_def map_of_eq_None_iff)
  obtain lt where lt: "template_for c (ln_use_template lis) = Inr lt" "route_sound (lib) c lis lt rt"
    using validated_listener_sound [OF c l(1)] l(2) by blast
  obtain tpl ty u where "template_for c (rt_use_template rt) = Inr tpl" "effective_route_type rt tpl = Some ty"
      "resolved_upstream_from (upstream_spec_of rt tpl) (sock_port (ln_addr lis)) = Some u"
      "\<forall>p. ru_host u = PoolRef p \<longrightarrow> pool_def_of c p \<noteq> None"
    using lt(2) unfolding route_sound_def by blast
  then show ?thesis using lt(1) unfolding dom by blast
qed

lemma starts_pools:
  fixes env :: "('re, 'c, 'k, 'r) start_env" and pe :: "'f pool_env"
  assumes c: "config_validate (en_libs env) c = Inr ()" and reg: "complete_registry c registry"
  shows "starts (start_ok env webpki) (build_pools env pe c registry)
    (\<lambda>ps. \<forall>lr\<in>set (config_routes c). pooled c (pool_views ps) lr) startup_external"
proof -
  have routes: "\<exists>tpl u. template_for c (rt_use_template rt) = Inr tpl
      \<and> resolved_upstream_from (upstream_spec_of rt tpl) (sock_port (ln_addr lis)) = Some u
      \<and> (\<forall>p. ru_host u = PoolRef p \<longrightarrow> p \<in> fst ` set (c_pools c))" if "(lis, rt) \<in> set (config_routes c)" for lis rt
    using validated_route [OF c, of lis rt] that by (auto simp: config_routes_def)
  show ?thesis
  proof (cases "c_pools c = []")
    case True
    then have "pooled c P lr" if "lr \<in> set (config_routes c)" for P lr
      using routes [of "fst lr" "snd lr"] that by (auto simp: pooled_def)
    then show ?thesis unfolding build_pools_def if_P [OF True] by (intro starts_weaken [OF starts_return]) simp
  next
    case False
    let ?names = "sort (List.map fst (c_pools c))"
    have each: "starts (start_ok env webpki) (start_map (build_pool env pe c registry) ?names)
        (\<lambda>bs. list_all2 (\<lambda>n b. fst b = n) ?names bs) startup_external"
      by (rule starts_map) (use starts_pool [OF c _ reg] in auto)
    have rest: "starts (start_ok env webpki) (start_bind (start_lift (register_routes c (config_routes c) bs)) (\<lambda>bs.
          start_lift (map_res (\<lambda>(name, b). res_bind (spawn_pool name b) (\<lambda>p. Inr (name, p))) (filter (\<lambda>(name, b). is_used b) bs))))
        (\<lambda>ps. \<forall>lr\<in>set (config_routes c). pooled c (pool_views ps) lr) startup_external"
      if "list_all2 (\<lambda>n b. fst b = n) ?names bs" for bs :: "(string \<times> ('f, 'r) pool_builder) list"
    proof (rule starts_then_lift)
      have "?names = List.map fst bs" using that
        by (auto simp: list_all2_conv_all_nth intro!: nth_equalityI)
      then have "fst ` set bs = fst ` set (c_pools c)" by (metis list.set_map set_sort)
      then have views: "views_in bs p \<noteq> None" if "p \<in> fst ` set (c_pools c)" for p
        using that by (auto simp: views_in_def map_of_eq_None_iff)
      have "\<exists>bs'. register_routes c (config_routes c) bs = Inr bs'"
      proof (rule register_routes_total, clarify)
        fix lis rt
        assume "(lis, rt) \<in> set (config_routes c)"
        from routes [OF this] views
        show "\<exists>tpl. template_for c (rt_use_template rt) = Inr tpl
          \<and> (\<forall>u p. resolved_upstream_from (upstream_spec_of rt tpl) (sock_port (ln_addr lis)) = Some u \<longrightarrow> ru_host u = PoolRef p
              \<longrightarrow> views_in bs p \<noteq> None)" by (metis option.inject)
      qed
      then show "startup_external e" if "register_routes c (config_routes c) bs = Inl e" for e using that by auto
    next
      fix bs'
      assume bs': "register_routes c (config_routes c) bs = Inr bs'"
      show "starts (start_ok env webpki) (start_lift (map_res (\<lambda>(name, b). res_bind (spawn_pool name b) (\<lambda>p. Inr (name, p)))
          (filter (\<lambda>(name, b). is_used b) bs'))) (\<lambda>ps. \<forall>lr\<in>set (config_routes c). pooled c (pool_views ps) lr) startup_external"
      proof (rule starts_weaken [OF starts_lift])
        fix e
        assume "map_res (\<lambda>(name, b). res_bind (spawn_pool name b) (\<lambda>p. Inr (name, p))) (filter (\<lambda>(name, b). is_used b) bs') = Inl e"
        from map_res_err [OF this] obtain n and b :: "('f, 'r) pool_builder" where "res_bind (spawn_pool n b) (\<lambda>p. Inr (n, p)) = Inl e" by auto
        then have "spawn_pool n b = Inl e" by (cases "spawn_pool n b") simp_all
        then show "startup_external e" by (rule spawn_error)
      next
        fix ps
        assume ps: "map_res (\<lambda>(name, b). res_bind (spawn_pool name b) (\<lambda>p. Inr (name, p))) (filter (\<lambda>(name, b). is_used b) bs') = Inr ps"
        show "\<forall>lr\<in>set (config_routes c). pooled c (pool_views ps) lr"
          using register_routes_ok [OF bs'] spawned_pooled [OF ps] by blast
      qed
    qed
    show ?thesis unfolding build_pools_def if_not_P [OF False] by (rule starts_bind [OF each rest])
  qed
qed

text \<open>Routes and listeners.\<close>

lemma starts_upstream:
  assumes addr: "is_resolver_ref (unwrap_or [] (ef_addr_resolver eff)) \<Longrightarrow>
      is_ok (registered registry (unwrap_or [] (ef_addr_resolver eff)))"
    and pool: "\<And>name. ru_host u = PoolRef name \<Longrightarrow> \<exists>views view. pools name = Some views \<and> view_for views sel = Some view"
  shows "starts (start_ok env webpki) (route_upstream env registry pools label sel u eff nat64) (\<lambda>_. True) startup_external"
proof (cases "ru_host u")
  case (PoolRef name)
  then obtain views view where "pools name = Some views" "view_for views sel = Some view" using pool by blast
  then show ?thesis using PoolRef starts_any [OF starts_return] by (simp add: route_upstream_def Let_def)
qed (auto simp: route_upstream_def Let_def intro!: starts_then_any starts_any [OF starts_return] starts_resolver addr)

lemma starts_tls:
  assumes ech: "\<And>s. s \<in> {unwrap_or ''system'' (ef_addr_resolver eff)} \<union> set_option (ef_ech_resolver eff) \<Longrightarrow> is_resolver_ref s
      \<Longrightarrow> is_ok (registered registry s)"
  shows "starts (start_ok env webpki) (route_tls env registry label ty port sni eff e v) (\<lambda>_. True) startup_external"
proof (cases ty)
  case RtEch
  define spec where "spec = (case ef_ech_resolver eff of Some s \<Rightarrow> s | None \<Rightarrow> unwrap_or ''system'' (ef_addr_resolver eff))"
  have "spec \<in> {unwrap_or ''system'' (ef_addr_resolver eff)} \<union> set_option (ef_ech_resolver eff)"
    by (auto simp: spec_def split: option.splits)
  then have "starts (start_ok env webpki) (get_resolver env registry spec Dual) (\<lambda>_. True) startup_external"
    by (intro starts_resolver ech)
  then show ?thesis
    unfolding RtEch route_tls_def route_type.case Let_def spec_def
    by (rule starts_then_any [OF starts_then_any [OF starts_any [OF starts_return]] starts_verifier])
next
  case RtTls
  show ?thesis
    unfolding RtTls route_tls_def route_type.case by (rule starts_then_any [OF starts_any [OF starts_return] starts_verifier])
qed (simp_all add: route_tls_def starts_any [OF starts_return])

lemma starts_probe_target:
  "starts (start_ok env webpki) (route_probe label ty h2 port eff nat64 fixed via) (\<lambda>_. True) startup_external"
  by (auto simp: route_probe_def intro!: starts_push starts_any [OF starts_return] split: route_via.splits option.splits)

lemma pinned_error: "route_pinned env label pair = Inl e \<Longrightarrow> startup_external e"
  by (auto simp: route_pinned_def err_map_Inl split: prod.splits option.splits)

lemma nat64_error: "route_nat64 label eff = Inl e \<Longrightarrow> startup_external e"
  by (auto simp: route_nat64_def err_map_Inl split: if_splits option.splits)

lemma starts_route:
  assumes c: "config_validate lib c = Inr ()" and l: "lis \<in> set (c_listeners c)" "rt \<in> set (all_routes lis)"
    and reg: "complete_registry c registry" and pools: "pooled c pools (lis, rt)"
  shows "starts (start_ok env webpki) (build_route env c registry pools lis rt) (\<lambda>_. True) startup_external"
proof -
  obtain lt tpl ty u where t: "template_for c (ln_use_template lis) = Inr lt" "template_for c (rt_use_template rt) = Inr tpl"
      "effective_route_type rt tpl = Some ty"
      "resolved_upstream_from (upstream_spec_of rt tpl) (sock_port (ln_addr lis)) = Some u"
    using validated_route [OF c l] by blast
  note refs = effective_refs_known [OF c l t(2,1)]
  have good: "is_ok (registered registry s)" if "known c s" "is_resolver_ref s" for s
    by (rule known_registered [OF that(1) reg that(2)])
  have empty: "\<not> is_resolver_ref []" by code_simp
  have up: "starts (start_ok env webpki) (route_upstream env registry pools label (select_for rt tpl) u (effective_of c lis rt tpl lt) nat64)
      (\<lambda>_. True) startup_external" for label nat64
  proof (rule starts_upstream)
    show "is_ok (registered registry (unwrap_or [] (ef_addr_resolver (effective_of c lis rt tpl lt))))"
      if "is_resolver_ref (unwrap_or [] (ef_addr_resolver (effective_of c lis rt tpl lt)))"
      using that empty good refs(1) by (cases "ef_addr_resolver (effective_of c lis rt tpl lt)") (simp_all add: unwrap_or_def)
    show "\<exists>views view. pools name = Some views \<and> view_for views (select_for rt tpl) = Some view"
      if "ru_host u = PoolRef name" for name
      using pools t that unfolding pooled_def by fastforce
  qed
  have tls: "starts (start_ok env webpki) (route_tls env registry label ty port sni (effective_of c lis rt tpl lt) e v)
      (\<lambda>_. True) startup_external" for label port sni e v
  proof (rule starts_tls)
    show "is_ok (registered registry s)" if "s \<in> {unwrap_or ''system'' (ef_addr_resolver (effective_of c lis rt tpl lt))}
        \<union> set_option (ef_ech_resolver (effective_of c lis rt tpl lt))" "is_resolver_ref s" for s
      using that system_not_ref good refs by (auto simp: unwrap_or_def split: option.splits)
  qed
  show ?thesis
    unfolding build_route_def Let_def t err_map_def map_sum.simps lift_value ok_or.simps split_def
    by (rule starts_then_lift starts_any [OF starts_return] starts_then_any [OF _ up] starts_then_any [OF _ tls]
        starts_then_any [OF _ starts_probe_target] | erule pinned_error nat64_error)+
qed

lemma starts_result:
  assumes "starts I m Q E"
  shows "starts I m (\<lambda>x. Q x \<and> (\<exists>s s1. I s \<and> m s = (s1, Inr x))) E"
  unfolding starts_def
proof (intro allI impI)
  fix s s' r
  assume "I s" "m s = (s', r)"
  with assms have "I s' \<and> (case r of Inl e \<Rightarrow> E e | Inr x \<Rightarrow> Q x)" unfolding starts_def by blast
  then show "I s' \<and> (case r of Inl e \<Rightarrow> E e | Inr x \<Rightarrow> Q x \<and> (\<exists>s s1. I s \<and> m s = (s1, Inr x)))"
    using \<open>I s\<close> \<open>m s = (s', r)\<close> by (cases r) auto
qed

definition came_up :: "('re, 'c, 'k, 'r) start_env \<Rightarrow> 'r list \<Rightarrow> config \<Rightarrow> 'r registry \<Rightarrow> (string \<Rightarrow> selector list list option)
    \<Rightarrow> listener \<Rightarrow> ('re, 'c, 'k, 'r) built_listener \<Rightarrow> bool" where
  "came_up env webpki c registry pools lis bl \<longleftrightarrow>
     (\<exists>s s1. start_ok env webpki s \<and> build_listener env c registry pools lis s = (s1, Inr bl))"

lemma starts_listener:
  assumes c: "config_validate lib c = Inr ()" and l: "lis \<in> set (c_listeners c)"
    and reg: "complete_registry c registry" and pools: "\<forall>lr\<in>set (config_routes c). pooled c pools lr"
  shows "starts (start_ok env webpki) (build_listener env c registry pools lis) (came_up env webpki c registry pools lis) startup_external"
proof -
  have "starts (start_ok env webpki) (build_route env c registry pools lis rt) (\<lambda>_. True) startup_external"
    if "rt \<in> set (all_routes lis)" for rt
    by (rule starts_route [OF c l that reg]) (use pools l that in \<open>auto simp: config_routes_def\<close>)
  then have each: "starts (start_ok env webpki) (start_map (build_route env c registry pools lis) (all_routes lis))
      (\<lambda>_. True) startup_external"
    by (intro starts_any [OF starts_map])
  have "starts (start_ok env webpki) (build_listener env c registry pools lis) (\<lambda>_. True) startup_external"
    unfolding build_listener_def Let_def
    by (rule starts_then_any [OF _ each], rule starts_then_lift) (auto simp: err_map_Inl intro: starts_any [OF starts_return])
  from starts_result [OF this] show ?thesis by (rule starts_weaken) (simp add: came_up_def)
qed

text \<open>The check of HTTP/2 backends only fails with the list of backends that failed.\<close>

lemma run_probes_error:
  assumes off: "\<forall>t\<in>set targets. pt_policy t \<noteq> H2Off" and perm: "\<And>gs. mset (finish gs) = mset gs"
    and "run_probes w finish targets = Inl e"
  shows "startup_external e"
proof -
  have "pg_policy g \<noteq> H2Off" if "(k, g) \<in> set (finish (group_probe_targets targets))" for k g
  proof -
    have "(k, g) \<in> set (group_probe_targets targets)" using that perm by (metis set_mset_mset)
    then have m: "merged (filter (\<lambda>u. key_of u = k) targets) = Some g"
      using group_probe_targets_lookup [of targets k] by (metis map_of_is_SomeI)
    then have "filter (\<lambda>u. key_of u = k) targets \<noteq> []" by (auto simp: merged_def)
    then show ?thesis using merged_policy [OF m] off by (fastforce simp: filter_empty_conv)
  qed
  then have "\<forall>(k, g)\<in>set (finish (group_probe_targets targets)). pg_policy g \<noteq> H2Off" by blast
  from collect_failures_ok [OF this] obtain fs where "collect_failures w (finish (group_probe_targets targets)) = Inr fs"
    by blast
  then show ?thesis using assms(3) by (auto simp: run_probes_def split: if_splits)
qed

lemma starts_launch:
  fixes env :: "('re, 'c, 'k, 'r) start_env" and pe :: "'f pool_env"
  assumes c: "config_validate (en_libs env) c = Inr ()" "tidy_refs c" and perm: "\<And>gs. mset (finish gs) = mset gs"
  shows "starts (start_ok env webpki) (launch env pe w finish c)
    (\<lambda>(registry, pools, listeners). complete_registry c registry \<and> (\<forall>lr\<in>set (config_routes c). pooled c (pool_views pools) lr)
       \<and> list_all2 (came_up env webpki c registry (pool_views pools)) (c_listeners c) listeners) startup_external"
  unfolding launch_def
proof (rule starts_bind [OF starts_named_resolvers [OF c]], rule starts_bind [OF starts_pools [OF c(1)]], assumption)
  fix registry :: "'r registry" and pools :: "(string \<times> ('f, 'r) started_pool) list"
  assume reg: "complete_registry c registry" and ps: "\<forall>lr\<in>set (config_routes c). pooled c (pool_views pools) lr"
  have probes: "starts (start_ok env webpki) (\<lambda>s. (s, run_probes w finish (sx_probes s))) (\<lambda>_. True) startup_external"
    using run_probes_error [OF _ perm] by (auto simp: starts_def start_ok_def split: sum.splits)
  show "starts (start_ok env webpki)
      (start_bind (start_map (build_listener env c registry (pool_views pools)) (c_listeners c)) (\<lambda>listeners.
        start_bind (\<lambda>s. (s, run_probes w finish (sx_probes s))) (\<lambda>_. start_return (registry, pools, listeners))))
      (\<lambda>(registry, pools, listeners). complete_registry c registry \<and> (\<forall>lr\<in>set (config_routes c). pooled c (pool_views pools) lr)
       \<and> list_all2 (came_up env webpki c registry (pool_views pools)) (c_listeners c) listeners) startup_external"
    by (rule starts_bind [OF starts_map [OF starts_listener [OF c(1) _ reg ps]]], assumption,
        rule starts_then_any [OF starts_weaken [OF starts_return] probes]) (simp add: reg ps)
qed

section \<open>Properties\<close>


lemma came_up_routes:
  assumes up: "came_up env webpki c registry pools lis bl"
    and m: "match_host rxm (ls_router (bl_state bl)) h = Some i"
  shows "i < length (all_routes lis)" "i < length (ls_routes (bl_state bl))" "bl_addr bl = ln_addr lis"
    "ls_routes (bl_state bl) ! i = bu_runtime (bl_built bl ! i)" "runtime_ok (bu_runtime (bl_built bl ! i))"
    "as_configured env webpki c pools lis (all_routes lis ! i) (bl_built bl ! i)"
proof -
  obtain s s1 where b: "build_listener env c registry pools lis s = (s1, Inr bl)" "start_ok env webpki s"
    using up by (auto simp: came_up_def)
  note parts = build_listener_ok [OF b]
  show i: "i < length (all_routes lis)" by (rule listener_route_below [OF b m])
  show "i < length (ls_routes (bl_state bl))" "bl_addr bl = ln_addr lis"
    "ls_routes (bl_state bl) ! i = bu_runtime (bl_built bl ! i)" "runtime_ok (bu_runtime (bl_built bl ! i))"
    "as_configured env webpki c pools lis (all_routes lis ! i) (bl_built bl ! i)"
    using parts i by simp_all
qed


section \<open>A startup that succeeds\<close>

definition sample_env :: "(unit, unit, unit, string) start_env" where
  "sample_env = \<lparr>en_libs = sample_libs, en_ech = sample_ech_lib,
     en_anchors = (\<lambda>_. \<lparr>an_read = (\<lambda>_. None), an_pem = (\<lambda>_. []), an_add = (\<lambda>_. None)\<rparr>),
     en_os = (\<lambda>_ _. None), en_accept = (\<lambda>_. Inr ()), en_compile = (\<lambda>_. None), en_file = (\<lambda>_. None), en_certs = (\<lambda>_. None),
     en_key = (\<lambda>_. None), en_supported = (\<lambda>_. False),
     en_world = (\<lambda>_ _ _. \<lparr>bw_bootstrap = (\<lambda>_ _ _ _. Inl []), bw_bootstrap_label = [], bw_https = (\<lambda>_. Inl []),
        bw_grease_key = None, bw_accept = (\<lambda>_. Inr ()), bw_show = (\<lambda>_. [])\<rparr>),
     en_hosts = (\<lambda>_ _. []), en_draws = (\<lambda>_ _ _. 0)\<rparr>"

text \<open>A step that succeeds in it and collects no target to probe.\<close>

definition quiet :: "(string, 'a) starting \<Rightarrow> bool" where
  "quiet m \<longleftrightarrow> starts (\<lambda>s. sx_probes s = []) m (\<lambda>_. True) (\<lambda>_. False)"

lemma quiet_return: "quiet (start_return x)"
  unfolding quiet_def by (rule starts_any [OF starts_return])

lemma quiet_lift: "r = Inr x \<Longrightarrow> quiet (f x) \<Longrightarrow> quiet (start_bind (start_lift r) f)"
  by (simp add: lift_value)

lemma quiet_step: "\<exists>x. r = Inr x \<Longrightarrow> (\<And>x. quiet (f x)) \<Longrightarrow> quiet (start_bind (start_lift r) f)"
  by (auto simp: lift_value)

lemma quiet_bind: "quiet m \<Longrightarrow> (\<And>x. quiet (f x)) \<Longrightarrow> quiet (start_bind m f)"
  unfolding quiet_def by (rule starts_then_any)

lemma quiet_map: "(\<And>x. x \<in> set xs \<Longrightarrow> quiet (f x)) \<Longrightarrow> quiet (start_map f xs)"
  unfolding quiet_def by (rule starts_any [OF starts_map])

lemma quiet_resolver: "quiet (get_resolver sample_env registry ''system'' family)"
proof -
  have s: "\<not> is_resolver_ref ''system''" "trim ''system'' = ''system''" "eq_nocase ''system'' ''system''" by code_simp+
  then have "spec_parse os ''system'' = Inr SpecSystem" for os by (simp add: spec_parse_def)
  then show ?thesis
    using s by (auto simp: quiet_def starts_def get_resolver_def spec_build_def sample_env_def with_context_def Let_def
        split: option.splits)
qed

lemma quiet_verifier: "quiet (get_verifier sample_env label default_effective_verify)"
  by (auto simp: quiet_def starts_def get_verifier_def factory_get_def verifier_build_def name_check_of_def roots_for_def
      default_effective_verify_def err_map_def split: option.splits)

lemma quiet_named:
  assumes d: "map_of (c_resolvers doc_config) name = Some d" "d = plain_resolver ''system'' \<or>
      d = (plain_resolver ''system'')\<lparr>rd_bootstrap := Some ''@dns''\<rparr> \<and> registry ''dns'' = Some h"
  shows "quiet (build_named_resolver sample_env doc_config registry name)"
proof -
  have s: "is_resolver_ref ''@dns''" "trim ''@dns'' = ''@dns''" "endpoint_parse ''system'' = Inr EpSystem" by code_simp+
  have eff: "effective_resolver_of doc_config name = Inr (resolver_effective d name doc_global)"
    using d(1) by (simp add: effective_resolver_of_def resolver_def_of_def) (simp add: doc_config_def)
  have helper: "\<exists>r. helper_resolver sample_env registry (rd_bootstrap d) fam what l1 l2 = Inr r" for fam what l1 l2
    using d(2) s by (auto simp: helper_resolver_def plain_resolver_def registered_def spec_build_def sample_env_def err_map_def Let_def
        strip_prefix_Some)
  define e where "e = resolver_effective d name doc_global"
  have fields: "er_bootstrap e = rd_bootstrap d" "er_endpoint e = ''system''" "er_upstream e = None" "er_nat64_prefix e = None"
      "er_ech e = None" "er_verify e = default_effective_verify"
    using d(2) by (auto simp: e_def resolver_effective_def Let_def plain_resolver_def doc_global_def no_common_def verify_resolve_def
        verify_merge_def flatten_def map_filter_simps default_effective_verify_def unwrap_or_def)
  have up: "resolved_upstream_from None (ep_port EpSystem) = Some \<lparr>ru_host = Reflect, ru_port = ep_port EpSystem\<rparr>"
    by (simp add: resolved_upstream_from_def)
  have built: "\<exists>b. resolver_build (en_ech sample_env) (en_world sample_env n bs er) (plan_of e EpSystem h p None v) = Inr b" for n bs er h p v
    by (simp add: resolver_build_def plan_of_def fields dial_ips_def plan_ech_bytes_def plan_servers_def plan_tls_def sample_env_def
        with_context_def)
  have build_value: "\<exists>b. map_sum (StBuild name) (\<lambda>x. x) (resolver_build (en_ech sample_env) (en_world sample_env n bs er)
      (plan_of e EpSystem h p None v)) = Inr b" for n bs er h p v
    using built [of n bs er h p v] by force
  show ?thesis
    unfolding build_named_resolver_def eff e_def [symmetric] err_map_def map_sum.simps lift_value fields s(3) up ok_or.simps
      resolver_dial_host_def resolved_upstream.simps upstream_host.case resolver_ech_helper_def optional_prefix_def option.case Let_def
    by (intro quiet_step [OF helper] quiet_bind [OF quiet_verifier] quiet_step [OF build_value] quiet_return)
qed

lemma doc_route_built: "quiet (build_route sample_env doc_config registry pools doc_listener doc_route)"
proof -
  define eff where "eff = effective_of doc_config doc_listener doc_route (Some doc_template) None"
  have s: "parse_upstream ''edge.net'' = Some \<lparr>us_host = FixedHost ''edge.net'', us_port = None\<rparr>" by code_simp
  have t: "template_for doc_config (rt_use_template doc_route) = Inr (Some doc_template)"
      "template_for doc_config (ln_use_template doc_listener) = Inr None"
    by (simp_all add: template_for_def doc_config_def doc_route_def doc_listener_def)
  have ty: "effective_route_type doc_route (Some doc_template) = Some RtTls"
    by (simp add: effective_route_type_def doc_route_def doc_template_def)
  obtain u where u: "resolved_upstream_from (upstream_spec_of doc_route (Some doc_template)) (sock_port (ln_addr doc_listener)) = Some u"
      "ru_host u = FixedHost ''edge.net''"
    using s by (simp add: upstream_spec_of_def doc_route_def doc_template_def resolved_upstream_from_def)
  have e: "ef_addr_resolver eff = Some ''system''" "ef_nat64_prefix eff = None"
    by (simp_all add: eff_def effective_of_def Let_def doc_defs no_common_def)
  have v: "effective_verify_of doc_config doc_listener doc_route (Some doc_template) None = default_effective_verify"
    by (simp add: effective_verify_of_def ty doc_defs verify_merge_def flatten_def map_filter_simps default_effective_verify_def unwrap_or_def)
  have n: "route_nat64 label eff = Inr None" for label by (simp add: route_nat64_def e)
  have p: "route_pinned sample_env label (cert_key doc_route (Some doc_template)) = Inr None" for label
    by (simp add: route_pinned_def cert_key_def doc_route_def doc_template_def)
  have up: "quiet (route_upstream sample_env registry pools label sel u eff None)" for label sel
    unfolding route_upstream_def Let_def u(2) upstream_host.case e unwrap_or_def option.case
    by (rule quiet_bind [OF quiet_resolver quiet_return])
  have tls: "quiet (route_tls sample_env registry label RtTls port sni eff ech default_effective_verify)" for label port sni ech
    unfolding route_tls_def route_type.case by (rule quiet_bind [OF quiet_verifier quiet_return])
  have probe: "quiet (route_probe label RtTls h2 port eff None fixed via)" for label h2 port fixed via
    unfolding route_probe_def by (simp add: quiet_return)
  show ?thesis
    unfolding build_route_def Let_def t err_map_def map_sum.simps lift_value ty ok_or.simps u eff_def [symmetric] n v p split_def
    by (intro quiet_bind up tls probe quiet_return)
qed

lemma doc_listener_built: "quiet (build_listener sample_env doc_config registry pools doc_listener)"
proof -
  have r: "all_routes doc_listener = [doc_route]" "c_regexes doc_config = []" by (simp_all add: all_routes_def doc_defs)
  have p: "listener_patterns doc_listener = [[''a.com'']]" "default_id doc_listener = None"
    by (simp_all add: listener_patterns_def default_id_def doc_defs)
  have "build (\<lambda>_. None :: unit option) [[''a.com'']] None (\<lambda>_. None)
      = Inr \<lparr>r_exact = [(''a.com'', 0)], r_wildcard = [], r_suffix = [], r_regex = [], r_default = None\<rparr>" by code_simp
  then have b: "\<exists>x. map_sum f (\<lambda>x. x) (build (en_compile sample_env) [[''a.com'']] None (map_of [])) = Inr x" for f
    by (simp add: sample_env_def)
  show ?thesis
    unfolding build_listener_def Let_def r p err_map_def
    by (intro quiet_bind [OF quiet_map] quiet_step [OF b] quiet_return) (simp add: doc_route_built)
qed

lemma doc_starts:
  "\<exists>s' registry pools listeners. launch sample_env pe w id doc_config (start_state_new webpki) = (s', Inr (registry, pools, listeners))"
proof -
  have named: "quiet (build_in_order sample_env doc_config (\<lambda>_. None) [''dns'', ''lan''])"
    unfolding build_in_order.simps
    by (intro quiet_bind quiet_named quiet_return) (auto simp: doc_config_def)
  have resolvers: "quiet (build_named_resolvers sample_env doc_config)"
    unfolding build_named_resolvers_def doc_order err_map_def map_sum.simps lift_value by (rule named)
  have "c_pools doc_config = []" by (simp add: doc_config_def)
  then have pools: "quiet (build_pools sample_env pe doc_config registry)" for registry
    unfolding build_pools_def by (simp add: quiet_return)
  have probes: "quiet (\<lambda>s. (s, run_probes w id (sx_probes s)))" by (simp add: quiet_def starts_def run_probes_def)
  have listeners: "quiet (build_listener sample_env doc_config registry pv lis)" if "lis \<in> set (c_listeners doc_config)" for registry pv lis
    using that doc_listener_built by (simp add: doc_config_def)
  have q: "quiet (launch sample_env pe w id doc_config)"
    unfolding launch_def
    by (intro quiet_bind quiet_map quiet_return resolvers pools probes listeners)
  have "sx_probes (start_state_new webpki) = []" by (simp add: start_state_new_def)
  moreover obtain s' r where run: "launch sample_env pe w id doc_config (start_state_new webpki) = (s', r)" by fastforce
  ultimately have "\<exists>x. r = Inr x" using starts_run [OF q [unfolded quiet_def]] by (cases r) blast+
  then show ?thesis using run by auto
qed

lemma doc_tidy: "tidy_refs doc_config"
proof -
  have "trim ''@dns'' = ''@dns''" by code_simp
  then show ?thesis by (simp add: tidy_refs_def doc_config_def resolver_references_def plain_resolver_def flatten_def map_filter_simps)
qed


lemma sample_ech_env: "ech_env_ok sample_conn rt ech_state_new"
  by (simp add: ech_env_ok_def sample_conn_def sample_net_def provider_ok_def entries_def ech_state_new_def)


end
