(* ===== verification/Authority.thy ===== *)
theory Authority
  imports Ca Store Peek ConfigTypes
begin

text \<open>
  The life of the certificate authority (\<open>load_or_generate\<close>, \<open>load\<close>, \<open>generate\<close> and
  \<open>write_private_key\<close> of \<open>src/src/ca.rs\<close>): an existing pair of files is loaded, and when either
  file is missing both are made afresh. Key generation, self-signing, PEM and the reconstruction of
  an issuer from a certificate belong to the crates \<open>rcgen\<close> and \<open>rustls_pemfile\<close> and are the
  parameter \<open>authority_lib\<close>. The directory of the certificate is created without looking at the
  outcome; a directory that is still missing shows as a file that cannot be opened.
\<close>

datatype key_usage = DigitalSignature | KeyEncipherment | KeyCertSign | CrlSign

record ca_cert_params =
  cp_is_ca :: bool
  cp_key_usages :: "key_usage list"
  cp_dn :: "dn_attr list"
  cp_not_before :: int
  cp_not_after :: int

record ('k, 'd, 'i) authority_lib =
  al_generate :: "'k option"
  al_key_pem :: "'k \<Rightarrow> string"
  al_key_of_pem :: "string \<Rightarrow> 'k option"
  al_self_signed :: "ca_cert_params \<Rightarrow> 'k \<Rightarrow> (string \<times> 'd) option"
  al_certs_of_pem :: "string \<Rightarrow> 'd option list"
  al_issuer :: "string \<Rightarrow> 'k \<Rightarrow> 'i option"

text \<open>A loaded authority: what leaf issuance takes of it, and the issuer and certificate.\<close>

record ('d, 'i) authority = cert_authority +
  au_issuer :: 'i
  au_cert_der :: 'd
  au_cert_pem :: string

datatype authority_error =
    CaUnreadable path
  | CaBadKey
  | CaNoCert
  | CaBadCert
  | CaBadIssuer
  | CaNoKeyPair
  | CaSelfSign
  | CaUnwritten path

section \<open>Operations\<close>

text \<open>A file name as a directory and a name in it.\<close>

definition path_of :: "string \<Rightarrow> path" where
  "path_of s = (case rsplit_once CHR ''/'' s of Some (d, n) \<Rightarrow> (d, n) | None \<Rightarrow> ([], s))"

text \<open>\<open>std::fs::read_to_string\<close>.\<close>

definition read_text :: "io_env \<Rightarrow> fs \<Rightarrow> path \<Rightarrow> string option" where
  "read_text env f p = (case fs_read (io_plan env) p f of Inr s \<Rightarrow> if utf8_ok s then Some s else None | Inl _ \<Rightarrow> None)"

definition days :: "nat \<Rightarrow> int" where
  "days n = int n * 86400"

definition pem_to_der :: "('k, 'd, 'i) authority_lib \<Rightarrow> string \<Rightarrow> (authority_error, 'd) result" where
  "pem_to_der lib pem =
     (case al_certs_of_pem lib pem of
        [] \<Rightarrow> Inl CaNoCert
      | None # _ \<Rightarrow> Inl CaBadCert
      | Some der # _ \<Rightarrow> Inr der)"

definition authority_of :: "ca_config \<Rightarrow> 'd \<Rightarrow> string \<Rightarrow> 'i \<Rightarrow> ('d, 'i) authority" where
  "authority_of ca der pem issuer =
     \<lparr>au_organization = ca_organization ca, au_country = ca_country ca,
      au_leaf_validity = days (ca_leaf_validity_days ca), au_issuer = issuer, au_cert_der = der, au_cert_pem = pem\<rparr>"

definition authority_load :: "('k, 'd, 'i) authority_lib \<Rightarrow> io_env \<Rightarrow> fs \<Rightarrow> ca_config
    \<Rightarrow> (authority_error, ('d, 'i) authority) result" where
  "authority_load lib env f ca =
     (let cp = path_of (ca_cert_path ca); kp = path_of (ca_key_path ca) in
      res_bind (ok_or (CaUnreadable cp) (read_text env f cp)) (\<lambda>cert_pem.
      res_bind (ok_or (CaUnreadable kp) (read_text env f kp)) (\<lambda>key_pem.
      res_bind (ok_or CaBadKey (al_key_of_pem lib key_pem)) (\<lambda>key.
      res_bind (pem_to_der lib cert_pem) (\<lambda>der.
      res_bind (ok_or CaBadIssuer (al_issuer lib cert_pem key)) (\<lambda>issuer.
        Inr (authority_of ca der cert_pem issuer)))))))"

definition write_private_key :: "io_env \<Rightarrow> path \<Rightarrow> string \<Rightarrow> fs \<Rightarrow> (io_error, unit) result \<times> fs" where
  "write_private_key env p pem f =
     (case fs_write (io_plan env) (io_now env) p pem f of
        (Inl e, f1) \<Rightarrow> (Inl e, f1)
      | (Inr _, f1) \<Rightarrow> if io_plan env p = PermFails then (Inl (IoFailed p), f1) else (Inr (), f1))"

definition root_params :: "io_env \<Rightarrow> ca_config \<Rightarrow> ca_cert_params" where
  "root_params env ca =
     \<lparr>cp_is_ca = True, cp_key_usages = [KeyCertSign, CrlSign, DigitalSignature],
      cp_dn = build_dn (ca_common_name ca) (ca_organization ca) (ca_country ca),
      cp_not_before = int (io_now env) - days 1, cp_not_after = int (io_now env) + days 3650\<rparr>"

definition authority_generate :: "('k, 'd, 'i) authority_lib \<Rightarrow> io_env \<Rightarrow> fs \<Rightarrow> ca_config
    \<Rightarrow> (authority_error, ('d, 'i) authority) result \<times> fs" where
  "authority_generate lib env f ca =
     (let cp = path_of (ca_cert_path ca); kp = path_of (ca_key_path ca) in
      case al_generate lib of None \<Rightarrow> (Inl CaNoKeyPair, f)
      | Some key \<Rightarrow>
        (case al_self_signed lib (root_params env ca) key of None \<Rightarrow> (Inl CaSelfSign, f)
         | Some (cert_pem, der) \<Rightarrow>
           (case fs_write (io_plan env) (io_now env) cp cert_pem f of
              (Inl _, f1) \<Rightarrow> (Inl (CaUnwritten cp), f1)
            | (Inr _, f1) \<Rightarrow>
              (case write_private_key env kp (al_key_pem lib key) f1 of
                 (Inl _, f2) \<Rightarrow> (Inl (CaUnwritten kp), f2)
               | (Inr _, f2) \<Rightarrow>
                   (res_bind (ok_or CaBadIssuer (al_issuer lib cert_pem key))
                      (\<lambda>issuer. Inr (authority_of ca der cert_pem issuer)), f2)))))"

definition load_or_generate :: "('k, 'd, 'i) authority_lib \<Rightarrow> io_env \<Rightarrow> fs \<Rightarrow> ca_config
    \<Rightarrow> (authority_error, ('d, 'i) authority) result \<times> fs" where
  "load_or_generate lib env f ca =
     (if f (path_of (ca_cert_path ca)) \<noteq> None \<and> f (path_of (ca_key_path ca)) \<noteq> None
      then (authority_load lib env f ca, f)
      else authority_generate lib env f ca)"

section \<open>Facts\<close>

text \<open>What the crates document: a key and a certificate read back from the PEM they were written
  as, and PEM is ASCII.\<close>

definition authority_lib_ok :: "('k, 'd, 'i) authority_lib \<Rightarrow> bool" where
  "authority_lib_ok lib \<longleftrightarrow>
     (\<forall>k. al_key_of_pem lib (al_key_pem lib k) = Some k \<and> utf8_ok (al_key_pem lib k))
     \<and> (\<forall>params k pem der. al_self_signed lib params k = Some (pem, der)
          \<longrightarrow> al_certs_of_pem lib pem = [Some der] \<and> utf8_ok pem)"

definition readable :: "io_env \<Rightarrow> bool" where
  "readable env \<longleftrightarrow> (\<forall>p. io_plan env p \<noteq> ReadFails)"

lemma read_text_there:
  "readable env \<Longrightarrow> f p = Some (s, t) \<Longrightarrow> utf8_ok s \<Longrightarrow> read_text env f p = Some s"
  by (cases p) (simp add: read_text_def fs_read_def readable_def)

lemma read_text_Some: "read_text env f p = Some s \<Longrightarrow> \<exists>t. f p = Some (s, t) \<and> utf8_ok s"
  by (auto simp: read_text_def fs_read_def split: option.splits if_splits)

lemma fs_write_ok: "fs_write plan now p s f = (Inr u, f') \<Longrightarrow> f' = f(p \<mapsto> (s, now))"
  by (auto simp: fs_write_def split: fault.splits)

lemma write_private_key_ok: "write_private_key env p s f = (Inr u, f') \<Longrightarrow> f' = f(p \<mapsto> (s, io_now env))"
  by (auto simp: write_private_key_def split: prod.splits sum.splits if_splits dest: fs_write_ok)

lemma fs_write_frame: "fs_write plan now p s f = (r, f') \<Longrightarrow> q \<noteq> p \<Longrightarrow> f' q = f q"
  by (auto simp: fs_write_def split: fault.splits)

lemma write_private_key_frame: "write_private_key env p s f = (r, f') \<Longrightarrow> q \<noteq> p \<Longrightarrow> f' q = f q"
  by (auto simp: write_private_key_def split: prod.splits sum.splits if_splits dest: fs_write_frame)

lemma authority_generate_frame:
  assumes "authority_generate lib env f ca = (r, f')"
    and "q \<noteq> path_of (ca_cert_path ca)" "q \<noteq> path_of (ca_key_path ca)"
  shows "f' q = f q"
  using assms
  by (auto simp: authority_generate_def Let_def fs_write_frame write_private_key_frame
      split: option.splits prod.splits sum.splits)

lemma authority_generate_ok:
  assumes "authority_generate lib env f ca = (Inr a, f')"
  obtains key pem der issuer where "al_generate lib = Some key"
    "al_self_signed lib (root_params env ca) key = Some (pem, der)"
    "al_issuer lib pem key = Some issuer" "a = authority_of ca der pem issuer"
    "f' = f(path_of (ca_cert_path ca) \<mapsto> (pem, io_now env), path_of (ca_key_path ca) \<mapsto> (al_key_pem lib key, io_now env))"
  using assms
  by (auto simp: authority_generate_def Let_def split: option.splits prod.splits sum.splits
      dest!: fs_write_ok write_private_key_ok)

lemma authority_load_restart:
  assumes "authority_load lib env f ca = Inr a" "readable env'"
  shows "authority_load lib env' f ca = Inr a"
proof -
  obtain cert_pem key_pem where r: "read_text env f (path_of (ca_cert_path ca)) = Some cert_pem"
    "read_text env f (path_of (ca_key_path ca)) = Some key_pem"
    using assms(1) by (auto simp: authority_load_def Let_def)
  then have "read_text env' f (path_of (ca_cert_path ca)) = Some cert_pem"
    "read_text env' f (path_of (ca_key_path ca)) = Some key_pem"
    using assms(2) by (auto dest!: read_text_Some intro: read_text_there)
  then show ?thesis using assms(1) r by (simp add: authority_load_def Let_def)
qed

lemma load_or_generate_restart:
  assumes lib: "authority_lib_ok lib" and apart: "path_of (ca_cert_path ca) \<noteq> path_of (ca_key_path ca)"
    and run: "load_or_generate lib env f ca = (Inr a, f')" and e: "readable env'"
  shows "load_or_generate lib env' f' ca = (Inr a, f')"
proof (cases "f (path_of (ca_cert_path ca)) \<noteq> None \<and> f (path_of (ca_key_path ca)) \<noteq> None")
  case True
  then have load: "authority_load lib env f ca = Inr a" and f': "f' = f"
    using run by (auto simp: load_or_generate_def)
  show ?thesis
    using authority_load_restart [OF load e] True by (simp add: load_or_generate_def f')
next
  case False
  then have gen: "authority_generate lib env f ca = (Inr a, f')" using run by (auto simp: load_or_generate_def)
  then obtain key pem der issuer where g: "al_self_signed lib (root_params env ca) key = Some (pem, der)"
    "al_issuer lib pem key = Some issuer" "a = authority_of ca der pem issuer"
    "f' = f(path_of (ca_cert_path ca) \<mapsto> (pem, io_now env), path_of (ca_key_path ca) \<mapsto> (al_key_pem lib key, io_now env))"
    by (rule authority_generate_ok)
  have "read_text env' f' (path_of (ca_cert_path ca)) = Some pem"
    "read_text env' f' (path_of (ca_key_path ca)) = Some (al_key_pem lib key)"
    using lib g(1) e apart by (auto simp: g(4) authority_lib_ok_def intro!: read_text_there)
  then have "authority_load lib env' f' ca = Inr a"
    using lib g(1-3) by (simp add: authority_load_def authority_lib_ok_def pem_to_der_def)
  then show ?thesis using g(4) apart by (simp add: load_or_generate_def)
qed

lemma load_or_generate_files:
  assumes "load_or_generate lib env f ca = (Inr a, f')"
  shows "f' (path_of (ca_cert_path ca)) \<noteq> None \<and> f' (path_of (ca_key_path ca)) \<noteq> None"
proof (cases "f (path_of (ca_cert_path ca)) \<noteq> None \<and> f (path_of (ca_key_path ca)) \<noteq> None")
  case True
  then show ?thesis using assms by (simp add: load_or_generate_def)
next
  case False
  then have "authority_generate lib env f ca = (Inr a, f')" using assms by (auto simp: load_or_generate_def)
  then show ?thesis by (rule authority_generate_ok) auto
qed

section \<open>Properties\<close>

text \<open>C32. The authority outlives a restart. A complete pair of files is never written to, whatever
  becomes of loading it, and no file but the two is ever touched. Whenever the program comes up with
  an authority, generated or loaded, every later start under the same settings that can read the
  files comes up with the very same one and leaves the files alone.\<close>

theorem authority_persists:
  assumes lib: "authority_lib_ok lib" and apart: "path_of (ca_cert_path ca) \<noteq> path_of (ca_key_path ca)"
    and run: "load_or_generate lib env f ca = (r, f')"
  shows "(f (path_of (ca_cert_path ca)) \<noteq> None \<and> f (path_of (ca_key_path ca)) \<noteq> None \<longrightarrow> f' = f)
    \<and> (\<forall>q. q \<noteq> path_of (ca_cert_path ca) \<and> q \<noteq> path_of (ca_key_path ca) \<longrightarrow> f' q = f q)
    \<and> (\<forall>a env'. r = Inr a \<and> readable env' \<longrightarrow> load_or_generate lib env' f' ca = (Inr a, f'))"
proof -
  have "f' = f" if "f (path_of (ca_cert_path ca)) \<noteq> None" "f (path_of (ca_key_path ca)) \<noteq> None"
    using run that by (simp add: load_or_generate_def)
  moreover have "f' q = f q" if "q \<noteq> path_of (ca_cert_path ca)" "q \<noteq> path_of (ca_key_path ca)" for q
    using run that authority_generate_frame [of lib env f ca r f' q] by (auto simp: load_or_generate_def split: if_splits)
  ultimately show ?thesis
    using load_or_generate_restart [OF lib apart] run by blast
qed

definition sample_authority_lib :: "(nat, string, string \<times> nat) authority_lib" where
  "sample_authority_lib = \<lparr>al_generate = Some 7, al_key_pem = (\<lambda>k. replicate k CHR ''k''),
     al_key_of_pem = (\<lambda>s. Some (length s)), al_self_signed = (\<lambda>_ k. Some (''root'', ''root'')),
     al_certs_of_pem = (\<lambda>s. [Some s]), al_issuer = (\<lambda>pem k. Some (pem, k))\<rparr>"

definition sample_ca :: ca_config where
  "sample_ca = \<lparr>ca_cert_path = ''ca/root.pem'', ca_key_path = ''ca/root.key'', ca_common_name = ''Local CA'',
     ca_organization = [], ca_country = [], ca_leaf_validity_days = 397, ca_install_to_system_root = True\<rparr>"

definition quiet_io :: "nat \<Rightarrow> io_env" where
  "quiet_io now = \<lparr>io_plan = (\<lambda>_. NoFault), io_now = now\<rparr>"

lemma utf8_replicate: "utf8_ok (replicate n CHR ''k'')"
  by (induction n) auto

lemma sample_authority_lib_ok: "authority_lib_ok sample_authority_lib"
  by (simp add: authority_lib_ok_def sample_authority_lib_def utf8_replicate)

lemma sample_generated:
  "load_or_generate sample_authority_lib (quiet_io 1) (\<lambda>_. None) sample_ca
   = (Inr (authority_of sample_ca ''root'' ''root'' (''root'', 7)),
      [(''ca'', ''root.pem'') \<mapsto> (''root'', 1), (''ca'', ''root.key'') \<mapsto> (''kkkkkkk'', 1)])"
proof -
  have "path_of (ca_cert_path sample_ca) = (''ca'', ''root.pem'')" "path_of (ca_key_path sample_ca) = (''ca'', ''root.key'')"
    by code_simp+
  then show ?thesis
    by (simp add: load_or_generate_def authority_generate_def sample_authority_lib_def quiet_io_def
        fs_write_def write_private_key_def Let_def numeral_eq_Suc)
qed

lemma authority_persists_witness:
  "load_or_generate sample_authority_lib (quiet_io 2)
     (snd (load_or_generate sample_authority_lib (quiet_io 1) (\<lambda>_. None) sample_ca)) sample_ca
   = (Inr (authority_of sample_ca ''root'' ''root'' (''root'', 7)),
      snd (load_or_generate sample_authority_lib (quiet_io 1) (\<lambda>_. None) sample_ca))"
proof -
  have "path_of (ca_cert_path sample_ca) \<noteq> path_of (ca_key_path sample_ca)" by code_simp
  moreover have "readable (quiet_io 2)" by (simp add: readable_def quiet_io_def)
  ultimately show ?thesis
    using authority_persists [OF sample_authority_lib_ok _ sample_generated] unfolding sample_generated snd_conv
    by blast
qed

section \<open>An interrupted generation\<close>

text \<open>Nothing compares the two files. When only the certificate is missing and the key file cannot be
  opened for writing, generation fails but leaves the new certificate beside the old key, and the
  next start loads that pair as an authority: its issuer is the new certificate with a key that did
  not sign it.\<close>

lemma mismatched_pair_loads:
  assumes files: "f (path_of (ca_cert_path ca)) = None" "f (path_of (ca_key_path ca)) = Some (al_key_pem lib old, t)"
    and lib: "authority_lib_ok lib" "al_generate lib = Some new" "al_self_signed lib (root_params env ca) new = Some (pem, der)"
    and plan: "io_plan env (path_of (ca_cert_path ca)) = NoFault" "io_plan env (path_of (ca_key_path ca)) = OpenFails"
    and e: "readable env'" "al_issuer lib pem old = Some issuer"
  shows "\<exists>f1. load_or_generate lib env f ca = (Inl (CaUnwritten (path_of (ca_key_path ca))), f1)
    \<and> load_or_generate lib env' f1 ca = (Inr (authority_of ca der pem issuer), f1)"
proof -
  let ?c = "path_of (ca_cert_path ca)" and ?k = "path_of (ca_key_path ca)"
  let ?f1 = "f(?c \<mapsto> (pem, io_now env))"
  have ck: "?c \<noteq> ?k" using files by auto
  have "load_or_generate lib env f ca = (Inl (CaUnwritten ?k), ?f1)"
    using files(1) lib plan
    by (simp add: load_or_generate_def authority_generate_def Let_def fs_write_def write_private_key_def)
  moreover have "read_text env' ?f1 ?c = Some pem" "read_text env' ?f1 ?k = Some (al_key_pem lib old)"
    using lib files(2) e(1) ck by (auto simp: authority_lib_ok_def intro!: read_text_there)
  then have "authority_load lib env' ?f1 ca = Inr (authority_of ca der pem issuer)"
    using lib e(2) by (simp add: authority_load_def authority_lib_ok_def pem_to_der_def)
  then have "load_or_generate lib env' ?f1 ca = (Inr (authority_of ca der pem issuer), ?f1)"
    using files(2) ck by (simp add: load_or_generate_def)
  ultimately show ?thesis by blast
qed

end
