(* ===== verification/Trust.thy ===== *)
theory Trust
  imports Authority
begin

text \<open>
  Installing the certificate of the authority in the trusted roots of the operating system
  (\<open>src/src/trust.rs\<close>), on each platform the source knows: CryptoAPI on Windows, the \<open>security\<close>
  tool on macOS, the distribution's anchor directory and update command on Linux. The trust store
  is a value \<open>'w\<close> that only the platform's calls change; those calls, the digest and base64 are the
  parameter \<open>trust_lib\<close>.
\<close>

datatype outcome = Installed string | AlreadyTrusted string

fun fingerprint :: "outcome \<Rightarrow> string" where
  "fingerprint (Installed fp) = fp"
| "fingerprint (AlreadyTrusted fp) = fp"

record cmd_output =
  out_success :: bool
  out_stdout :: string
  out_stderr :: string

text \<open>What a call of CryptoAPI to add a certificate comes back with.\<close>

datatype 'w add_answer = Added 'w | AddFailed nat

record ('x, 'w) trust_lib =
  tl_sha256 :: "string \<Rightarrow> string"
  tl_base64 :: "string \<Rightarrow> string"
  tl_lossy :: "string \<Rightarrow> string"
  tl_command :: "string list \<Rightarrow> fs \<Rightarrow> 'w \<Rightarrow> cmd_output option \<times> 'w"
  tl_temp_dir :: string
  tl_decode :: "string \<Rightarrow> 'x option"
  tl_sha1 :: "'x \<Rightarrow> string option"
  tl_open_root :: "'w \<Rightarrow> bool"
  tl_find :: "'w \<Rightarrow> string \<Rightarrow> bool"
  tl_add :: "'w \<Rightarrow> 'x \<Rightarrow> 'w add_answer"

datatype trust_error =
    TrUnsupportedPlatform
  | TrTooLarge
  | TrDecode
  | TrThumbprint
  | TrOpenStore
  | TrAdd string nat
  | TrSpawn "string list"
  | TrWrite path
  | TrTool string
  | TrNoOsRelease
  | TrUnknownDistro string string

section \<open>Hex and PEM\<close>

definition hex_upper_digit :: "nat \<Rightarrow> char" where
  "hex_upper_digit n = (if n < 10 then char_of (48 + n) else char_of (55 + n))"

fun hex_upper :: "string \<Rightarrow> string" where
  "hex_upper [] = []"
| "hex_upper (c # s) = hex_upper_digit (byte c div 16) # hex_upper_digit (byte c mod 16) # hex_upper s"

definition sha256_hex :: "('x, 'w) trust_lib \<Rightarrow> string \<Rightarrow> string" where
  "sha256_hex lib der = hex_upper (tl_sha256 lib der)"

function chunks64 :: "string \<Rightarrow> string list" where
  "chunks64 s = (if s = [] then [] else take 64 s # chunks64 (drop 64 s))"
  by pat_completeness auto
termination
  by (relation "measure length") auto

declare chunks64.simps [simp del]

definition pem_encode :: "('x, 'w) trust_lib \<Rightarrow> string \<Rightarrow> string" where
  "pem_encode lib der =
     ''-----BEGIN CERTIFICATE-----'' @ [CHR 0x0A]
     @ concat (List.map (\<lambda>chunk. chunk @ [CHR 0x0A]) (chunks64 (tl_base64 lib der)))
     @ ''-----END CERTIFICATE-----'' @ [CHR 0x0A]"

section \<open>Linux\<close>

record distro =
  di_cert_dir :: string
  di_update_cmd :: "string list"

definition trim_quotes :: "string \<Rightarrow> string" where
  "trim_quotes s = rev (dropWhile (\<lambda>c. c = CHR 0x22) (rev (dropWhile (\<lambda>c. c = CHR 0x22) s)))"

definition os_release_field :: "string \<Rightarrow> string \<Rightarrow> string" where
  "os_release_field key text = (case find_map (strip_prefix key) (lines text) of Some v \<Rightarrow> trim_quotes v | None \<Rightarrow> [])"

definition detect_distro :: "io_env \<Rightarrow> fs \<Rightarrow> (trust_error, distro) result" where
  "detect_distro io f =
     (case first_some [read_text io f (path_of ''/etc/os-release''), read_text io f (path_of ''/usr/lib/os-release'')] of
        None \<Rightarrow> Inl TrNoOsRelease
      | Some os_release \<Rightarrow>
        (let ident = os_release_field ''ID='' os_release; id_like = os_release_field ''ID_LIKE='' os_release;
             all_ids = ident @ '' '' @ id_like in
         if contains_str ''debian'' all_ids \<or> contains_str ''ubuntu'' all_ids
         then Inr \<lparr>di_cert_dir = ''/usr/local/share/ca-certificates'', di_update_cmd = [''update-ca-certificates'']\<rparr>
         else if contains_str ''rhel'' all_ids \<or> contains_str ''fedora'' all_ids \<or> contains_str ''centos'' all_ids
         then Inr \<lparr>di_cert_dir = ''/etc/pki/ca-trust/source/anchors'', di_update_cmd = [''update-ca-trust'']\<rparr>
         else if contains_str ''arch'' all_ids \<or> contains_str ''manjaro'' all_ids
         then Inr \<lparr>di_cert_dir = ''/etc/ca-certificates/trust-source/anchors'', di_update_cmd = [''trust'', ''extract-compat'']\<rparr>
         else Inl (TrUnknownDistro ident id_like)))"

definition anchor_path :: "distro \<Rightarrow> string \<Rightarrow> path" where
  "anchor_path d fp = (di_cert_dir d, ''sni-gate-ca-'' @ take 16 fp @ ''.crt'')"

definition linux_ensure_installed :: "('x, 'w) trust_lib \<Rightarrow> io_env \<Rightarrow> string \<Rightarrow> fs \<Rightarrow> 'w
    \<Rightarrow> (trust_error, outcome) result \<times> fs \<times> 'w" where
  "linux_ensure_installed lib io der f w =
     (let fp = sha256_hex lib der in
      case detect_distro io f of Inl e \<Rightarrow> (Inl e, f, w)
      | Inr d \<Rightarrow>
        (let cp = anchor_path d fp in
         if f cp \<noteq> None then (Inr (AlreadyTrusted fp), f, w)
         else
           (case fs_write (io_plan io) (io_now io) cp (pem_encode lib der) f of
              (Inl _, f1) \<Rightarrow> (Inl (TrWrite cp), f1, w)
            | (Inr _, f1) \<Rightarrow>
              (case tl_command lib (di_update_cmd d) f1 w of
                 (None, w1) \<Rightarrow> (Inl (TrSpawn (di_update_cmd d)), f1, w1)
               | (Some out, w1) \<Rightarrow>
                   if \<not> out_success out
                   then (Inl (TrTool (trim (tl_lossy lib (out_stderr out)))), snd (fs_remove (io_plan io) cp f1), w1)
                   else (Inr (Installed fp), f1, w1)))))"

section \<open>macOS\<close>

definition keychain :: string where
  "keychain = ''/Library/Keychains/System.keychain''"

definition is_present :: "('x, 'w) trust_lib \<Rightarrow> string \<Rightarrow> fs \<Rightarrow> 'w \<Rightarrow> (trust_error, bool) result \<times> 'w" where
  "is_present lib fp f w =
     (let cmd = [''security'', ''find-certificate'', ''-Z'', ''-a'', keychain] in
      case tl_command lib cmd f w of
        (None, w1) \<Rightarrow> (Inl (TrSpawn cmd), w1)
      | (Some out, w1) \<Rightarrow>
          (Inr (out_success out
             \<and> list_ex (\<lambda>line. case strip_prefix ''SHA-256 hash: '' line of
                 Some hash \<Rightarrow> lowercase hash = lowercase fp | None \<Rightarrow> False) (lines (tl_lossy lib (out_stdout out)))), w1))"

definition add_cert :: "('x, 'w) trust_lib \<Rightarrow> string \<Rightarrow> fs \<Rightarrow> 'w \<Rightarrow> (trust_error, unit) result \<times> 'w" where
  "add_cert lib file f w =
     (let cmd = [''security'', ''add-trusted-cert'', ''-d'', ''-r'', ''trustRoot'', ''-k'', keychain, file] in
      case tl_command lib cmd f w of
        (None, w1) \<Rightarrow> (Inl (TrSpawn cmd), w1)
      | (Some out, w1) \<Rightarrow>
          (if out_success out then Inr () else Inl (TrTool (trim (tl_lossy lib (out_stderr out)))), w1))"

definition macos_ensure_installed :: "('x, 'w) trust_lib \<Rightarrow> io_env \<Rightarrow> string \<Rightarrow> fs \<Rightarrow> 'w
    \<Rightarrow> (trust_error, outcome) result \<times> fs \<times> 'w" where
  "macos_ensure_installed lib io der f w =
     (let fp = sha256_hex lib der in
      case is_present lib fp f w of
        (Inl e, w1) \<Rightarrow> (Inl e, f, w1)
      | (Inr True, w1) \<Rightarrow> (Inr (AlreadyTrusted fp), f, w1)
      | (Inr False, w1) \<Rightarrow>
        (let tmp = (tl_temp_dir lib, ''sni-gate-ca-'' @ fp @ ''.cer'') in
         case fs_write (io_plan io) (io_now io) tmp der f of
           (Inl _, f1) \<Rightarrow> (Inl (TrWrite tmp), f1, w1)
         | (Inr _, f1) \<Rightarrow>
           (case add_cert lib (fst tmp @ ''/'' @ snd tmp) f1 w1 of
              (r, w2) \<Rightarrow> (map_sum (\<lambda>e. e) (\<lambda>_. Installed fp) r, snd (fs_remove (io_plan io) tmp f1), w2))))"

section \<open>Windows\<close>

definition already_in_store :: nat where
  "already_in_store = 0x80092005"

definition decode_cert :: "('x, 'w) trust_lib \<Rightarrow> string \<Rightarrow> (trust_error, 'x) result" where
  "decode_cert lib der = (if 2 ^ 32 \<le> length der then Inl TrTooLarge else ok_or TrDecode (tl_decode lib der))"

definition add_new :: "('x, 'w) trust_lib \<Rightarrow> string \<Rightarrow> 'x \<Rightarrow> 'w \<Rightarrow> (trust_error, unit) result \<times> 'w" where
  "add_new lib fp cert w =
     (case tl_add lib w cert of
        Added w1 \<Rightarrow> (Inr (), w1)
      | AddFailed code \<Rightarrow> (if code = already_in_store then Inr () else Inl (TrAdd fp code), w))"

definition windows_ensure_installed :: "('x, 'w) trust_lib \<Rightarrow> string \<Rightarrow> 'w \<Rightarrow> (trust_error, outcome) result \<times> 'w" where
  "windows_ensure_installed lib der w =
     (case res_bind (decode_cert lib der) (\<lambda>cert. res_bind (ok_or TrThumbprint (tl_sha1 lib cert))
             (\<lambda>thumbprint. if tl_open_root lib w then Inr (cert, thumbprint) else Inl TrOpenStore)) of
        Inl e \<Rightarrow> (Inl e, w)
      | Inr (cert, thumbprint) \<Rightarrow>
          (let fp = hex_upper thumbprint in
           if tl_find lib w thumbprint then (Inr (AlreadyTrusted fp), w)
           else (case add_new lib fp cert w of (r, w1) \<Rightarrow> (map_sum (\<lambda>e. e) (\<lambda>_. Installed fp) r, w1))))"

section \<open>Every platform\<close>

datatype platform = Windows | MacOs | Linux | OtherOs

definition ensure_installed :: "platform \<Rightarrow> ('x, 'w) trust_lib \<Rightarrow> io_env \<Rightarrow> string \<Rightarrow> fs \<Rightarrow> 'w
    \<Rightarrow> (trust_error, outcome) result \<times> fs \<times> 'w" where
  "ensure_installed os lib io der f w =
     (case os of
        Windows \<Rightarrow> (case windows_ensure_installed lib der w of (r, w1) \<Rightarrow> (r, f, w1))
      | MacOs \<Rightarrow> macos_ensure_installed lib io der f w
      | Linux \<Rightarrow> linux_ensure_installed lib io der f w
      | OtherOs \<Rightarrow> (Inl TrUnsupportedPlatform, f, w))"

section \<open>Facts\<close>

lemma length_hex_upper [simp]: "length (hex_upper s) = 2 * length s"
  by (induction s) auto

text \<open>Sixteen digits can be sliced off the fingerprint of any 32-byte digest.\<close>

lemma fingerprint_slice: "length (tl_sha256 lib der) = 32 \<Longrightarrow> length (take 16 (sha256_hex lib der)) = 16"
  by (simp add: sha256_hex_def)

lemma os_release_paths: "path_of ''/etc/os-release'' = (''/etc'', ''os-release'')"
  "path_of ''/usr/lib/os-release'' = (''/usr/lib'', ''os-release'')"
  by code_simp+

lemma detect_distro_dir: "detect_distro io f = Inr d \<Longrightarrow> di_cert_dir d \<noteq> ''/etc'' \<and> di_cert_dir d \<noteq> ''/usr/lib''"
  by (auto simp: detect_distro_def Let_def split: option.splits if_splits)

lemma read_text_upd: "q \<noteq> p \<Longrightarrow> read_text io (f(q := x)) p = read_text io f p"
  by (simp add: read_text_def fs_read_def)

lemma detect_distro_upd:
  "detect_distro io f = Inr d \<Longrightarrow> detect_distro io' (f(anchor_path d fp := x)) = detect_distro io' f"
  by (drule detect_distro_dir) (simp add: detect_distro_def os_release_paths read_text_upd anchor_path_def)

lemma read_text_readable: "readable io \<Longrightarrow> readable io' \<Longrightarrow> read_text io f p = read_text io' f p"
  by (cases p) (simp add: read_text_def fs_read_def readable_def split: option.splits)

lemma detect_distro_readable: "readable io \<Longrightarrow> readable io' \<Longrightarrow> detect_distro io f = detect_distro io' f"
  by (simp only: detect_distro_def read_text_readable [of io io'])

lemma linux_cases:
  assumes "linux_ensure_installed lib io der f w = (r, f', w')" "detect_distro io f = Inr d"
  obtains (Present) "f (anchor_path d (sha256_hex lib der)) \<noteq> None" "r = Inr (AlreadyTrusted (sha256_hex lib der))" "f' = f" "w' = w"
  | (Unwritten) e where "f (anchor_path d (sha256_hex lib der)) = None" "r = Inl (TrWrite (anchor_path d (sha256_hex lib der)))" "w' = w"
      "fs_write (io_plan io) (io_now io) (anchor_path d (sha256_hex lib der)) (pem_encode lib der) f = (Inl e, f')"
  | (Unspawned) "r = Inl (TrSpawn (di_update_cmd d))"
  | (Refused) out :: cmd_output where "f (anchor_path d (sha256_hex lib der)) = None" "r = Inl (TrTool (trim (tl_lossy lib (out_stderr out))))"
      "f' = snd (fs_remove (io_plan io) (anchor_path d (sha256_hex lib der))
         (f(anchor_path d (sha256_hex lib der) \<mapsto> (pem_encode lib der, io_now io))))"
  | (Fresh) out :: cmd_output where "f (anchor_path d (sha256_hex lib der)) = None" "r = Inr (Installed (sha256_hex lib der))"
      "f' = f(anchor_path d (sha256_hex lib der) \<mapsto> (pem_encode lib der, io_now io))"
      "tl_command lib (di_update_cmd d) f' w = (Some out, w')" "out_success out"
proof (cases "f (anchor_path d (sha256_hex lib der))")
  case (Some x)
  then show ?thesis using assms by (intro Present) (simp_all add: linux_ensure_installed_def Let_def)
next
  case None
  let ?p = "anchor_path d (sha256_hex lib der)"
  obtain r1 f1 where wr: "fs_write (io_plan io) (io_now io) ?p (pem_encode lib der) f = (r1, f1)" by fastforce
  obtain o1 w1 where cmd: "tl_command lib (di_update_cmd d) f1 w = (o1, w1)" by fastforce
  show ?thesis
  proof (cases r1)
    case (Inl e)
    then show ?thesis
      using assms None wr by (intro Unwritten [of e]) (simp_all add: linux_ensure_installed_def Let_def)
  next
    case (Inr u)
    then have f1: "f1 = f(?p \<mapsto> (pem_encode lib der, io_now io))" using fs_write_ok wr by simp
    note run = assms(1) [unfolded linux_ensure_installed_def Let_def assms(2) sum.case None wr [unfolded Inr] prod.case cmd,
        simplified]
    show ?thesis
    proof (cases o1)
      case None
      then show ?thesis using run by (intro Unspawned) simp
    next
      case (Some out)
      show ?thesis
      proof (cases "out_success out")
        case True
        then have "r = Inr (Installed (sha256_hex lib der))" "f' = f1" "w' = w1" using run Some by simp_all
        then show ?thesis using None cmd Some True by (intro Fresh [of out]) (simp_all add: f1)
      next
        case False
        then show ?thesis using run Some None by (intro Refused [of out]) (auto simp: f1)
      qed
    qed
  qed
qed

section \<open>Properties\<close>

text \<open>What the update commands document: after a successful run every certificate that lies in PEM
  form in the distribution's anchor directory, under a name ending in \<open>.crt\<close>, is trusted.\<close>

definition update_honest :: "('x, 'w) trust_lib \<Rightarrow> ('w \<Rightarrow> string \<Rightarrow> bool) \<Rightarrow> bool" where
  "update_honest lib trusted \<longleftrightarrow>
     (\<forall>(d :: distro) f w out w' n der t. tl_command lib (di_update_cmd d) f w = (Some out, w') \<and> out_success out
        \<and> f (di_cert_dir d, n @ ''.crt'') = Some (pem_encode lib der, t) \<longrightarrow> trusted w' der)"

text \<open>Faults that leave neither a partial file nor a file that should be gone.\<close>

definition clean_faults :: "io_env \<Rightarrow> bool" where
  "clean_faults io \<longleftrightarrow> (\<forall>p. (\<forall>junk. io_plan io p \<noteq> WriteFails junk) \<and> io_plan io p \<noteq> RemoveFails)"


text \<open>A host whose trust store is the set of certificates an update found among the anchors.\<close>

definition sample_trust_lib :: "(unit, string \<Rightarrow> bool) trust_lib" where
  "sample_trust_lib =
     \<lparr>tl_sha256 = (\<lambda>s. replicate 32 CHR ''A''), tl_base64 = (\<lambda>s. s), tl_lossy = (\<lambda>s. s),
      tl_command = (\<lambda>cmd f w. (Some \<lparr>out_success = True, out_stdout = [], out_stderr = []\<rparr>,
        (\<lambda>der. \<exists>dir n t. f (dir, n @ ''.crt'') = Some (''-----BEGIN CERTIFICATE-----'' @ [CHR 0x0A]
          @ concat (List.map (\<lambda>chunk. chunk @ [CHR 0x0A]) (chunks64 der)) @ ''-----END CERTIFICATE-----'' @ [CHR 0x0A], t)))),
      tl_temp_dir = ''/tmp'', tl_decode = (\<lambda>_. None), tl_sha1 = (\<lambda>_. None), tl_open_root = (\<lambda>_. True),
      tl_find = (\<lambda>_ _. False), tl_add = (\<lambda>w _. Added w)\<rparr>"

definition debian :: fs where
  "debian = [(''/etc'', ''os-release'') \<mapsto> (''ID=debian'', 0)]"

definition debian_distro :: distro where
  "debian_distro = \<lparr>di_cert_dir = ''/usr/local/share/ca-certificates'', di_update_cmd = [''update-ca-certificates'']\<rparr>"

lemma sample_honest: "update_honest sample_trust_lib (\<lambda>w der. w der)"
  by (auto simp: update_honest_def sample_trust_lib_def pem_encode_def)

lemma debian_detected: "readable io \<Longrightarrow> detect_distro io debian = Inr debian_distro"
proof -
  assume "readable io"
  then have "read_text io debian (path_of ''/etc/os-release'') = Some ''ID=debian''"
    by (intro read_text_there) (simp_all add: debian_def os_release_paths)
  moreover have "os_release_field ''ID='' ''ID=debian'' = ''debian''" "os_release_field ''ID_LIKE='' ''ID=debian'' = ''''"
    "contains_str ''debian'' (''debian'' @ '' '' @ '''')"
    by code_simp+
  ultimately show ?thesis by (simp add: detect_distro_def Let_def debian_distro_def)
qed


section \<open>An update command that does not start\<close>

text \<open>The file test stands for the state of the trust store, and the anchor file stays behind when the
  update command cannot be started. The store was not updated, yet every later run finds the file and
  reports the certificate as trusted.\<close>

lemma unspawned_update_reported_trusted:
  assumes d: "detect_distro io f = Inr d" and new: "f (anchor_path d (sha256_hex lib der)) = None"
    and plan: "io_plan io (anchor_path d (sha256_hex lib der)) = NoFault" "readable io" "readable io'"
    and unspawned: "\<And>f w. tl_command lib (di_update_cmd d) f w = (None, w)"
  shows "\<exists>f1. linux_ensure_installed lib io der f w = (Inl (TrSpawn (di_update_cmd d)), f1, w)
    \<and> linux_ensure_installed lib io' der f1 w = (Inr (AlreadyTrusted (sha256_hex lib der)), f1, w)"
proof -
  let ?p = "anchor_path d (sha256_hex lib der)"
  let ?f1 = "f(?p \<mapsto> (pem_encode lib der, io_now io))"
  have "linux_ensure_installed lib io der f w = (Inl (TrSpawn (di_update_cmd d)), ?f1, w)"
    using assms by (simp add: linux_ensure_installed_def Let_def fs_write_def)
  moreover have "detect_distro io' ?f1 = Inr d"
    using d detect_distro_readable [OF plan(2,3)] detect_distro_upd [OF d] by metis
  then have "linux_ensure_installed lib io' der ?f1 w = (Inr (AlreadyTrusted (sha256_hex lib der)), ?f1, w)"
    by (simp add: linux_ensure_installed_def Let_def)
  ultimately show ?thesis by blast
qed

section \<open>The other platforms\<close>

text \<open>On macOS the temporary copy of the certificate is gone whatever \<open>security\<close> answers.\<close>

lemma macos_removes_copy:
  assumes "macos_ensure_installed lib io der f w = (r, f', w')" "clean_faults io"
    and "f (tl_temp_dir lib, ''sni-gate-ca-'' @ sha256_hex lib der @ ''.cer'') = None"
  shows "f' = f"
  using assms
  by (auto simp: macos_ensure_installed_def Let_def clean_faults_def fs_write_def fs_remove_def
      split: prod.splits sum.splits bool.splits fault.splits)

text \<open>On Windows a reported success means the root store holds a certificate with the thumbprint: found
  there, just added, or added by someone else between the search and the addition.\<close>

lemma windows_install_sound:
  assumes added: "\<And>w x w' t. tl_add lib w x = Added w' \<Longrightarrow> tl_sha1 lib x = Some t \<Longrightarrow> tl_find lib w' t"
    and run: "windows_ensure_installed lib der w = (Inr out, w')"
  shows "\<exists>x t. tl_decode lib der = Some x \<and> tl_sha1 lib x = Some t \<and> fingerprint out = hex_upper t
    \<and> (tl_find lib w' t \<or> (w' = w \<and> tl_add lib w x = AddFailed already_in_store))"
proof -
  obtain x t where x: "tl_decode lib der = Some x" "tl_sha1 lib x = Some t" "length der < 2 ^ 32" "tl_open_root lib w"
    using run by (auto simp: windows_ensure_installed_def decode_cert_def
        split: sum.splits if_splits prod.splits)
  then show ?thesis
    using run added [of w x _ t]
    by (auto simp: windows_ensure_installed_def decode_cert_def add_new_def Let_def
        split: if_splits add_answer.splits)
qed

end
