(* ===== verification/Psl.thy ===== *)
theory Psl
  imports Suffix Files
begin

text \<open>
  Loading, downloading and hot-reloading the public suffix list (\<open>src/src/psl.rs\<close>). The active
  list is the contents of the lock; the list file is one path of the file system; the network
  is the parameter \<open>fetch\<close> (the body of a successful GET).
\<close>

datatype psl_source = Embedded | File

record psl_config =
  pc_source :: psl_source
  pc_path :: path
  pc_auto_update :: bool
  pc_max_age :: nat
  pc_update_url :: string

definition update_url :: string where
  "update_url = ''https://publicsuffix.org/list/public_suffix_list.dat''"

text \<open>The crate's operations and the outside world of one call.\<close>

record 'l psl_env =
  pe_parse :: "string \<Rightarrow> 'l option"
  pe_domain :: "'l \<Rightarrow> string \<Rightarrow> string option"
  pe_embedded :: "(psl_error, 'l) result"
  pe_fetch :: "string \<Rightarrow> string option"
  pe_plan :: "path \<Rightarrow> fault"
  pe_now :: nat

definition file_age :: "'l psl_env \<Rightarrow> path \<Rightarrow> fs \<Rightarrow> nat option" where
  "file_age env p f = (case f p of None \<Rightarrow> None | Some (_, mtime) \<Rightarrow> Some (pe_now env - mtime))"

definition load_from_file :: "'l psl_env \<Rightarrow> path \<Rightarrow> fs \<Rightarrow> (psl_error, 'l) result" where
  "load_from_file env p f =
     (case fs_read (pe_plan env) p f of Inl _ \<Rightarrow> Inl PslRead | Inr bytes \<Rightarrow> from_file (pe_parse env) bytes)"

definition save_to_file :: "'l psl_env \<Rightarrow> path \<Rightarrow> string \<Rightarrow> fs \<Rightarrow> (psl_error, unit) result \<times> fs" where
  "save_to_file env p bytes f =
     (if fst p \<noteq> [] \<and> pe_plan env p = CreateDirFails then (Inl PslWrite, f)
      else case write_atomic (pe_plan env) (pe_now env) p bytes f of
        (Inl _, f1) \<Rightarrow> (Inl PslWrite, f1) | (Inr _, f1) \<Rightarrow> (Inr (), f1))"

definition download_and_save :: "'l psl_env \<Rightarrow> psl_config \<Rightarrow> fs \<Rightarrow> (psl_error, unit) result \<times> fs" where
  "download_and_save env cfg f =
     (let url = (if pc_update_url cfg = [] then update_url else pc_update_url cfg) in
      case pe_fetch env url of None \<Rightarrow> (Inl PslDownload, f)
      | Some bytes \<Rightarrow>
          if bytes = [] then (Inl PslEmpty, f)
          else (case from_file (pe_parse env) bytes of
            Inl e \<Rightarrow> (Inl e, f)
          | Inr _ \<Rightarrow> save_to_file env (pc_path cfg) bytes f))"

definition load_initial :: "'l psl_env \<Rightarrow> psl_config \<Rightarrow> fs \<Rightarrow> (psl_error, 'l) result \<times> fs" where
  "load_initial env cfg f =
     (case pc_source cfg of
        Embedded \<Rightarrow> (pe_embedded env, f)
      | File \<Rightarrow>
        if pc_auto_update cfg then
          (case file_age env (pc_path cfg) f of
             Some age \<Rightarrow>
               if age \<le> pc_max_age cfg then (load_from_file env (pc_path cfg) f, f)
               else (let (_, f') = download_and_save env cfg f in (load_from_file env (pc_path cfg) f', f'))
           | None \<Rightarrow>
               (case download_and_save env cfg f of
                  (Inr _, f') \<Rightarrow> (load_from_file env (pc_path cfg) f', f')
                | (Inl _, f') \<Rightarrow> (pe_embedded env, f')))
        else (load_from_file env (pc_path cfg) f, f))"

text \<open>One iteration of the update task: the file only, the active list follows through the
  watcher.\<close>

definition update_tick :: "'l psl_env \<Rightarrow> psl_config \<Rightarrow> fs \<Rightarrow> fs" where
  "update_tick env cfg f =
     (case file_age env (pc_path cfg) f of
        Some age \<Rightarrow> if pc_max_age cfg < age then snd (download_and_save env cfg f) else f
      | None \<Rightarrow> f)"

text \<open>The body of the watcher and of the SIGHUP handler.\<close>

definition psl_reload :: "'l psl_env \<Rightarrow> psl_config \<Rightarrow> fs \<Rightarrow> 'l \<Rightarrow> 'l" where
  "psl_reload env cfg f active =
     (case fs_read (pe_plan env) (pc_path cfg) f of
        Inr bytes \<Rightarrow> snd (replace_from_bytes (pe_parse env) (pe_domain env) bytes active)
      | Inl _ \<Rightarrow> active)"

text \<open>The running system: the background tasks, and anyone else editing files, interleave.\<close>

inductive psl_step :: "psl_config \<Rightarrow> (string \<Rightarrow> 'l option) \<Rightarrow> ('l \<Rightarrow> string \<Rightarrow> string option)
    \<Rightarrow> 'l \<times> fs \<Rightarrow> 'l \<times> fs \<Rightarrow> bool" for cfg parse domf where
  Tick: "pe_parse env = parse \<Longrightarrow> psl_step cfg parse domf (a, f) (a, update_tick env cfg f)"
| Reload: "pe_parse env = parse \<Longrightarrow> pe_domain env = domf
    \<Longrightarrow> psl_step cfg parse domf (a, f) (psl_reload env cfg f a, f)"
| External: "psl_step cfg parse domf (a, f) (a, f(p := x))"

inductive psl_reach :: "psl_config \<Rightarrow> (string \<Rightarrow> 'l option) \<Rightarrow> ('l \<Rightarrow> string \<Rightarrow> string option)
    \<Rightarrow> 'l \<times> fs \<Rightarrow> 'l \<times> fs \<Rightarrow> bool" for cfg parse domf s0 where
  Start: "psl_reach cfg parse domf s0 s0"
| Step: "psl_reach cfg parse domf s0 s \<Longrightarrow> psl_step cfg parse domf s s' \<Longrightarrow> psl_reach cfg parse domf s0 s'"

inductive_cases psl_stepE: "psl_step cfg parse domf s s'"

definition sane :: "('l \<Rightarrow> string \<Rightarrow> string option) \<Rightarrow> 'l \<Rightarrow> bool" where
  "sane domf l \<longleftrightarrow> domf l ''example.co.uk'' \<noteq> None"

lemma replace_keeps:
  "snd (replace_from_bytes parse domf bytes a) = a
   \<or> (sane domf (snd (replace_from_bytes parse domf bytes a)) \<and> parse bytes = Some (snd (replace_from_bytes parse domf bytes a)))"
  by (auto simp: replace_from_bytes_def sane_def split: option.splits)

lemma psl_step_sane:
  assumes "psl_step cfg parse domf s s'"
  shows "fst s' = fst s \<or> sane domf (fst s')"
  using assms
proof cases
  case (Reload env a f)
  then show ?thesis
    using replace_keeps [of parse domf _ a] by (auto simp: psl_reload_def split: sum.splits)
qed simp_all

text \<open>A download changes the list file only to bytes that parse, atomically.\<close>

lemma download_target:
  assumes "download_and_save env cfg f = (r, f')"
  shows "(r = Inr () \<and> (\<exists>bytes l. f' (pc_path cfg) = Some (bytes, pe_now env) \<and> pe_parse env bytes = Some l))
    \<or> (r \<noteq> Inr () \<and> f' (pc_path cfg) = f (pc_path cfg))"
proof -
  have ok: "pe_parse env bytes \<noteq> None" if "from_file (pe_parse env) bytes = Inr l" for bytes l
    using that by (cases "pe_parse env bytes") (auto simp: from_file_def)
  show ?thesis
    using assms ok
    by (auto simp: download_and_save_def save_to_file_def Let_def split: option.splits if_splits sum.splits
        prod.splits dest: write_atomic_target)
qed

lemma psl_reach_sane:
  assumes "psl_reach cfg parse domf s0 s"
  shows "fst s = fst s0 \<or> sane domf (fst s)"
  using assms
proof (induction rule: psl_reach.induct)
  case (Step s s')
  then show ?case using psl_step_sane [OF Step.hyps(2)] by auto
qed simp

section \<open>Properties\<close>

text \<open>C35. Whatever the background tasks, the watcher, the SIGHUP handler and outside editors of the
  file do, in any order and with any input/output fault, the active list is the one loaded at
  startup or one that passed the sanity check: a broken download is never swapped in.\<close>

theorem active_list_sane:
  assumes "psl_reach cfg parse domf s0 s"
  shows "fst s = fst s0 \<or> sane domf (fst s)"
  using assms by (rule psl_reach_sane)

definition sample_psl_cfg :: psl_config where
  "sample_psl_cfg = \<lparr>pc_source = File, pc_path = (''/etc'', ''psl.dat''), pc_auto_update = True,
     pc_max_age = 10, pc_update_url = []\<rparr>"

text \<open>In the samples a list is its bytes, any bytes parse, and a list has a domain when it is not
  the text \<open>bad\<close>.\<close>

definition sample_psl_env :: "string psl_env" where
  "sample_psl_env = \<lparr>pe_parse = Some, pe_domain = (\<lambda>l d. if l = ''bad'' then None else Some d),
     pe_embedded = Inr ''emb'', pe_fetch = (\<lambda>_. Some ''new''), pe_plan = (\<lambda>_. NoFault), pe_now = 100\<rparr>"

lemma active_list_sane_witness:
  "fst (psl_reload sample_psl_env sample_psl_cfg [(''/etc'', ''psl.dat'') \<mapsto> (''new'', 1)] ''old'',
        [(''/etc'', ''psl.dat'') \<mapsto> (''new'', 1)]) = ''new''
   \<and> sane (pe_domain sample_psl_env) ''new''"
proof -
  let ?f = "[(''/etc'', ''psl.dat'') \<mapsto> (''new'', 1)] :: fs"
  have r: "psl_reload sample_psl_env sample_psl_cfg ?f ''old'' = ''new''"
    by (simp add: psl_reload_def fs_read_def sample_psl_cfg_def sample_psl_env_def replace_from_bytes_def)
  have "psl_reach sample_psl_cfg Some (pe_domain sample_psl_env) (''old'', ?f)
      (psl_reload sample_psl_env sample_psl_cfg ?f ''old'', ?f)"
    by (rule psl_reach.Step [OF psl_reach.Start], rule psl_step.Reload) (simp_all add: sample_psl_env_def)
  then have "sane (pe_domain sample_psl_env) ''new''"
    using active_list_sane r by fastforce
  then show ?thesis using r by simp
qed

text \<open>A download replaces the list file only by bytes that parse, and whole: when it succeeds
  the file holds parseable bytes stamped now; when it fails at any point (request, empty body,
  validation, directory, write, rename) the file is exactly as it was.\<close>

theorem download_atomic:
  assumes "download_and_save env cfg f = (r, f')"
  shows "(r = Inr () \<and> (\<exists>bytes l. f' (pc_path cfg) = Some (bytes, pe_now env) \<and> pe_parse env bytes = Some l))
    \<or> (r \<noteq> Inr () \<and> f' (pc_path cfg) = f (pc_path cfg))"
  using assms by (rule download_target)

lemma download_atomic_witness:
  "\<exists>f'. download_and_save (sample_psl_env\<lparr>pe_plan := \<lambda>p. RenameFails\<rparr>) sample_psl_cfg (\<lambda>_. None) = (Inl PslWrite, f')
     \<and> f' (''/etc'', ''psl.dat'') = None"
proof -
  let ?env = "sample_psl_env\<lparr>pe_plan := \<lambda>p. RenameFails\<rparr>"
  have "fst (download_and_save ?env sample_psl_cfg (\<lambda>_. None)) = Inl PslWrite"
    by (simp add: download_and_save_def save_to_file_def sample_psl_env_def sample_psl_cfg_def from_file_def
        write_atomic_def fs_write_def fs_rename_def)
  then obtain f' where d: "download_and_save ?env sample_psl_cfg (\<lambda>_. None) = (Inl PslWrite, f')"
    by (metis prod.collapse)
  have "f' (''/etc'', ''psl.dat'') = None"
    using download_atomic [OF d] by (simp add: sample_psl_cfg_def)
  then show ?thesis using d by blast
qed

end
