(* ===== verification/Boot.thy ===== *)
theory Boot
  imports Guarantee Trust Psl
begin

text \<open>
  From the command line to serving (\<open>main\<close>, \<open>load_ca\<close>, \<open>install_ca\<close> and \<open>run\<close> of \<open>src/src/main.rs\<close>,
  \<open>Config::load\<close> of \<open>config.rs\<close>, \<open>psl::init\<close> and \<open>CertStore::init\<close>): the document is read and
  validated, the authority is loaded or generated, installed in the trusted roots if asked for, the
  suffix list and the store come up, and the resolvers, pools and listeners are launched. Decoding
  TOML, and whether the operating system can watch a file, are parameters.
\<close>

datatype load_error = LeRead path | LeParse | LeInvalid config_error

datatype boot_error =
    BtConfig load_error
  | BtAuthority authority_error
  | BtTrust trust_error
  | BtPsl psl_error
  | BtWatch path
  | BtStore path
  | BtStart start_error

record psl_settings = psl_config +
  pc_auto_reload :: bool

text \<open>The machine a process runs on, and the crates its startup uses.\<close>

record ('k, 'd, 'i, 'x, 'w, 'l) host =
  ho_io :: io_env
  ho_os :: platform
  ho_authority :: "('k, 'd, 'i) authority_lib"
  ho_der :: "'d \<Rightarrow> string"
  ho_trust :: "('x, 'w) trust_lib"
  ho_psl :: "'l psl_env"
  ho_watch :: "path \<Rightarrow> bool"

record ('d, 'i, 'l) issuer_params =
  ip_ca :: "('d, 'i) authority"
  ip_suffix :: 'l
  ip_store :: "cert_store option"
  ip_cache_capacity :: nat
  ip_cache_ttl :: nat

section \<open>Operations\<close>

definition config_load :: "libs \<Rightarrow> (string \<Rightarrow> config option) \<Rightarrow> io_env \<Rightarrow> fs \<Rightarrow> path \<Rightarrow> (load_error, config) result" where
  "config_load lib decode io f p =
     res_bind (ok_or (LeRead p) (read_text io f p)) (\<lambda>text.
     res_bind (ok_or LeParse (decode text)) (\<lambda>c.
     res_bind (err_map LeInvalid (config_validate lib c)) (\<lambda>_. Inr c)))"

definition load_ca :: "('k, 'd, 'i, 'x, 'w, 'l) host \<Rightarrow> config \<Rightarrow> fs
    \<Rightarrow> (boot_error, ('d, 'i) authority) result \<times> fs" where
  "load_ca h c f = (case load_or_generate (ho_authority h) (ho_io h) f (c_ca c) of (r, f1) \<Rightarrow> (err_map BtAuthority r, f1))"

text \<open>\<open>--install-ca\<close>: a failure is the outcome of the run.\<close>

definition install_ca :: "('k, 'd, 'i, 'x, 'w, 'l) host \<Rightarrow> config \<Rightarrow> fs \<Rightarrow> 'w \<Rightarrow> (boot_error, unit) result \<times> fs \<times> 'w" where
  "install_ca h c f w =
     (case load_ca h c f of
        (Inl e, f1) \<Rightarrow> (Inl e, f1, w)
      | (Inr ca, f1) \<Rightarrow>
          (case ensure_installed (ho_os h) (ho_trust h) (ho_io h) (ho_der h (au_cert_der ca)) f1 w of
             (r, f2, w2) \<Rightarrow> (err_map BtTrust (map_sum (\<lambda>e. e) (\<lambda>_. ()) r), f2, w2)))"

text \<open>On the way to serving, the outcome of an installation is only logged.\<close>

definition install_if_asked :: "('k, 'd, 'i, 'x, 'w, 'l) host \<Rightarrow> config \<Rightarrow> ('d, 'i) authority \<Rightarrow> fs \<Rightarrow> 'w \<Rightarrow> fs \<times> 'w" where
  "install_if_asked h c ca f w =
     (if ca_install_to_system_root (c_ca c)
      then snd (ensure_installed (ho_os h) (ho_trust h) (ho_io h) (ho_der h (au_cert_der ca)) f w)
      else (f, w))"

definition psl_init :: "('k, 'd, 'i, 'x, 'w, 'l) host \<Rightarrow> psl_settings \<Rightarrow> fs \<Rightarrow> (boot_error, 'l) result \<times> fs" where
  "psl_init h cfg f =
     (case load_initial (ho_psl h) (psl_config.truncate cfg) f of
        (Inl e, f1) \<Rightarrow> (Inl (BtPsl e), f1)
      | (Inr l, f1) \<Rightarrow>
          (if pc_auto_reload cfg \<and> pc_source cfg = File \<and> f1 (pc_path cfg) \<noteq> None \<and> \<not> ho_watch h (pc_path cfg)
           then Inl (BtWatch (pc_path cfg)) else Inr l, f1))"

definition store_init :: "('k, 'd, 'i, 'x, 'w, 'l) host \<Rightarrow> store_config \<Rightarrow> (boot_error, cert_store option) result" where
  "store_init h sc =
     (if sc_enabled sc then
        if io_plan (ho_io h) (sc_dir sc, []) = CreateDirFails then Inl (BtStore (sc_dir sc, []))
        else Inr (Some (new_store (sc_dir sc) (sc_renew_margin_days sc)))
      else Inr None)"

definition run :: "('k, 'd, 'i, 'x, 'w, 'l) host \<Rightarrow> ('re, 'c, 'key, 'r) start_env \<Rightarrow> 'f pool_env \<Rightarrow> 'r probe_world
    \<Rightarrow> ((probe_key \<times> 'r probe_group) list \<Rightarrow> (probe_key \<times> 'r probe_group) list) \<Rightarrow> 'r list \<Rightarrow> config \<Rightarrow> psl_settings
    \<Rightarrow> fs \<Rightarrow> 'w \<Rightarrow> (boot_error, ('d, 'i, 'l) issuer_params \<times> 'r registry \<times> (string \<times> ('f, 'r) started_pool) list
         \<times> ('re, 'c, 'key, 'r) built_listener list) result \<times> fs \<times> 'w" where
  "run h env pe w finish webpki c psl f trust =
     (case load_ca h c f of
        (Inl e, f1) \<Rightarrow> (Inl e, f1, trust)
      | (Inr ca, f1) \<Rightarrow>
        (case install_if_asked h c ca f1 trust of (f2, trust1) \<Rightarrow>
         (case psl_init h psl f2 of
            (Inl e, f3) \<Rightarrow> (Inl e, f3, trust1)
          | (Inr l, f3) \<Rightarrow>
              (res_bind (store_init h (c_store c)) (\<lambda>store.
               res_bind (err_map BtStart (snd (launch env pe w finish c (start_state_new webpki)))) (\<lambda>(registry, pools, listeners).
                 Inr (\<lparr>ip_ca = ca, ip_suffix = l, ip_store = store, ip_cache_capacity = cc_capacity (c_cache c),
                       ip_cache_ttl = cc_ttl_secs (c_cache c)\<rparr>, registry, pools, listeners))), f3, trust1))))"

text \<open>What the issuer of the listeners works with.\<close>

definition issuer_env_of :: "('c, 'k) pki \<Rightarrow> ('re \<Rightarrow> string \<Rightarrow> bool) \<Rightarrow> ('d, 'i, 'l) issuer_params \<Rightarrow> ('c, 'k, 're) issuer_env" where
  "issuer_env_of pki rxm ip =
     \<lparr>ie_pki = pki, ie_ca = cert_authority.truncate (ip_ca ip), ie_store = ip_store ip, ie_match = rxm\<rparr>"

section \<open>Facts\<close>

text \<open>The files an installation can touch.\<close>

definition trust_file :: "('x, 'w) trust_lib \<Rightarrow> path \<Rightarrow> bool" where
  "trust_file lib p \<longleftrightarrow> (\<exists>(d :: distro) fp. p = anchor_path d fp) \<or> (\<exists>n. p = (tl_temp_dir lib, n))"

lemma fs_write_same: "q \<noteq> p \<Longrightarrow> snd (fs_write plan now p s f) q = f q"
  by (simp add: fs_write_def split: fault.splits)

lemma fs_remove_same: "q \<noteq> p \<Longrightarrow> snd (fs_remove plan p f) q = f q"
  by (simp add: fs_remove_def split: option.splits)

lemma linux_install_frame:
  assumes "\<And>(d :: distro) fp. q \<noteq> anchor_path d fp"
  shows "fst (snd (linux_ensure_installed lib io der f w)) q = f q"
  using fs_write_same [OF assms] fs_remove_same [OF assms]
  unfolding linux_ensure_installed_def Let_def
  by (simp add: case_prod_unfold split: sum.split option.split)

lemma macos_install_frame:
  assumes "\<And>n. q \<noteq> (tl_temp_dir lib, n)"
  shows "fst (snd (macos_ensure_installed lib io der f w)) q = f q"
  using fs_write_same [OF assms] fs_remove_same [OF assms]
  unfolding macos_ensure_installed_def Let_def
  by (simp add: case_prod_unfold split: sum.split bool.split)

lemma ensure_installed_frame:
  assumes "\<not> trust_file lib q"
  shows "fst (snd (ensure_installed os lib io der f w)) q = f q"
proof -
  have "\<And>(d :: distro) fp. q \<noteq> anchor_path d fp" "\<And>n. q \<noteq> (tl_temp_dir lib, n)"
    using assms by (auto simp: trust_file_def)
  then show ?thesis
    by (cases os) (simp_all add: ensure_installed_def case_prod_unfold linux_install_frame macos_install_frame)
qed

lemma write_atomic_same: "q \<noteq> p \<Longrightarrow> q \<noteq> staging_path p \<Longrightarrow> snd (write_atomic plan now p s f) q = f q"
  by (rule write_atomic_frame [of plan now p s f "fst (write_atomic plan now p s f)"]) auto

lemma download_frame:
  assumes "q \<noteq> pc_path cfg" "q \<noteq> staging_path (pc_path cfg)"
  shows "snd (download_and_save env cfg f) q = f q"
  using write_atomic_same [OF assms]
  by (simp add: download_and_save_def save_to_file_def Let_def case_prod_unfold split: option.split sum.split)

lemma load_initial_frame:
  assumes "q \<noteq> pc_path cfg" "q \<noteq> staging_path (pc_path cfg)"
  shows "snd (load_initial env cfg f) q = f q"
  by (simp add: download_frame [OF assms] load_initial_def Let_def case_prod_unfold split: psl_source.split option.split sum.split)

lemma psl_init_frame:
  assumes "q \<noteq> pc_path cfg" "q \<noteq> staging_path (pc_path cfg)"
  shows "snd (psl_init h cfg f) q = f q"
  using load_initial_frame [of q "psl_config.truncate cfg" "ho_psl h" f] assms
  by (simp add: psl_init_def case_prod_unfold psl_config.truncate_def split: sum.split)

text \<open>The authority's files are nobody else's: neither the suffix list's nor an installation's.\<close>

definition ca_apart :: "('k, 'd, 'i, 'x, 'w, 'l) host \<Rightarrow> config \<Rightarrow> psl_settings \<Rightarrow> bool" where
  "ca_apart h c psl \<longleftrightarrow>
     path_of (ca_cert_path (c_ca c)) \<noteq> path_of (ca_key_path (c_ca c))
     \<and> (\<forall>p\<in>{path_of (ca_cert_path (c_ca c)), path_of (ca_key_path (c_ca c))}.
          \<not> trust_file (ho_trust h) p \<and> p \<noteq> pc_path psl \<and> p \<noteq> staging_path (pc_path psl))"

fun boot_external :: "boot_error \<Rightarrow> bool" where
  "boot_external (BtConfig _) = False"
| "boot_external (BtTrust _) = False"
| "boot_external (BtStart e) = startup_external e"
| "boot_external _ = True"

lemma load_or_generate_same:
  assumes "f2 (path_of (ca_cert_path ca)) = f1 (path_of (ca_cert_path ca))"
    and "f2 (path_of (ca_key_path ca)) = f1 (path_of (ca_key_path ca))"
    and "load_or_generate lib env f1 ca = (Inr a, f1)"
    and "f1 (path_of (ca_cert_path ca)) \<noteq> None" "f1 (path_of (ca_key_path ca)) \<noteq> None"
  shows "load_or_generate lib env f2 ca = (Inr a, f2)"
  using assms by (auto simp: load_or_generate_def authority_load_def read_text_def fs_read_def Let_def)

lemma load_ca_ok:
  assumes "load_ca h c f = (Inr ca, f1)" "authority_lib_ok (ho_authority h)" "ca_apart h c psl" "readable env"
  shows "load_or_generate (ho_authority h) env f1 (c_ca c) = (Inr ca, f1)"
    and "f1 (path_of (ca_cert_path (c_ca c))) \<noteq> None \<and> f1 (path_of (ca_key_path (c_ca c))) \<noteq> None"
proof -
  have r: "load_or_generate (ho_authority h) (ho_io h) f (c_ca c) = (Inr ca, f1)"
    using assms(1) by (cases "fst (load_or_generate (ho_authority h) (ho_io h) f (c_ca c))")
      (auto simp: load_ca_def err_map_def split: prod.splits)
  show "load_or_generate (ho_authority h) env f1 (c_ca c) = (Inr ca, f1)"
    by (rule load_or_generate_restart [OF assms(2) _ r assms(4)]) (use assms(3) in \<open>simp add: ca_apart_def\<close>)
  show "f1 (path_of (ca_cert_path (c_ca c))) \<noteq> None \<and> f1 (path_of (ca_key_path (c_ca c))) \<noteq> None"
    using load_or_generate_files [OF r] .
qed

lemma run_files:
  assumes "p \<noteq> pc_path psl" "p \<noteq> staging_path (pc_path psl)" "\<not> trust_file (ho_trust h) p"
    and "load_ca h c f = (Inr ca, f1)"
  shows "fst (snd (run h env pe w finish webpki c psl f trust)) p = f1 p"
proof -
  have "fst (install_if_asked h c ca f1 trust) p = f1 p"
    using ensure_installed_frame [OF assms(3)] by (simp add: install_if_asked_def)
  then show ?thesis
    using psl_init_frame [OF assms(1,2), of h] assms(4) by (simp add: run_def case_prod_unfold split: sum.split)
qed

section \<open>Properties\<close>


definition sample_host :: "(nat, string, string \<times> nat, unit, string \<Rightarrow> bool, string) host" where
  "sample_host = \<lparr>ho_io = quiet_io 1, ho_os = Linux, ho_authority = sample_authority_lib, ho_der = (\<lambda>d. d),
     ho_trust = sample_trust_lib, ho_psl = sample_psl_env, ho_watch = (\<lambda>_. True)\<rparr>"

definition embedded_psl :: psl_settings where
  "embedded_psl = \<lparr>pc_source = Embedded, pc_path = (''/etc'', ''psl.dat''), pc_auto_update = False, pc_max_age = 10,
     pc_update_url = [], pc_auto_reload = True\<rparr>"

lemma doc_loads:
  "config_load (en_libs sample_env) (\<lambda>_. Some doc_config) (quiet_io 1) [(''/etc'', ''gate.toml'') \<mapsto> (''text'', 0)]
     (''/etc'', ''gate.toml'') = Inr doc_config"
proof -
  have "config_validate (en_libs sample_env) doc_config = Inr ()" using doc_valid by (simp add: sample_env_def)
  then show ?thesis by (simp add: config_load_def read_text_def fs_read_def quiet_io_def)
qed

lemma path_of_plain: "path_of ''ca.pem'' = ([], ''ca.pem'')" "path_of ''ca.key'' = ([], ''ca.key'')"
  by code_simp+

lemma doc_apart: "ca_apart sample_host doc_config embedded_psl"
proof -
  have "path_of (ca_cert_path (c_ca doc_config)) = ([], ''ca.pem'')" "path_of (ca_key_path (c_ca doc_config)) = ([], ''ca.key'')"
    by (simp_all add: doc_defs path_of_plain)
  then show ?thesis
    by (simp add: ca_apart_def trust_file_def sample_host_def sample_trust_lib_def anchor_path_def embedded_psl_def
        staging_path_def)
qed

lemma doc_boots:
  "\<exists>ip started f' trust'. run sample_host sample_env pe sample_probe_world id [''root''] doc_config embedded_psl
     (\<lambda>_. None) (\<lambda>_. False) = (Inr (ip, started), f', trust')"
proof -
  obtain s' registry pools listeners where l:
      "launch sample_env pe sample_probe_world id doc_config (start_state_new [''root'']) = (s', Inr (registry, pools, listeners))"
    using doc_starts by blast
  have "\<exists>ca f1. load_ca sample_host doc_config (\<lambda>_. None) = (Inr ca, f1)"
    by (simp add: load_ca_def sample_host_def load_or_generate_def authority_generate_def sample_authority_lib_def
        fs_write_def write_private_key_def quiet_io_def Let_def err_map_def)
  moreover have "psl_init sample_host embedded_psl f = (Inr ''emb'', f)" for f
    by (simp add: psl_init_def sample_host_def embedded_psl_def load_initial_def sample_psl_env_def psl_config.truncate_def)
  moreover have "\<exists>st. store_init sample_host (c_store doc_config) = Inr st"
    by (simp add: store_init_def sample_host_def quiet_io_def)
  ultimately show ?thesis
    using l by (auto simp: run_def err_map_def case_prod_unfold)
qed


end
