(* ===== verification/Feedback.thy ===== *)
theory Feedback
  imports Poolstate
begin

text \<open>
  Passive throughput reports on their way from the data path to the probe task (\<open>observe_transfer\<close>,
  \<open>process_observations\<close> and the two \<open>select!\<close> loops of \<open>src/src/pool.rs\<close>): a bounded channel that a
  connection never waits for, a counter of the reports that found it full, and batches of bounded
  size that the task folds into its state. A connection's handle keeps the pool and with it the task
  alive, so the channel is never closed under a report.
\<close>

record passive_obs =
  ob_addr :: ip_addr
  ob_bytes :: nat
  ob_elapsed :: nat

text \<open>The part of a running pool the reports pass through. Reading the counter resets it, and what
  was read goes to the log.\<close>

record 'f pool_runtime =
  rt_cands :: "candidate list"
  rt_state :: "'f pool_state"
  rt_published :: "'f view_ranking list"
  rt_queue :: "passive_obs list"
  rt_dropped :: "64 word"
  rt_last_warning :: nat
  rt_warnings :: "64 word list"

definition observation_capacity :: nat where
  "observation_capacity = 2048"

definition observation_batch :: nat where
  "observation_batch = 64"

text \<open>Milliseconds between two warnings.\<close>

definition warning_interval :: nat where
  "warning_interval = 60000"

section \<open>Operations\<close>

definition observe_transfer :: "bool \<Rightarrow> passive_obs \<Rightarrow> 'f pool_runtime \<Rightarrow> 'f pool_runtime" where
  "observe_transfer enabled ob r =
     (if ob_bytes ob = 0 \<or> ob_elapsed ob = 0 then r
      else if \<not> enabled then r
      else if length (rt_queue r) < observation_capacity then r\<lparr>rt_queue := rt_queue r @ [ob]\<rparr>
      else r\<lparr>rt_dropped := rt_dropped r + 1\<rparr>)"

text \<open>The loop over a batch: \<open>queue\<close> starts with the report that woke the task.\<close>

fun drain :: "'f arith \<Rightarrow> 'f \<Rightarrow> nat \<Rightarrow> nat \<Rightarrow> passive_obs list \<Rightarrow> bool \<Rightarrow> 'f pool_state
    \<Rightarrow> bool \<times> 'f pool_state \<times> passive_obs list" where
  "drain a discount now 0 queue changed st = (changed, st, queue)"
| "drain a discount now (Suc n) [] changed st = (changed, st, [])"
| "drain a discount now (Suc n) (ob # queue) changed st =
     (case observe a discount now (ob_addr ob) (ob_bytes ob) (ob_elapsed ob) st of
        (c, st1) \<Rightarrow> drain a discount now n queue (changed \<or> c) st1)"

definition warn_dropped :: "nat \<Rightarrow> 'f pool_runtime \<Rightarrow> 'f pool_runtime" where
  "warn_dropped now r =
     (if warning_interval \<le> now - rt_last_warning r
      then r\<lparr>rt_dropped := 0, rt_warnings := (if rt_dropped r \<noteq> 0 then rt_warnings r @ [rt_dropped r] else rt_warnings r),
             rt_last_warning := now\<rparr>
      else r)"

text \<open>A wake-up of the task by its channel; an empty channel does not wake it.\<close>

definition process_observations :: "'f arith \<Rightarrow> 'f pool_cfg \<Rightarrow> nat \<Rightarrow> 'f pool_runtime \<Rightarrow> 'f pool_runtime" where
  "process_observations a p now r =
     (if rt_queue r = [] then r
      else
        (case drain a (ti_discount (pl_timing p)) now observation_batch (rt_queue r) False (rt_state r) of
           (changed, st, queue) \<Rightarrow>
             warn_dropped now (r\<lparr>rt_state := st, rt_queue := queue,
               rt_published := (if changed
                 then publish a (ps_health st) (rt_cands r) (ps_order st) (pl_fallback p) (pl_views p) (rt_published r)
                 else rt_published r)\<rparr>)))"

text \<open>What happens around the channel, in any order: a connection ends, the task is woken by a report,
  or the task's other work leaves it with new candidates and a new state.\<close>

datatype 'f runtime_event =
    Report passive_obs
  | Feedback nat
  | Work "candidate list" "'f pool_state"

fun runtime_step :: "'f arith \<Rightarrow> 'f pool_cfg \<Rightarrow> bool \<Rightarrow> 'f runtime_event \<Rightarrow> 'f pool_runtime \<Rightarrow> 'f pool_runtime" where
  "runtime_step a p enabled (Report ob) r = observe_transfer enabled ob r"
| "runtime_step a p enabled (Feedback now) r = process_observations a p now r"
| "runtime_step a p enabled (Work cands st) r = r\<lparr>rt_cands := cands, rt_state := st\<rparr>"

definition runtime_new :: "nat \<Rightarrow> 'f view_ranking list \<Rightarrow> 'f pool_runtime" where
  "runtime_new now views =
     \<lparr>rt_cands = [], rt_state = pool_state_new, rt_published = views, rt_queue = [], rt_dropped = 0,
      rt_last_warning = now, rt_warnings = []\<rparr>"

section \<open>Facts\<close>

text \<open>A transfer of no bytes or no time measures nothing.\<close>

definition measures :: "passive_obs \<Rightarrow> bool" where
  "measures ob \<longleftrightarrow> ob_bytes ob \<noteq> 0 \<and> ob_elapsed ob \<noteq> 0"

definition reports :: "'f runtime_event list \<Rightarrow> passive_obs list" where
  "reports evs = List.map_filter (\<lambda>ev. case ev of Report ob \<Rightarrow> if measures ob then Some ob else None | _ \<Rightarrow> None) evs"

definition absorb :: "'f arith \<Rightarrow> 'f \<Rightarrow> nat \<Rightarrow> passive_obs \<Rightarrow> 'f pool_state \<Rightarrow> 'f pool_state" where
  "absorb a discount now ob st = snd (observe a discount now (ob_addr ob) (ob_bytes ob) (ob_elapsed ob) st)"

lemma drain_result:
  "drain a d now n q c st = (c', st', q') \<Longrightarrow> q' = drop n q \<and> st' = fold (absorb a d now) (take n q) st"
  by (induction a d now n q c st rule: drain.induct) (auto simp: absorb_def split: prod.splits)

lemma absorb_inv: "arith_ok a \<Longrightarrow> pool_inv a st \<Longrightarrow> pool_inv a (fold (absorb a d now) obs st)"
  by (induction obs arbitrary: st) (simp_all add: absorb_def observe_inv)

lemma warn_dropped_simps [simp]:
  "rt_queue (warn_dropped now r) = rt_queue r" "rt_state (warn_dropped now r) = rt_state r"
  "sum_list (rt_warnings (warn_dropped now r)) + rt_dropped (warn_dropped now r) = sum_list (rt_warnings r) + rt_dropped r"
  by (simp_all add: warn_dropped_def)

lemma process_result:
  shows "rt_queue (process_observations a p now r) = drop observation_batch (rt_queue r)"
    and "rt_state (process_observations a p now r)
      = fold (absorb a (ti_discount (pl_timing p)) now) (take observation_batch (rt_queue r)) (rt_state r)"
    and "sum_list (rt_warnings (process_observations a p now r)) + rt_dropped (process_observations a p now r)
      = sum_list (rt_warnings r) + rt_dropped r"
  using drain_result [of a "ti_discount (pl_timing p)" now observation_batch "rt_queue r" False "rt_state r"]
  by (auto simp: process_observations_def split: prod.splits)

lemma reports_snoc: "reports (evs @ [ev]) = reports evs @ reports [ev]"
  by (simp add: reports_def map_filter_def)

text \<open>The account of a channel: what was taken from it and what is waiting in it is, in order, a part
  of what was reported, and the rest was counted.\<close>

definition accounted :: "passive_obs list \<Rightarrow> passive_obs list \<Rightarrow> 'f pool_runtime \<Rightarrow> bool" where
  "accounted sent taken r \<longleftrightarrow>
     subseq (taken @ rt_queue r) sent \<and> length (rt_queue r) \<le> observation_capacity
     \<and> (\<exists>lost. length sent = length taken + length (rt_queue r) + lost \<and> of_nat lost = sum_list (rt_warnings r) + rt_dropped r)"

lemma accounted_report:
  assumes "accounted sent taken r"
  shows "accounted (sent @ reports [Report ob]) taken (observe_transfer True ob r)"
proof (cases "measures ob")
  case False
  then show ?thesis
    using assms by (auto simp: measures_def reports_def map_filter_def observe_transfer_def)
next
  case True
  obtain lost where l: "length sent = length taken + length (rt_queue r) + lost" "of_nat lost = sum_list (rt_warnings r) + rt_dropped r"
    using assms by (auto simp: accounted_def)
  have s: "reports [Report ob] = [ob]" using True by (simp add: reports_def map_filter_def)
  show ?thesis
  proof (cases "length (rt_queue r) < observation_capacity")
    case True
    have "subseq ((taken @ rt_queue r) @ [ob]) (sent @ [ob])"
      using assms by (intro list_emb_append_mono) (auto simp: accounted_def)
    then show ?thesis
      using True l \<open>measures ob\<close> by (auto simp: accounted_def observe_transfer_def measures_def s)
  next
    case False
    have "subseq (taken @ rt_queue r) (sent @ [ob])"
      using assms by (auto simp: accounted_def intro: subseq_order.order_trans)
    moreover have "\<exists>k. length sent + 1 = length taken + length (rt_queue r) + k
        \<and> of_nat k = sum_list (rt_warnings r) + (rt_dropped r + 1)"
      using l by (intro exI [of _ "Suc lost"]) simp
    ultimately show ?thesis
      using False assms \<open>measures ob\<close> by (auto simp: accounted_def observe_transfer_def measures_def s)
  qed
qed

lemma accounted_process:
  assumes "accounted sent taken r"
  shows "accounted sent (taken @ take observation_batch (rt_queue r)) (process_observations a p now r)"
proof -
  obtain lost where l: "length sent = length taken + length (rt_queue r) + lost" "of_nat lost = sum_list (rt_warnings r) + rt_dropped r"
    using assms by (auto simp: accounted_def)
  then show ?thesis
    using assms unfolding accounted_def process_result by (auto intro!: exI [of _ lost])
qed

text \<open>What the task takes from the channel over a run: a batch at each wake-up.\<close>

fun taken_by :: "'f arith \<Rightarrow> 'f pool_cfg \<Rightarrow> 'f runtime_event list \<Rightarrow> 'f pool_runtime \<Rightarrow> passive_obs list" where
  "taken_by a p [] r = []"
| "taken_by a p (ev # evs) r =
     (case ev of Feedback now \<Rightarrow> take observation_batch (rt_queue r) | _ \<Rightarrow> [])
     @ taken_by a p evs (runtime_step a p True ev r)"

lemma accounted_run:
  "accounted sent taken r
   \<Longrightarrow> accounted (sent @ reports evs) (taken @ taken_by a p evs r) (fold (runtime_step a p True) evs r)"
proof (induction evs arbitrary: sent taken r)
  case Nil
  then show ?case by (simp add: reports_def map_filter_def)
next
  case (Cons ev evs)
  have split: "reports (ev # evs) = reports [ev] @ reports evs" by (simp add: reports_def map_filter_def)
  show ?case
  proof (cases ev)
    case (Report ob)
    then show ?thesis using Cons.IH [OF accounted_report [OF Cons.prems]] by (simp add: split [unfolded Report])
  next
    case (Feedback now)
    then have "reports [ev] = []" by (simp add: reports_def map_filter_def)
    then show ?thesis using Cons.IH [OF accounted_process [OF Cons.prems]] by (simp add: split [unfolded Feedback] Feedback)
  next
    case (Work cands st)
    then have "reports [ev] = []" by (simp add: reports_def map_filter_def)
    moreover have "accounted sent taken (r\<lparr>rt_cands := cands, rt_state := st\<rparr>)"
      using Cons.prems by (simp add: accounted_def)
    ultimately show ?thesis using Cons.IH by (simp add: split [unfolded Work] Work)
  qed
qed

lemma runtime_inv:
  assumes "arith_ok a"
  shows "pool_inv a (rt_state r) \<Longrightarrow> (\<And>cands st. Work cands st \<in> set evs \<Longrightarrow> pool_inv a st)
    \<Longrightarrow> pool_inv a (rt_state (fold (runtime_step a p True) evs r))"
proof (induction evs arbitrary: r)
  case (Cons ev evs)
  have "pool_inv a (rt_state (runtime_step a p True ev r))"
    using Cons.prems assms by (cases ev) (auto simp: observe_transfer_def process_result absorb_inv)
  then have "pool_inv a (rt_state (fold (runtime_step a p True) evs (runtime_step a p True ev r)))"
    by (rule Cons.IH) (use Cons.prems(2) in auto)
  then show ?case by simp
qed simp

section \<open>Properties\<close>

text \<open>C25. Telemetry never blocks traffic, and every report of it is accounted for. However reports,
  wake-ups of the task and its other work interleave, the channel holds no more than its capacity;
  what the task took and what still waits is a subsequence of what was reported, in order; and the
  reports that are missing are exactly as many as the warnings and the counter say (on 64 bits). A
  wake-up folds at most one batch into the statistics, in order, and they stay well formed.\<close>

theorem feedback_accounted:
  assumes "arith_ok a" "\<And>cands st. Work cands st \<in> set evs \<Longrightarrow> pool_inv a st"
    and r: "r = fold (runtime_step a p True) evs (runtime_new start views)"
  shows "pool_inv a (rt_state r) \<and> length (rt_queue r) \<le> 2048
    \<and> (\<exists>lost. subseq (taken_by a p evs (runtime_new start views) @ rt_queue r) (reports evs)
         \<and> length (reports evs) = length (taken_by a p evs (runtime_new start views)) + length (rt_queue r) + lost
         \<and> of_nat lost = sum_list (rt_warnings r) + rt_dropped r)
    \<and> (\<forall>now. rt_queue (process_observations a p now r) = drop 64 (rt_queue r)
         \<and> rt_state (process_observations a p now r)
           = fold (absorb a (ti_discount (pl_timing p)) now) (take 64 (rt_queue r)) (rt_state r))"
proof -
  have "accounted [] [] (runtime_new start views)"
    by (auto simp: accounted_def runtime_new_def)
  then have "accounted (reports evs) (taken_by a p evs (runtime_new start views)) r"
    using accounted_run [of "[]" "[]"] r by simp
  moreover have "pool_inv a (rt_state r)"
    unfolding r by (rule runtime_inv [OF assms(1) _ assms(2)]) (simp_all add: runtime_new_def pool_inv_new)
  ultimately show ?thesis
    using process_result [of a p _ r] by (auto simp: accounted_def observation_capacity_def observation_batch_def)
qed

definition sample_ob :: passive_obs where
  "sample_ob = \<lparr>ob_addr = V4 7, ob_bytes = 1000, ob_elapsed = 5\<rparr>"

lemma feedback_accounted_witness:
  "rt_queue (process_observations exact_arith sample_pool 9
     (fold (runtime_step exact_arith sample_pool True) [Report sample_ob, Report (sample_ob\<lparr>ob_bytes := 0\<rparr>), Report sample_ob]
        (runtime_new 0 []))) = []
   \<and> length (reports [Report sample_ob, Report (sample_ob\<lparr>ob_bytes := 0\<rparr>), Report sample_ob :: rat runtime_event]) = 2"
proof -
  define evs :: "rat runtime_event list" where "evs = [Report sample_ob, Report (sample_ob\<lparr>ob_bytes := 0\<rparr>), Report sample_ob]"
  define r where "r = fold (runtime_step exact_arith sample_pool True) evs (runtime_new 0 [])"
  have "rt_queue r = [sample_ob, sample_ob]"
    by (simp add: r_def evs_def sample_ob_def observe_transfer_def runtime_new_def observation_capacity_def)
  then have "rt_queue (process_observations exact_arith sample_pool 9 r) = []"
    using feedback_accounted [OF exact_arith_ok _ r_def] by (simp add: evs_def)
  moreover have "length (reports evs) = 2"
    by (simp add: evs_def reports_def map_filter_def measures_def sample_ob_def)
  ultimately show ?thesis unfolding r_def evs_def by blast
qed

end
