(* ===== verification/Spec2Isabelle.thy ===== *)
theory Spec2Isabelle
  imports Boot Feedback
begin

text \<open>
  sni-gate: a verification development.

  sni-gate is a gateway that routes TLS and HTTP connections by server name. A listener peeks at the
  first bytes of a connection, finds the name in them, and looks the route of that name up. A route
  of type \<open>raw\<close> splices the untouched stream to its upstream; every other type ends the client's TLS
  with a certificate that the gateway's own authority issues for the name, and dials the upstream in
  the clear, with TLS, or with TLS and Encrypted Client Hello. What the upstream's certificate covers
  is mirrored into the next certificates for the name, as far as the routing of the listener allows.
  Upstreams are hosts resolved through named resolvers, or pools whose probe tasks rank the
  candidates. Everything is configured by one document, validated as a whole before startup.

  The theories model the Rust crate under \<open>src/src\<close>, module by module; a definition has the name of the
  function or type it translates, or a name close to it where HOL has taken the original.
\<close>

section \<open>Which theory models what\<close>

text \<open>
  Strings, files and addresses. \<open>Prelude\<close> holds results, bytes and the string operations of the
  standard library that the source uses; \<open>NetAddr\<close> the textual grammar of \<open>core::net\<close>; \<open>Files\<close> a file
  system with modification times, explicit faults and the staged atomic write.

  Routing. \<open>Router\<close> is \<open>router.rs\<close>: the tables of exact, one-label, suffix and regex patterns
  (\<open>build\<close>), the lookup (\<open>match_host\<close>) and the proof that a wildcard certificate stays with one set of
  routes (\<open>wildcard_confined\<close>). \<open>Peek\<close> is \<open>peek.rs\<close>: the ClientHello and HTTP parsers, every index
  checked, and the peek loop.

  Certificates. \<open>Suffix\<close> and \<open>Psl\<close> are \<open>suffix.rs\<close> and \<open>psl.rs\<close>, the public-suffix decisions and the
  list's file, download and reload; \<open>Ca\<close> and \<open>Authority\<close> are \<open>ca.rs\<close>, the parameters of a leaf, and the
  life of the authority's two files; \<open>Trust\<close> is \<open>trust.rs\<close>, the installation in the system's trusted
  roots; \<open>Certscope\<close> is \<open>certscope.rs\<close>, the partition a certificate belongs to; \<open>Store\<close> is \<open>store.rs\<close>;
  \<open>Resolver\<close> is \<open>resolver.rs\<close>, the issuer the listeners share and the mirroring of upstream names.

  Configuration (\<open>config.rs\<close>). \<open>ConfigTypes\<close> has the tables of the document, \<open>Upstream\<close> and \<open>Endpoint\<close> its
  address forms (\<open>Endpoint\<close> also the specifications that \<open>dns_resolvers.rs\<close> and \<open>pool.rs\<close> own), \<open>Ladder\<close>
  the inheritance between route, template, listener and global tables, \<open>ResolverOrder\<close> the dependency
  order of resolvers, \<open>Probespec\<close> and \<open>Validate\<close> every check of \<open>Config::validate\<close> in its order.

  Upstreams. \<open>Tlsverify\<close> is \<open>verify.rs\<close>; \<open>Dns\<close>, \<open>Ech\<close> and \<open>Dnsresolver\<close> are \<open>dns.rs\<close>, \<open>ech.rs\<close> and
  \<open>dns_resolvers.rs\<close>; \<open>Nat64\<close> is \<open>nat64.rs\<close>. \<open>Dial\<close> and \<open>Proxy\<close> are \<open>proxy.rs\<close>: reaching an upstream, and
  one connection from its classification to the end of its splice, as the list of its actions.

  Pools (\<open>pool.rs\<close>, \<open>scoring.rs\<close>, \<open>probe.rs\<close>). \<open>Scoring\<close> has the statistics and health of an endpoint,
  \<open>Sampling\<close> the drawing of addresses from a network, \<open>Ranking\<close> the preference order, the published views
  and the choice, \<open>Poolstate\<close> the steps of the probe task, \<open>Feedback\<close> the telemetry channel, \<open>Probing\<close> the
  probes themselves and the HTTP/2 check of backends.

  Startup (\<open>main.rs\<close>). \<open>Startup\<close> builds routes and listeners and runs the backend check, \<open>Launch\<close> adds the
  order of resolvers, pools and listeners, \<open>Guarantee\<close> proves what a validated document can rely on,
  \<open>Boot\<close> goes from the files to \<open>run\<close>.
\<close>

section \<open>How the parts meet\<close>

text \<open>
  A document (\<open>config\<close>) goes through \<open>config_validate\<close>; \<open>launch\<close> turns it into resolver handles, pools with
  the views their routes registered, and built listeners, each a \<open>router\<close>, the runtimes of its routes in
  the order of the router's ids, and a \<open>dynamic_resolver\<close> with the partition of each route. A connection
  (\<open>dispatch\<close>) uses the router and the runtime of one route; the inbound handshake asks \<open>resolve\<close> for a
  certificate, and \<open>record_upstream_coverage\<close> reports the upstream's names back to it. The state that
  outlives a connection is the issuer's cache and files (\<open>issuer_step\<close>), the ECH caches (\<open>ech_step\<close>), the
  resolver handles (\<open>rebuild\<close>), the suffix list (\<open>psl_step\<close>), and the pools (\<open>pool_step\<close>,
  \<open>runtime_step\<close>). Each of these is a step function or relation whose events come in any order.
\<close>

section \<open>What the lemmas show\<close>

text \<open>
  Certificates: in every reachable state of the issuer, with any interleaving of listeners, evictions,
  rewrites of the store and observations, a served certificate covers only hosts that its listener
  routes into the partition of the route it is served for (property C1), resting on the
  soundness and exactness of \<open>wildcard_confined\<close>; a partition's rendering identifies its inputs; a save
  touches one host of one partition and never leaves half a certificate; a saved certificate loads.

  Connections: a connection of a validated and started document is classified with the name the
  client sent, its bytes reach only a session that is verified by the policy of its route and, where
  the route requires it, protected by ECH (property C2, property C3,
  property C4), and a raw stream is never touched.

  Configuration: the ladder is field-by-field override; the dependency order is topological and fails
  only on cycles and unknown names; a validated document is coherent and starts unless something
  outside it fails (property C6, property C14).

  Pools: the order is stable under hysteresis and settled, a view serves a selected healthy address
  whenever there is one, the state is consistent and bounded, backoff follows its schedule, samples
  are distinct members of their network, telemetry is bounded and accounted for.

  Two techniques recur. State that several tasks share is an invariant over steps in any order
  (\<open>issuer_inv\<close>, \<open>factory_inv\<close>, \<open>ech_inv\<close>, \<open>pool_inv\<close>); startup, a monad of state and error, has a
  small logic of triples (\<open>starts\<close> in \<open>Guarantee\<close>) whose error part bounds what can go wrong.
\<close>

section \<open>Bounds\<close>

text \<open>
  The constants are the source's. The peek window is 8192 bytes and the peek loop is bounded by its
  deadline, so it is recursion over the list of socket events. A pool parks at most 4096 departed
  candidates and keeps at most 1024 idle subnet priors after a rebuild; its channel holds 2048 reports
  and a wake-up takes 64. A status line is read into 128 bytes, an HTTP/2 frame header is 9. The retry
  loops after an ECH rejection recurse on their configured budget and the sampling loop on its attempts;
  neither needs more. Generations of a resolver and of an ECH entry are counters on 64 bits that wrap,
  byte counts saturate, and addresses are words of 32 and 128 bits; each is kept at its width. The model
  has no other fuel: all functions are total, and the peek loop and the order search are proved to return.
\<close>

section \<open>Parameters\<close>

text \<open>
  Code that is not in the repository is an argument: the regex engine, the public-suffix crate, rcgen
  and the PEM and X.509 parsers, base64 and SHA-256, the URL and CIDR parsers, DNS (hickory and the
  operating system), rustls and its sockets, random draws, floating-point arithmetic (a record of
  operations with the ordering laws the proofs need, instantiated by the rationals), and the platform's
  trust-store calls. What a theorem relies on is a named hypothesis, such as \<open>pki_ok\<close>, \<open>arith_ok\<close>,
  \<open>authority_lib_ok\<close> or \<open>update_honest\<close>, and its witness has a concrete instance.
\<close>

section \<open>Not modelled\<close>

text \<open>
  Decoding TOML into the document (serde; a parameter of \<open>config_load\<close>), command-line parsing, tracing and
  the signal handlers: they are calls into libraries. The accept loop and the timers that wake the
  background tasks have no state of their own; their choice is the choice of the next step. Within one
  splice, a direction is modelled (\<open>pump\<close>) and the interleaving of the two and the idle timer are not. The
  glue that hands \<open>verify_server_cert\<close> and its signature checks to rustls passes them through. The raw
  CryptoAPI calls of the Windows installation are parameters, their memory management is not modelled.
\<close>

end
